(* ===== verification/Prelude.thy ===== *)
theory Prelude
  imports Main "HOL-Library.Word"
begin

unbundle bit_operations_syntax

text \<open>
  The vocabulary shared by the models of the kernel's components: names for the machine
  types of the 386, the result of a kernel routine that may not return, 32-bit signed
  arithmetic, and the generic facts on words and results that the component proofs use.
\<close>

section \<open>Machine types\<close>

type_synonym u8 = "8 word"
type_synonym u16 = "16 word"
type_synonym u32 = "32 word"

text \<open>
  C's \<open>int\<close> and \<open>long\<close> are kept as \<open>int\<close> with the two's complement wrap-around of the
  386 written out: \<open>s32\<close> reads the low 32 bits of an integer as a signed number.
\<close>

definition s32 :: "int \<Rightarrow> int" where
  "s32 x = signed_take_bit 31 x"

lemma s32_id: "- (2 ^ 31) \<le> x \<Longrightarrow> x < 2 ^ 31 \<Longrightarrow> s32 x = x"
  by (simp add: s32_def signed_take_bit_int_eq_self)

lemma s32_lower: "- (2 ^ 31) \<le> s32 x"
  using signed_take_bit_int_greater_eq_minus_exp [of 31 x] by (simp add: s32_def)

lemma s32_upper: "s32 x < 2 ^ 31"
  using signed_take_bit_int_less_exp [of 31 x] by (simp add: s32_def)

lemma s32_idem [simp]: "s32 (s32 x) = s32 x"
  by (rule s32_id [OF s32_lower s32_upper])

text \<open>C division and remainder truncate towards zero.\<close>

definition c_div :: "int \<Rightarrow> int \<Rightarrow> int" where
  "c_div a b = sgn a * sgn b * (\<bar>a\<bar> div \<bar>b\<bar>)"

definition c_mod :: "int \<Rightarrow> int \<Rightarrow> int" where
  "c_mod a b = a - b * c_div a b"

lemma c_div_nonneg: "0 \<le> a \<Longrightarrow> 0 < b \<Longrightarrow> c_div a b = a div b"
  by (cases "a = 0") (simp_all add: c_div_def sgn_if)

lemma c_mod_nonneg: "0 \<le> a \<Longrightarrow> 0 < b \<Longrightarrow> c_mod a b = a mod b"
  by (simp add: c_mod_def c_div_nonneg minus_mult_div_eq_mod)


section \<open>Kernel routines that may not return\<close>

text \<open>
  A routine of the kernel that returns gives \<open>Inr\<close> of its value and the new state.
  The reasons not to return are the values of \<open>stop\<close>: \<open>panic\<close> loops for ever after its
  message (kernel/panic.c), \<open>do_exit\<close> gives up the current process (kernel/exit.c),
  \<open>sleep_on\<close> hands the processor to another process until a wake-up (kernel/sched.c).
  \<open>Hangs\<close> is a loop that does not end. \<open>Fault\<close> is a read or write through a pointer that
  points to no object, or behind the end of one, where C says nothing.
\<close>

datatype stop = Panic string | Exits int | Sleeps | Hangs | Fault

type_synonym 'a result = "stop + 'a"

definition andthen :: "'a result \<Rightarrow> ('a \<Rightarrow> 'b result) \<Rightarrow> 'b result" where
  "andthen m f = (case m of Inl e \<Rightarrow> Inl e | Inr x \<Rightarrow> f x)"

lemma andthen_Inr [simp]: "andthen (Inr x) f = f x"
  by (simp add: andthen_def)

lemma andthen_Inl [simp]: "andthen (Inl e) f = Inl e"
  by (simp add: andthen_def)

lemma andthen_eq_Inr: "andthen m f = Inr y \<longleftrightarrow> (\<exists>x. m = Inr x \<and> f x = Inr y)"
  by (cases m) simp_all

lemma andthen_eq_Inl:
  "andthen m f = Inl e \<longleftrightarrow> m = Inl e \<or> (\<exists>x. m = Inr x \<and> f x = Inl e)"
  by (cases m) simp_all

lemma andthen_InrE:
  assumes "andthen m f = Inr y"
  obtains x where "m = Inr x" and "f x = Inr y"
  using assms by (auto simp: andthen_eq_Inr)

lemma andthen_cong [fundef_cong]:
  assumes "m1 = m2" and "\<And>y. m2 = Inr y \<Longrightarrow> f1 y = f2 y"
  shows "andthen m1 f1 = andthen m2 f2"
  using assms by (cases m1) (auto simp: andthen_def)


text \<open>A loop that is a \<open>partial_function\<close> gives \<open>None\<close> when it does not end.\<close>

definition returns :: "'a option \<Rightarrow> 'a result" where
  "returns r = (case r of None \<Rightarrow> Inl Hangs | Some x \<Rightarrow> Inr x)"

definition joined :: "'a result option \<Rightarrow> 'a result" where
  "joined r = (case r of None \<Rightarrow> Inl Hangs | Some x \<Rightarrow> x)"

lemma returns_simps [simp]: "returns (Some x) = Inr x" "returns None = Inl Hangs"
  by (simp_all add: returns_def)

lemma joined_simps [simp]: "joined (Some x) = x" "joined None = Inl Hangs"
  by (simp_all add: joined_def)


section \<open>Words\<close>

lemma unat_add_no_overflow:
  fixes a b :: u32
  assumes "unat a + unat b < 2 ^ 32"
  shows "unat (a + b) = unat a + unat b"
  using assms unat_add_lem [of a b] by simp

lemma unat_of_nat_small: "n < 2 ^ 32 \<Longrightarrow> unat (of_nat n :: u32) = n"
  by (simp add: unat_of_nat)

lemma and_1_cases: "(x :: u32) AND 1 = 0 \<or> x AND 1 = 1"
  by (cases "even x") (simp_all add: and_one_eq even_iff_mod_2_eq_zero odd_iff_mod_2_eq_one)

end
