(* ===== verification/Task.thy ===== *)
theory Task
  imports Prelude
begin

unbundle bit_operations_syntax

text \<open>
  The process descriptor of include/linux/sched.h with the constants of its states, the
  signal numbers of include/signal.h and the error numbers of include/errno.h; the macros
  that read and write the base and limit of a segment descriptor, with their round trips.
\<close>

section \<open>Constants\<close>

abbreviation NR_TASKS :: nat where "NR_TASKS \<equiv> 64"
abbreviation NR_OPEN :: nat where "NR_OPEN \<equiv> 20"
abbreviation HZ :: int where "HZ \<equiv> 100"

abbreviation TASK_RUNNING :: int where "TASK_RUNNING \<equiv> 0"
abbreviation TASK_INTERRUPTIBLE :: int where "TASK_INTERRUPTIBLE \<equiv> 1"
abbreviation TASK_UNINTERRUPTIBLE :: int where "TASK_UNINTERRUPTIBLE \<equiv> 2"
abbreviation TASK_ZOMBIE :: int where "TASK_ZOMBIE \<equiv> 3"

abbreviation SIGHUP :: int where "SIGHUP \<equiv> 1"
abbreviation SIGINT :: int where "SIGINT \<equiv> 2"
abbreviation SIGQUIT :: int where "SIGQUIT \<equiv> 3"
abbreviation SIGPIPE :: int where "SIGPIPE \<equiv> 13"
abbreviation SIGALRM :: int where "SIGALRM \<equiv> 14"
abbreviation SIGCHLD :: int where "SIGCHLD \<equiv> 17"

abbreviation EPERM :: int where "EPERM \<equiv> 1"
abbreviation ENOENT :: int where "ENOENT \<equiv> 2"
abbreviation ESRCH :: int where "ESRCH \<equiv> 3"
abbreviation EINTR :: int where "EINTR \<equiv> 4"
abbreviation EIO :: int where "EIO \<equiv> 5"
abbreviation ENOEXEC :: int where "ENOEXEC \<equiv> 8"
abbreviation EBADF :: int where "EBADF \<equiv> 9"
abbreviation ECHILD :: int where "ECHILD \<equiv> 10"
abbreviation EAGAIN :: int where "EAGAIN \<equiv> 11"
abbreviation ENOMEM :: int where "ENOMEM \<equiv> 12"
abbreviation EACCES :: int where "EACCES \<equiv> 13"
abbreviation EEXIST :: int where "EEXIST \<equiv> 17"
abbreviation EXDEV :: int where "EXDEV \<equiv> 18"
abbreviation ENODEV :: int where "ENODEV \<equiv> 19"
abbreviation ENOTDIR :: int where "ENOTDIR \<equiv> 20"
abbreviation EISDIR :: int where "EISDIR \<equiv> 21"
abbreviation EINVAL :: int where "EINVAL \<equiv> 22"
abbreviation EMFILE :: int where "EMFILE \<equiv> 24"
abbreviation ENOTTY :: int where "ENOTTY \<equiv> 25"
abbreviation ENOSPC :: int where "ENOSPC \<equiv> 28"
abbreviation ESPIPE :: int where "ESPIPE \<equiv> 29"
abbreviation ENOSYS :: int where "ENOSYS \<equiv> 38"
abbreviation ENOTEMPTY :: int where "ENOTEMPTY \<equiv> 39"
abbreviation ERROR :: int where "ERROR \<equiv> 99"


section \<open>Descriptors\<close>

type_synonym i387 = "u32 list"

record desc_struct =
  d_a :: u32
  d_b :: u32

definition set_base :: "desc_struct \<Rightarrow> u32 \<Rightarrow> desc_struct" where
  "set_base d base = d
     \<lparr>d_a := (d_a d AND 0xffff) OR push_bit 16 base,
      d_b := (d_b d AND 0x00ffff00) OR (drop_bit 16 base AND 0xff) OR (base AND 0xff000000)\<rparr>"

definition get_base :: "desc_struct \<Rightarrow> u32" where
  "get_base d = (d_b d AND 0xff000000) OR push_bit 16 (d_b d AND 0xff) OR drop_bit 16 (d_a d)"

text \<open>\<open>_set_limit\<close> takes the page number \<open>(limit-1)>>12\<close>; \<open>lsll\<close> reads the limit the
  processor has for the segment, in bytes.\<close>

definition set_limit :: "desc_struct \<Rightarrow> u32 \<Rightarrow> desc_struct" where
  "set_limit d limit =
     (let l = drop_bit 12 (limit - 1) in
      d\<lparr>d_a := (d_a d AND 0xffff0000) OR (l AND 0xffff),
        d_b := (d_b d AND 0xff00ffff) OR
          push_bit 16 ((drop_bit 16 l AND 0xff) OR (drop_bit 16 (d_b d) AND 0xf0))\<rparr>)"

definition get_limit :: "desc_struct \<Rightarrow> u32" where
  "get_limit d =
     (let l = (d_a d AND 0xffff) OR (d_b d AND 0x000f0000)
      in (if bit (d_b d) 23 then push_bit 12 l OR 0xfff else l) + 1)"

text \<open>The registers of a task state segment are prefixed with \<open>r_\<close>.\<close>

record tss_struct =
  back_link :: u32
  esp0 :: u32
  ss0 :: u32
  esp1 :: u32
  ss1 :: u32
  esp2 :: u32
  ss2 :: u32
  cr3 :: u32
  r_eip :: u32
  r_eflags :: u32
  r_eax :: u32
  r_ecx :: u32
  r_edx :: u32
  r_ebx :: u32
  r_esp :: u32
  r_ebp :: u32
  r_esi :: u32
  r_edi :: u32
  r_es :: u32
  r_cs :: u32
  r_ss :: u32
  r_ds :: u32
  r_fs :: u32
  r_gs :: u32
  tss_ldt :: u32
  trace_bitmap :: u32
  i387 :: i387


section \<open>The process descriptor\<close>

text \<open>
  \<open>pwd\<close>, \<open>root\<close> and \<open>filp\<close> are pointers into the inode table and the file table: the
  index there, \<open>None\<close> for \<open>NULL\<close>.
\<close>

record task_struct =
  state :: int
  counter :: int
  priority :: int
  signal :: u32
  sig_restorer :: u32
  sig_fn :: "u32 list"
  exit_code :: int
  end_code :: u32
  end_data :: u32
  brk :: u32
  start_stack :: u32
  pid :: int
  father :: int
  pgrp :: int
  session :: int
  leader :: int
  uid :: u16
  euid :: u16
  suid :: u16
  gid :: u16
  egid :: u16
  sgid :: u16
  alarm :: int
  utime :: int
  stime :: int
  cutime :: int
  cstime :: int
  start_time :: int
  used_math :: u16
  task_tty :: int
  umask :: u16
  pwd :: "nat option"
  root :: "nat option"
  close_on_exec :: u32
  filp :: "nat option list"
  ldt :: "desc_struct list"
  tss :: tss_struct

text \<open>\<open>_LDT(n)\<close>, and the initial task; \<open>init\<close> is the address of the page it is in.\<close>

definition LDT :: "nat \<Rightarrow> u32" where
  "LDT n = push_bit 4 (of_nat n) + push_bit 3 5"

definition INIT_TASK :: "u32 \<Rightarrow> task_struct" where
  "INIT_TASK init = \<lparr>state = 0, counter = 15, priority = 15,
     signal = 0, sig_restorer = 0, sig_fn = replicate 32 0,
     exit_code = 0, end_code = 0, end_data = 0, brk = 0, start_stack = 0,
     pid = 0, father = -1, pgrp = 0, session = 0, leader = 0,
     uid = 0, euid = 0, suid = 0, gid = 0, egid = 0, sgid = 0,
     alarm = 0, utime = 0, stime = 0, cutime = 0, cstime = 0, start_time = 0,
     used_math = 0, task_tty = -1, umask = 0x5b, pwd = None, root = None, close_on_exec = 0,
     filp = replicate NR_OPEN None,
     ldt = [\<lparr>d_a = 0, d_b = 0\<rparr>, \<lparr>d_a = 0x9f, d_b = 0xc0fa00\<rparr>, \<lparr>d_a = 0x9f, d_b = 0xc0f200\<rparr>],
     tss = \<lparr>back_link = 0, esp0 = 4096 + init, ss0 = 0x10, esp1 = 0, ss1 = 0, esp2 = 0, ss2 = 0,
       cr3 = 0, r_eip = 0, r_eflags = 0, r_eax = 0, r_ecx = 0, r_edx = 0, r_ebx = 0, r_esp = 0, r_ebp = 0,
       r_esi = 0, r_edi = 0, r_es = 0x17, r_cs = 0x17, r_ss = 0x17, r_ds = 0x17, r_fs = 0x17, r_gs = 0x17,
       tss_ldt = LDT 0, trace_bitmap = 0x80000000, i387 = []\<rparr>\<rparr>"


section \<open>Round trips\<close>

lemma mask_ff: "(0xff :: u32) = mask 8" and mask_ffff: "(0xffff :: u32) = mask 16"
  and mask_hi8: "(0xff000000 :: u32) = push_bit 24 (mask 8)"
  and mask_mid: "(0x00ffff00 :: u32) = push_bit 8 (mask 16)"
  and mask_lim: "(0x000f0000 :: u32) = push_bit 16 (mask 4)"
  and mask_hi16: "(0xffff0000 :: u32) = push_bit 16 (mask 16)"
  and mask_f0: "(0xf0 :: u32) = push_bit 4 (mask 4)"
  and mask_fff: "(0xfff :: u32) = mask 12"
  by (simp_all add: mask_eq_exp_minus_1)

lemma mask_lo20: "(0xff00ffff :: u32) = NOT (push_bit 16 (mask 8))"
  by (simp add: mask_eq_exp_minus_1)

lemmas desc_masks = mask_ff mask_ffff mask_hi8 mask_mid mask_lim mask_hi16 mask_f0

lemma get_base_set_base: "get_base (set_base d base) = base"
proof (rule bit_word_eqI)
  fix n assume "n < LENGTH(32)"
  then show "bit (get_base (set_base d base)) n = bit base n"
    unfolding get_base_def set_base_def desc_masks
    by (cases "n < 16"; cases "n < 24"; auto simp: bit_simps)
qed

lemma get_limit_set_base: "get_limit (set_base d base) = get_limit d"
proof -
  have l: "(d_a (set_base d base) AND 0xffff) OR (d_b (set_base d base) AND 0x000f0000) =
      (d_a d AND 0xffff) OR (d_b d AND 0x000f0000)"
  proof (rule bit_word_eqI)
    fix n assume "n < LENGTH(32)"
    then show "bit ((d_a (set_base d base) AND 0xffff) OR (d_b (set_base d base) AND 0x000f0000)) n =
      bit ((d_a d AND 0xffff) OR (d_b d AND 0x000f0000)) n"
      unfolding set_base_def desc_masks
      by (cases "n < 16"; cases "n < 20"; auto simp: bit_simps)
  qed
  have g: "bit (d_b (set_base d base)) 23 = bit (d_b d) 23"
    unfolding set_base_def desc_masks by (simp add: bit_simps)
  show ?thesis
    unfolding get_limit_def l g ..
qed

text \<open>The segments of a process are page granular (bit 23), of up to 4Gb.\<close>

lemma get_limit_set_limit:
  assumes "bit (d_b d) 23" and "0 < n" and "n \<le> 2 ^ 20"
  shows "get_limit (set_limit d (of_nat (4096 * n))) = of_nat (4096 * n)"
proof -
  define l :: u32 where "l = of_nat (n - 1)"
  obtain k where k: "n = Suc k" "k < 2 ^ 20" using assms(2,3) by (cases n) auto
  have l_less: "l < 2 ^ 20" unfolding l_def using k by (simp add: word_less_nat_alt unat_of_nat)
  have lim: "drop_bit 12 (of_nat (4096 * n) - 1 :: u32) = l"
  proof -
    have "(of_nat (4096 * n) - 1 :: u32) = of_nat (4096 * k + 4095)" using k by simp
    moreover have "4096 * k + 4095 < 2 ^ 32" using k by simp
    ultimately have "unat (of_nat (4096 * n) - 1 :: u32) = 4096 * k + 4095"
      using unat_of_nat_small by metis
    then have "unat (drop_bit 12 (of_nat (4096 * n) - 1 :: u32)) = k"
      unfolding unat_drop_bit_eq by (simp add: drop_bit_eq_div)
    then show ?thesis
      using k by (simp add: l_def word_unat_eq_iff unat_of_nat)
  qed
  let ?d = "set_limit d (of_nat (4096 * n))"
  have bl: "\<not> bit l i" if "20 \<le> i" for i
  proof -
    have "unat (take_bit 20 l) = unat l"
      using l_less unfolding unsigned_take_bit_eq by (simp add: take_bit_eq_mod word_less_nat_alt)
    then have "take_bit 20 l = l" by (simp only: word_unat_eq_iff)
    then show ?thesis using that by (metis bit_take_bit_iff leD)
  qed
  have "(d_a ?d AND 0xffff) OR (d_b ?d AND 0x000f0000) = l"
  proof (rule bit_word_eqI)
    fix i assume "i < LENGTH(32)"
    then show "bit ((d_a ?d AND 0xffff) OR (d_b ?d AND 0x000f0000)) i = bit l i"
      unfolding set_limit_def Let_def lim desc_masks mask_lo20
      using bl by (cases "i < 16"; cases "i < 20"; auto simp: bit_simps)
  qed
  moreover have "bit (d_b ?d) 23"
    unfolding set_limit_def Let_def lim desc_masks mask_lo20
    using assms(1) by (simp add: bit_simps)
  ultimately have "get_limit ?d = (push_bit 12 l OR 0xfff) + 1"
    by (simp add: get_limit_def)
  also have "push_bit 12 l OR 0xfff = push_bit 12 l + 0xfff"
    by (rule disjunctive_add [symmetric]) (auto simp: mask_fff bit_simps)
  also have "\<dots> + 1 = of_nat (4096 * n)"
    using k by (simp add: l_def push_bit_eq_mult)
  finally show ?thesis .
qed

end
