(* ===== verification/Memory.thy ===== *)
theory Memory
  imports Prelude
begin

unbundle bit_operations_syntax

text \<open>
  The page-frame allocator of mm/memory.c: the reference counts \<open>mem_map\<close> of the frames
  above \<open>LOW_MEM\<close>, and the physical memory they live in. The page tables, which live in
  the same memory, are modelled in theory \<open>Page_Tables\<close>.
\<close>

section \<open>State\<close>

text \<open>
  The configuration of include/linux/config.h (\<open>LINUS_HD\<close>: 8Mb of memory, so
  \<open>BUFFER_END\<close> is 2Mb) fixes the constants. \<open>phys\<close> is the physical memory as the code
  reads and writes it, one 32-bit long at each 4-byte aligned address; \<open>mem_map\<close> is
  the array of counts, its indices past the last frame being the memory after it.
\<close>

abbreviation HIGH_MEMORY :: u32 where "HIGH_MEMORY \<equiv> 0x800000"
abbreviation LOW_MEM :: u32 where "LOW_MEM \<equiv> 0x200000"
abbreviation PAGING_PAGES :: nat where "PAGING_PAGES \<equiv> 1536"

type_synonym memory = "u32 \<Rightarrow> u32"

record mm =
  mem_map :: "nat \<Rightarrow> u16"
  phys :: memory

text \<open>The macro \<open>MAP_NR\<close>: the index of the frame at a physical address.\<close>

definition MAP_NR :: "u32 \<Rightarrow> nat" where
  "MAP_NR addr = unat (drop_bit 12 (addr - LOW_MEM))"

definition page_addr :: "nat \<Rightarrow> u32" where
  "page_addr n = LOW_MEM + push_bit 12 (of_nat n)"


section \<open>Operations\<close>

text \<open>
  \<open>repne scasw\<close> with the direction flag set: from the last count down to the first, the
  index of the first zero count met.
\<close>

fun scan_mem_map :: "(nat \<Rightarrow> u16) \<Rightarrow> nat \<Rightarrow> nat option" where
  "scan_mem_map m 0 = None"
| "scan_mem_map m (Suc n) = (if m n = 0 then Some n else scan_mem_map m n)"

text \<open>\<open>rep stosl\<close> of zeroes, downwards from \<open>edi\<close>; \<open>rep movsl\<close> upwards.\<close>

fun stosl_down :: "nat \<Rightarrow> u32 \<Rightarrow> memory \<Rightarrow> memory" where
  "stosl_down 0 edi m = m"
| "stosl_down (Suc n) edi m = stosl_down n (edi - 4) (m(edi := 0))"

fun movsl_up :: "nat \<Rightarrow> u32 \<Rightarrow> u32 \<Rightarrow> memory \<Rightarrow> memory" where
  "movsl_up 0 esi edi m = m"
| "movsl_up (Suc n) esi edi m = movsl_up n (esi + 4) (edi + 4) (m(edi := m esi))"

definition get_free_page :: "mm \<Rightarrow> u32 \<times> mm" where
  "get_free_page s =
     (case scan_mem_map (mem_map s) PAGING_PAGES of
        None \<Rightarrow> (0, s)
      | Some n \<Rightarrow>
          let page = page_addr n
          in (page, s\<lparr>mem_map := (mem_map s)(n := 1),
                      phys := stosl_down 1024 (page + 4092) (phys s)\<rparr>))"

definition free_page :: "u32 \<Rightarrow> mm \<Rightarrow> mm result" where
  "free_page addr s =
     (if addr < LOW_MEM then Inr s
      else if HIGH_MEMORY < addr then Inl (Panic ''trying to free nonexistent page'')
      else
        let i = MAP_NR addr
        in if mem_map s i \<noteq> 0
           then Inr (s\<lparr>mem_map := (mem_map s)(i := mem_map s i - 1)\<rparr>)
           else Inl (Panic ''trying to free free page''))"

definition copy_page :: "u32 \<Rightarrow> u32 \<Rightarrow> mm \<Rightarrow> mm" where
  "copy_page src dst s = s\<lparr>phys := movsl_up 1024 src dst (phys s)\<rparr>"

text \<open>The first loop of \<open>calc_mem\<close>: the number of free frames it prints.\<close>

fun count_free :: "(nat \<Rightarrow> u16) \<Rightarrow> nat \<Rightarrow> nat" where
  "count_free m 0 = 0"
| "count_free m (Suc n) = (if m n = 0 then Suc (count_free m n) else count_free m n)"


section \<open>Addresses of frames\<close>

lemma unat_page_addr: "n < PAGING_PAGES \<Longrightarrow> unat (page_addr n) = 0x200000 + n * 4096"
proof -
  assume n: "n < PAGING_PAGES"
  have eq: "page_addr n = of_nat (0x200000 + n * 4096)"
    by (simp add: page_addr_def push_bit_eq_mult)
  have "unat (page_addr n) = (0x200000 + n * 4096) mod 2 ^ 32"
    unfolding eq unat_of_nat by simp
  then show ?thesis
    using n by simp
qed

lemma MAP_NR_eq:
  assumes "LOW_MEM \<le> a"
  shows "MAP_NR a = (unat a - 0x200000) div 4096"
proof -
  have "unat (a - LOW_MEM) = unat a - 0x200000"
    using assms by (simp add: unat_sub)
  then show ?thesis
    unfolding MAP_NR_def unat_drop_bit_eq by (simp add: drop_bit_eq_div)
qed

lemma page_addr_ge: "n < PAGING_PAGES \<Longrightarrow> LOW_MEM \<le> page_addr n"
  by (simp add: word_le_nat_alt unat_page_addr)

lemma page_addr_less: "n < PAGING_PAGES \<Longrightarrow> page_addr n < HIGH_MEMORY"
  by (simp add: word_less_nat_alt unat_page_addr)

lemma page_addr_nonzero: "n < PAGING_PAGES \<Longrightarrow> page_addr n \<noteq> 0"
  using page_addr_ge [of n] by (auto simp: word_le_nat_alt)

lemma MAP_NR_page_addr [simp]: "n < PAGING_PAGES \<Longrightarrow> MAP_NR (page_addr n) = n"
  by (simp add: MAP_NR_eq page_addr_ge unat_page_addr)

lemma page_addr_inj:
  "m < PAGING_PAGES \<Longrightarrow> n < PAGING_PAGES \<Longrightarrow> page_addr m = page_addr n \<longleftrightarrow> m = n"
  by (metis MAP_NR_page_addr)

text \<open>The longs of a page: \<open>long_of p j\<close> is the address of its \<open>j\<close>-th long.\<close>

definition long_of :: "u32 \<Rightarrow> nat \<Rightarrow> u32" where
  "long_of p j = p + of_nat (4 * j)"

definition page_base :: "u32 \<Rightarrow> bool" where
  "page_base p \<longleftrightarrow> unat p mod 4096 = 0"

definition in_page :: "u32 \<Rightarrow> u32 \<Rightarrow> bool" where
  "in_page p a \<longleftrightarrow> (\<exists>j < 1024. a = long_of p j)"

lemma page_base_page_addr [simp]: "n < PAGING_PAGES \<Longrightarrow> page_base (page_addr n)"
  by (simp add: page_base_def unat_page_addr mod_mult_self3 mod_add_left_eq [symmetric])

lemma unat_page_bound:
  assumes "page_base p"
  shows "unat p + 4096 \<le> 2 ^ 32"
proof -
  obtain k where k: "unat p = 4096 * k"
    using assms unfolding page_base_def by (auto simp: mod_eq_0_iff_dvd)
  have "unat p < 4294967296"
    using unsigned_less [of p] by simp
  with k have "k < 1048576" by simp
  with k show ?thesis by simp
qed

lemma unat_long_of:
  assumes "page_base p" and "j < 1024"
  shows "unat (long_of p j) = unat p + 4 * j"
proof -
  have "unat (of_nat (4 * j) :: u32) = 4 * j"
    using assms(2) by (subst unat_of_nat) simp
  then show ?thesis
    using unat_page_bound [OF assms(1)] assms(2)
    unfolding long_of_def by (subst unat_add_no_overflow) simp_all
qed

lemma long_of_inj:
  assumes "page_base p" "page_base q" "i < 1024" "j < 1024"
  shows "long_of p i = long_of q j \<longleftrightarrow> p = q \<and> i = j"
proof
  assume "long_of p i = long_of q j"
  then have eq: "unat p + 4 * i = unat q + 4 * j"
    using assms by (metis unat_long_of)
  obtain k where k: "unat p = 4096 * k"
    using assms(1) unfolding page_base_def by (auto simp: mod_eq_0_iff_dvd)
  obtain l where l: "unat q = 4096 * l"
    using assms(2) unfolding page_base_def by (auto simp: mod_eq_0_iff_dvd)
  from eq k l have kl: "4096 * k + 4 * i = 4096 * l + 4 * j" by simp
  then have "(4096 * k + 4 * i) div 4096 = (4096 * l + 4 * j) div 4096" by simp
  then have "k = l" using assms(3,4) by simp
  with k l have "p = q" by (simp add: word_unat_eq_iff)
  with kl \<open>k = l\<close> show "p = q \<and> i = j" by simp
qed auto

lemma in_page_unique: "page_base p \<Longrightarrow> page_base q \<Longrightarrow> in_page p a \<Longrightarrow> in_page q a \<Longrightarrow> p = q"
  unfolding in_page_def by (metis long_of_inj)

lemma in_page_long_of [simp]: "j < 1024 \<Longrightarrow> in_page p (long_of p j)"
  by (auto simp: in_page_def)


section \<open>String instructions\<close>

lemma long_of_Suc: "long_of p (Suc j) = long_of p j + 4"
  by (simp add: long_of_def)

lemma stosl_down_eq:
  assumes "page_base p" and "n \<le> 1024"
  shows "stosl_down n (long_of p (n - 1)) m a =
    (if \<exists>j < n. a = long_of p j then 0 else m a)"
  using assms(2)
proof (induction n arbitrary: m)
  case 0
  then show ?case by simp
next
  case (Suc n)
  show ?case
  proof (cases n)
    case 0
    then show ?thesis by simp
  next
    case (Suc k)
    then have "long_of p n - 4 = long_of p (n - 1)"
      by (simp add: long_of_Suc)
    then show ?thesis
      using Suc.IH Suc.prems by (auto simp: less_Suc_eq)
  qed
qed

lemma stosl_down_page:
  assumes "page_base p"
  shows "stosl_down 1024 (p + 4092) m a = (if in_page p a then 0 else m a)"
proof -
  have "p + 4092 = long_of p 1023"
    by (simp add: long_of_def)
  then show ?thesis
    using stosl_down_eq [OF assms, of 1024 m a] by (simp add: in_page_def)
qed

lemma movsl_up_other:
  assumes "\<And>j. k \<le> j \<Longrightarrow> j < k + n \<Longrightarrow> a \<noteq> long_of q j"
  shows "movsl_up n si (long_of q k) m a = m a"
  using assms
proof (induction n arbitrary: k si m)
  case 0
  then show ?case by simp
next
  case (Suc n)
  have "movsl_up n (si + 4) (long_of q (Suc k)) (m(long_of q k := m si)) a = m a"
    using Suc.IH [of "Suc k"] Suc.prems [of k] Suc.prems by simp
  then show ?case by (simp add: long_of_Suc)
qed

lemma movsl_up_copied:
  assumes pq: "page_base p" "page_base q" "p \<noteq> q"
    and "k + n \<le> 1024" and "k \<le> j" and "j < k + n"
  shows "movsl_up n (long_of p k) (long_of q k) m (long_of q j) = m (long_of p j)"
  using assms(4-6)
proof (induction n arbitrary: k m)
  case 0
  then show ?case by simp
next
  case (Suc n)
  let ?m = "m(long_of q k := m (long_of p k))"
  have "movsl_up n (long_of p (Suc k)) (long_of q (Suc k)) ?m (long_of q j) = m (long_of p j)"
  proof (cases "j = k")
    case True
    then show ?thesis
      using Suc.prems pq by (subst movsl_up_other) (auto simp: long_of_inj)
  next
    case False
    then have "movsl_up n (long_of p (Suc k)) (long_of q (Suc k)) ?m (long_of q j) =
        ?m (long_of p j)"
      by (intro Suc.IH) (use Suc.prems in auto)
    moreover have "?m (long_of p j) = m (long_of p j)"
      using pq Suc.prems by (simp add: long_of_inj)
    ultimately show ?thesis by (rule trans)
  qed
  then show ?case by (simp add: long_of_Suc)
qed

lemma copy_page_copied:
  assumes "page_base p" "page_base q" "p \<noteq> q" and "j < 1024"
  shows "phys (copy_page p q s) (long_of q j) = phys s (long_of p j)"
  using movsl_up_copied [OF assms(1-3), of 0 1024 j "phys s"] assms(4)
  by (simp add: copy_page_def long_of_def)

lemma copy_page_other:
  assumes "\<not> in_page q a"
  shows "phys (copy_page p q s) a = phys s a"
  using movsl_up_other [of 0 1024 a q p "phys s"] assms
  by (auto simp: copy_page_def long_of_def in_page_def)

lemma mem_map_copy_page [simp]: "mem_map (copy_page p q s) = mem_map s"
  by (simp add: copy_page_def)


section \<open>The allocator\<close>

lemma scan_mem_map_None: "scan_mem_map m n = None \<longleftrightarrow> (\<forall>i < n. m i \<noteq> 0)"
  by (induction n) (auto simp: less_Suc_eq)

lemma scan_mem_map_Some:
  "scan_mem_map m n = Some i \<Longrightarrow> i < n \<and> m i = 0 \<and> (\<forall>j. i < j \<and> j < n \<longrightarrow> m j \<noteq> 0)"
  by (induction n) (auto simp: less_Suc_eq split: if_splits)

lemma get_free_page_cases:
  obtains (none) "get_free_page s = (0, s)" and "\<forall>i < PAGING_PAGES. mem_map s i \<noteq> 0"
  | (page) n s' where "get_free_page s = (page_addr n, s')" and "n < PAGING_PAGES"
      and "mem_map s n = 0" and "\<forall>j. n < j \<and> j < PAGING_PAGES \<longrightarrow> mem_map s j \<noteq> 0"
      and "mem_map s' = (mem_map s)(n := 1)"
      and "\<And>a. phys s' a = (if in_page (page_addr n) a then 0 else phys s a)"
proof (cases "scan_mem_map (mem_map s) PAGING_PAGES")
  case None
  show ?thesis
  proof (rule that(1))
    show "get_free_page s = (0, s)"
      using None by (simp add: get_free_page_def)
    show "\<forall>i < PAGING_PAGES. mem_map s i \<noteq> 0"
      using None by (simp only: scan_mem_map_None)
  qed
next
  case (Some n)
  from scan_mem_map_Some [OF Some]
  have n: "n < PAGING_PAGES" "mem_map s n = 0"
    and last: "\<forall>j. n < j \<and> j < PAGING_PAGES \<longrightarrow> mem_map s j \<noteq> 0" by blast+
  let ?s = "s\<lparr>mem_map := (mem_map s)(n := 1),
    phys := stosl_down 1024 (page_addr n + 4092) (phys s)\<rparr>"
  have "get_free_page s = (page_addr n, ?s)"
    using Some by (simp add: get_free_page_def Let_def)
  from that(2) [OF this n last] show ?thesis
    using n(1) by (simp add: stosl_down_page)
qed

text \<open>
  The contract of the allocator: the frame handed out was free, is now counted once, is
  the last free one, holds zeroes, and nothing else has changed.
\<close>

lemma get_free_page_spec:
  assumes "get_free_page s = (p, s')" and "p \<noteq> 0"
  obtains n where "p = page_addr n" and "n < PAGING_PAGES" and "mem_map s n = 0"
    and "mem_map s' = (mem_map s)(n := 1)"
    and "\<And>a. phys s' a = (if in_page p a then 0 else phys s a)"
  using assms by (cases s rule: get_free_page_cases) auto

lemma get_free_page_0:
  assumes "get_free_page s = (0, s')"
  shows "s' = s \<and> (\<forall>i < PAGING_PAGES. mem_map s i \<noteq> 0)"
  using assms by (cases s rule: get_free_page_cases) (auto dest: page_addr_nonzero)

lemma free_page_page_addr:
  "n < PAGING_PAGES \<Longrightarrow> free_page (page_addr n) s =
     (if mem_map s n \<noteq> 0 then Inr (s\<lparr>mem_map := (mem_map s)(n := mem_map s n - 1)\<rparr>)
      else Inl (Panic ''trying to free free page''))"
  using page_addr_ge [of n] page_addr_less [of n]
  by (auto simp: free_page_def Let_def not_less)

lemma count_free_beyond: "n \<le> i \<Longrightarrow> count_free (m(i := x)) n = count_free m n"
  by (induction n) auto

lemma count_free_upd:
  "i < n \<Longrightarrow> m i = 0 \<Longrightarrow> x \<noteq> 0 \<Longrightarrow> count_free m n = Suc (count_free (m(i := x)) n)"
proof (induction n)
  case (Suc n)
  then show ?case
    using count_free_beyond [of n n m x] by (cases "i = n") (auto simp: fun_upd_def)
qed simp

lemma count_free_0: "count_free m n = 0 \<longleftrightarrow> (\<forall>i < n. m i \<noteq> 0)"
  by (induction n) (auto simp: less_Suc_eq)


text \<open>
  C34. The allocator hands out the last free frame, once: its count goes from 0 to 1, it holds
  zeroes, no other frame or count changes, and one frame fewer is free. It fails only
  when no frame is free.
\<close>

theorem get_free_page_fresh:
  assumes "get_free_page s = (p, s')"
  shows "if p = 0 then s' = s \<and> count_free (mem_map s) PAGING_PAGES = 0
    else \<exists>n < PAGING_PAGES. p = page_addr n \<and> mem_map s n = 0 \<and> mem_map s' = (mem_map s)(n := 1) \<and>
      (\<forall>j. n < j \<and> j < PAGING_PAGES \<longrightarrow> mem_map s j \<noteq> 0) \<and>
      (\<forall>a. phys s' a = (if in_page p a then 0 else phys s a)) \<and>
      count_free (mem_map s) PAGING_PAGES = Suc (count_free (mem_map s') PAGING_PAGES)"
proof (cases s rule: get_free_page_cases)
  case none
  then show ?thesis using assms by (simp add: count_free_0)
next
  case (page n t)
  then have t: "p = page_addr n" "s' = t" using assms by auto
  have "count_free (mem_map s) PAGING_PAGES = Suc (count_free ((mem_map s)(n := 1)) PAGING_PAGES)"
    using page(2,3) by (intro count_free_upd) auto
  then show ?thesis
    using page page_addr_nonzero [OF page(2)] unfolding t by auto
qed

text \<open>A frame that is taken and given back is free again.\<close>

theorem get_free_page_free_page:
  assumes "get_free_page s = (p, s')" and "p \<noteq> 0"
  shows "\<exists>s''. free_page p s' = Inr s'' \<and> mem_map s'' = mem_map s"
proof (cases s rule: get_free_page_cases)
  case none
  then show ?thesis using assms by simp
next
  case (page n t)
  then have t: "p = page_addr n" "s' = t" using assms(1) by auto
  then show ?thesis using page free_page_page_addr [OF page(2), of t] by (auto simp: fun_eq_iff)
qed

theorem get_free_page_fresh_witness:
  "fst (get_free_page \<lparr>mem_map = (\<lambda>_. 1), phys = (\<lambda>_. 0)\<rparr>) = 0 \<and>
   count_free (\<lambda>_. 1) PAGING_PAGES = 0"
proof -
  obtain p s' where g: "get_free_page \<lparr>mem_map = (\<lambda>_. 1), phys = (\<lambda>_. 0)\<rparr> = (p, s')" by fastforce
  have "count_free (\<lambda>_. 1) PAGING_PAGES = 0" by (simp add: count_free_0)
  then show ?thesis using get_free_page_fresh [OF g] g by (auto split: if_split_asm)
qed

theorem get_free_page_free_page_witness:
  "\<exists>p s' s''. get_free_page \<lparr>mem_map = (\<lambda>_. 0), phys = (\<lambda>_. 1)\<rparr> = (p, s') \<and> p \<noteq> 0 \<and>
     free_page p s' = Inr s'' \<and> mem_map s'' = (\<lambda>_. 0)"
proof -
  obtain p s' where g: "get_free_page \<lparr>mem_map = (\<lambda>_. 0), phys = (\<lambda>_. 1)\<rparr> = (p, s')" by fastforce
  have "p \<noteq> 0"
  proof
    assume "p = 0"
    with g get_free_page_0 [of "\<lparr>mem_map = (\<lambda>_. 0), phys = (\<lambda>_. 1)\<rparr>" s']
    have "\<forall>i < PAGING_PAGES. False" by simp
    from this [rule_format, of 0] show False by simp
  qed
  then show ?thesis using get_free_page_free_page [OF g] g by auto
qed

end
