(* ===== verification/Sched.thy ===== *)
theory Sched
  imports Task Memory "HOL-Library.Product_Lexorder"
begin

unbundle bit_operations_syntax

text \<open>
  The scheduler of kernel/sched.c: the task table, \<open>schedule\<close> with its alarms and its
  choice of the next task, the timer tick, the lazily switched floating point state and
  the simple system calls of that file. Sleeping and waking are in theory \<open>Sleep\<close>.
\<close>

section \<open>State\<close>

text \<open>
  A pointer to a \<open>task_struct\<close> is the slot of the task in the table; \<open>fpu\<close> is what the
  floating point unit holds and \<open>fpu0\<close> what \<open>fninit\<close> puts there; \<open>fs_mem\<close> is the memory
  of the current process as the kernel reaches it through the segment register \<open>%fs\<close>.
\<close>

record kern =
  task :: "nat \<Rightarrow> task_struct option"
  current :: nat
  last_task_used_math :: "nat option"
  jiffies :: int
  startup_time :: int
  last_pid :: int
  fpu :: i387
  fpu0 :: i387
  fs_mem :: "u32 \<Rightarrow> u8"
  mem :: mm

definition cur :: "kern \<Rightarrow> task_struct" where
  "cur s = the (task s (current s))"

definition set_task :: "nat \<Rightarrow> (task_struct \<Rightarrow> task_struct) \<Rightarrow> kern \<Rightarrow> kern" where
  "set_task i f s = s\<lparr>task := (task s)(i := map_option f (task s i))\<rparr>"

definition set_cur :: "(task_struct \<Rightarrow> task_struct) \<Rightarrow> kern \<Rightarrow> kern" where
  "set_cur f s = set_task (current s) f s"

definition CURRENT_TIME :: "kern \<Rightarrow> int" where
  "CURRENT_TIME s = s32 (startup_time s + c_div (jiffies s) HZ)"


section \<open>schedule\<close>

text \<open>The body of the first loop: an alarm that has gone off, a signal that wakes.\<close>

definition check_alarm :: "int \<Rightarrow> task_struct \<Rightarrow> task_struct" where
  "check_alarm now p =
     (let p = (if alarm p \<noteq> 0 \<and> alarm p < now
               then p\<lparr>signal := signal p OR push_bit (nat (SIGALRM - 1)) 1, alarm := 0\<rparr> else p)
      in if signal p \<noteq> 0 \<and> state p = TASK_INTERRUPTIBLE
         then p\<lparr>state := TASK_RUNNING\<rparr> else p)"

text \<open>The loops run over the slots from 63 down to 1.\<close>

definition check_alarms :: "kern \<Rightarrow> kern" where
  "check_alarms s = fold (\<lambda>i. set_task i (check_alarm (jiffies s))) (rev [1..<NR_TASKS]) s"

definition runnable :: "kern \<Rightarrow> nat \<Rightarrow> bool" where
  "runnable s i = (case task s i of None \<Rightarrow> False | Some p \<Rightarrow> state p = TASK_RUNNING)"

definition counter_of :: "kern \<Rightarrow> nat \<Rightarrow> int" where
  "counter_of s i = (case task s i of None \<Rightarrow> 0 | Some p \<Rightarrow> counter p)"

fun pick :: "kern \<Rightarrow> nat list \<Rightarrow> int \<Rightarrow> nat \<Rightarrow> int \<times> nat" where
  "pick s [] c next = (c, next)"
| "pick s (i # is) c next =
     (if runnable s i \<and> c < counter_of s i then pick s is (counter_of s i) i
      else pick s is c next)"

definition recharge :: "task_struct \<Rightarrow> task_struct" where
  "recharge p = p\<lparr>counter := s32 (drop_bit 1 (counter p) + priority p)\<rparr>"

definition recharge_all :: "kern \<Rightarrow> kern" where
  "recharge_all s = fold (\<lambda>i. set_task i recharge) (rev [1..<NR_TASKS]) s"

text \<open>The loop ends with the first \<open>c\<close> that is not 0; it may go on for ever.\<close>

partial_function (option) schedule_loop :: "kern \<Rightarrow> (nat \<times> kern) option" where
  "schedule_loop s =
     (let (c, next) = pick s (rev [1..<NR_TASKS]) (-1) 0 in
      if c \<noteq> 0 then Some (next, s) else schedule_loop (recharge_all s))"

definition switch_to :: "nat \<Rightarrow> kern \<Rightarrow> kern" where
  "switch_to n s = s\<lparr>current := n\<rparr>"

definition schedule :: "kern \<Rightarrow> kern option" where
  "schedule s =
     (case schedule_loop (check_alarms s) of
        None \<Rightarrow> None
      | Some (next, s) \<Rightarrow> Some (switch_to next s))"


section \<open>The timer and the system calls\<close>

definition math_state_restore :: "kern \<Rightarrow> kern" where
  "math_state_restore s =
     (let s = (case last_task_used_math s of
                 None \<Rightarrow> s
               | Some l \<Rightarrow> (set_task l (\<lambda>p. p\<lparr>tss := (tss p)\<lparr>i387 := fpu s\<rparr>\<rparr>) s)\<lparr>fpu := fpu0 s\<rparr>);
          s = (if used_math (cur s) \<noteq> 0 then s\<lparr>fpu := i387 (tss (cur s))\<rparr>
               else (set_cur (\<lambda>p. p\<lparr>used_math := 1\<rparr>) s)\<lparr>fpu := fpu0 s\<rparr>)
      in s\<lparr>last_task_used_math := Some (current s)\<rparr>)"

definition sys_pause :: "kern \<Rightarrow> kern option" where
  "sys_pause s = schedule (set_cur (\<lambda>p. p\<lparr>state := TASK_INTERRUPTIBLE\<rparr>) s)"

definition do_timer :: "int \<Rightarrow> kern \<Rightarrow> kern option" where
  "do_timer cpl s =
     (let s = (if cpl \<noteq> 0 then set_cur (\<lambda>p. p\<lparr>utime := s32 (utime p + 1)\<rparr>) s
               else set_cur (\<lambda>p. p\<lparr>stime := s32 (stime p + 1)\<rparr>) s);
          s = set_cur (\<lambda>p. p\<lparr>counter := s32 (counter p - 1)\<rparr>) s
      in if 0 < counter (cur s) then Some s
         else
           let s = set_cur (\<lambda>p. p\<lparr>counter := 0\<rparr>) s
           in if cpl = 0 then Some s else schedule s)"

definition sys_alarm :: "int \<Rightarrow> kern \<Rightarrow> int \<times> kern" where
  "sys_alarm seconds s =
     (seconds, set_cur (\<lambda>p. p\<lparr>alarm := (if 0 < seconds
        then s32 (jiffies s + s32 (HZ * seconds)) else 0)\<rparr>) s)"

definition sys_getpid :: "kern \<Rightarrow> int" where "sys_getpid s = pid (cur s)"
definition sys_getppid :: "kern \<Rightarrow> int" where "sys_getppid s = father (cur s)"
definition sys_getuid :: "kern \<Rightarrow> int" where "sys_getuid s = uint (uid (cur s))"
definition sys_geteuid :: "kern \<Rightarrow> int" where "sys_geteuid s = uint (euid (cur s))"
definition sys_getgid :: "kern \<Rightarrow> int" where "sys_getgid s = uint (gid (cur s))"
definition sys_getegid :: "kern \<Rightarrow> int" where "sys_getegid s = uint (egid (cur s))"

definition sys_nice :: "int \<Rightarrow> kern \<Rightarrow> int \<times> kern" where
  "sys_nice increment s =
     (let p = s32 (priority (cur s) - increment)
      in if 0 < p then (0, set_cur (\<lambda>t. t\<lparr>priority := p\<rparr>) s) else (0, s))"

text \<open>The signals whose handler a process may set.\<close>

definition settable :: "int list" where
  "settable = [1, 2, 3, 4, 5, 6, 8, 10, 11, 12, 13, 14, 17]"

definition sys_signal :: "int \<Rightarrow> u32 \<Rightarrow> u32 \<Rightarrow> kern \<Rightarrow> int \<times> kern" where
  "sys_signal sig addr restorer s =
     (if sig \<in> set settable
      then (sint (sig_fn (cur s) ! nat (sig - 1)),
            set_cur (\<lambda>p. p\<lparr>sig_fn := (sig_fn p)[nat (sig - 1) := addr],
                           sig_restorer := restorer\<rparr>) s)
      else (-1, s))"

section \<open>What schedule does\<close>

lemma rev_slots: "set (rev [1..<NR_TASKS]) = {i. 0 < i \<and> i < NR_TASKS}"
  by auto

lemma fold_set_task:
  "distinct is \<Longrightarrow> task (fold (\<lambda>i. set_task i f) is s) =
     (\<lambda>i. if i \<in> set is then map_option f (task s i) else task s i)"
proof (induction "is" arbitrary: s)
  case (Cons j js)
  then show ?case by (auto simp: set_task_def fun_eq_iff)
qed simp

lemma set_task_update: "(set_task j f s)\<lparr>task := t\<rparr> = s\<lparr>task := t\<rparr>"
  by (simp add: set_task_def)

lemma fold_set_task_other:
  "fold (\<lambda>i. set_task i f) is s = s\<lparr>task := task (fold (\<lambda>i. set_task i f) is s)\<rparr>"
proof (induction "is" arbitrary: s)
  case (Cons j js)
  show ?case
    unfolding fold.simps comp_apply using Cons.IH [of "set_task j f s"]
    by (rule trans) (simp only: set_task_update)
qed simp

lemma task_check_alarms:
  "task (check_alarms s) i =
     (if 0 < i \<and> i < NR_TASKS then map_option (check_alarm (jiffies s)) (task s i) else task s i)"
  by (simp add: check_alarms_def fold_set_task)

lemma task_recharge_all:
  "task (recharge_all s) i =
     (if 0 < i \<and> i < NR_TASKS then map_option recharge (task s i) else task s i)"
  by (simp add: recharge_all_def fold_set_task)

lemma runnable_recharge_all [simp]: "runnable (recharge_all s) i = runnable s i"
  by (auto simp: runnable_def task_recharge_all recharge_def split: option.splits)

text \<open>
  \<open>pick\<close> finds the greatest pair of a counter and a slot, in the order of \<open>is\<close>, which
  goes down; the counter it starts from stands for "nothing found yet".
\<close>

lemma pick_spec:
  assumes "pick s is c next = (c', n')" and "sorted_wrt (>) is"
  shows "(c' = c \<and> n' = next \<or> n' \<in> set is \<and> runnable s n' \<and> counter_of s n' = c' \<and> c < c') \<and>
    c \<le> c' \<and> (\<forall>i \<in> set is. runnable s i \<longrightarrow>
      counter_of s i \<le> c \<or> (counter_of s i, i) \<le> (c', n'))"
  using assms
proof (induction s "is" c "next" rule: pick.induct)
  case (2 s i "is" c "next")
  show ?case
  proof (cases "runnable s i \<and> c < counter_of s i")
    case True
    then have "pick s is (counter_of s i) i = (c', n')" using 2(3) by simp
    from 2(1) [OF True this] 2(4) True show ?thesis by (fastforce simp: less_eq_prod_def)
  next
    case False
    then have "pick s is c next = (c', n')" using 2(3) by (auto split: if_splits)
    from 2(2) [OF False this] 2(4) False show ?thesis by (auto simp: not_less)
  qed
qed auto

lemma sorted_slots: "sorted_wrt (>) (rev [1..<NR_TASKS])"
  by (simp add: sorted_wrt_rev)

text \<open>
  The choice among the slots: none when nothing runs, otherwise a task that can run, of
  the greatest counter, the highest slot among equals.
\<close>

definition chosen :: "kern \<Rightarrow> nat \<Rightarrow> bool" where
  "chosen s n \<longleftrightarrow>
     (if n = 0 then \<forall>i. 0 < i \<and> i < NR_TASKS \<longrightarrow> \<not> runnable s i
      else n < NR_TASKS \<and> runnable s n \<and> 0 < counter_of s n \<and>
        (\<forall>i. 0 < i \<and> i < NR_TASKS \<and> runnable s i \<longrightarrow>
           (counter_of s i, i) \<le> (counter_of s n, n)))"

definition counters_ok :: "kern \<Rightarrow> bool" where
  "counters_ok s \<longleftrightarrow> (\<forall>i p. 0 < i \<and> i < NR_TASKS \<and> task s i = Some p \<longrightarrow>
     0 \<le> counter p \<and> counter p < 2 ^ 30 \<and> 0 < priority p \<and> priority p < 2 ^ 29)"

lemma pick_chosen:
  assumes ok: "counters_ok s" and p: "pick s (rev [1..<NR_TASKS]) (-1) 0 = (c, n)"
  shows "c \<noteq> 0 \<Longrightarrow> chosen s n"
    and "c = 0 \<Longrightarrow> (\<exists>i. 0 < i \<and> i < NR_TASKS \<and> runnable s i) \<and>
      (\<forall>i. 0 < i \<and> i < NR_TASKS \<and> runnable s i \<longrightarrow> counter_of s i = 0)"
proof -
  note sp = pick_spec [OF p sorted_slots, unfolded rev_slots, simplified]
  have pos: "0 \<le> counter_of s i" if "0 < i" "i < NR_TASKS" "runnable s i" for i
    using that ok by (auto simp: counters_ok_def runnable_def counter_of_def split: option.splits)
  show "chosen s n" if "c \<noteq> 0"
  proof (cases "n = 0")
    case True
    then have "c = -1" using sp by auto
    then have "\<not> runnable s i" if "0 < i" "i < NR_TASKS" for i
      using sp pos [OF that] that True by (fastforce simp: less_eq_prod_def)
    with True show ?thesis by (simp add: chosen_def)
  next
    case False
    then have "0 < n" "n < NR_TASKS" "runnable s n" "counter_of s n = c" "0 < c"
      using sp pos [of n] that by auto
    then show ?thesis using sp pos False by (fastforce simp: chosen_def)
  qed
  show "(\<exists>i. 0 < i \<and> i < NR_TASKS \<and> runnable s i) \<and>
      (\<forall>i. 0 < i \<and> i < NR_TASKS \<and> runnable s i \<longrightarrow> counter_of s i = 0)" if "c = 0"
  proof
    show "\<exists>i. 0 < i \<and> i < NR_TASKS \<and> runnable s i" using sp that by auto
    show "\<forall>i. 0 < i \<and> i < NR_TASKS \<and> runnable s i \<longrightarrow> counter_of s i = 0"
    proof (intro allI impI)
      fix i assume i: "0 < i \<and> i < NR_TASKS \<and> runnable s i"
      then have "counter_of s i \<le> 0" using sp that by (auto simp: less_eq_prod_def)
      with pos [of i] i show "counter_of s i = 0" by simp
    qed
  qed
qed

lemma counter_recharge:
  assumes "counters_ok s" "0 < i" "i < NR_TASKS" "task s i = Some p"
  shows "counter (recharge p) = counter p div 2 + priority p" and "0 < counter (recharge p)"
    and "counter (recharge p) < 2 ^ 30"
proof -
  have b: "0 \<le> counter p" "counter p < 2 ^ 30" "0 < priority p" "priority p < 2 ^ 29"
    using assms unfolding counters_ok_def by blast+
  have eq: "drop_bit 1 (counter p) = counter p div 2"
    by (simp add: drop_bit_eq_div)
  have "s32 (counter p div 2 + priority p) = counter p div 2 + priority p"
    using b by (intro s32_id) auto
  then show 1: "counter (recharge p) = counter p div 2 + priority p"
    unfolding recharge_def eq by simp
  show "0 < counter (recharge p)" "counter (recharge p) < 2 ^ 30"
    using b unfolding 1 by auto
qed

lemma pick_recharged:
  assumes ok: "counters_ok s" and zero: "\<forall>i. 0 < i \<and> i < NR_TASKS \<and> runnable s i \<longrightarrow> counter_of s i = 0"
    and ex: "\<exists>i. 0 < i \<and> i < NR_TASKS \<and> runnable s i"
    and p: "pick (recharge_all s) (rev [1..<NR_TASKS]) (-1) 0 = (c, n)"
  shows "c \<noteq> 0 \<and> chosen (recharge_all s) n"
proof -
  let ?r = "recharge_all s"
  note sp = pick_spec [OF p sorted_slots, unfolded rev_slots, simplified]
  have pos: "0 < counter_of ?r i" if "0 < i" "i < NR_TASKS" "runnable s i" for i
    using that counter_recharge [OF ok that(1,2)]
    by (auto simp: runnable_def counter_of_def task_recharge_all split: option.splits)
  obtain i where i: "0 < i" "i < NR_TASKS" "runnable s i" using ex by blast
  then have "-1 < c" using sp pos [OF i] by (fastforce simp: less_eq_prod_def)
  then have n: "0 < n" "n < NR_TASKS" "runnable s n" "counter_of ?r n = c" using sp by auto
  then have "0 < c" using pos [of n] by simp
  moreover have "chosen ?r n"
    using n pos sp by (fastforce simp: chosen_def)
  ultimately show ?thesis by simp
qed

text \<open>
  One call of \<open>schedule\<close>: it returns; the counters are recharged only when every task
  that can run has used up its own, and at most once; the task it switches to is the
  chosen one of the state it leaves.
\<close>

lemma schedule_returns:
  assumes "counters_ok (check_alarms s)"
  obtains n s1 where "schedule s = Some (s1\<lparr>current := n\<rparr>)" and "chosen s1 n"
    and "s1 = check_alarms s \<or> s1 = recharge_all (check_alarms s) \<and>
      (\<forall>i. 0 < i \<and> i < NR_TASKS \<and> runnable (check_alarms s) i \<longrightarrow> counter_of (check_alarms s) i = 0)"
proof -
  let ?s = "check_alarms s"
  obtain c n where p: "pick ?s (rev [1..<NR_TASKS]) (-1) 0 = (c, n)" by fastforce
  show thesis
  proof (cases "c = 0")
    case False
    then have "schedule s = Some (?s\<lparr>current := n\<rparr>)"
      using p by (simp add: schedule_def schedule_loop.simps [of ?s] switch_to_def)
    then show thesis using that pick_chosen(1) [OF assms p False] by blast
  next
    case True
    obtain d m where q: "pick (recharge_all ?s) (rev [1..<NR_TASKS]) (-1) 0 = (d, m)" by fastforce
    note z = pick_chosen(2) [OF assms p True]
    have "d \<noteq> 0 \<and> chosen (recharge_all ?s) m"
      using pick_recharged [OF assms _ _ q] z by blast
    then have "schedule s = Some (recharge_all ?s\<lparr>current := m\<rparr>)" "chosen (recharge_all ?s) m"
      using p q True
      by (simp_all add: schedule_def schedule_loop.simps [of ?s]
          schedule_loop.simps [of "recharge_all ?s"] switch_to_def)
    then show thesis using that z by blast
  qed
qed

lemma counters_ok_check_alarms [simp]: "counters_ok (check_alarms s) = counters_ok s"
proof -
  have "counter (check_alarm n p) = counter p \<and> priority (check_alarm n p) = priority p" for n p
    by (simp add: check_alarm_def Let_def)
  then show ?thesis
    by (auto simp: counters_ok_def task_check_alarms split: if_splits)
qed

text \<open>Only the counters, states, signals and alarms of the tasks are changed.\<close>

lemma counters_ok_recharge_all: "counters_ok s \<Longrightarrow> counters_ok (recharge_all s)"
  unfolding counters_ok_def
proof (intro allI impI)
  fix i p
  assume ok: "\<forall>i p. 0 < i \<and> i < NR_TASKS \<and> task s i = Some p \<longrightarrow>
     0 \<le> counter p \<and> counter p < 2 ^ 30 \<and> 0 < priority p \<and> priority p < 2 ^ 29"
    and i: "0 < i \<and> i < NR_TASKS \<and> task (recharge_all s) i = Some p"
  then obtain q where q: "task s i = Some q" "p = recharge q"
    by (auto simp: task_recharge_all)
  have "counters_ok s" using ok by (simp add: counters_ok_def)
  note c = counter_recharge [OF this _ _ q(1)]
  have "priority p = priority q" using q by (simp add: recharge_def)
  then show "0 \<le> counter p \<and> counter p < 2 ^ 30 \<and> 0 < priority p \<and> priority p < 2 ^ 29"
    using c(2,3) i q ok by auto
qed

definition state_of :: "kern \<Rightarrow> nat \<Rightarrow> int option" where
  "state_of s i = map_option state (task s i)"

lemma state_of_recharge_all [simp]: "state_of (recharge_all s) i = state_of s i"
  by (cases "task s i") (simp_all add: state_of_def task_recharge_all recharge_def)

lemma counter_of_check_alarms [simp]: "counter_of (check_alarms s) i = counter_of s i"
  by (simp add: counter_of_def task_check_alarms check_alarm_def Let_def split: option.splits)

text \<open>
  C3. schedule returns for every table of tasks with sane counters; it switches to a runnable
  process with the greatest counter (the idle process if none is runnable), changes the state
  of a process only by the alarm and signal check, and recharges counters only when every
  runnable process has used its time.
\<close>

theorem schedule_spec:
  assumes ok: "counters_ok s"
  shows "\<exists>s'. schedule s = Some s' \<and> counters_ok s' \<and> chosen s' (current s') \<and>
    (\<forall>i. state_of s' i = state_of (check_alarms s) i) \<and>
    ((\<forall>i. counter_of s' i = counter_of s i) \<or>
     (\<forall>i. 0 < i \<and> i < NR_TASKS \<and> runnable s' i \<longrightarrow> counter_of s i = 0))"
proof -
  let ?c = "check_alarms s"
  obtain n s1 where run: "schedule s = Some (s1\<lparr>current := n\<rparr>)" and ch: "chosen s1 n"
    and s1: "s1 = ?c \<or> s1 = recharge_all ?c \<and>
      (\<forall>i. 0 < i \<and> i < NR_TASKS \<and> runnable ?c i \<longrightarrow> counter_of ?c i = 0)"
    using schedule_returns [of s] ok by auto
  let ?s' = "s1\<lparr>current := n\<rparr>"
  have same: "counters_ok ?s' = counters_ok s1" "chosen ?s' = chosen s1"
      "runnable ?s' = runnable s1" "counter_of ?s' = counter_of s1" "state_of ?s' = state_of s1"
    by (simp_all add: counters_ok_def chosen_def runnable_def counter_of_def state_of_def fun_eq_iff)
  show ?thesis
  proof (intro exI conjI)
    show "schedule s = Some ?s'" by (rule run)
    show "counters_ok ?s'"
      using s1 ok counters_ok_recharge_all [of ?c] by (auto simp: same)
    show "chosen ?s' (current ?s')" using ch by (simp add: same)
    show "\<forall>i. state_of ?s' i = state_of ?c i" using s1 by (auto simp: same)
    show "(\<forall>i. counter_of ?s' i = counter_of s i) \<or>
     (\<forall>i. 0 < i \<and> i < NR_TASKS \<and> runnable ?s' i \<longrightarrow> counter_of s i = 0)"
      using s1 unfolding same by auto
  qed
qed

section \<open>The floating point state\<close>

text \<open>
  The floating point state of a task, wherever it is: in the unit, saved in its
  descriptor, or not yet begun. Only a task that has used the unit is remembered.
\<close>

definition fp_of :: "kern \<Rightarrow> nat \<Rightarrow> i387" where
  "fp_of s i =
     (if last_task_used_math s = Some i then fpu s
      else case task s i of
        None \<Rightarrow> fpu0 s
      | Some p \<Rightarrow> if used_math p \<noteq> 0 then i387 (tss p) else fpu0 s)"

definition math_ok :: "kern \<Rightarrow> bool" where
  "math_ok s \<longleftrightarrow> task s (current s) \<noteq> None \<and>
     (\<forall>l. last_task_used_math s = Some l \<longrightarrow> (\<exists>p. task s l = Some p \<and> used_math p \<noteq> 0))"

text \<open>
  C35. The lazy switch of the coprocessor gives the current process its own state and keeps the
  state of every other process.
\<close>

theorem math_state_restore_lazy:
  assumes "math_ok s"
  shows "fpu (math_state_restore s) = fp_of s (current s) \<and>
    (\<forall>i. fp_of (math_state_restore s) i = fp_of s i) \<and> math_ok (math_state_restore s)"
proof -
  obtain p where p: "task s (current s) = Some p" using assms by (auto simp: math_ok_def)
  show ?thesis
  proof (cases "last_task_used_math s")
    case None
    then show ?thesis
      using p by (auto simp: math_state_restore_def fp_of_def math_ok_def cur_def set_cur_def
          set_task_def Let_def split: option.splits)
  next
    case (Some l)
    then obtain q where "task s l = Some q" "used_math q \<noteq> 0"
      using assms by (auto simp: math_ok_def)
    with p Some show ?thesis
      by (cases "l = current s")
        (auto simp: math_state_restore_def fp_of_def math_ok_def cur_def set_cur_def
          set_task_def Let_def split: option.splits)
  qed
qed

end
