(* ===== verification/Page_Tables.thy ===== *)
theory Page_Tables
  imports Memory
begin

unbundle bit_operations_syntax

text \<open>
  The two-level page tables of mm/memory.c: the page directory at physical address 0
  (\<open>_pg_dir = 0\<close>) and the page tables its entries point to, all inside the memory of
  theory \<open>Memory\<close>. The operations follow the code; below them, \<open>pde\<close>, \<open>pte\<close> and
  \<open>translate\<close> say what the processor reads in these tables, and the lemmas say what
  each operation does to that.
\<close>

section \<open>Operations\<close>

text \<open>A frame address masked out of a table entry, and the directory slot of an address.\<close>

definition frame_of :: "u32 \<Rightarrow> u32" where
  "frame_of e = 0xfffff000 AND e"

definition dir_slot :: "u32 \<Rightarrow> u32" where
  "dir_slot address = drop_bit 20 address AND 0xffc"

text \<open>\<open>free_page_tables\<close>: the inner loop over a table, then the loop over the directory.\<close>

fun free_table :: "nat \<Rightarrow> u32 \<Rightarrow> mm \<Rightarrow> mm result" where
  "free_table 0 pg_table s = Inr s"
| "free_table (Suc nr) pg_table s =
     andthen (if phys s pg_table AND 1 \<noteq> 0 then free_page (frame_of (phys s pg_table)) s
              else Inr s)
       (\<lambda>s. free_table nr (pg_table + 4) (s\<lparr>phys := (phys s)(pg_table := 0)\<rparr>))"

fun free_dirs :: "nat \<Rightarrow> u32 \<Rightarrow> mm \<Rightarrow> mm result" where
  "free_dirs 0 dir s = Inr s"
| "free_dirs (Suc sz) dir s =
     (if phys s dir AND 1 = 0 then free_dirs sz (dir + 4) s
      else andthen (free_table 1024 (frame_of (phys s dir)) s) (\<lambda>s.
           andthen (free_page (frame_of (phys s dir)) s) (\<lambda>s.
           free_dirs sz (dir + 4) (s\<lparr>phys := (phys s)(dir := 0)\<rparr>))))"

definition free_page_tables :: "u32 \<Rightarrow> u32 \<Rightarrow> mm \<Rightarrow> mm result" where
  "free_page_tables from sz s =
     (if from AND 0x3fffff \<noteq> 0
      then Inl (Panic ''free_page_tables called with wrong alignment'')
      else if from = 0 then Inl (Panic ''Trying to free up swapper memory space'')
      else free_dirs (unat (drop_bit 22 (sz + 0x3fffff))) (dir_slot from) s)"

text \<open>
  \<open>copy_page_tables\<close>: the loop over the entries of one table, then the loop over the
  directory, which returns \<open>-1\<close> when no page is left for a new table.
\<close>

fun copy_table :: "nat \<Rightarrow> u32 \<Rightarrow> u32 \<Rightarrow> mm \<Rightarrow> mm" where
  "copy_table 0 from_page_table to_page_table s = s"
| "copy_table (Suc nr) from_page_table to_page_table s =
     (let this_page = phys s from_page_table in
      if this_page AND 1 = 0
      then copy_table nr (from_page_table + 4) (to_page_table + 4) s
      else
        let this_page = this_page AND NOT 2;
            s = s\<lparr>phys := (phys s)(to_page_table := this_page)\<rparr>
        in if LOW_MEM < this_page then
             let s = s\<lparr>phys := (phys s)(from_page_table := this_page)\<rparr>;
                 i = MAP_NR this_page;
                 s = s\<lparr>mem_map := (mem_map s)(i := mem_map s i + 1)\<rparr>
             in copy_table nr (from_page_table + 4) (to_page_table + 4) s
           else copy_table nr (from_page_table + 4) (to_page_table + 4) s)"

fun copy_dirs :: "nat \<Rightarrow> u32 \<Rightarrow> u32 \<Rightarrow> u32 \<Rightarrow> mm \<Rightarrow> (int \<times> mm) result" where
  "copy_dirs 0 from from_dir to_dir s = Inr (0, s)"
| "copy_dirs (Suc sz) from from_dir to_dir s =
     (if phys s to_dir AND 1 \<noteq> 0 then Inl (Panic ''copy_page_tables: already exist'')
      else if phys s from_dir AND 1 = 0
      then copy_dirs sz from (from_dir + 4) (to_dir + 4) s
      else
        let from_page_table = frame_of (phys s from_dir);
            (to_page_table, s) = get_free_page s
        in if to_page_table = 0 then Inr (-1, s)
           else
             let s = s\<lparr>phys := (phys s)(to_dir := to_page_table OR 7)\<rparr>;
                 nr = (if from = 0 then 0xA0 else 1024)
             in copy_dirs sz from (from_dir + 4) (to_dir + 4)
                  (copy_table nr from_page_table to_page_table s))"

definition copy_page_tables :: "u32 \<Rightarrow> u32 \<Rightarrow> u32 \<Rightarrow> mm \<Rightarrow> (int \<times> mm) result" where
  "copy_page_tables from to sz s =
     (if from AND 0x3fffff \<noteq> 0 \<or> to AND 0x3fffff \<noteq> 0
      then Inl (Panic ''copy_page_tables called with wrong alignment'')
      else copy_dirs (unat (drop_bit 22 (sz + 0x3fffff))) from (dir_slot from) (dir_slot to) s)"

text \<open>\<open>put_page\<close>; its two warnings only print.\<close>

definition put_page :: "u32 \<Rightarrow> u32 \<Rightarrow> mm \<Rightarrow> u32 \<times> mm" where
  "put_page page address s =
     (let slot = dir_slot address;
          index = 4 * (drop_bit 12 address AND 0x3ff)
      in if phys s slot AND 1 \<noteq> 0 then
           let page_table = frame_of (phys s slot)
           in (page, s\<lparr>phys := (phys s)(page_table + index := page OR 7)\<rparr>)
         else
           let (tmp, s) = get_free_page s
           in if tmp = 0 then (0, s)
              else
                let s = s\<lparr>phys := (phys s)(slot := tmp OR 7)\<rparr>
                in (page, s\<lparr>phys := (phys s)(tmp + index := page OR 7)\<rparr>))"

text \<open>\<open>SIGSEGV\<close> is 11; \<open>do_exit\<close> does not return to these routines.\<close>

definition un_wp_page :: "u32 \<Rightarrow> mm \<Rightarrow> mm result" where
  "un_wp_page table_entry s =
     (let old_page = frame_of (phys s table_entry) in
      if LOW_MEM \<le> old_page \<and> mem_map s (MAP_NR old_page) = 1
      then Inr (s\<lparr>phys := (phys s)(table_entry := phys s table_entry OR 2)\<rparr>)
      else
        let (new_page, s) = get_free_page s
        in if new_page = 0 then Inl (Exits 11)
           else
             let s = (if LOW_MEM \<le> old_page
                      then s\<lparr>mem_map := (mem_map s)
                               (MAP_NR old_page := mem_map s (MAP_NR old_page) - 1)\<rparr>
                      else s);
                 s = s\<lparr>phys := (phys s)(table_entry := new_page OR 7)\<rparr>
             in Inr (copy_page old_page new_page s))"

definition do_wp_page :: "u32 \<Rightarrow> u32 \<Rightarrow> mm \<Rightarrow> mm result" where
  "do_wp_page error_code address s =
     un_wp_page ((drop_bit 10 address AND 0xffc) + frame_of (phys s (dir_slot address))) s"

definition write_verify :: "u32 \<Rightarrow> mm \<Rightarrow> mm result" where
  "write_verify address s =
     (let page = phys s (dir_slot address) in
      if page AND 1 = 0 then Inr s
      else
        let page = frame_of page + (drop_bit 10 address AND 0xffc)
        in if 3 AND phys s page = 1 then un_wp_page page s else Inr s)"

definition do_no_page :: "u32 \<Rightarrow> u32 \<Rightarrow> mm \<Rightarrow> mm result" where
  "do_no_page error_code address s =
     (let (tmp, s) = get_free_page s in
      if tmp \<noteq> 0 then
        let (r, s) = put_page tmp address s
        in if r \<noteq> 0 then Inr s else Inl (Exits 11)
      else Inl (Exits 11))"

text \<open>
  The second loop of \<open>calc_mem\<close>: the directory entries from 2 up that are present, with
  the number of their present pages (the lines it prints).
\<close>

definition calc_mem :: "mm \<Rightarrow> nat \<times> (nat \<times> nat) list" where
  "calc_mem s =
     (count_free (mem_map s) PAGING_PAGES,
      [(i, length [j \<leftarrow> [0..<1024]. phys s (long_of (frame_of (phys s (long_of 0 i))) j) AND 1 \<noteq> 0]).
         i \<leftarrow> [2..<1024], phys s (long_of 0 i) AND 1 \<noteq> 0])"


section \<open>Table addresses\<close>

definition dir_index :: "u32 \<Rightarrow> nat" where
  "dir_index address = unat address div 2 ^ 22"

definition table_index :: "u32 \<Rightarrow> nat" where
  "table_index address = unat address div 4096 mod 1024"

lemma dir_index_less: "dir_index a < 1024"
proof -
  have "unat a < 1024 * 2 ^ 22"
    using unsigned_less [of a] by simp
  then show ?thesis
    unfolding dir_index_def by (rule less_mult_imp_div_less)
qed

lemma table_index_less [simp]: "table_index a < 1024"
  by (simp add: table_index_def)

lemma ffc_eq: "(0xffc :: u32) = push_bit 2 (mask 10)"
  by (simp add: mask_eq_exp_minus_1)

lemma ff3_eq: "(0x3ff :: u32) = mask 10"
  by (simp add: mask_eq_exp_minus_1)

lemma dir_slot_eq: "dir_slot a = long_of 0 (dir_index a)"
proof -
  have "dir_slot a = push_bit 2 (drop_bit 22 a)"
    unfolding dir_slot_def ffc_eq
    by (rule bit_word_eqI) (auto simp: bit_simps dest: bit_imp_le_length)
  also have "drop_bit 22 a = of_nat (dir_index a)"
  proof -
    have "unat (drop_bit 22 a) = dir_index a"
      unfolding dir_index_def unat_drop_bit_eq by (simp add: drop_bit_eq_div)
    moreover have "drop_bit 22 a = of_nat (unat (drop_bit 22 a))" by simp
    ultimately show ?thesis by metis
  qed
  finally show ?thesis
    by (simp add: long_of_def push_bit_eq_mult mult.commute)
qed

lemma table_slot_eq: "drop_bit 12 a AND 0x3ff = of_nat (table_index a)"
proof -
  have "drop_bit 12 a AND 0x3ff = take_bit 10 (drop_bit 12 a)"
    unfolding ff3_eq by (simp add: take_bit_eq_mask)
  moreover have "unat (take_bit 10 (drop_bit 12 a)) = table_index a"
    unfolding table_index_def unsigned_take_bit_eq unat_drop_bit_eq
    by (simp add: drop_bit_eq_div take_bit_eq_mod)
  moreover have "take_bit 10 (drop_bit 12 a) = of_nat (unat (take_bit 10 (drop_bit 12 a)))"
    by simp
  ultimately show ?thesis by metis
qed

lemma table_slot4_eq: "drop_bit 10 a AND 0xffc = of_nat (4 * table_index a)"
proof -
  have "drop_bit 10 a AND 0xffc = push_bit 2 (drop_bit 12 a AND 0x3ff)"
    unfolding ffc_eq ff3_eq
    by (rule bit_word_eqI) (auto simp: bit_simps)
  then show ?thesis
    by (simp add: table_slot_eq push_bit_eq_mult mult.commute)
qed


lemma frame_of_eq: "frame_of e = push_bit 12 (drop_bit 12 e)"
proof -
  have eq: "(0xfffff000 :: u32) = push_bit 12 (mask 20)"
    by (simp add: mask_eq_exp_minus_1)
  show ?thesis
    unfolding frame_of_def eq
    by (auto intro!: bit_word_eqI simp: bit_simps dest: bit_imp_le_length)
qed

lemma page_base_iff: "page_base p \<longleftrightarrow> frame_of p = p"
proof -
  have "unat (frame_of p) = unat p div 4096 * 4096"
  proof -
    have "frame_of p = of_nat (unat (drop_bit 12 p) * 4096)"
      by (simp add: frame_of_eq push_bit_eq_mult)
    then have eq: "frame_of p = of_nat (unat p div 4096 * 4096)"
      unfolding unat_drop_bit_eq by (simp add: drop_bit_eq_div)
    moreover have "unat p div 4096 * 4096 < 2 ^ 32"
    proof (rule le_less_trans)
      show "unat p div 4096 * 4096 \<le> unat p" by simp
      show "unat p < 2 ^ 32" using unsigned_less [of p] by simp
    qed
    ultimately show ?thesis
      by (simp only: unat_of_nat_small)
  qed
  then show ?thesis
    unfolding page_base_def word_unat_eq_iff
    by (metis div_mult_mod_eq add_cancel_right_right)
qed

lemma page_base_frame_of [simp]: "page_base (frame_of e)"
proof -
  have "frame_of (frame_of e) = frame_of e"
    by (simp add: frame_of_def and.assoc [symmetric])
  then show ?thesis by (simp add: page_base_iff)
qed

lemma frame_of_page_base [simp]: "page_base p \<Longrightarrow> frame_of p = p"
  by (simp add: page_base_iff)

lemma frame_of_or7 [simp]: "frame_of (p OR 7) = frame_of p"
proof -
  have "(0xfffff000 :: u32) AND 7 = 0" by simp
  then show ?thesis
    by (simp add: frame_of_def bit.conj_disj_distrib)
qed

lemma or7_present [simp]: "(p OR 7) AND 1 = (1 :: u32)"
proof -
  have "(p OR 7) AND (1 :: u32) = (p AND 1) OR (7 AND 1)"
    by (rule bit.conj_disj_distrib2)
  also have "\<dots> = 1"
    using and_1_cases [of p] by (elim disjE) (simp_all only:, simp_all)
  finally show ?thesis .
qed

lemma page_base_0 [simp]: "page_base 0"
  by (simp add: page_base_def)


section \<open>What the processor reads\<close>

definition pde :: "mm \<Rightarrow> nat \<Rightarrow> u32" where
  "pde s i = phys s (long_of 0 i)"

definition present :: "u32 \<Rightarrow> bool" where
  "present e \<longleftrightarrow> e AND 1 \<noteq> 0"

definition pte :: "mm \<Rightarrow> nat \<Rightarrow> nat \<Rightarrow> u32" where
  "pte s i j = phys s (long_of (frame_of (pde s i)) j)"

definition translate :: "mm \<Rightarrow> u32 \<Rightarrow> u32 option" where
  "translate s a =
     (let i = dir_index a; j = table_index a in
      if present (pde s i) \<and> present (pte s i j) then Some (pte s i j) else None)"

text \<open>
  The tables are well formed when each present directory entry points to a table of its
  own that is neither the directory itself nor a free frame.
\<close>

definition not_free :: "mm \<Rightarrow> u32 \<Rightarrow> bool" where
  "not_free s f \<longleftrightarrow> (\<forall>n < PAGING_PAGES. f = page_addr n \<longrightarrow> mem_map s n \<noteq> 0)"

definition wf_tables :: "mm \<Rightarrow> bool" where
  "wf_tables s \<longleftrightarrow>
     (\<forall>i < 1024. present (pde s i) \<longrightarrow> frame_of (pde s i) \<noteq> 0 \<and> not_free s (frame_of (pde s i))) \<and>
     (\<forall>i < 1024. \<forall>j < 1024. present (pde s i) \<and> present (pde s j) \<and>
        frame_of (pde s i) = frame_of (pde s j) \<longrightarrow> i = j)"

lemma wf_tables_frame:
  "wf_tables s \<Longrightarrow> i < 1024 \<Longrightarrow> present (pde s i) \<Longrightarrow> frame_of (pde s i) \<noteq> 0"
  by (simp add: wf_tables_def)

lemma wf_tables_not_free:
  "wf_tables s \<Longrightarrow> i < 1024 \<Longrightarrow> present (pde s i) \<Longrightarrow> not_free s (frame_of (pde s i))"
  by (simp add: wf_tables_def)

lemma wf_tables_inj:
  "wf_tables s \<Longrightarrow> i < 1024 \<Longrightarrow> j < 1024 \<Longrightarrow> present (pde s i) \<Longrightarrow> present (pde s j) \<Longrightarrow>
   frame_of (pde s i) = frame_of (pde s j) \<Longrightarrow> i = j"
  by (simp add: wf_tables_def)

lemma present_or7 [simp]: "present (p OR 7)"
  by (simp add: present_def)

lemma present_0 [simp]: "\<not> present 0"
  by (simp add: present_def)

text \<open>
  A page table written in a page that is not the directory: the directory is unchanged,
  so only the entry written changes in the tables.
\<close>

lemma pde_table_write:
  assumes "page_base t" "t \<noteq> 0" "j < 1024" "i < 1024"
  shows "pde (s\<lparr>phys := (phys s)(long_of t j := e)\<rparr>) i = pde s i"
  using assms by (simp add: pde_def long_of_inj)

lemma wf_tables_phys:
  assumes "\<And>i. i < 1024 \<Longrightarrow> pde s' i = pde s i" and "mem_map s' = mem_map s"
  shows "wf_tables s' = wf_tables s"
  using assms by (simp add: wf_tables_def not_free_def cong: conj_cong)

lemma translate_table_write:
  fixes e :: u32
  assumes wf: "wf_tables s" and j: "j < 1024" and i: "i < 1024" "present (pde s i)"
  defines "s' \<equiv> s\<lparr>phys := (phys s)(long_of (frame_of (pde s i)) j := e)\<rparr>"
  shows "translate s' a = (if dir_index a = i \<and> table_index a = j
           then (if present e then Some e else None) else translate s a)"
    and "wf_tables s'"
proof -
  have pde: "pde s' k = pde s k" if "k < 1024" for k
    unfolding s'_def using wf_tables_frame [OF wf i] j that by (intro pde_table_write) auto
  have pte: "pte s' k l = (if k = i \<and> l = j then e else pte s k l)"
    if "k < 1024" "l < 1024" "present (pde s k)" for k l
    using that wf_tables_inj [OF wf that(1) i(1) that(3) i(2)] j pde [OF that(1)]
    by (auto simp: pte_def s'_def long_of_inj)
  show "translate s' a = (if dir_index a = i \<and> table_index a = j
           then (if present e then Some e else None) else translate s a)"
    using pte [of "dir_index a" "table_index a"] pde [of "dir_index a"] i dir_index_less [of a]
    by (auto simp: translate_def Let_def)
  show "wf_tables s'"
    using wf wf_tables_phys [of s' s] pde by (simp add: s'_def)
qed


text \<open>
  A table in a new page, entered into an empty directory slot: no address is mapped by
  it yet, and the tables stay well formed.
\<close>

lemma new_page_not_table:
  assumes "wf_tables s" "get_free_page s = (t, s1)" "t \<noteq> 0" "i < 1024" "present (pde s i)"
  shows "frame_of (pde s i) \<noteq> t"
proof -
  from get_free_page_spec [OF assms(2,3)] obtain n
    where n: "t = page_addr n" "n < PAGING_PAGES" "mem_map s n = 0" by metis
  have "not_free s (frame_of (pde s i))"
    using assms(1,4,5) by (rule wf_tables_not_free)
  with n show ?thesis by (auto simp: not_free_def)
qed

lemma get_free_page_base: "get_free_page s = (t, s1) \<Longrightarrow> t \<noteq> 0 \<Longrightarrow> page_base t"
  by (metis get_free_page_spec page_base_page_addr)

lemma get_free_page_phys:
  "get_free_page s = (t, s1) \<Longrightarrow> t \<noteq> 0 \<Longrightarrow> phys s1 a = (if in_page t a then 0 else phys s a)"
  by (metis get_free_page_spec)

lemma in_page_long_of_iff [simp]:
  "page_base p \<Longrightarrow> page_base q \<Longrightarrow> j < 1024 \<Longrightarrow> in_page p (long_of q j) \<longleftrightarrow> p = q"
  using in_page_unique by fastforce

lemma not_free_get_free_page:
  assumes "get_free_page s = (t, s1)" "t \<noteq> 0"
  shows "not_free s f \<Longrightarrow> not_free s1 f" and "not_free s1 t"
proof -
  from get_free_page_spec [OF assms] obtain n
    where n: "t = page_addr n" "n < PAGING_PAGES" "mem_map s1 = (mem_map s)(n := 1)"
    by metis
  then show "not_free s f \<Longrightarrow> not_free s1 f" by (simp add: not_free_def)
  from n show "not_free s1 t"
    unfolding not_free_def by (simp add: page_addr_inj)
qed

lemma new_table:
  assumes wf: "wf_tables s" and get: "get_free_page s = (t, s1)" "t \<noteq> 0"
    and i: "i < 1024" "\<not> present (pde s i)"
  defines "s2 \<equiv> s1\<lparr>phys := (phys s1)(long_of 0 i := t OR 7)\<rparr>"
  shows new_table_pde: "\<And>k. k < 1024 \<Longrightarrow> pde s2 k = (if k = i then t OR 7 else pde s k)"
    and new_table_zero: "\<And>l. l < 1024 \<Longrightarrow> pte s2 i l = 0"
    and new_table_pte: "\<And>k l. k < 1024 \<Longrightarrow> l < 1024 \<Longrightarrow> present (pde s k) \<Longrightarrow> pte s2 k l = pte s k l"
    and new_table_wf: "wf_tables s2"
    and new_table_translate: "translate s2 a = translate s a"
proof -
  have t: "page_base t" using get by (rule get_free_page_base)
  note ph = get_free_page_phys [OF get]
  show pde2: "pde s2 k = (if k = i then t OR 7 else pde s k)" if "k < 1024" for k
    using that i t get(2) by (simp add: pde_def s2_def ph long_of_inj)
  show z: "pte s2 i l = 0" if "l < 1024" for l
    using that i t get(2) by (simp add: pte_def pde2) (simp add: s2_def ph long_of_inj)
  show p: "pte s2 k l = pte s k l" if "k < 1024" "l < 1024" "present (pde s k)" for k l
  proof -
    have "k \<noteq> i" using that i by auto
    moreover have "frame_of (pde s k) \<noteq> t"
      using new_page_not_table [OF wf get that(1,3)] .
    moreover have "frame_of (pde s k) \<noteq> 0"
      using wf_tables_frame [OF wf that(1,3)] .
    ultimately show ?thesis
      using that i t by (simp add: pte_def pde2) (auto simp add: s2_def ph long_of_inj)
  qed
  have nf: "not_free s2 f \<longleftrightarrow> not_free s1 f" for f
    by (simp add: not_free_def s2_def)
  show "wf_tables s2"
    unfolding wf_tables_def
  proof (intro conjI allI impI)
    fix k assume k: "k < 1024" "present (pde s2 k)"
    show "frame_of (pde s2 k) \<noteq> 0" "not_free s2 (frame_of (pde s2 k))"
      using k pde2 t get(2) wf_tables_frame [OF wf] wf_tables_not_free [OF wf]
        not_free_get_free_page [OF get] nf
      by (auto split: if_splits)
  next
    fix k l assume kl: "k < 1024" "l < 1024"
      "present (pde s2 k) \<and> present (pde s2 l) \<and> frame_of (pde s2 k) = frame_of (pde s2 l)"
    then show "k = l"
      using pde2 t new_page_not_table [OF wf get] wf_tables_inj [OF wf]
      by (auto split: if_splits)
  qed
  show "translate s2 a = translate s a"
    using z p pde2 i dir_index_less [of a]
    by (auto simp: translate_def Let_def)
qed

text \<open>
  \<open>put_page\<close> maps the page at the address, present, writable and accessible to the user
  (\<open>page OR 7\<close>), and changes the translation of no other page.
\<close>

lemma put_page_slot:
  assumes "wf_tables s" "present (pde s (dir_index a))"
  shows "frame_of (phys s (dir_slot a)) + 4 * (drop_bit 12 a AND 0x3ff) =
    long_of (frame_of (pde s (dir_index a))) (table_index a)"
  by (simp add: dir_slot_eq pde_def table_slot_eq long_of_def)

lemma put_page_maps:
  assumes wf: "wf_tables s" and put: "put_page page address s = (r, s')" and r: "r \<noteq> 0"
  shows "translate s' a =
      (if dir_index a = dir_index address \<and> table_index a = table_index address
       then Some (page OR 7) else translate s a)"
    and "wf_tables s'"
proof -
  let ?i = "dir_index address" and ?j = "table_index address"
  have i: "?i < 1024" by (rule dir_index_less)
  have index: "4 * (drop_bit 12 address AND 0x3ff) = of_nat (4 * ?j)"
    by (simp add: table_slot_eq)
  have pde: "phys s (dir_slot address) = pde s ?i"
    by (simp add: dir_slot_eq pde_def)
  have "translate s' a = (if dir_index a = ?i \<and> table_index a = ?j
       then Some (page OR 7) else translate s a) \<and> wf_tables s'"
  proof (cases "present (pde s ?i)")
    case True
    then have "s' = s\<lparr>phys := (phys s)(long_of (frame_of (pde s ?i)) ?j := page OR 7)\<rparr>"
      using put unfolding put_page_def Let_def pde index by (auto simp: present_def long_of_def)
    then show ?thesis
      using translate_table_write [OF wf table_index_less i True] by simp
  next
    case False
    obtain t s1 where get: "get_free_page s = (t, s1)" by fastforce
    have t: "t \<noteq> 0"
      using put r False unfolding put_page_def Let_def pde index get by (auto simp: present_def)
    define s2 where "s2 = s1\<lparr>phys := (phys s1)(long_of 0 ?i := t OR 7)\<rparr>"
    have tb: "page_base t" using get t by (rule get_free_page_base)
    note new = new_table [OF wf get t i False, folded s2_def]
    have pde2: "pde s2 ?i = t OR 7" using new(1) [OF i] by simp
    then have fr: "frame_of (pde s2 ?i) = t" using tb by simp
    have "s' = s2\<lparr>phys := (phys s2)(long_of (frame_of (pde s2 ?i)) ?j := page OR 7)\<rparr>"
      unfolding fr using put t False unfolding put_page_def Let_def pde index get s2_def
      by (auto simp: present_def long_of_def dir_slot_eq)
    then show ?thesis
      using translate_table_write [OF new(4) table_index_less i] pde2 new(5) by simp
  qed
  then show "translate s' a =
      (if dir_index a = dir_index address \<and> table_index a = table_index address
       then Some (page OR 7) else translate s a)"
    and "wf_tables s'" by blast+
qed


section \<open>Write faults\<close>

definition is_table :: "mm \<Rightarrow> u32 \<Rightarrow> bool" where
  "is_table s f \<longleftrightarrow> (\<exists>k < 1024. present (pde s k) \<and> frame_of (pde s k) = f)"

lemma translate_Some:
  "translate s a = Some e \<longleftrightarrow>
     present (pde s (dir_index a)) \<and> present e \<and> e = pte s (dir_index a) (table_index a)"
  by (auto simp: translate_def Let_def)

lemma or2_bits: "(e OR 2) AND 2 \<noteq> (0 :: u32)" "present (e OR 2) = present e"
  "frame_of (e OR 2) = frame_of e"
proof -
  have "bit ((e OR 2) AND 2) (Suc 0)" by (simp add: bit_simps)
  then show "(e OR 2) AND 2 \<noteq> 0" by auto
  have "(e OR 2) AND 1 = e AND 1"
    by (simp add: bit.conj_disj_distrib2)
  then show "present (e OR 2) = present e" by (simp add: present_def)
  have "(0xfffff000 :: u32) AND 2 = 0" by simp
  then show "frame_of (e OR 2) = frame_of e"
    by (simp add: frame_of_def bit.conj_disj_distrib)
qed

lemma or7_writable: "(p OR 7) AND 2 \<noteq> (0 :: u32)"
proof -
  have "bit ((p OR 7) AND 2) (Suc 0)" by (simp add: bit_simps)
  then show ?thesis by auto
qed

lemma page_addr_MAP_NR:
  assumes "LOW_MEM \<le> f" and "page_base f"
  shows "page_addr (MAP_NR f) = f"
proof -
  obtain k where k: "unat f = 4096 * k"
    using assms(2) unfolding page_base_def by (auto simp: mod_eq_0_iff_dvd)
  have "unat (f - LOW_MEM) = 4096 * k - 4096 * 512"
    using assms(1) k by (simp add: unat_sub)
  then have "page_base (f - LOW_MEM)"
    unfolding page_base_def by (metis diff_mult_distrib2 mod_mult_self1_is_0)
  then have "push_bit 12 (drop_bit 12 (f - LOW_MEM)) = f - LOW_MEM"
    by (simp add: page_base_iff frame_of_eq)
  then show ?thesis
    by (simp add: page_addr_def MAP_NR_def)
qed

text \<open>
  A change that stays inside a page holding no table, and frees no table's frame, leaves
  the tables as they are.
\<close>

lemma tables_frame:
  assumes wf: "wf_tables s" and t: "page_base t" "t \<noteq> 0" "\<not> is_table s t"
    and same: "\<And>a. \<not> in_page t a \<Longrightarrow> phys s' a = phys s a"
    and counts: "\<And>f. is_table s f \<Longrightarrow> not_free s f \<Longrightarrow> not_free s' f"
  shows tables_frame_pde: "\<And>k. k < 1024 \<Longrightarrow> pde s' k = pde s k"
    and tables_frame_pte: "\<And>k l. k < 1024 \<Longrightarrow> l < 1024 \<Longrightarrow> present (pde s k) \<Longrightarrow> pte s' k l = pte s k l"
    and tables_frame_translate: "\<And>a. translate s' a = translate s a"
    and tables_frame_wf: "wf_tables s'"
proof -
  show pde: "pde s' k = pde s k" if "k < 1024" for k
    using that t same [of "long_of 0 k"] by (simp add: pde_def)
  show pte: "pte s' k l = pte s k l" if "k < 1024" "l < 1024" "present (pde s k)" for k l
    using that t same [of "long_of (frame_of (pde s k)) l"] pde [OF that(1)]
    by (auto simp: pte_def is_table_def)
  show "translate s' a = translate s a" for a
    using pde pte dir_index_less [of a] by (simp add: translate_def Let_def cong: conj_cong)
  have "is_table s (frame_of (pde s k))" if "k < 1024" "present (pde s k)" for k
    using that by (auto simp: is_table_def)
  then show "wf_tables s'"
    using wf pde counts by (simp add: wf_tables_def)
qed

lemma get_free_page_tables:
  assumes wf: "wf_tables s" and get: "get_free_page s = (t, s1)" "t \<noteq> 0"
  shows "\<not> is_table s t" and "wf_tables s1" and "translate s1 a = translate s a"
    and "k < 1024 \<Longrightarrow> pde s1 k = pde s k"
proof -
  show nt: "\<not> is_table s t"
    using new_page_not_table [OF wf get] by (auto simp: is_table_def)
  note fr = tables_frame [OF wf get_free_page_base [OF get] get(2) nt, of s1]
  show "wf_tables s1" "translate s1 a = translate s a" "k < 1024 \<Longrightarrow> pde s1 k = pde s k"
    by (intro fr; simp add: get_free_page_phys [OF get] not_free_get_free_page [OF get])+
qed

text \<open>
  After a write fault on a mapped page the page is writable and used by this entry only,
  its contents are those it had, the old frame keeps its contents for the other users,
  and every other page is mapped as before.
\<close>

lemma do_wp_page_private:
  assumes wf: "wf_tables s" and tr: "translate s a = Some e"
    and old: "\<not> is_table s (frame_of e)" "not_free s (frame_of e)"
    and run: "do_wp_page error_code a s = Inr s'"
  obtains e' where "translate s' a = Some e'" and "e' AND 2 \<noteq> 0"
    and "mem_map s' (MAP_NR (frame_of e')) = 1"
    and "\<And>k. k < 1024 \<Longrightarrow> phys s' (long_of (frame_of e') k) = phys s (long_of (frame_of e) k)"
    and "\<And>k. k < 1024 \<Longrightarrow> phys s' (long_of (frame_of e) k) = phys s (long_of (frame_of e) k)"
    and "\<And>b. dir_index b \<noteq> dir_index a \<or> table_index b \<noteq> table_index a \<Longrightarrow>
           translate s' b = translate s b"
proof -
  let ?i = "dir_index a" and ?j = "table_index a"
  let ?t = "frame_of (pde s ?i)" and ?f = "frame_of e"
  have i: "?i < 1024" by (rule dir_index_less)
  from tr have pi: "present (pde s ?i)" and e: "present e" "pte s ?i ?j = e"
    by (auto simp: translate_Some)
  have entry: "(drop_bit 10 a AND 0xffc) + frame_of (phys s (dir_slot a)) = long_of ?t ?j"
    by (simp add: dir_slot_eq pde_def table_slot4_eq long_of_def add.commute)
  have te: "phys s (long_of ?t ?j) = e" using e(2) by (simp add: pte_def)
  have tf: "?t \<noteq> ?f" using old(1) i pi by (auto simp: is_table_def)
  have run': "un_wp_page (long_of ?t ?j) s = Inr s'"
    using run by (simp add: do_wp_page_def entry)
  show ?thesis
  proof (cases "LOW_MEM \<le> ?f \<and> mem_map s (MAP_NR ?f) = 1")
    case True
    then have s': "s' = s\<lparr>phys := (phys s)(long_of ?t ?j := e OR 2)\<rparr>"
      using run' by (auto simp: un_wp_page_def te Let_def)
    show ?thesis
    proof (rule that [of "e OR 2"])
      show "translate s' a = Some (e OR 2)"
        using translate_table_write(1) [OF wf table_index_less i pi] e(1)
        by (simp add: s' or2_bits)
      show "mem_map s' (MAP_NR (frame_of (e OR 2))) = 1"
        using True by (simp add: s' or2_bits)
      show "phys s' (long_of ?f k) = phys s (long_of ?f k)" if "k < 1024" for k
        using tf that by (simp add: s' long_of_inj)
      then show "phys s' (long_of (frame_of (e OR 2)) k) = phys s (long_of ?f k)" if "k < 1024" for k
        using that by (simp add: or2_bits)
      show "translate s' b = translate s b"
        if "dir_index b \<noteq> dir_index a \<or> table_index b \<noteq> table_index a" for b
        using translate_table_write(1) [OF wf table_index_less i pi] that by (auto simp: s')
    qed (rule or2_bits)
  next
    case False
    obtain p s1 where get: "get_free_page s = (p, s1)" by fastforce
    define s2 where "s2 = (if LOW_MEM \<le> ?f
      then s1\<lparr>mem_map := (mem_map s1)(MAP_NR ?f := mem_map s1 (MAP_NR ?f) - 1)\<rparr> else s1)"
    define s3 where "s3 = s2\<lparr>phys := (phys s2)(long_of ?t ?j := p OR 7)\<rparr>"
    from run' False have p: "p \<noteq> 0" and s': "s' = copy_page ?f p s3"
      by (auto simp: un_wp_page_def te get s2_def s3_def Let_def split: if_splits)
    have pb: "page_base p" using get p by (rule get_free_page_base)
    from get_free_page_spec [OF get p] obtain n
      where n: "p = page_addr n" "n < PAGING_PAGES" "mem_map s n = 0"
        and mm1: "mem_map s1 = (mem_map s)(n := 1)" by metis
    have pf: "p \<noteq> ?f" using old(2) n by (auto simp: not_free_def)
    note g = get_free_page_tables [OF wf get p]
    have pt: "p \<noteq> ?t" using g(1) i pi by (auto simp: is_table_def)
    have ph2: "phys s2 = phys s1" by (simp add: s2_def)
    have pde2: "pde s2 k = pde s k" if "k < 1024" for k
      using g(4) [OF that] by (simp add: pde_def ph2)
    have "pde s2 = pde s1" "pte s2 = pte s1"
      by (simp_all add: fun_eq_iff pde_def pte_def ph2)
    then have "translate s2 b = translate s1 b" for b
      by (simp add: translate_def Let_def)
    then have tr2: "translate s2 b = translate s b" for b
      using g(3) by simp
    have MAP_n: "MAP_NR ?f \<noteq> n" if "LOW_MEM \<le> ?f"
      using page_addr_MAP_NR [OF that page_base_frame_of] pf n(1) by auto
    have wf2: "wf_tables s2"
    proof -
      have "not_free s2 f" if "is_table s1 f" "not_free s1 f" for f
        using that old(1) page_addr_MAP_NR [of ?f] g(4)
        by (auto simp: s2_def not_free_def is_table_def)
      then show ?thesis
        using g(2) \<open>pde s2 = pde s1\<close> by (simp add: wf_tables_def is_table_def) blast
    qed
    have pi2: "present (pde s2 ?i)" "frame_of (pde s2 ?i) = ?t"
      using pi pde2 [OF i] by simp_all
    note w3 = translate_table_write [OF wf2 table_index_less [of a] i pi2(1), where e = "p OR 7",
        unfolded pi2(2), folded s3_def]
    have tb: "page_base ?t" "?t \<noteq> 0"
      using wf_tables_frame [OF wf i pi] by simp_all
    have pde3: "pde s3 k = pde s k" if "k < 1024" for k
      using pde_table_write [OF tb table_index_less that, of s2 a] pde2 [OF that]
      by (simp add: s3_def)
    then have np3: "\<not> is_table s3 p"
      using g(1) by (auto simp: is_table_def)
    have trs: "translate s' b = translate s3 b" for b
      using tables_frame_translate [OF w3(2) pb p np3, of s'] copy_page_other
      by (simp add: s' not_free_def)
    have ph3: "phys s3 (long_of ?f k) = phys s (long_of ?f k)" if "k < 1024" for k
      using that tf pf pb get_free_page_phys [OF get p] by (simp add: s3_def ph2 long_of_inj)
    show ?thesis
    proof (rule that [of "p OR 7"])
      show "translate s' a = Some (p OR 7)"
        by (simp add: trs w3(1))
      show "mem_map s' (MAP_NR (frame_of (p OR 7))) = 1"
        using pb n(1,2) MAP_n mm1 by (auto simp: s' s3_def s2_def)
      show "phys s' (long_of (frame_of (p OR 7)) k) = phys s (long_of ?f k)" if "k < 1024" for k
        using copy_page_copied [OF page_base_frame_of pb _ that, of e s3] pf pb ph3 [OF that]
        by (simp add: s')
      show "phys s' (long_of ?f k) = phys s (long_of ?f k)" if "k < 1024" for k
        using that pf pb ph3 [OF that] by (simp add: s' copy_page_other)
      show "translate s' b = translate s b"
        if "dir_index b \<noteq> dir_index a \<or> table_index b \<noteq> table_index a" for b
        using that by (auto simp: trs w3(1) tr2)
    qed (rule or7_writable)
  qed
qed


section \<open>Copying tables\<close>

text \<open>
  \<open>protect\<close> is the entry left in the parent: write access is withdrawn from the frames
  above \<open>LOW_MEM\<close>, the kernel's pages keep theirs. \<open>shares f js m\<close> counts the entries
  \<open>f j\<close> that add a user to frame \<open>m\<close>.
\<close>

definition readonly :: "u32 \<Rightarrow> u32" where
  "readonly e = e AND NOT 2"

definition counted :: "u32 \<Rightarrow> bool" where
  "counted e \<longleftrightarrow> present e \<and> LOW_MEM < readonly e"

definition protect :: "u32 \<Rightarrow> u32" where
  "protect e = (if counted e then readonly e else e)"

definition shares :: "(nat \<Rightarrow> u32) \<Rightarrow> nat list \<Rightarrow> nat \<Rightarrow> nat" where
  "shares f js m = length (filter (\<lambda>j. counted (f j) \<and> MAP_NR (readonly (f j)) = m) js)"

lemma present_readonly [simp]: "present (readonly e) = present e"
proof -
  have "NOT 2 AND 1 = (1 :: u32)" by simp
  then have "readonly e AND 1 = e AND 1"
    unfolding readonly_def by (metis and.assoc)
  then show ?thesis by (simp add: present_def)
qed

lemma readonly_not_writable: "readonly e AND 2 = 0"
  by (simp add: readonly_def and.assoc)

lemma readonly_idem [simp]: "readonly (readonly e) = readonly e"
  by (simp only: readonly_def and.assoc and.idem)

lemma frame_of_readonly [simp]: "frame_of (readonly e) = frame_of e"
proof -
  have "0xfffff000 AND NOT 2 = (0xfffff000 :: u32)" by simp
  moreover have "0xfffff000 AND (NOT 2 AND e) = (0xfffff000 AND NOT 2) AND e"
    by (rule and.assoc [symmetric])
  moreover have "readonly e = NOT 2 AND e"
    unfolding readonly_def by (rule and.commute)
  ultimately show ?thesis
    unfolding frame_of_def by simp
qed

lemma present_protect [simp]: "present (protect e) = present e"
  by (simp add: protect_def)

lemma shares_le: "shares f js m \<le> length js"
  by (simp add: shares_def)

lemma copy_table_step:
  "copy_table (Suc nr) fp tp s =
     (let e = phys s fp;
          ph = (if present e then (phys s)(tp := readonly e) else phys s)
      in copy_table nr (fp + 4) (tp + 4)
           (s\<lparr>phys := (if counted e then ph(fp := readonly e) else ph),
              mem_map := (if counted e
                          then (mem_map s)(MAP_NR (readonly e) := mem_map s (MAP_NR (readonly e)) + 1)
                          else mem_map s)\<rparr>))"
  by (simp add: Let_def present_def readonly_def counted_def)

declare copy_table.simps(2) [simp del]

text \<open>One entry: the state the loop goes on with.\<close>

definition copy_entry :: "u32 \<Rightarrow> u32 \<Rightarrow> mm \<Rightarrow> mm" where
  "copy_entry fp tp s =
     (let e = phys s fp;
          ph = (if present e then (phys s)(tp := readonly e) else phys s)
      in s\<lparr>phys := (if counted e then ph(fp := readonly e) else ph),
           mem_map := (if counted e
                       then (mem_map s)(MAP_NR (readonly e) := mem_map s (MAP_NR (readonly e)) + 1)
                       else mem_map s)\<rparr>)"

lemma copy_table_Suc:
  "copy_table (Suc nr) fp tp s = copy_table nr (fp + 4) (tp + 4) (copy_entry fp tp s)"
  by (simp add: copy_table_step copy_entry_def Let_def)

lemma counted_present: "counted e \<Longrightarrow> present e"
  by (simp add: counted_def)

lemma copy_entry_effect:
  fixes s :: mm
  assumes FT: "page_base F" "page_base T" "F \<noteq> T" and k: "k < 1024"
  defines "s1 \<equiv> copy_entry (long_of F k) (long_of T k) s"
  shows "j < 1024 \<Longrightarrow> phys s1 (long_of F j) =
      (if j = k then protect (phys s (long_of F k)) else phys s (long_of F j))"
    and "j < 1024 \<Longrightarrow> phys s1 (long_of T j) =
      (if j = k \<and> present (phys s (long_of F k)) then readonly (phys s (long_of F k))
       else phys s (long_of T j))"
    and "\<not> in_page F a \<Longrightarrow> \<not> in_page T a \<Longrightarrow> phys s1 a = phys s a"
    and "mem_map s1 m = mem_map s m + of_nat (shares (\<lambda>j. phys s (long_of F j)) [k] m)"
  using FT k in_page_long_of [of k F] in_page_long_of [of k T]
  by (auto simp: s1_def copy_entry_def Let_def long_of_inj protect_def shares_def counted_present)

lemma copy_table_effect:
  assumes FT: "page_base F" "page_base T" "F \<noteq> T" and "k + n \<le> 1024"
  shows "(\<forall>j < 1024. phys (copy_table n (long_of F k) (long_of T k) s) (long_of T j) =
      (if k \<le> j \<and> j < k + n \<and> present (phys s (long_of F j)) then readonly (phys s (long_of F j))
       else phys s (long_of T j))) \<and>
    (\<forall>j < 1024. phys (copy_table n (long_of F k) (long_of T k) s) (long_of F j) =
      (if k \<le> j \<and> j < k + n then protect (phys s (long_of F j)) else phys s (long_of F j))) \<and>
    (\<forall>a. \<not> in_page F a \<and> \<not> in_page T a \<longrightarrow>
      phys (copy_table n (long_of F k) (long_of T k) s) a = phys s a) \<and>
    (\<forall>m. mem_map (copy_table n (long_of F k) (long_of T k) s) m =
      mem_map s m + of_nat (shares (\<lambda>j. phys s (long_of F j)) [k..<k + n] m))"
  using assms(4)
proof (induction n arbitrary: k s)
  case 0
  then show ?case by (auto simp: shares_def)
next
  case (Suc n)
  then have k: "k < 1024" "Suc k + n \<le> 1024" by simp_all
  let ?s1 = "copy_entry (long_of F k) (long_of T k) s"
  note e = copy_entry_effect [OF FT k(1), where s = s]
  have step: "copy_table (Suc n) (long_of F k) (long_of T k) s =
      copy_table n (long_of F (Suc k)) (long_of T (Suc k)) ?s1"
    by (simp add: copy_table_Suc long_of_Suc)
  have upt: "[k..<k + Suc n] = k # [Suc k..<Suc k + n]"
    by (simp add: upt_rec)
  have sh: "shares (\<lambda>j. phys s (long_of F j)) [k..<k + Suc n] m =
      shares (\<lambda>j. phys s (long_of F j)) [k] m +
      shares (\<lambda>j. phys ?s1 (long_of F j)) [Suc k..<Suc k + n] m" for m
  proof -
    have "phys ?s1 (long_of F j) = phys s (long_of F j)" if "j \<in> set [Suc k..<Suc k + n]" for j
      using that k e(1) [of j] by auto
    note eq = this
    have "shares (\<lambda>j. phys ?s1 (long_of F j)) [Suc k..<Suc k + n] m =
        shares (\<lambda>j. phys s (long_of F j)) [Suc k..<Suc k + n] m"
      unfolding shares_def by (intro arg_cong [where f = length] filter_cong refl) (simp only: eq)
    then show ?thesis unfolding upt by (simp add: shares_def)
  qed
  let ?s' = "copy_table n (long_of F (Suc k)) (long_of T (Suc k)) ?s1"
  note IH = Suc.IH [OF k(2), of ?s1]
  have T': "phys ?s' (long_of T j) = (if k \<le> j \<and> j < k + Suc n \<and> present (phys s (long_of F j))
      then readonly (phys s (long_of F j)) else phys s (long_of T j))" if j: "j < 1024" for j
  proof -
    have "phys ?s' (long_of T j) =
        (if Suc k \<le> j \<and> j < Suc k + n \<and> present (phys ?s1 (long_of F j))
         then readonly (phys ?s1 (long_of F j)) else phys ?s1 (long_of T j))"
      using IH j by blast
    then show ?thesis using e(1) [OF j] e(2) [OF j] by auto
  qed
  have F': "phys ?s' (long_of F j) =
      (if k \<le> j \<and> j < k + Suc n then protect (phys s (long_of F j)) else phys s (long_of F j))"
    if j: "j < 1024" for j
  proof -
    have "phys ?s' (long_of F j) = (if Suc k \<le> j \<and> j < Suc k + n
         then protect (phys ?s1 (long_of F j)) else phys ?s1 (long_of F j))"
      using IH j by blast
    then show ?thesis using e(1) [OF j] by auto
  qed
  have O': "phys ?s' a = phys s a" if "\<not> in_page F a" "\<not> in_page T a" for a
    using IH e(3) that by auto
  have M': "mem_map ?s' m =
      mem_map s m + of_nat (shares (\<lambda>j. phys s (long_of F j)) [k..<k + Suc n] m)" for m
  proof -
    have "mem_map ?s' m = mem_map ?s1 m +
        of_nat (shares (\<lambda>j. phys ?s1 (long_of F j)) [Suc k..<Suc k + n] m)"
      using IH by blast
    then show ?thesis unfolding sh e(4) by simp
  qed
  show ?case
    unfolding step using T' F' O' M' by simp
qed

text \<open>
  The copy of a range of directory slots. \<open>from\<close> is not 0, so that whole tables are
  copied; the two ranges of slots are disjoint; no count is near the top of its 16 bits.
\<close>

lemma copy_one_dir:
  assumes wf: "wf_tables s" and get: "get_free_page s = (p, s1)" "p \<noteq> 0"
    and f: "f < 1024" "present (pde s f)" and t: "t < 1024" "\<not> present (pde s t)"
    and small: "\<forall>m. unat (mem_map s m) + Suc n * 1025 < 2 ^ 16"
  defines "s3 \<equiv> copy_table 1024 (frame_of (pde s f)) p
                   (s1\<lparr>phys := (phys s1)(long_of 0 t := p OR 7)\<rparr>)"
  shows copy_one_dir_pde: "k < 1024 \<Longrightarrow> pde s3 k = (if k = t then p OR 7 else pde s k)"
    and copy_one_dir_child: "j < 1024 \<Longrightarrow>
      pte s3 t j = (if present (pte s f j) then readonly (pte s f j) else 0)"
    and copy_one_dir_parent: "j < 1024 \<Longrightarrow> pte s3 f j = protect (pte s f j)"
    and copy_one_dir_other: "k < 1024 \<Longrightarrow> j < 1024 \<Longrightarrow> k \<noteq> f \<Longrightarrow> present (pde s k) \<Longrightarrow>
      pte s3 k j = pte s k j"
    and copy_one_dir_small: "\<forall>m. unat (mem_map s3 m) + n * 1025 < 2 ^ 16"
    and copy_one_dir_wf: "wf_tables s3"
proof -
  let ?F = "frame_of (pde s f)"
  define s2 where "s2 = s1\<lparr>phys := (phys s1)(long_of 0 t := p OR 7)\<rparr>"
  have pb: "page_base p" using get by (rule get_free_page_base)
  note new = new_table [OF wf get t, folded s2_def]
  have Fp: "?F \<noteq> p" using new_page_not_table [OF wf get f] .
  have F0: "?F \<noteq> 0" using wf_tables_frame [OF wf f] .
  have ft: "f \<noteq> t" using f t by auto
  note ct = copy_table_effect [OF page_base_frame_of pb Fp, of 0 1024 s2]
  have s3: "s3 = copy_table 1024 (long_of ?F 0) (long_of p 0) s2"
    by (simp add: s3_def s2_def long_of_def)
  have ctT: "phys s3 (long_of p j) = (if present (phys s2 (long_of ?F j))
      then readonly (phys s2 (long_of ?F j)) else phys s2 (long_of p j))"
    and ctF: "phys s3 (long_of ?F j) = protect (phys s2 (long_of ?F j))" if "j < 1024" for j
    unfolding s3 using ct that by auto
  have ctO: "phys s3 a = phys s2 a" if "\<not> in_page ?F a" "\<not> in_page p a" for a
    unfolding s3 using ct that by auto
  have ctM: "mem_map s3 m = mem_map s2 m + of_nat (shares (\<lambda>j. phys s2 (long_of ?F j)) [0..<1024] m)" for m
    unfolding s3 using ct by auto
  have pde32: "pde s3 k = pde s2 k" if "k < 1024" for k
    using that ctO [of "long_of 0 k"] F0 get(2) pb by (simp add: pde_def)
  show pde: "pde s3 k = (if k = t then p OR 7 else pde s k)" if "k < 1024" for k
    using pde32 [OF that] new(1) [OF that] by simp
  have p2F: "phys s2 (long_of ?F j) = pte s f j" if "j < 1024" for j
    using new(3) [OF f(1) that f(2)] new(1) [OF f(1)] ft by (simp add: pte_def)
  show "pte s3 t j = (if present (pte s f j) then readonly (pte s f j) else 0)" if "j < 1024" for j
    using ctT [OF that] p2F [OF that] new(2) [OF that] new(1) [OF t(1)] pde [OF t(1)] pb
    by (simp add: pte_def)
  show "pte s3 f j = protect (pte s f j)" if "j < 1024" for j
    using ctF [OF that] p2F [OF that] pde [OF f(1)] ft by (simp add: pte_def)
  show "pte s3 k j = pte s k j" if k: "k < 1024" "j < 1024" "k \<noteq> f" "present (pde s k)" for k j
  proof -
    have "frame_of (pde s k) \<noteq> ?F" using wf_tables_inj [OF wf k(1) f(1) k(4) f(2)] k(3) by auto
    moreover have "frame_of (pde s k) \<noteq> p" using new_page_not_table [OF wf get k(1,4)] .
    ultimately show ?thesis
      using k t pde [OF k(1)] new(3) [OF k(1,2,4)] new(1) [OF k(1)]
        ctO [of "long_of (frame_of (pde s k)) j"] pb
      by (auto simp: pte_def)
  qed
  have mm: "(mem_map s2 m \<noteq> 0 \<longrightarrow> mem_map s3 m \<noteq> 0) \<and> unat (mem_map s3 m) + n * 1025 < 2 ^ 16" for m
  proof -
    from get_free_page_spec [OF get] obtain q where "mem_map s2 = (mem_map s)(q := 1)"
      by (auto simp: s2_def)
    then have "unat (mem_map s2 m) \<le> unat (mem_map s m) + 1" by auto
    then have s2m: "unat (mem_map s2 m) + 1024 + n * 1025 < 2 ^ 16"
      using small [rule_format, of m] by simp
    define c where "c = shares (\<lambda>j. phys s2 (long_of ?F j)) [0..<1024] m"
    have "c \<le> 1024"
      unfolding c_def using shares_le [of _ "[0..<1024]"] by simp
    then have "unat (mem_map s3 m) = unat (mem_map s2 m) + c"
      unfolding ctM c_def [symmetric] using s2m by (simp add: unat_word_ariths unat_of_nat)
    then show ?thesis
      using s2m \<open>c \<le> 1024\<close> by (auto simp: unat_eq_0 [symmetric] simp del: unat_eq_0)
  qed
  then show "\<forall>m. unat (mem_map s3 m) + n * 1025 < 2 ^ 16" by blast
  have "not_free s3 x" if "not_free s2 x" for x
    using that mm by (auto simp: not_free_def)
  then show "wf_tables s3"
    using new(4) pde32 by (simp add: wf_tables_def)
qed

definition copied :: "mm \<Rightarrow> nat \<Rightarrow> nat \<Rightarrow> nat \<Rightarrow> mm \<Rightarrow> bool" where
  "copied s n f t s' \<longleftrightarrow> wf_tables s' \<and>
    (\<forall>k < 1024. \<not> (t \<le> k \<and> k < t + n) \<longrightarrow> pde s' k = pde s k) \<and>
    (\<forall>d < n. \<not> present (pde s (t + d)) \<and> present (pde s' (t + d)) = present (pde s (f + d))) \<and>
    (\<forall>d < n. \<forall>j < 1024. present (pde s (f + d)) \<longrightarrow>
       pte s' (t + d) j = (if present (pte s (f + d) j) then readonly (pte s (f + d) j) else 0) \<and>
       pte s' (f + d) j = protect (pte s (f + d) j)) \<and>
    (\<forall>k < 1024. \<forall>j < 1024. \<not> (f \<le> k \<and> k < f + n) \<and> \<not> (t \<le> k \<and> k < t + n) \<and> present (pde s k) \<longrightarrow>
       pte s' k j = pte s k j)"

lemma copied_step:
  assumes wf: "wf_tables s" and get: "get_free_page s = (p, s1)" "p \<noteq> 0"
    and f: "f < 1024" "present (pde s f)" and t: "t < 1024" "\<not> present (pde s t)"
    and small: "\<forall>m. unat (mem_map s m) + Suc n * 1025 < 2 ^ 16"
    and r: "f + Suc n \<le> 1024" "t + Suc n \<le> 1024" "f + Suc n \<le> t \<or> t + Suc n \<le> f"
    and c: "copied (copy_table 1024 (frame_of (pde s f)) p
              (s1\<lparr>phys := (phys s1)(long_of 0 t := p OR 7)\<rparr>)) n (Suc f) (Suc t) s'"
  shows "copied s (Suc n) f t s'"
proof -
  define s3 where "s3 = copy_table 1024 (frame_of (pde s f)) p
              (s1\<lparr>phys := (phys s1)(long_of 0 t := p OR 7)\<rparr>)"
  note one = copy_one_dir [OF wf get f t small, folded s3_def]
  note c' = c [folded s3_def, unfolded copied_def]
  have pt': "pde s' t = p OR 7" "pde s3 t = p OR 7"
    using c' one(1) [OF t(1)] t(1) by auto
  show ?thesis
    unfolding copied_def
  proof (intro conjI allI impI)
    show "wf_tables s'" using c' by blast
  next
    fix k assume "k < 1024" "\<not> (t \<le> k \<and> k < t + Suc n)"
    then show "pde s' k = pde s k" using c' one(1) [of k] by auto
  next
    fix d assume d: "d < Suc n"
    show "\<not> present (pde s (t + d))"
      using d t c' one(1) [of "t + d"] r by (cases d) auto
    show "present (pde s' (t + d)) = present (pde s (f + d))"
    proof (cases d)
      case 0
      then show ?thesis using pt' f by simp
    next
      case (Suc d')
      then have "present (pde s' (t + d)) = present (pde s3 (f + d))" using c' d by auto
      then show ?thesis using one(1) [of "f + d"] r d Suc by auto
    qed
  next
    fix d j :: nat assume d: "d < Suc n" "j < 1024" "present (pde s (f + d))"
    have "pte s' (t + d) j = (if present (pte s (f + d) j) then readonly (pte s (f + d) j) else 0) \<and>
        pte s' (f + d) j = protect (pte s (f + d) j)"
    proof (cases d)
      case 0
      have "pte s' t j = pte s3 t j" using c' t d(2) r pt' by auto
      moreover have "pte s' f j = pte s3 f j" using c' f d(2) r one(1) [OF f(1)] by auto
      ultimately show ?thesis using 0 one(2,3) [OF d(2)] by simp
    next
      case (Suc d')
      have ne: "f + d \<noteq> t" "f + d \<noteq> f" "f + d < 1024" using r d(1) Suc by auto
      have "pde s3 (f + d) = pde s (f + d)" using one(1) [OF ne(3)] ne(1) by simp
      moreover have "pte s3 (f + d) j = pte s (f + d) j"
        using one(4) [OF ne(3) d(2) ne(2) d(3)] .
      moreover have "d' < n" "t + d = Suc t + d'" "f + d = Suc f + d'" using Suc d by auto
      ultimately show ?thesis using c' d(2,3) by metis
    qed
    then show "pte s' (t + d) j = (if present (pte s (f + d) j) then readonly (pte s (f + d) j) else 0)"
      and "pte s' (f + d) j = protect (pte s (f + d) j)" by blast+
  next
    fix k j :: nat assume k: "k < 1024" "j < 1024"
      "\<not> (f \<le> k \<and> k < f + Suc n) \<and> \<not> (t \<le> k \<and> k < t + Suc n) \<and> present (pde s k)"
    then have "pte s3 k j = pte s k j" using one(4) by auto
    moreover have "pte s' k j = pte s3 k j" using c' k one(1) [OF k(1)] by auto
    ultimately show "pte s' k j = pte s k j" by simp
  qed
qed

lemma copied_skip:
  assumes "\<not> present (pde s f)" "\<not> present (pde s t)" "t < 1024"
    and c: "copied s n (Suc f) (Suc t) s'"
  shows "copied s (Suc n) f t s'"
proof -
  note c' = c [unfolded copied_def]
  have pt: "pde s' t = pde s t" using c' assms(3) by auto
  show ?thesis
    unfolding copied_def
  proof (intro conjI allI impI)
    show "wf_tables s'" using c' by blast
  next
    fix k assume "k < 1024" "\<not> (t \<le> k \<and> k < t + Suc n)"
    then show "pde s' k = pde s k" using c' by auto
  next
    fix d assume d: "d < Suc n"
    show "\<not> present (pde s (t + d))" "present (pde s' (t + d)) = present (pde s (f + d))"
      using d c' assms pt by (cases d; auto)+
  next
    fix d j :: nat assume d: "d < Suc n" "j < 1024" "present (pde s (f + d))"
    then obtain d' where d': "d = Suc d'" "d' < n" using assms(1) by (cases d) auto
    then have "t + d = Suc t + d'" "f + d = Suc f + d'" by simp_all
    then show "pte s' (t + d) j = (if present (pte s (f + d) j) then readonly (pte s (f + d) j) else 0)"
      "pte s' (f + d) j = protect (pte s (f + d) j)"
      using c' d d' by metis+
  next
    fix k j :: nat assume "k < 1024" "j < 1024"
      "\<not> (f \<le> k \<and> k < f + Suc n) \<and> \<not> (t \<le> k \<and> k < t + Suc n) \<and> present (pde s k)"
    then show "pte s' k j = pte s k j" using c' by auto
  qed
qed

lemma copy_dirs_copied:
  assumes "wf_tables s" and "copy_dirs n from (long_of 0 f) (long_of 0 t) s = Inr (0, s')"
    and "from \<noteq> 0" and "f + n \<le> 1024" "t + n \<le> 1024" "f + n \<le> t \<or> t + n \<le> f"
    and "\<forall>m. unat (mem_map s m) + n * 1025 < 2 ^ 16"
  shows "copied s n f t s'"
  using assms
proof (induction n arbitrary: f t s)
  case 0
  then show ?case by (simp add: copied_def)
next
  case (Suc n)
  have slots: "long_of 0 f + 4 = long_of 0 (Suc f)" "long_of 0 t + 4 = long_of 0 (Suc t)"
    by (simp_all add: long_of_Suc)
  have nt: "\<not> present (pde s t)"
    using Suc.prems(2) by (auto simp: pde_def present_def split: if_splits)
  show ?case
  proof (cases "present (pde s f)")
    case False
    then have "copy_dirs n from (long_of 0 (Suc f)) (long_of 0 (Suc t)) s = Inr (0, s')"
      using Suc.prems(2) nt by (simp add: pde_def present_def slots)
    moreover have "\<forall>m. unat (mem_map s m) + n * 1025 < 2 ^ 16"
    proof
      show "unat (mem_map s m) + n * 1025 < 2 ^ 16" for m
        using Suc.prems(7) [rule_format, of m] by simp
    qed
    ultimately have "copied s n (Suc f) (Suc t) s'"
      using Suc.prems(1,3-6) by (intro Suc.IH) auto
    then show ?thesis
      using copied_skip [OF False nt] Suc.prems(5) by simp
  next
    case True
    obtain p s1 where get: "get_free_page s = (p, s1)" by fastforce
    let ?s3 = "copy_table 1024 (frame_of (pde s f)) p (s1\<lparr>phys := (phys s1)(long_of 0 t := p OR 7)\<rparr>)"
    have p: "p \<noteq> 0" and run: "copy_dirs n from (long_of 0 (Suc f)) (long_of 0 (Suc t)) ?s3 = Inr (0, s')"
      using Suc.prems(2,3) nt True get
      by (auto simp: pde_def present_def slots Let_def split: if_splits)
    have ft: "f < 1024" "t < 1024" using Suc.prems by simp_all
    note one = copy_one_dir [OF Suc.prems(1) get p ft(1) True ft(2) nt Suc.prems(7)]
    have "copied ?s3 n (Suc f) (Suc t) s'"
      using one(5,6) Suc.prems by (intro Suc.IH run) auto
    then show ?thesis
      using copied_step [OF Suc.prems(1) get p ft(1) True ft(2) nt Suc.prems(7)] Suc.prems by blast
  qed
qed

lemma dir_slot_aligned: "dir_slot a = long_of 0 (dir_index a)"
  by (rule dir_slot_eq)

text \<open>The number of directory slots that a size in bytes takes.\<close>

definition dirs :: "u32 \<Rightarrow> nat" where
  "dirs sz = unat (drop_bit 22 (sz + 0x3fffff))"



section \<open>Freeing tables\<close>

lemma free_page_phys: "free_page addr s = Inr s' \<Longrightarrow> phys s' = phys s"
  by (auto simp: free_page_def Let_def split: if_splits)

lemma free_table_phys:
  assumes "page_base F" "k + n \<le> 1024" "free_table n (long_of F k) s = Inr s'"
  shows "phys s' a = (if \<exists>j. k \<le> j \<and> j < k + n \<and> a = long_of F j then 0 else phys s a)"
  using assms(2,3)
proof (induction n arbitrary: k s)
  case 0
  then show ?case by auto
next
  case (Suc n)
  obtain s1 where s1: "phys s1 = phys s"
      "free_table n (long_of F (Suc k)) (s1\<lparr>phys := (phys s1)(long_of F k := 0)\<rparr>) = Inr s'"
    using Suc.prems(2) by (auto simp: long_of_Suc elim!: andthen_InrE dest: free_page_phys split: if_splits)
  have "phys s' a = (if \<exists>j. Suc k \<le> j \<and> j < Suc k + n \<and> a = long_of F j then 0
      else phys (s1\<lparr>phys := (phys s1)(long_of F k := 0)\<rparr>) a)"
    by (rule Suc.IH [OF _ s1(2)]) (use Suc.prems(1) in simp)
  moreover have "(\<exists>j. k \<le> j \<and> j < k + Suc n \<and> a = long_of F j) \<longleftrightarrow>
      a = long_of F k \<or> (\<exists>j. Suc k \<le> j \<and> j < Suc k + n \<and> a = long_of F j)"
    by (metis Suc_le_eq add_Suc add_Suc_right le_eq_less_or_eq le_refl less_add_Suc1)
  ultimately show ?case
    using s1(1) by (cases "a = long_of F k") (auto simp del: Suc_le_eq)
qed

lemma free_table_page:
  assumes "page_base F" "free_table 1024 F s = Inr s'"
  shows "phys s' a = (if in_page F a then 0 else phys s a)"
  using free_table_phys [OF assms(1), of 0 1024 s s' a] assms(2)
  by (auto simp: long_of_def in_page_def)

definition separate_tables :: "mm \<Rightarrow> bool" where
  "separate_tables s \<longleftrightarrow>
     (\<forall>i < 1024. present (pde s i) \<longrightarrow> frame_of (pde s i) \<noteq> 0) \<and>
     (\<forall>i < 1024. \<forall>j < 1024. present (pde s i) \<and> present (pde s j) \<and>
        frame_of (pde s i) = frame_of (pde s j) \<longrightarrow> i = j)"

lemma wf_tables_separate: "wf_tables s \<Longrightarrow> separate_tables s"
  by (simp add: wf_tables_def separate_tables_def)

lemma free_one_dir:
  assumes sep: "separate_tables s" and k: "k < 1024" "present (pde s k)"
    and t: "free_table 1024 (frame_of (pde s k)) s = Inr s1"
    and p: "free_page x s1 = Inr s2"
  defines "s3 \<equiv> s2\<lparr>phys := (phys s2)(long_of 0 k := 0)\<rparr>"
  shows "i < 1024 \<Longrightarrow> pde s3 i = (if i = k then 0 else pde s i)"
    and "i < 1024 \<Longrightarrow> j < 1024 \<Longrightarrow> i \<noteq> k \<Longrightarrow> present (pde s i) \<Longrightarrow> pte s3 i j = pte s i j"
    and "separate_tables s3"
proof -
  have F0: "frame_of (pde s k) \<noteq> 0" using sep k by (simp add: separate_tables_def)
  have ph: "phys s3 a = (if a = long_of 0 k then 0 else
      if in_page (frame_of (pde s k)) a then 0 else phys s a)" for a
    using free_table_page [OF page_base_frame_of t] free_page_phys [OF p] by (simp add: s3_def)
  show pde: "pde s3 i = (if i = k then 0 else pde s i)" if "i < 1024" for i
    using that k F0 by (simp add: pde_def ph long_of_inj)
  show "pte s3 i j = pte s i j" if i: "i < 1024" "j < 1024" "i \<noteq> k" "present (pde s i)"
  proof -
    have "frame_of (pde s i) \<noteq> 0" "frame_of (pde s i) \<noteq> frame_of (pde s k)"
      using sep k i unfolding separate_tables_def by blast+
    then show ?thesis
      using i k by (simp add: pte_def pde ph long_of_inj)
  qed
  show "separate_tables s3"
    using sep pde by (auto simp: separate_tables_def)
qed

lemma free_dirs_unmaps:
  assumes "separate_tables s" and "free_dirs n (long_of 0 f) s = Inr s'" and "f + n \<le> 1024"
  shows "\<forall>k < 1024. pde s' k =
      (if f \<le> k \<and> k < f + n \<and> present (pde s k) then 0 else pde s k)"
    and "\<forall>k < 1024. \<forall>j < 1024. \<not> (f \<le> k \<and> k < f + n) \<and> present (pde s k) \<longrightarrow> pte s' k j = pte s k j"
proof -
  have "(\<forall>k < 1024. pde s' k = (if f \<le> k \<and> k < f + n \<and> present (pde s k) then 0 else pde s k)) \<and>
     (\<forall>k < 1024. \<forall>j < 1024. \<not> (f \<le> k \<and> k < f + n) \<and> present (pde s k) \<longrightarrow> pte s' k j = pte s k j)"
    using assms
  proof (induction n arbitrary: f s)
    case 0
    then show ?case by auto
  next
    case (Suc n)
    have f: "f < 1024" "Suc f + n \<le> 1024" using Suc.prems by simp_all
    have e: "phys s (long_of 0 f) = pde s f" by (simp add: pde_def)
    show ?case
    proof (cases "present (pde s f)")
      case False
      then have "free_dirs n (long_of 0 (Suc f)) s = Inr s'"
        using Suc.prems(2) by (simp add: e present_def long_of_Suc)
      from Suc.IH [OF Suc.prems(1) this f(2)] show ?thesis
        using False by (auto simp: Suc_le_eq le_less)
    next
      case True
      then obtain s1 s2 where
        t: "free_table 1024 (frame_of (pde s f)) s = Inr s1" and
        p: "free_page (frame_of (phys s1 (long_of 0 f))) s1 = Inr s2" and
        r: "free_dirs n (long_of 0 (Suc f)) (s2\<lparr>phys := (phys s2)(long_of 0 f := 0)\<rparr>) = Inr s'"
        using Suc.prems(2) by (auto simp: e present_def long_of_Suc elim!: andthen_InrE)
      note one = free_one_dir [OF Suc.prems(1) f(1) True t p]
      note IH = Suc.IH [OF one(3) r f(2)]
      show ?thesis
        using IH one(1,2) True by (auto simp: Suc_le_eq le_less)
    qed
  qed
  then show "\<forall>k < 1024. pde s' k =
      (if f \<le> k \<and> k < f + n \<and> present (pde s k) then 0 else pde s k)"
    and "\<forall>k < 1024. \<forall>j < 1024. \<not> (f \<le> k \<and> k < f + n) \<and> present (pde s k) \<longrightarrow> pte s' k j = pte s k j"
    by blast+
qed

text \<open>
  C2. free_page_tables unmaps every address of its range and leaves the mapping of every other
  address as it was.
\<close>

theorem free_page_tables_unmaps:
  assumes wf: "wf_tables s" and run: "free_page_tables from sz s = Inr s'"
    and range: "dir_index from + dirs sz \<le> 1024"
  shows "translate s' a =
    (if dir_index from \<le> dir_index a \<and> dir_index a < dir_index from + dirs sz then None
     else translate s a)"
proof -
  have "free_dirs (dirs sz) (long_of 0 (dir_index from)) s = Inr s'"
    using run by (auto simp: free_page_tables_def dir_slot_eq dirs_def split: if_splits)
  from free_dirs_unmaps [OF wf_tables_separate [OF wf] this range] show ?thesis
    using dir_index_less [of a] by (auto simp: translate_def Let_def)
qed

end
