(* ===== verification/Segment.thy ===== *)
theory Segment
  imports Sched Page_Tables
begin

unbundle bit_operations_syntax

text \<open>
  The access of the kernel to the memory of the process (include/asm/segment.h):
  \<open>get_fs_*\<close> and \<open>put_fs_*\<close> on bytes, words and longs, little endian, through the segment
  register \<open>%fs\<close>; and \<open>verify_area\<close> (kernel/fork.c), which makes the pages of an area
  writable before the kernel writes there.
\<close>

type_synonym user_mem = "u32 \<Rightarrow> u8"

definition get_fs_byte :: "user_mem \<Rightarrow> u32 \<Rightarrow> u8" where
  "get_fs_byte m a = m a"

definition get_fs_word :: "user_mem \<Rightarrow> u32 \<Rightarrow> u16" where
  "get_fs_word m a = ucast (m a) OR push_bit 8 (ucast (m (a + 1)))"

definition get_fs_long :: "user_mem \<Rightarrow> u32 \<Rightarrow> u32" where
  "get_fs_long m a = ucast (m a) OR push_bit 8 (ucast (m (a + 1))) OR
     push_bit 16 (ucast (m (a + 2))) OR push_bit 24 (ucast (m (a + 3)))"

definition put_fs_byte :: "u8 \<Rightarrow> u32 \<Rightarrow> user_mem \<Rightarrow> user_mem" where
  "put_fs_byte v a m = m(a := v)"

definition put_fs_word :: "u16 \<Rightarrow> u32 \<Rightarrow> user_mem \<Rightarrow> user_mem" where
  "put_fs_word v a m = m(a := ucast v, a + 1 := ucast (drop_bit 8 v))"

definition put_fs_long :: "u32 \<Rightarrow> u32 \<Rightarrow> user_mem \<Rightarrow> user_mem" where
  "put_fs_long v a m = m(a := ucast v, a + 1 := ucast (drop_bit 8 v),
     a + 2 := ucast (drop_bit 16 v), a + 3 := ucast (drop_bit 24 v))"

text \<open>The loops that copy bytes out one by one, upwards from an address.\<close>

fun put_fs_bytes :: "u8 list \<Rightarrow> u32 \<Rightarrow> user_mem \<Rightarrow> user_mem" where
  "put_fs_bytes [] a m = m"
| "put_fs_bytes (v # vs) a m = put_fs_bytes vs (a + 1) (put_fs_byte v a m)"

definition get_fs_bytes :: "nat \<Rightarrow> u32 \<Rightarrow> user_mem \<Rightarrow> u8 list" where
  "get_fs_bytes n a m = map (\<lambda>i. get_fs_byte m (a + of_nat i)) [0..<n]"

definition put_user :: "(user_mem \<Rightarrow> user_mem) \<Rightarrow> kern \<Rightarrow> kern" where
  "put_user f s = s\<lparr>fs_mem := f (fs_mem s)\<rparr>"

text \<open>\<open>size\<close> is a signed int that goes down by pages.\<close>

function verify_pages :: "int \<Rightarrow> u32 \<Rightarrow> mm \<Rightarrow> mm result" where
  "verify_pages sz start m =
     (if 0 < sz then andthen (write_verify start m) (verify_pages (sz - 4096) (start + 4096))
      else Inr m)"
  by pat_completeness auto
termination by (relation "measure (\<lambda>(sz, _). nat sz)") auto

declare verify_pages.simps [simp del]

definition verify_area :: "u32 \<Rightarrow> int \<Rightarrow> kern \<Rightarrow> kern result" where
  "verify_area addr sz s =
     (let sz = s32 (sz + uint (addr AND 0xfff));
          start = (addr AND 0xfffff000) + get_base (ldt (cur s) ! 2)
      in andthen (verify_pages sz start (mem s)) (\<lambda>m. Inr (s\<lparr>mem := m\<rparr>)))"


section \<open>Round trips\<close>

lemma add_small_neq:
  fixes a :: u32
  assumes "i < 2 ^ 32" "j < 2 ^ 32" "i \<noteq> j"
  shows "a + of_nat i \<noteq> a + of_nat j"
  using assms by (metis add_left_imp_eq unat_of_nat_small)

lemma add_123: "(a :: u32) + 1 \<noteq> a" "a + 2 \<noteq> a" "a + 3 \<noteq> a"
  "a + 2 \<noteq> a + 1" "a + 3 \<noteq> a + 1" "a + 3 \<noteq> a + 2"
  by simp_all

lemma bytes_of_long:
  fixes v :: u32
  shows "ucast (ucast v :: u8) OR push_bit 8 (ucast (ucast (drop_bit 8 v) :: u8)) OR
      push_bit 16 (ucast (ucast (drop_bit 16 v) :: u8)) OR
      push_bit 24 (ucast (ucast (drop_bit 24 v) :: u8)) = v" (is "?l = v")
proof (rule bit_word_eqI)
  fix n assume "n < LENGTH(32)"
  then show "bit ?l n = bit v n"
    by (cases "n < 8"; cases "n < 16"; cases "n < 24"; auto simp: bit_simps)
qed

lemma get_put_fs_long: "get_fs_long (put_fs_long v a m) a = v"
proof -
  have "get_fs_long (put_fs_long v a m) a =
      ucast (ucast v :: u8) OR push_bit 8 (ucast (ucast (drop_bit 8 v) :: u8)) OR
      push_bit 16 (ucast (ucast (drop_bit 16 v) :: u8)) OR
      push_bit 24 (ucast (ucast (drop_bit 24 v) :: u8))"
    by (simp add: get_fs_long_def put_fs_long_def)
  then show ?thesis by (simp only: bytes_of_long)
qed

lemma put_fs_bytes_other:
  "(\<And>i. i < length vs \<Longrightarrow> b \<noteq> a + of_nat i) \<Longrightarrow> put_fs_bytes vs a m b = m b"
proof (induction vs arbitrary: a m)
  case (Cons v vs)
  have "b \<noteq> a" using Cons.prems [of 0] by simp
  moreover have "b \<noteq> a + 1 + of_nat i" if "i < length vs" for i
    using Cons.prems [of "Suc i"] that by (simp add: add.assoc)
  moreover have "put_fs_byte v a m b = m b"
    using calculation(1) by (simp add: put_fs_byte_def)
  ultimately show ?case
    unfolding put_fs_bytes.simps using Cons.IH [of "a + 1" "put_fs_byte v a m"] by metis
qed simp

lemma put_fs_bytes_nth:
  "length vs \<le> 2 ^ 32 \<Longrightarrow> i < length vs \<Longrightarrow> put_fs_bytes vs a m (a + of_nat i) = vs ! i"
proof (induction vs arbitrary: a m i)
  case (Cons v vs)
  show ?case
  proof (cases i)
    case 0
    have "a \<noteq> a + 1 + of_nat j" if "j < length vs" for j
      using add_small_neq [of 0 "Suc j" a] Cons.prems(1) that by (simp add: add.assoc)
    then show ?thesis
      using put_fs_bytes_other [of vs a "a + 1" "put_fs_byte v a m"] 0
      by (simp add: put_fs_byte_def [of v a m, THEN fun_cong])
  next
    case (Suc j)
    then show ?thesis
      using Cons.IH [of j "a + 1" "put_fs_byte v a m"] Cons.prems by (simp add: add.assoc)
  qed
qed simp

text \<open>
  Bytes that are put into the user segment one after the other are the ones that are got
  from there.
\<close>

theorem get_put_fs_bytes:
  "length vs \<le> 2 ^ 32 \<Longrightarrow> get_fs_bytes (length vs) a (put_fs_bytes vs a m) = vs"
  by (rule nth_equalityI) (simp_all add: get_fs_bytes_def get_fs_byte_def put_fs_bytes_nth)

end
