(* ===== verification/Ring.thy ===== *)
theory Ring
  imports Prelude
begin

unbundle bit_operations_syntax

text \<open>
  Circular buffers: the terminals (include/linux/tty.h) and the pipes (fs/pipe.c) both
  keep a buffer of a power of two of characters with a head and a tail index. The locale
  \<open>fifo\<close> is what their users rely on; the lemmas below it do the index arithmetic once
  for both.
\<close>

section \<open>The interface\<close>

locale fifo =
  fixes invar :: "'q \<Rightarrow> bool"
    and abs :: "'q \<Rightarrow> 'c list"
    and put :: "'c \<Rightarrow> 'q \<Rightarrow> 'q"
    and get :: "'q \<Rightarrow> 'c \<times> 'q"
    and cap :: nat
  assumes put_invar: "invar q \<Longrightarrow> invar (put c q)"
    and put_abs: "invar q \<Longrightarrow> length (abs q) < cap \<Longrightarrow> abs (put c q) = abs q @ [c]"
    and get_invar: "invar q \<Longrightarrow> invar (snd (get q))"
    and get_abs: "invar q \<Longrightarrow> abs q \<noteq> [] \<Longrightarrow> abs q = fst (get q) # abs (snd (get q))"
    and abs_cap: "invar q \<Longrightarrow> length (abs q) \<le> cap"
begin

text \<open>Taking out a number of characters, one after the other.\<close>

fun drain :: "nat \<Rightarrow> 'q \<Rightarrow> 'c list \<times> 'q" where
  "drain 0 q = ([], q)"
| "drain (Suc n) q = (let (c, q) = get q; (cs, q) = drain n q in (c # cs, q))"

lemma fill_invar: "invar q \<Longrightarrow> invar (fold put cs q)"
  by (induction cs arbitrary: q) (auto intro: put_invar)

lemma fill_abs:
  "invar q \<Longrightarrow> length (abs q) + length cs \<le> cap \<Longrightarrow> abs (fold put cs q) = abs q @ cs"
proof (induction cs arbitrary: q)
  case (Cons c cs)
  have "abs (put c q) = abs q @ [c]" using Cons.prems by (intro put_abs) auto
  then show ?case using Cons.IH [of "put c q"] Cons.prems by (simp add: put_invar)
qed simp

lemma drain_invar: "invar q \<Longrightarrow> invar (snd (drain n q))"
  by (induction n arbitrary: q) (auto simp: split_beta Let_def intro: get_invar)

lemma drain_abs:
  "invar q \<Longrightarrow> n \<le> length (abs q) \<Longrightarrow>
     fst (drain n q) = take n (abs q) \<and> abs (snd (drain n q)) = drop n (abs q)"
proof (induction n arbitrary: q)
  case (Suc n)
  then have "abs q \<noteq> []" by auto
  then have a: "abs q = fst (get q) # abs (snd (get q))" using Suc.prems by (intro get_abs)
  then have len: "n \<le> length (abs (snd (get q)))" using Suc.prems(2) by (metis Suc_le_mono length_Cons)
  have IH: "fst (drain n (snd (get q))) = take n (abs (snd (get q))) \<and>
      abs (snd (drain n (snd (get q)))) = drop n (abs (snd (get q)))"
    using Suc.IH [OF get_invar [OF Suc.prems(1)] len] .
  show ?case
    using IH by (subst (1 2) a) (simp add: split_beta Let_def)
qed simp

text \<open>What goes in comes out in the same order, whatever was in before.\<close>

lemma fill_drain:
  "invar q \<Longrightarrow> length (abs q) + length cs \<le> cap \<Longrightarrow>
     fst (drain (length (abs q) + length cs) (fold put cs q)) = abs q @ cs"
  using drain_abs [where q = "fold put cs q" and n = "length (abs q) + length cs"]
    fill_abs [of q cs] fill_invar [of q cs] by simp

end


section \<open>Index arithmetic\<close>

text \<open>
  An index is kept below \<open>2 ^ k\<close> by masking. \<open>ring_abs\<close> is the text from the tail up to
  the head.
\<close>

definition ring_inc :: "nat \<Rightarrow> u32 \<Rightarrow> u32" where
  "ring_inc k a = (a + 1) AND mask k"

definition ring_dec :: "nat \<Rightarrow> u32 \<Rightarrow> u32" where
  "ring_dec k a = (a - 1) AND mask k"

definition ring_chars :: "nat \<Rightarrow> u32 \<Rightarrow> u32 \<Rightarrow> u32" where
  "ring_chars k h t = (h - t) AND mask k"

definition ring_abs :: "nat \<Rightarrow> u8 list \<Rightarrow> u32 \<Rightarrow> u32 \<Rightarrow> u8 list" where
  "ring_abs k b h t =
     map (\<lambda>i. b ! ((unat t + i) mod 2 ^ k)) [0..<unat (ring_chars k h t)]"

definition ring_ok :: "nat \<Rightarrow> u8 list \<Rightarrow> u32 \<Rightarrow> u32 \<Rightarrow> bool" where
  "ring_ok k b h t \<longleftrightarrow> length b = 2 ^ k \<and> unat h < 2 ^ k \<and> unat t < 2 ^ k"

lemma unat_and_mask: "unat (a AND mask k :: u32) = unat a mod 2 ^ k"
proof -
  have "a AND mask k = take_bit k a" by (simp add: take_bit_eq_mask)
  then show ?thesis by (simp only: unsigned_take_bit_eq) (simp add: take_bit_eq_mod)
qed

lemma pow_dvd_2_32: "k \<le> 32 \<Longrightarrow> (2 :: nat) ^ k dvd 2 ^ 32"
  by (rule le_imp_power_dvd)

lemma unat_ring_inc: "k \<le> 32 \<Longrightarrow> unat (ring_inc k a) = (unat a + 1) mod 2 ^ k"
  using pow_dvd_2_32 [of k]
  unfolding ring_inc_def unat_and_mask by (simp add: unat_word_ariths mod_mod_cancel)

lemma unat_diff_mod:
  fixes a b :: u32
  assumes "k \<le> 32" and "unat b \<le> 2 ^ k"
  shows "unat (a - b) mod 2 ^ k = (unat a + (2 ^ k - unat b)) mod 2 ^ k"
proof -
  have u: "uint (a - b) mod 2 ^ k = (uint a - uint b) mod 2 ^ k"
  proof -
    have d: "(2 :: int) ^ k dvd 2 ^ 32" using assms(1) by (rule le_imp_power_dvd)
    have "uint (a - b) = (uint a - uint b) mod 2 ^ 32" by (simp add: uint_word_ariths)
    then show ?thesis using d by (simp add: mod_mod_cancel)
  qed
  have "int (unat (a - b) mod 2 ^ k) = uint (a - b) mod 2 ^ k"
    by (simp add: zmod_int)
  also have "\<dots> = (uint a - uint b + 2 ^ k) mod 2 ^ k" by (simp add: u)
  also have "uint a - uint b + 2 ^ k = int (unat a + (2 ^ k - unat b))"
    using assms(2) by (simp add: of_nat_diff)
  also have "\<dots> mod 2 ^ k = int ((unat a + (2 ^ k - unat b)) mod 2 ^ k)"
    by (simp add: zmod_int)
  finally show ?thesis by (simp only: of_nat_eq_iff)
qed

lemma unat_ring_chars:
  "k \<le> 32 \<Longrightarrow> unat t < 2 ^ k \<Longrightarrow> unat (ring_chars k h t) = (unat h + (2 ^ k - unat t)) mod 2 ^ k"
  unfolding ring_chars_def unat_and_mask by (rule unat_diff_mod) auto

lemma ring_chars_cases:
  assumes "k \<le> 32" "unat h < 2 ^ k" "unat t < 2 ^ k"
  shows "unat (ring_chars k h t) =
    (if unat t \<le> unat h then unat h - unat t else unat h + 2 ^ k - unat t)"
  using assms by (auto simp: unat_ring_chars le_mod_geq mod_if)

lemma length_ring_abs [simp]: "length (ring_abs k b h t) = unat (ring_chars k h t)"
  by (simp add: ring_abs_def)

lemma ring_abs_less: "length (ring_abs k b h t) < 2 ^ k"
  by (simp add: ring_chars_def unat_and_mask)

lemma ring_inc_cases:
  "k \<le> 32 \<Longrightarrow> unat a < 2 ^ k \<Longrightarrow> unat (ring_inc k a) = (if unat a + 1 = 2 ^ k then 0 else unat a + 1)"
  by (auto simp: unat_ring_inc)

lemma ring_empty:
  assumes "k \<le> 32" "unat h < 2 ^ k" "unat t < 2 ^ k"
  shows "ring_abs k b h t = [] \<longleftrightarrow> h = t"
proof -
  have "ring_abs k b h t = [] \<longleftrightarrow> unat (ring_chars k h t) = 0"
    by (metis length_0_conv length_ring_abs)
  also have "\<dots> \<longleftrightarrow> unat h = unat t"
    using assms by (auto simp: ring_chars_cases)
  finally show ?thesis by (simp add: word_unat_eq_iff)
qed

text \<open>Writing at the head of a buffer that is not full, reading at the tail.\<close>

lemma ring_put:
  assumes k: "k \<le> 32" and ok: "ring_ok k b h t" and room: "unat (ring_chars k h t) < 2 ^ k - 1"
  shows "ring_abs k (b[unat h := c]) (ring_inc k h) t = ring_abs k b h t @ [c]"
    and "ring_ok k (b[unat h := c]) (ring_inc k h) t"
proof -
  have ht: "unat h < 2 ^ k" "unat t < 2 ^ k" "length b = 2 ^ k" using ok by (auto simp: ring_ok_def)
  let ?n = "unat (ring_chars k h t)"
  have n: "?n = (if unat t \<le> unat h then unat h - unat t else unat h + 2 ^ k - unat t)"
    by (rule ring_chars_cases [OF k ht(1,2)])
  have inc: "unat (ring_inc k h) = (if unat h + 1 = 2 ^ k then 0 else unat h + 1)"
    by (rule ring_inc_cases [OF k ht(1)])
  have inc_less: "unat (ring_inc k h) < 2 ^ k" using ht(1) by (simp add: inc)
  have n': "unat (ring_chars k (ring_inc k h) t) = Suc ?n"
    unfolding ring_chars_cases [OF k inc_less ht(2)] inc using ht room n by auto
  have pos: "(unat t + ?n) mod 2 ^ k = unat h"
    using ht n by auto
  have other: "(unat t + i) mod 2 ^ k \<noteq> unat h" if "i < ?n" for i
  proof (cases "unat t + i < 2 ^ k")
    case True
    then show ?thesis using that n ht by (auto split: if_splits)
  next
    case False
    then have "(unat t + i) mod 2 ^ k = unat t + i - 2 ^ k"
      using that n ht by (subst mod_if) (auto split: if_splits simp: le_mod_geq)
    then show ?thesis using that n ht False by (auto split: if_splits)
  qed
  show "ring_abs k (b[unat h := c]) (ring_inc k h) t = ring_abs k b h t @ [c]"
  proof -
    have "map (\<lambda>i. b[unat h := c] ! ((unat t + i) mod 2 ^ k)) [0..<?n] =
        map (\<lambda>i. b ! ((unat t + i) mod 2 ^ k)) [0..<?n]"
    proof (rule map_cong [OF refl])
      fix i assume "i \<in> set [0..<?n]"
      then have "(unat t + i) mod 2 ^ k \<noteq> unat h" using other by simp
      then show "b[unat h := c] ! ((unat t + i) mod 2 ^ k) = b ! ((unat t + i) mod 2 ^ k)"
        by (metis nth_list_update_neq)
    qed
    moreover have "b[unat h := c] ! ((unat t + ?n) mod 2 ^ k) = c"
      unfolding pos using ht by simp
    ultimately show ?thesis unfolding ring_abs_def n' by simp
  qed
  show "ring_ok k (b[unat h := c]) (ring_inc k h) t"
    using ok inc_less by (simp add: ring_ok_def)
qed

lemma ring_get:
  assumes k: "k \<le> 32" and ok: "ring_ok k b h t" and ne: "h \<noteq> t"
  shows "ring_abs k b h t = b ! unat t # ring_abs k b h (ring_inc k t)"
    and "ring_ok k b h (ring_inc k t)"
proof -
  have ht: "unat h < 2 ^ k" "unat t < 2 ^ k" "length b = 2 ^ k" using ok by (auto simp: ring_ok_def)
  have ne': "unat h \<noteq> unat t" using ne by (simp add: word_unat_eq_iff)
  let ?n = "unat (ring_chars k h (ring_inc k t))"
  have inc: "unat (ring_inc k t) = (if unat t + 1 = 2 ^ k then 0 else unat t + 1)"
    by (rule ring_inc_cases [OF k ht(2)])
  have inc_less: "unat (ring_inc k t) < 2 ^ k" using ht(2) by (simp add: inc)
  have n: "unat (ring_chars k h t) = Suc ?n"
    unfolding ring_chars_cases [OF k ht(1,2)] ring_chars_cases [OF k ht(1) inc_less] inc
    using ht ne' by auto
  have shift: "(unat t + Suc i) mod 2 ^ k = (unat (ring_inc k t) + i) mod 2 ^ k" for i
    unfolding unat_ring_inc [OF k] by (simp add: mod_add_left_eq)
  have upt: "[0..<Suc m] = 0 # map Suc [0..<m]" for m
    by (simp only: map_Suc_upt upt_rec [of 0 "Suc m"]) simp
  have first: "(unat t + 0) mod 2 ^ k = unat t" using ht(2) by simp
  show "ring_abs k b h t = b ! unat t # ring_abs k b h (ring_inc k t)"
    unfolding ring_abs_def n upt list.map map_map comp_def shift first ..
  show "ring_ok k b h (ring_inc k t)" using ok inc_less by (simp add: ring_ok_def)
qed

text \<open>Taking back the last character (\<open>DEC\<close> of the head).\<close>

lemma ring_dec_head:
  assumes k: "k \<le> 32" and ok: "ring_ok k b h t" and ne: "h \<noteq> t"
  shows "ring_abs k b h t = ring_abs k b (ring_dec k h) t @ [b ! unat (ring_dec k h)]"
    and "ring_ok k b (ring_dec k h) t"
proof -
  have ht: "unat h < 2 ^ k" "unat t < 2 ^ k" "length b = 2 ^ k" using ok by (auto simp: ring_ok_def)
  have ne': "unat h \<noteq> unat t" using ne by (simp add: word_unat_eq_iff)
  have "unat (ring_dec k h) = (unat h + (2 ^ k - 1)) mod 2 ^ k"
    unfolding ring_dec_def unat_and_mask using unat_diff_mod [OF k, of 1 h] by simp
  then have dec: "unat (ring_dec k h) = (if unat h = 0 then 2 ^ k - 1 else unat h - 1)"
    using ht by (auto simp: le_mod_geq)
  have dec_less: "unat (ring_dec k h) < 2 ^ k" using ht(1) by (auto simp: dec)
  let ?n = "unat (ring_chars k (ring_dec k h) t)"
  have n': "?n = (if unat t \<le> unat (ring_dec k h) then unat (ring_dec k h) - unat t
      else unat (ring_dec k h) + 2 ^ k - unat t)"
    by (rule ring_chars_cases [OF k dec_less ht(2)])
  have n: "unat (ring_chars k h t) = Suc ?n"
    unfolding n' ring_chars_cases [OF k ht(1,2)] dec using ht ne' by auto
  have "(unat t + ?n) mod 2 ^ k = unat (ring_dec k h)"
    using ht dec_less n' by auto
  then show "ring_abs k b h t = ring_abs k b (ring_dec k h) t @ [b ! unat (ring_dec k h)]"
    unfolding ring_abs_def n by simp
  show "ring_ok k b (ring_dec k h) t" using ok dec_less by (simp add: ring_ok_def)
qed

end
