(* ===== verification/Ctype.thy ===== *)
theory Ctype
  imports Prelude
begin

unbundle bit_operations_syntax

text \<open>
  The character classes of include/ctype.h with the table of lib/ctype.c, whose first
  entry is that of \<open>EOF\<close> (-1). The table ends at 255; the macros index it by an \<open>int\<close>.
\<close>

abbreviation U_bit :: u8 where "U_bit \<equiv> 0x01"
abbreviation L_bit :: u8 where "L_bit \<equiv> 0x02"
abbreviation D_bit :: u8 where "D_bit \<equiv> 0x04"
abbreviation C_bit :: u8 where "C_bit \<equiv> 0x08"
abbreviation P_bit :: u8 where "P_bit \<equiv> 0x10"
abbreviation S_bit :: u8 where "S_bit \<equiv> 0x20"
abbreviation X_bit :: u8 where "X_bit \<equiv> 0x40"
abbreviation SP_bit :: u8 where "SP_bit \<equiv> 0x80"

definition ctype :: "u8 list" where
  "ctype = [0] @
     replicate 8 C_bit @
     [C_bit, C_bit OR S_bit, C_bit OR S_bit, C_bit OR S_bit, C_bit OR S_bit, C_bit OR S_bit, C_bit, C_bit] @
     replicate 16 C_bit @
     (S_bit OR SP_bit) # replicate 15 P_bit @
     replicate 10 D_bit @ replicate 6 P_bit @
     P_bit # replicate 6 (U_bit OR X_bit) @ replicate 20 U_bit @ replicate 5 P_bit @
     P_bit # replicate 6 (L_bit OR X_bit) @ replicate 20 L_bit @ replicate 4 P_bit @ [C_bit] @
     replicate 128 0"

text \<open>An index outside of the table reads what lies beside it: no class is known for it.\<close>

definition class_of :: "int \<Rightarrow> u8 option" where
  "class_of c = (if -1 \<le> c \<and> c \<le> 255 then Some (ctype ! nat (c + 1)) else None)"

definition is_class :: "u8 \<Rightarrow> int \<Rightarrow> bool" where
  "is_class bits c = (case class_of c of None \<Rightarrow> False | Some b \<Rightarrow> b AND bits \<noteq> 0)"

definition isalnum :: "int \<Rightarrow> bool" where "isalnum = is_class (U_bit OR L_bit OR D_bit)"
definition isalpha :: "int \<Rightarrow> bool" where "isalpha = is_class (U_bit OR L_bit)"
definition isdigit :: "int \<Rightarrow> bool" where "isdigit = is_class D_bit"
definition isupper :: "int \<Rightarrow> bool" where "isupper = is_class U_bit"
definition islower :: "int \<Rightarrow> bool" where "islower = is_class L_bit"
definition isspace :: "int \<Rightarrow> bool" where "isspace = is_class S_bit"
definition isxdigit :: "int \<Rightarrow> bool" where "isxdigit = is_class (D_bit OR X_bit)"
definition iscntrl :: "int \<Rightarrow> bool" where "iscntrl = is_class C_bit"

text \<open>
  The case macros assign to \<open>_ctmp\<close>, a signed \<open>char\<close>, and add or subtract \<open>'a'+'A'\<close> and
  \<open>'A'-'a'\<close> as the header has them: \<open>tolower\<close> adds 162.
\<close>

definition tolower :: "u8 \<Rightarrow> int" where
  "tolower c = (if isupper (sint c) then sint c + (97 + 65) else sint c)"

definition toupper :: "u8 \<Rightarrow> int" where
  "toupper c = (if islower (sint c) then sint c + (65 - 97) else sint c)"


section \<open>The table\<close>

lemma length_ctype: "length ctype = 257"
  by (simp add: ctype_def)

lemma ctype_ranges:
  "\<forall>c \<in> set [0..<128]. (ctype ! Suc c AND U_bit \<noteq> 0) = (65 \<le> c \<and> c \<le> 90) \<and>
     (ctype ! Suc c AND L_bit \<noteq> 0) = (97 \<le> c \<and> c \<le> 122) \<and>
     (ctype ! Suc c AND D_bit \<noteq> 0) = (48 \<le> c \<and> c \<le> 57) \<and>
     (ctype ! Suc c AND S_bit \<noteq> 0) = (c = 32 \<or> 9 \<le> c \<and> c \<le> 13) \<and>
     (ctype ! Suc c AND (D_bit OR X_bit) \<noteq> 0) =
        (48 \<le> c \<and> c \<le> 57 \<or> 65 \<le> c \<and> c \<le> 70 \<or> 97 \<le> c \<and> c \<le> 102)"
  by code_simp

text \<open>
  The table of character classes gives the ASCII classes for all codes 0 to 127.
\<close>

theorem ctype_ascii:
  assumes "0 \<le> c" and "c < 128"
  shows "isupper c = (65 \<le> c \<and> c \<le> 90) \<and> islower c = (97 \<le> c \<and> c \<le> 122) \<and>
    isdigit c = (48 \<le> c \<and> c \<le> 57) \<and> isspace c = (c = 32 \<or> 9 \<le> c \<and> c \<le> 13) \<and>
    isxdigit c = (48 \<le> c \<and> c \<le> 57 \<or> 65 \<le> c \<and> c \<le> 70 \<or> 97 \<le> c \<and> c \<le> 102)"
proof -
  obtain n where n: "c = int n" "n < 128" using assms by (metis nonneg_int_cases of_nat_less_numeral_iff)
  have i: "nat (c + 1) = Suc n" using n by simp
  have "n \<in> set [0..<128]" using n by simp
  from ctype_ranges [rule_format, OF this] show ?thesis
    unfolding isupper_def islower_def isdigit_def isspace_def isxdigit_def is_class_def class_of_def i
    using n by auto
qed

text \<open>\<open>toupper\<close> maps letters to capitals; \<open>tolower\<close> maps no capital to a small letter.\<close>

lemma toupper_ascii:
  "\<forall>c \<in> set [0..<128]. toupper (of_nat c) = (if 97 \<le> c \<and> c \<le> 122 then int c - 32 else int c)"
  by code_simp

theorem tolower_wrong:
  "\<forall>c \<in> set [65..<91]. tolower (of_nat c) = int c + 162 \<and> \<not> islower (tolower (of_nat c))"
  by code_simp

end
