(* ===== verification/Tty.thy ===== *)
theory Tty
  imports Segment Ring Ctype
begin

unbundle bit_operations_syntax

text \<open>
  The terminals of kernel/tty_io.c: the three queues of each, the line discipline that
  cooks what comes in (\<open>copy_to_cooked\<close>), \<open>tty_read\<close> and \<open>tty_write\<close>. The macros on queues
  of include/linux/tty.h are an instance of the circular buffers of theory \<open>Ring\<close>.
\<close>

section \<open>Queues\<close>

abbreviation TTY_BITS :: nat where "TTY_BITS \<equiv> 10"

record tty_queue =
  q_data :: u32
  q_head :: u32
  q_tail :: u32
  q_proc_list :: "nat option"
  q_buf :: "u8 list"

definition EMPTY :: "tty_queue \<Rightarrow> bool" where
  "EMPTY q \<longleftrightarrow> q_head q = q_tail q"

definition LEFT :: "tty_queue \<Rightarrow> u32" where
  "LEFT q = (q_tail q - q_head q - 1) AND mask TTY_BITS"

definition FULL :: "tty_queue \<Rightarrow> bool" where
  "FULL q \<longleftrightarrow> LEFT q = 0"

definition CHARS :: "tty_queue \<Rightarrow> u32" where
  "CHARS q = ring_chars TTY_BITS (q_head q) (q_tail q)"

definition LAST :: "tty_queue \<Rightarrow> u8" where
  "LAST q = q_buf q ! unat (mask TTY_BITS AND (q_head q - 1))"

definition GETCH :: "tty_queue \<Rightarrow> u8 \<times> tty_queue" where
  "GETCH q = (q_buf q ! unat (q_tail q), q\<lparr>q_tail := ring_inc TTY_BITS (q_tail q)\<rparr>)"

definition PUTCH :: "u8 \<Rightarrow> tty_queue \<Rightarrow> tty_queue" where
  "PUTCH c q = q\<lparr>q_buf := (q_buf q)[unat (q_head q) := c],
                 q_head := ring_inc TTY_BITS (q_head q)\<rparr>"

definition DEC_head :: "tty_queue \<Rightarrow> tty_queue" where
  "DEC_head q = q\<lparr>q_head := ring_dec TTY_BITS (q_head q)\<rparr>"

definition queue_ok :: "tty_queue \<Rightarrow> bool" where
  "queue_ok q = ring_ok TTY_BITS (q_buf q) (q_head q) (q_tail q)"

definition contents :: "tty_queue \<Rightarrow> u8 list" where
  "contents q = ring_abs TTY_BITS (q_buf q) (q_head q) (q_tail q)"

lemma LEFT_contents: "queue_ok q \<Longrightarrow> unat (LEFT q) = 1023 - length (contents q)"
proof -
  assume "queue_ok q"
  then have ht: "unat (q_head q) < 2 ^ TTY_BITS" "unat (q_tail q) < 2 ^ TTY_BITS"
    by (auto simp: queue_ok_def ring_ok_def)
  have h1: "unat (q_head q + 1) = unat (q_head q) + 1"
    using ht(1) by (subst unat_add_no_overflow) auto
  have eq: "q_tail q - q_head q - 1 = q_tail q - (q_head q + 1)" by simp
  have "unat (LEFT q) = (unat (q_tail q) + (2 ^ TTY_BITS - (unat (q_head q) + 1))) mod 2 ^ TTY_BITS"
    unfolding LEFT_def eq unat_and_mask using unat_diff_mod [of TTY_BITS "q_head q + 1" "q_tail q"] h1 ht
    by simp
  then show ?thesis
    unfolding contents_def length_ring_abs using ht ring_chars_cases [of TTY_BITS "q_head q" "q_tail q"]
    by (auto simp: mod_if)
qed

lemma EMPTY_contents: "queue_ok q \<Longrightarrow> EMPTY q \<longleftrightarrow> contents q = []"
  unfolding EMPTY_def contents_def queue_ok_def ring_ok_def by (subst ring_empty) auto

lemma length_contents: "length (contents q) \<le> 1023"
  using ring_abs_less [of TTY_BITS "q_buf q" "q_head q" "q_tail q"] by (simp add: contents_def)

lemma FULL_contents: "queue_ok q \<Longrightarrow> FULL q \<longleftrightarrow> length (contents q) = 1023"
  using LEFT_contents [of q] length_contents [of q] by (auto simp: FULL_def unat_eq_0 [symmetric] simp del: unat_eq_0)

text \<open>A queue of a terminal is a first-in first-out buffer of 1023 characters.\<close>

interpretation tty_q: fifo queue_ok contents PUTCH GETCH 1023
proof unfold_locales
  fix q c
  assume ok: "queue_ok q"
  then have r: "ring_ok TTY_BITS (q_buf q) (q_head q) (q_tail q)" by (simp add: queue_ok_def)
  have "unat (ring_inc TTY_BITS a) < 2 ^ TTY_BITS" for a
    by (simp add: unat_ring_inc)
  then show "queue_ok (PUTCH c q)" "queue_ok (snd (GETCH q))"
    using r by (simp_all add: queue_ok_def PUTCH_def GETCH_def ring_ok_def)
  show "contents (PUTCH c q) = contents q @ [c]" if "length (contents q) < 1023"
    using ring_put(1) [OF _ r, of c] that by (simp add: contents_def PUTCH_def)
  show "contents q = fst (GETCH q) # contents (snd (GETCH q))" if "contents q \<noteq> []"
    using ring_get(1) [OF _ r] that EMPTY_contents [OF ok]
    by (simp add: contents_def GETCH_def EMPTY_def)
  show "length (contents q) \<le> 1023" by (rule length_contents)
qed

text \<open>Nothing checks that the queue has room: a character too many empties it.\<close>

lemma PUTCH_overflow:
  assumes ok: "queue_ok q" and full: "FULL q"
  shows "contents (PUTCH c q) = []"
proof -
  have "queue_ok (PUTCH c q)" by (rule tty_q.put_invar [OF ok])
  moreover have "EMPTY (PUTCH c q)"
  proof -
    have ht: "unat (q_head q) < 1024" "unat (q_tail q) < 1024"
      using ok by (auto simp: queue_ok_def ring_ok_def)
    have "length (contents q) = 1023" using full FULL_contents [OF ok] by simp
    then have "unat (ring_inc TTY_BITS (q_head q)) = unat (q_tail q)"
      unfolding contents_def length_ring_abs
      using ht ring_chars_cases [of TTY_BITS "q_head q" "q_tail q"]
      by (auto simp: unat_ring_inc mod_if split: if_splits)
    then show ?thesis by (simp add: EMPTY_def PUTCH_def word_unat_eq_iff)
  qed
  ultimately show ?thesis by (simp add: EMPTY_contents)
qed

lemma DEC_head_contents:
  assumes ok: "queue_ok q" and ne: "contents q \<noteq> []"
  shows "queue_ok (DEC_head q)" and "contents (DEC_head q) = butlast (contents q)"
    and "LAST q = last (contents q)"
proof -
  have r: "ring_ok TTY_BITS (q_buf q) (q_head q) (q_tail q)" using ok by (simp add: queue_ok_def)
  have "q_head q \<noteq> q_tail q" using ne EMPTY_contents [OF ok] by (auto simp: EMPTY_def)
  note d = ring_dec_head [OF _ r this]
  show "queue_ok (DEC_head q)" using d(2) by (simp add: queue_ok_def DEC_head_def)
  show "contents (DEC_head q) = butlast (contents q)"
    using d(1) by (simp add: contents_def DEC_head_def)
  have "mask TTY_BITS AND (q_head q - 1) = ring_dec TTY_BITS (q_head q)"
    unfolding ring_dec_def by (rule and.commute)
  then show "LAST q = last (contents q)"
    using d(1) by (simp add: contents_def LAST_def)
qed

section \<open>Terminals\<close>

record termios =
  c_iflag :: u32
  c_oflag :: u32
  c_cflag :: u32
  c_lflag :: u32
  c_line :: u8
  c_cc :: "u8 list"

record tty_struct =
  termios :: termios
  tty_pgrp :: int
  stopped :: int
  read_q :: tty_queue
  write_q :: tty_queue
  secondary :: tty_queue

text \<open>
  \<open>tty->write\<close> is a pointer to \<open>con_write\<close> or \<open>rs_write\<close>: it is an argument \<open>wr\<close> of the
  operations below. Of a terminal it takes characters out of the write queue.
\<close>

type_synonym tty_writer = "tty_struct \<Rightarrow> tty_struct"

definition L_FLAG :: "u32 \<Rightarrow> tty_struct \<Rightarrow> bool" where
  "L_FLAG f tty \<longleftrightarrow> c_lflag (termios tty) AND f \<noteq> 0"
definition I_FLAG :: "u32 \<Rightarrow> tty_struct \<Rightarrow> bool" where
  "I_FLAG f tty \<longleftrightarrow> c_iflag (termios tty) AND f \<noteq> 0"
definition O_FLAG :: "u32 \<Rightarrow> tty_struct \<Rightarrow> bool" where
  "O_FLAG f tty \<longleftrightarrow> c_oflag (termios tty) AND f \<noteq> 0"

abbreviation L_CANON :: "tty_struct \<Rightarrow> bool" where "L_CANON \<equiv> L_FLAG 2"
abbreviation L_ISIG :: "tty_struct \<Rightarrow> bool" where "L_ISIG \<equiv> L_FLAG 1"
abbreviation L_ECHO :: "tty_struct \<Rightarrow> bool" where "L_ECHO \<equiv> L_FLAG 8"
abbreviation L_ECHOCTL :: "tty_struct \<Rightarrow> bool" where "L_ECHOCTL \<equiv> L_FLAG 0x200"
abbreviation I_UCLC :: "tty_struct \<Rightarrow> bool" where "I_UCLC \<equiv> I_FLAG 0x200"
abbreviation I_NLCR :: "tty_struct \<Rightarrow> bool" where "I_NLCR \<equiv> I_FLAG 0x40"
abbreviation I_CRNL :: "tty_struct \<Rightarrow> bool" where "I_CRNL \<equiv> I_FLAG 0x100"
abbreviation I_NOCR :: "tty_struct \<Rightarrow> bool" where "I_NOCR \<equiv> I_FLAG 0x80"
abbreviation O_POST :: "tty_struct \<Rightarrow> bool" where "O_POST \<equiv> O_FLAG 1"
abbreviation O_LCUC :: "tty_struct \<Rightarrow> bool" where "O_LCUC \<equiv> O_FLAG 2"
abbreviation O_NLCR :: "tty_struct \<Rightarrow> bool" where "O_NLCR \<equiv> O_FLAG 4"
abbreviation O_CRNL :: "tty_struct \<Rightarrow> bool" where "O_CRNL \<equiv> O_FLAG 8"
abbreviation O_NLRET :: "tty_struct \<Rightarrow> bool" where "O_NLRET \<equiv> O_FLAG 0x20"

definition cc :: "nat \<Rightarrow> tty_struct \<Rightarrow> int" where
  "cc i tty = uint (c_cc (termios tty) ! i)"

abbreviation INTR_CHAR :: "tty_struct \<Rightarrow> int" where "INTR_CHAR \<equiv> cc 0"
abbreviation ERASE_CHAR :: "tty_struct \<Rightarrow> int" where "ERASE_CHAR \<equiv> cc 2"
abbreviation EOF_CHAR :: "tty_struct \<Rightarrow> int" where "EOF_CHAR \<equiv> cc 4"
abbreviation START_CHAR :: "tty_struct \<Rightarrow> int" where "START_CHAR \<equiv> cc 8"
abbreviation STOP_CHAR :: "tty_struct \<Rightarrow> int" where "STOP_CHAR \<equiv> cc 9"

text \<open>\<open>INIT_C_CC\<close> and the first entry of \<open>tty_table\<close>, the console.\<close>

definition INIT_C_CC :: "u8 list" where
  "INIT_C_CC = [0x03, 0x1c, 0x7f, 0x15, 0x04, 0, 1, 0, 0x11, 0x13, 0x19, 0, 0x12, 0x0f, 0x17, 0x16, 0]"

definition empty_queue :: "u32 \<Rightarrow> tty_queue" where
  "empty_queue port = \<lparr>q_data = port, q_head = 0, q_tail = 0, q_proc_list = None,
     q_buf = replicate 1024 0\<rparr>"

definition console_tty :: tty_struct where
  "console_tty = \<lparr>termios = \<lparr>c_iflag = 0, c_oflag = 1 OR 4, c_cflag = 0,
       c_lflag = 2 OR 8 OR 0x200 OR 0x800, c_line = 0, c_cc = INIT_C_CC\<rparr>,
     tty_pgrp = 0, stopped = 0, read_q = empty_queue 0, write_q = empty_queue 0,
     secondary = empty_queue 0\<rparr>"

definition serial_tty :: "u32 \<Rightarrow> tty_struct" where
  "serial_tty port = \<lparr>termios = \<lparr>c_iflag = 0, c_oflag = 1 OR 0x20, c_cflag = 0xb OR 0x30,
       c_lflag = 0, c_line = 0, c_cc = INIT_C_CC\<rparr>,
     tty_pgrp = 0, stopped = 0, read_q = empty_queue port, write_q = empty_queue port,
     secondary = empty_queue 0\<rparr>"

definition tty_table :: "tty_struct list" where
  "tty_table = [console_tty, serial_tty 0x3f8, serial_tty 0x2f8]"

definition tty_intr :: "tty_struct \<Rightarrow> int \<Rightarrow> kern \<Rightarrow> kern" where
  "tty_intr tty sig k =
     (if tty_pgrp tty \<le> 0 then k
      else fold (\<lambda>i. set_task i (\<lambda>p. if pgrp p = tty_pgrp tty
                  then p\<lparr>signal := signal p OR push_bit (nat (sig - 1)) 1\<rparr> else p))
             [0..<NR_TASKS] k)"


section \<open>Cooking\<close>

text \<open>
  The body of the loop of \<open>copy_to_cooked\<close>, in its parts: the mapping of carriage returns
  and capitals (\<open>None\<close> where the code goes on to the next character), the editing
  characters of canonical mode (\<open>None\<close> where it does not go on), and the rest.
\<close>

definition map_input :: "tty_struct \<Rightarrow> u8 \<Rightarrow> u8 option" where
  "map_input tty c =
     (case (if c = 13 then (if I_CRNL tty then Some 10 else if I_NOCR tty then None else Some 13)
            else if c = 10 \<and> I_NLCR tty then Some 13
            else Some c) of
        None \<Rightarrow> None
      | Some c \<Rightarrow> Some (if I_UCLC tty then word_of_int (tolower c) else c))"

definition put_write :: "u8 \<Rightarrow> tty_struct \<Rightarrow> tty_struct" where
  "put_write c tty = tty\<lparr>write_q := PUTCH c (write_q tty)\<rparr>"

definition erase :: "tty_writer \<Rightarrow> tty_struct \<Rightarrow> tty_struct" where
  "erase wr tty =
     (if EMPTY (secondary tty) then tty
      else
        let c = LAST (secondary tty)
        in if c = 10 \<or> sint c = EOF_CHAR tty then tty
           else
             let tty = (if L_ECHO tty
                        then wr (put_write 127 (if sint c < 32 then put_write 127 tty else tty))
                        else tty)
             in tty\<lparr>secondary := DEC_head (secondary tty)\<rparr>)"

definition edit :: "tty_writer \<Rightarrow> u8 \<Rightarrow> tty_struct \<Rightarrow> tty_struct option" where
  "edit wr c tty =
     (if \<not> L_CANON tty then None
      else if sint c = ERASE_CHAR tty then Some (erase wr tty)
      else if sint c = STOP_CHAR tty then Some (tty\<lparr>stopped := 1\<rparr>)
      else if sint c = START_CHAR tty then Some (tty\<lparr>stopped := 0\<rparr>)
      else None)"

definition is_eol :: "tty_struct \<Rightarrow> u8 \<Rightarrow> bool" where
  "is_eol tty c \<longleftrightarrow> c = 10 \<or> sint c = EOF_CHAR tty"

definition echo :: "tty_writer \<Rightarrow> u8 \<Rightarrow> tty_struct \<Rightarrow> tty_struct" where
  "echo wr c tty =
     (if \<not> L_ECHO tty then tty
      else wr (if c = 10 then put_write 13 (put_write 10 tty)
               else if sint c < 32 then
                 (if L_ECHOCTL tty then put_write (c + 64) (put_write 94 tty) else tty)
               else put_write c tty))"

definition store :: "u8 \<Rightarrow> tty_struct \<Rightarrow> tty_struct" where
  "store c tty = tty\<lparr>secondary := PUTCH c (secondary tty)\<rparr>"

definition count_eol :: "u8 \<Rightarrow> tty_struct \<Rightarrow> tty_struct" where
  "count_eol c tty =
     (if is_eol tty c
      then tty\<lparr>secondary := (secondary tty)\<lparr>q_data := q_data (secondary tty) + 1\<rparr>\<rparr> else tty)"

definition cook_char :: "tty_writer \<Rightarrow> u8 \<Rightarrow> tty_struct \<times> kern \<Rightarrow> tty_struct \<times> kern" where
  "cook_char wr c = (\<lambda>(tty, k).
     case map_input tty c of
       None \<Rightarrow> (tty, k)
     | Some c \<Rightarrow>
         (case edit wr c tty of
            Some tty \<Rightarrow> (tty, k)
          | None \<Rightarrow>
              if \<not> L_ISIG tty \<and> sint c = INTR_CHAR tty then (tty, tty_intr tty SIGINT k)
              else (store c (echo wr c (count_eol c tty)), k)))"

text \<open>
  The loop takes one character of the read queue each time; interrupts are off, so none
  is added: 1023 turns are enough.
\<close>

fun cook_loop :: "tty_writer \<Rightarrow> nat \<Rightarrow> tty_struct \<times> kern \<Rightarrow> tty_struct \<times> kern" where
  "cook_loop wr 0 s = s"
| "cook_loop wr (Suc n) (tty, k) =
     (if \<not> EMPTY (read_q tty) \<and> \<not> FULL (secondary tty) then
        let (c, q) = GETCH (read_q tty)
        in cook_loop wr n (cook_char wr c (tty\<lparr>read_q := q\<rparr>, k))
      else (tty, k))"

definition wake_queue :: "tty_queue \<Rightarrow> kern \<Rightarrow> tty_queue \<times> kern" where
  "wake_queue q k =
     (case q_proc_list q of
        None \<Rightarrow> (q, k)
      | Some i \<Rightarrow> (q\<lparr>q_proc_list := None\<rparr>, set_task i (\<lambda>p. p\<lparr>state := 0\<rparr>) k))"

definition copy_to_cooked :: "tty_writer \<Rightarrow> tty_struct \<times> kern \<Rightarrow> tty_struct \<times> kern" where
  "copy_to_cooked wr s =
     (let (tty, k) = cook_loop wr 1023 s;
          (q, k) = wake_queue (secondary tty) k
      in (tty\<lparr>secondary := q\<rparr>, k))"

definition do_tty_interrupt :: "tty_writer \<Rightarrow> nat \<Rightarrow> tty_struct list \<times> kern \<Rightarrow> tty_struct list \<times> kern" where
  "do_tty_interrupt wr i = (\<lambda>(ttys, k).
     let (tty, k) = copy_to_cooked wr (ttys ! i, k) in (ttys[i := tty], k))"


section \<open>tty\_read\<close>

text \<open>
  The inner loop: the characters it takes, and whether it met the end-of-file character,
  at which \<open>tty_read\<close> returns.
\<close>

fun read_chars :: "nat \<Rightarrow> tty_struct \<Rightarrow> u8 list \<times> bool \<times> tty_struct" where
  "read_chars 0 tty = ([], False, tty)"
| "read_chars (Suc n) tty =
     (let (c, q) = GETCH (secondary tty);
          q = (if is_eol tty c then q\<lparr>q_data := q_data q - 1\<rparr> else q);
          tty = tty\<lparr>secondary := q\<rparr>
      in if sint c = EOF_CHAR tty \<and> L_CANON tty then ([], True, tty)
         else if n = 0 \<or> EMPTY q then ([c], False, tty)
         else let (cs, eof, tty) = read_chars n tty in (c # cs, eof, tty))"

text \<open>
  The call ends with a value, or cannot go on before an interrupt changes the terminal
  or a signal arrives: it sleeps on an empty queue, or spins when the queue holds no whole
  line (\<open>sleep_if_empty\<close> does not sleep then). It goes on from the same place, with the
  characters still wanted, the ones it has, and the flag.
\<close>

datatype read_result =
    Returns int
  | Sleeps_for nat "u8 list" bool
  | Spins_for nat "u8 list" bool

definition set_alarm :: "int \<Rightarrow> kern \<Rightarrow> kern" where
  "set_alarm a = set_cur (\<lambda>p. p\<lparr>alarm := a\<rparr>)"

definition alarm_wanted :: "int \<Rightarrow> int \<Rightarrow> kern \<Rightarrow> bool" where
  "alarm_wanted oldalarm time k \<longleftrightarrow> oldalarm = 0 \<or> s32 (time + jiffies k) < oldalarm"

abbreviation ALRMMASK :: u32 where "ALRMMASK \<equiv> 0x2000"

definition read_done :: "int \<Rightarrow> u8 list \<Rightarrow> tty_struct \<Rightarrow> kern \<Rightarrow> read_result \<times> tty_struct \<times> kern" where
  "read_done oldalarm got tty k =
     (let k = set_alarm oldalarm k
      in (Returns (if signal (cur k) \<noteq> 0 \<and> got = [] then - EINTR else int (length got)), tty, k))"

lemma read_chars_some:
  "read_chars (Suc n) tty = (cs, False, tty') \<Longrightarrow> cs \<noteq> [] \<and> length cs \<le> Suc n"
proof (induction n arbitrary: tty cs tty')
  case 0
  then show ?case by (auto simp: Let_def split: prod.splits if_splits)
next
  case (Suc n)
  then show ?case
    unfolding read_chars.simps(2) [of "Suc n"]
    by (fastforce simp: Let_def split: prod.splits if_splits simp del: read_chars.simps)
qed

lemma read_chars_len: "read_chars n tty = (cs, False, tty') \<Longrightarrow> n \<noteq> 0 \<Longrightarrow> cs \<noteq> []"
  using read_chars_some by (cases n) auto

function tty_read_loop :: "u32 \<Rightarrow> int \<Rightarrow> int \<Rightarrow> nat \<Rightarrow> bool \<Rightarrow> nat \<Rightarrow> u8 list \<Rightarrow> tty_struct \<Rightarrow> kern \<Rightarrow>
    read_result \<times> tty_struct \<times> kern" where
  "tty_read_loop buf oldalarm time minimum flag nr got tty k =
     (if nr = 0 then read_done oldalarm got tty k
      else if flag \<and> signal (cur k) AND ALRMMASK \<noteq> 0
      then read_done oldalarm got tty (set_cur (\<lambda>p. p\<lparr>signal := signal p AND NOT ALRMMASK\<rparr>) k)
      else if signal (cur k) \<noteq> 0 then read_done oldalarm got tty k
      else if EMPTY (secondary tty) then (Sleeps_for nr got flag, tty, k)
      else if L_CANON tty \<and> q_data (secondary tty) = 0 \<and> 20 < LEFT (secondary tty)
      then (Spins_for nr got flag, tty, k)
      else
        case read_chars nr tty of (cs, eof, tty) \<Rightarrow>
        let k = put_user (put_fs_bytes cs (buf + of_nat (length got))) k
        in if eof then (Returns (int (length (got @ cs))), tty, k)
           else
             let got = got @ cs;
                 tim = time \<noteq> 0 \<and> \<not> L_CANON tty;
                 flag = (if tim then alarm_wanted oldalarm time k else flag);
                 k = (if tim then if flag then set_alarm (s32 (time + jiffies k)) k
                                  else set_alarm oldalarm k
                      else k)
             in if L_CANON tty \<and> got \<noteq> [] \<or> \<not> L_CANON tty \<and> minimum \<le> length got
                then read_done oldalarm got tty k
                else tty_read_loop buf oldalarm time minimum flag (nr - length cs) got tty k)"
  by pat_completeness auto
termination
  by (relation "measure (\<lambda>(_, _, _, _, _, nr, _). nr)") (auto dest!: sym [of _ "read_chars _ _"] read_chars_len)

definition tty_read :: "nat \<Rightarrow> u32 \<Rightarrow> int \<Rightarrow> tty_struct list \<Rightarrow> kern \<Rightarrow>
    read_result \<times> tty_struct list \<times> kern" where
  "tty_read channel buf nr ttys k =
     (if 2 < channel \<or> nr < 0 then (Returns (-1), ttys, k)
      else
        let tty = ttys ! channel;
            oldalarm = alarm (cur k);
            time = 10 * cc 5 tty;
            minimum = cc 6 tty;
            (minimum, flag, k) =
              (if time \<noteq> 0 \<and> minimum = 0
               then (1, alarm_wanted oldalarm time k,
                     if alarm_wanted oldalarm time k then set_alarm (s32 (time + jiffies k)) k else k)
               else (minimum, False, k));
            minimum = min minimum nr;
            (r, tty, k) = tty_read_loop buf oldalarm time (nat minimum) flag (nat nr) [] tty k
        in (r, ttys[channel := tty], k))"


section \<open>tty\_write\<close>

text \<open>
  The inner loop of \<open>tty_write\<close> over the bytes still to write; \<open>cr_flag\<close> is static. It
  gives the bytes it has not written.
\<close>

definition map_output :: "tty_struct \<Rightarrow> u8 \<Rightarrow> u8" where
  "map_output tty c =
     (if O_POST tty then
        (if c = 13 \<and> O_CRNL tty then 10 else if c = 10 \<and> O_NLRET tty then 13 else c)
      else c)"

definition upper_output :: "tty_struct \<Rightarrow> u8 \<Rightarrow> u8" where
  "upper_output tty c = (if O_POST tty \<and> O_LCUC tty then word_of_int (toupper c) else c)"

function write_chars :: "u8 list \<Rightarrow> bool \<Rightarrow> tty_struct \<Rightarrow> u8 list \<times> bool \<times> tty_struct" where
  "write_chars [] cr_flag tty = ([], cr_flag, tty)"
| "write_chars (b # bs) cr_flag tty =
     (if FULL (write_q tty) then (b # bs, cr_flag, tty)
      else
        let c = map_output tty b
        in if O_POST tty \<and> c = 10 \<and> \<not> cr_flag \<and> O_NLCR tty
           then write_chars (b # bs) True (put_write 13 tty)
           else write_chars bs False (put_write (upper_output tty c) tty))"
  by pat_completeness auto
termination
  by (relation "measure (\<lambda>(bs, cr, _). 2 * length bs + (if cr then 0 else 1))") auto

datatype write_result =
    Written int
  | Write_sleeps "u8 list"
  | Resched "u8 list"

text \<open>
  One turn of the outer loop, with the bytes still to write of \<open>nr\<close>: it sleeps on a full
  queue until 128 characters fit (\<open>asleep\<close> when it comes from there), ends on a signal or
  when all is written, and lets other processes run before the next turn.
\<close>

definition tty_write_turn :: "tty_writer \<Rightarrow> bool \<Rightarrow> nat \<Rightarrow> u8 list \<Rightarrow> bool \<Rightarrow> tty_struct \<Rightarrow> kern \<Rightarrow>
    write_result \<times> bool \<times> tty_struct" where
  "tty_write_turn wr asleep nr bs cr_flag tty k =
     (if bs = [] then (Written (int nr), cr_flag, tty)
      else if (asleep \<or> FULL (write_q tty)) \<and> signal (cur k) = 0 \<and> LEFT (write_q tty) < 128
      then (Write_sleeps bs, cr_flag, tty)
      else if signal (cur k) \<noteq> 0 then (Written (int (nr - length bs)), cr_flag, tty)
      else
        let (bs, cr_flag, tty) = write_chars bs cr_flag tty;
            tty = wr tty
        in (if bs = [] then Written (int nr) else Resched bs, cr_flag, tty))"

definition tty_write :: "tty_writer \<Rightarrow> nat \<Rightarrow> u32 \<Rightarrow> int \<Rightarrow> bool \<Rightarrow> tty_struct list \<Rightarrow> kern \<Rightarrow>
    write_result \<times> bool \<times> tty_struct list" where
  "tty_write wr channel buf nr cr_flag ttys k =
     (if 2 < channel \<or> nr < 0 then (Written (-1), cr_flag, ttys)
      else
        let (r, cr_flag, tty) = tty_write_turn wr False (nat nr) (get_fs_bytes (nat nr) buf (fs_mem k))
              cr_flag (ttys ! channel) k
        in (r, cr_flag, ttys[channel := tty]))"

end
