(* ===== verification/Console.thy ===== *)
theory Console
  imports Tty
begin

unbundle bit_operations_syntax

text \<open>
  The console of kernel/console.c: the screen as a window into the video memory, the
  cursor, scrolling, the VT102 escape sequences. \<open>vmem\<close> is the memory the code writes
  characters to, one 16-bit cell at each address: nothing in the model keeps the
  addresses inside of the video memory, the lemmas of theory \<open>Console_Safe\<close> do.
\<close>

section \<open>State\<close>

abbreviation SCREEN_START :: u32 where "SCREEN_START \<equiv> 0xb8000"
abbreviation SCREEN_END :: u32 where "SCREEN_END \<equiv> 0xc0000"
abbreviation lines :: u32 where "lines \<equiv> 25"
abbreviation columns :: u32 where "columns \<equiv> 80"
abbreviation NPAR :: nat where "NPAR \<equiv> 16"
abbreviation blank :: u16 where "blank \<equiv> 0x0720"

record con =
  origin :: u32
  scr_end :: u32
  pos :: u32
  c_x :: u32
  c_y :: u32
  top :: u32
  bottom :: u32
  esc :: nat
  npar :: nat
  par :: "u32 list"
  ques :: bool
  attr :: u8
  saved_x :: int
  saved_y :: int
  crtc :: "nat \<Rightarrow> u8"
  vmem :: "u32 \<Rightarrow> u16"

text \<open>The static initial values; \<open>x\<close>, \<open>y\<close> and \<open>state\<close> are \<open>c_x\<close>, \<open>c_y\<close> and \<open>esc\<close> here.\<close>

definition con_start :: "(u32 \<Rightarrow> u16) \<Rightarrow> con" where
  "con_start m = \<lparr>origin = SCREEN_START, scr_end = SCREEN_START + lines * columns * 2, pos = 0,
     c_x = 0, c_y = 0, top = 0, bottom = lines, esc = 0, npar = 0, par = replicate NPAR 0,
     ques = False, attr = 0x07, saved_x = 0, saved_y = 0, crtc = (\<lambda>_. 0), vmem = m\<rparr>"


section \<open>String instructions\<close>

text \<open>
  \<open>rep stosw\<close> and \<open>rep movsl\<close> on cells; \<open>d\<close> is the step, 2 or -2 (4 or -4), by the
  direction flag.
\<close>

fun stosw :: "nat \<Rightarrow> u32 \<Rightarrow> u32 \<Rightarrow> u16 \<Rightarrow> (u32 \<Rightarrow> u16) \<Rightarrow> (u32 \<Rightarrow> u16)" where
  "stosw 0 d edi ax m = m"
| "stosw (Suc n) d edi ax m = stosw n d (edi + d) ax (m(edi := ax))"

fun movsl :: "nat \<Rightarrow> u32 \<Rightarrow> u32 \<Rightarrow> u32 \<Rightarrow> (u32 \<Rightarrow> u16) \<Rightarrow> (u32 \<Rightarrow> u16)" where
  "movsl 0 d esi edi m = m"
| "movsl (Suc n) d esi edi m = movsl n d (esi + d) (edi + d) (m(edi := m esi, edi + 2 := m (esi + 2)))"


section \<open>Cursor and scrolling\<close>

definition gotoxy :: "u32 \<Rightarrow> u32 \<Rightarrow> con \<Rightarrow> con" where
  "gotoxy new_x new_y c =
     (if columns \<le> new_x \<or> lines \<le> new_y then c
      else c\<lparr>c_x := new_x, c_y := new_y, pos := origin c + (new_y * columns + new_x) * 2\<rparr>)"

definition set_origin :: "con \<Rightarrow> con" where
  "set_origin c = c\<lparr>crtc := (crtc c)(12 := ucast (drop_bit 9 (origin c - SCREEN_START)),
                                     13 := ucast (drop_bit 1 (origin c - SCREEN_START)))\<rparr>"

definition set_cursor :: "con \<Rightarrow> con" where
  "set_cursor c = c\<lparr>crtc := (crtc c)(14 := ucast (drop_bit 9 (pos c - SCREEN_START)),
                                     15 := ucast (drop_bit 1 (pos c - SCREEN_START)))\<rparr>"

definition scrup :: "con \<Rightarrow> con" where
  "scrup c =
     (if top c = 0 \<and> bottom c = lines then
        let c = c\<lparr>origin := origin c + columns * 2, pos := pos c + columns * 2,
                  scr_end := scr_end c + columns * 2\<rparr>
        in set_origin
             (if SCREEN_END < scr_end c then
                let n = unat (drop_bit 1 ((lines - 1) * columns));
                    m = movsl n 4 (origin c) SCREEN_START (vmem c);
                    m = stosw (unat columns) 2 (SCREEN_START + of_nat (4 * n)) blank m
                in c\<lparr>vmem := m, scr_end := scr_end c - (origin c - SCREEN_START),
                     pos := pos c - (origin c - SCREEN_START), origin := SCREEN_START\<rparr>
              else
                c\<lparr>vmem := stosw (2 * unat (drop_bit 1 columns)) 2 (scr_end c - columns * 2) blank (vmem c)\<rparr>)
      else
        let n = unat (drop_bit 1 ((bottom c - top c - 1) * columns));
            edi = origin c + columns * 2 * top c;
            m = movsl n 4 (origin c + columns * 2 * (top c + 1)) edi (vmem c);
            m = stosw (unat columns) 2 (edi + of_nat (4 * n)) blank m
        in c\<lparr>vmem := m\<rparr>)"

definition scrdown :: "con \<Rightarrow> con" where
  "scrdown c =
     (let n = unat (drop_bit 1 ((bottom c - top c - 1) * columns));
          edi = origin c + columns * 2 * bottom c - 4;
          m = movsl n (- 4) (origin c + columns * 2 * (bottom c - 1) - 4) edi (vmem c);
          m = stosw (unat columns) (- 2) (edi - of_nat (4 * n) + 2) blank m
      in c\<lparr>vmem := m\<rparr>)"

definition lf :: "con \<Rightarrow> con" where
  "lf c = (if c_y c + 1 < bottom c then c\<lparr>c_y := c_y c + 1, pos := pos c + columns * 2\<rparr>
           else scrup c)"

definition ri :: "con \<Rightarrow> con" where
  "ri c = (if top c < c_y c then c\<lparr>c_y := c_y c - 1, pos := pos c - columns * 2\<rparr>
           else scrdown c)"

definition cr :: "con \<Rightarrow> con" where
  "cr c = c\<lparr>pos := pos c - c_x c * 2, c_x := 0\<rparr>"

definition del :: "con \<Rightarrow> con" where
  "del c = (if c_x c \<noteq> 0 then
              c\<lparr>pos := pos c - 2, c_x := c_x c - 1, vmem := (vmem c)(pos c - 2 := blank)\<rparr>
            else c)"

text \<open>
  \<open>par\<close> is an \<open>int\<close> parameter; only three values do anything. The count is a \<open>long\<close>.
\<close>

definition csi_J :: "u32 \<Rightarrow> con \<Rightarrow> con" where
  "csi_J p c =
     (if p = 0 then c\<lparr>vmem := stosw (unat (drop_bit 1 (scr_end c - pos c))) 2 (pos c) blank (vmem c)\<rparr>
      else if p = 1
      then c\<lparr>vmem := stosw (unat (drop_bit 1 (pos c - origin c))) 2 (origin c) blank (vmem c)\<rparr>
      else if p = 2 then c\<lparr>vmem := stosw (unat (columns * lines)) 2 (origin c) blank (vmem c)\<rparr>
      else c)"

definition csi_K :: "u32 \<Rightarrow> con \<Rightarrow> con" where
  "csi_K p c =
     (if p = 0 then
        (if columns \<le> c_x c then c
         else c\<lparr>vmem := stosw (unat (columns - c_x c)) 2 (pos c) blank (vmem c)\<rparr>)
      else if p = 1 then
        c\<lparr>vmem := stosw (unat (if c_x c < columns then c_x c else columns)) 2
                    (pos c - c_x c * 2) blank (vmem c)\<rparr>
      else if p = 2 then
        c\<lparr>vmem := stosw (unat columns) 2 (pos c - c_x c * 2) blank (vmem c)\<rparr>
      else c)"

definition attr_of :: "u32 \<Rightarrow> u8 \<Rightarrow> u8" where
  "attr_of p a = (if p = 0 then 0x07 else if p = 1 then 0x0f else if p = 4 then 0x0f
                  else if p = 7 then 0x70 else if p = 27 then 0x07 else a)"

definition csi_m :: "con \<Rightarrow> con" where
  "csi_m c = c\<lparr>attr := fold attr_of (take (Suc (npar c)) (par c)) (attr c)\<rparr>"

fun shift_cells :: "nat \<Rightarrow> u32 \<Rightarrow> u16 \<Rightarrow> (u32 \<Rightarrow> u16) \<Rightarrow> (u32 \<Rightarrow> u16)" where
  "shift_cells 0 p old m = m"
| "shift_cells (Suc n) p old m = shift_cells n (p + 2) (m p) (m(p := old))"

definition insert_char :: "con \<Rightarrow> con" where
  "insert_char c = c\<lparr>vmem := shift_cells (unat columns - unat (c_x c)) (pos c) blank (vmem c)\<rparr>"

fun unshift_cells :: "nat \<Rightarrow> u32 \<Rightarrow> (u32 \<Rightarrow> u16) \<Rightarrow> (u32 \<Rightarrow> u16)" where
  "unshift_cells 0 p m = m(p := blank)"
| "unshift_cells (Suc n) p m = unshift_cells n (p + 2) (m(p := m (p + 2)))"

definition delete_char :: "con \<Rightarrow> con" where
  "delete_char c =
     (if columns \<le> c_x c then c
      else c\<lparr>vmem := unshift_cells (unat columns - 1 - unat (c_x c)) (pos c) (vmem c)\<rparr>)"

definition insert_line :: "con \<Rightarrow> con" where
  "insert_line c =
     (scrdown (c\<lparr>top := c_y c, bottom := lines\<rparr>))\<lparr>top := top c, bottom := bottom c\<rparr>"

definition delete_line :: "con \<Rightarrow> con" where
  "delete_line c =
     (scrup (c\<lparr>top := c_y c, bottom := lines\<rparr>))\<lparr>top := top c, bottom := bottom c\<rparr>"

text \<open>The counts of the four repeated operations: 1 for 0, and at most a whole line or screen.\<close>

definition times :: "u32 \<Rightarrow> u32 \<Rightarrow> nat" where
  "times nr most = unat (if most < nr then most else if nr = 0 then 1 else nr)"

definition csi_at :: "u32 \<Rightarrow> con \<Rightarrow> con" where "csi_at nr = insert_char ^^ times nr columns"
definition csi_L :: "u32 \<Rightarrow> con \<Rightarrow> con" where "csi_L nr = insert_line ^^ times nr lines"
definition csi_P :: "u32 \<Rightarrow> con \<Rightarrow> con" where "csi_P nr = delete_char ^^ times nr columns"
definition csi_M :: "u32 \<Rightarrow> con \<Rightarrow> con" where "csi_M nr = delete_line ^^ times nr lines"

definition save_cur :: "con \<Rightarrow> con" where
  "save_cur c = c\<lparr>saved_x := s32 (uint (c_x c)), saved_y := s32 (uint (c_y c))\<rparr>"

definition restore_cur :: "con \<Rightarrow> con" where
  "restore_cur c =
     (let x = word_of_int (saved_x c); y = word_of_int (saved_y c)
      in c\<lparr>c_x := x, c_y := y, pos := origin c + (y * columns + x) * 2\<rparr>)"


section \<open>con\_write\<close>

text \<open>A character in the ground state; the printable ones wrap first when the line is full.\<close>

definition put_char :: "u8 \<Rightarrow> con \<Rightarrow> con" where
  "put_char ch c =
     (let c = (if columns \<le> c_x c
               then lf (c\<lparr>c_x := c_x c - columns, pos := pos c - columns * 2\<rparr>) else c)
      in c\<lparr>vmem := (vmem c)(pos c := push_bit 8 (ucast (attr c)) OR ucast ch),
           pos := pos c + 2, c_x := c_x c + 1\<rparr>)"

definition tab :: "con \<Rightarrow> con" where
  "tab c =
     (let n = 8 - (c_x c AND 7);
          c = c\<lparr>c_x := c_x c + n, pos := pos c + n * 2\<rparr>
      in if columns < c_x c then lf (c\<lparr>c_x := c_x c - columns, pos := pos c - columns * 2\<rparr>) else c)"

definition ground :: "int \<Rightarrow> u8 \<Rightarrow> con \<Rightarrow> con" where
  "ground erase_char ch c =
     (let i = sint ch in
      if 31 < i \<and> i < 127 then put_char ch c
      else if i = 27 then c\<lparr>esc := 1\<rparr>
      else if i = 10 \<or> i = 11 \<or> i = 12 then lf c
      else if i = 13 then cr c
      else if i = erase_char then del c
      else if i = 8 then (if c_x c \<noteq> 0 then c\<lparr>c_x := c_x c - 1, pos := pos c - 2\<rparr> else c)
      else if i = 9 then tab c
      else c)"

definition par0 :: "con \<Rightarrow> u32" where
  "par0 c = (if par c ! 0 = 0 then 1 else par c ! 0)"

definition less1 :: "u32 \<Rightarrow> u32" where
  "less1 p = (if p \<noteq> 0 then p - 1 else p)"

text \<open>\<open>ESC [ ... r\<close> sets the scrolling region.\<close>

definition set_region :: "con \<Rightarrow> con" where
  "set_region c =
     (let p0 = less1 (par c ! 0); p1 = (if par c ! 1 = 0 then lines else par c ! 1)
      in if p0 < p1 \<and> p1 \<le> lines then c\<lparr>top := p0, bottom := p1\<rparr> else c)"

text \<open>State 4: the final character of a control sequence.\<close>

definition csi :: "char \<Rightarrow> con \<Rightarrow> con" where
  "csi ch c =
     (if ch = CHR ''G'' \<or> ch = CHR 0x60 then gotoxy (less1 (par c ! 0)) (c_y c) c
      else if ch = CHR ''A'' then gotoxy (c_x c) (c_y c - par0 c) c
      else if ch = CHR ''B'' \<or> ch = CHR ''e'' then gotoxy (c_x c) (c_y c + par0 c) c
      else if ch = CHR ''C'' \<or> ch = CHR ''a'' then gotoxy (c_x c + par0 c) (c_y c) c
      else if ch = CHR ''D'' then gotoxy (c_x c - par0 c) (c_y c) c
      else if ch = CHR ''E'' then gotoxy 0 (c_y c + par0 c) c
      else if ch = CHR ''F'' then gotoxy 0 (c_y c - par0 c) c
      else if ch = CHR ''d'' then gotoxy (c_x c) (less1 (par c ! 0)) c
      else if ch = CHR ''H'' \<or> ch = CHR ''f''
      then gotoxy (less1 (par c ! 1)) (less1 (par c ! 0)) c
      else if ch = CHR ''J'' then csi_J (par c ! 0) c
      else if ch = CHR ''K'' then csi_K (par c ! 0) c
      else if ch = CHR ''L'' then csi_L (par c ! 0) c
      else if ch = CHR ''M'' then csi_M (par c ! 0) c
      else if ch = CHR ''P'' then csi_P (par c ! 0) c
      else if ch = CHR ''@'' then csi_at (par c ! 0) c
      else if ch = CHR ''m'' then csi_m c
      else if ch = CHR ''r'' then set_region c
      else if ch = CHR ''s'' then save_cur c
      else if ch = CHR ''u'' then restore_cur c
      else c)"

text \<open>States 3 and 4, and state 2, which clears the parameters and falls through.\<close>

definition params :: "u8 \<Rightarrow> con \<Rightarrow> con" where
  "params b c =
     (let ch = char_of (unat b) in
      if ch = CHR '';'' \<and> npar c < NPAR - 1 then c\<lparr>npar := npar c + 1\<rparr>
      else if 48 \<le> b \<and> b \<le> 57
      then c\<lparr>par := (par c)[npar c := 10 * par c ! npar c + ucast b - 48]\<rparr>
      else csi ch (c\<lparr>esc := 0\<rparr>))"

definition params_start :: "u8 \<Rightarrow> con \<Rightarrow> con" where
  "params_start b c =
     (let c = c\<lparr>par := replicate NPAR 0, npar := 0, esc := 3, ques := (char_of (unat b) = CHR ''?'')\<rparr>
      in if ques c then c else params b c)"

text \<open>The answer to \<open>ESC Z\<close>; after it the code calls \<open>copy_to_cooked\<close>.\<close>

definition RESPONSE :: string where
  "RESPONSE = CHR 27 # ''[?1;2c''"

definition respond_chars :: "tty_struct \<Rightarrow> tty_struct" where
  "respond_chars tty = tty\<lparr>read_q := fold (\<lambda>ch. PUTCH (of_nat (of_char ch))) RESPONSE (read_q tty)\<rparr>"

text \<open>
  State 1. \<open>copy_to_cooked\<close> may call \<open>con_write\<close> again, to echo the answer: it is the
  argument \<open>cooked\<close>. The comparisons with \<open>x\<close>, the cursor's column, are the code's.
\<close>

definition escape :: "(con \<times> tty_struct \<Rightarrow> con \<times> tty_struct) \<Rightarrow> u8 \<Rightarrow>
    con \<times> tty_struct \<Rightarrow> con \<times> tty_struct" where
  "escape cooked b = (\<lambda>(c, tty).
     let ch = char_of (unat b); c = c\<lparr>esc := 0\<rparr> in
     if ch = CHR ''['' then (c\<lparr>esc := 2\<rparr>, tty)
     else if ch = CHR ''E'' then (gotoxy 0 (c_y c + 1) c, tty)
     else if ch = CHR ''M'' then (ri c, tty)
     else if ch = CHR ''D'' then (lf c, tty)
     else if ch = CHR ''Z'' then cooked (c, respond_chars tty)
     else if c_x c = 55 then (save_cur c, tty)
     else if c_x c = 56 then (restore_cur c, tty)
     else (c, tty))"

definition con_char :: "(con \<times> tty_struct \<Rightarrow> con \<times> tty_struct) \<Rightarrow> u8 \<Rightarrow>
    con \<times> tty_struct \<Rightarrow> con \<times> tty_struct" where
  "con_char cooked b = (\<lambda>(c, tty).
     if esc c = 0 then (ground (ERASE_CHAR tty) b c, tty)
     else if esc c = 1 then escape cooked b (c, tty)
     else if esc c = 2 then (params_start b c, tty)
     else (params b c, tty))"

fun con_loop :: "(con \<times> tty_struct \<Rightarrow> con \<times> tty_struct) \<Rightarrow> nat \<Rightarrow>
    con \<times> tty_struct \<Rightarrow> con \<times> tty_struct" where
  "con_loop cooked 0 s = s"
| "con_loop cooked (Suc nr) (c, tty) =
     (let (b, q) = GETCH (write_q tty)
      in con_loop cooked nr (con_char cooked b (c, tty\<lparr>write_q := q\<rparr>)))"

definition con_write :: "(con \<times> tty_struct \<Rightarrow> con \<times> tty_struct) \<Rightarrow>
    con \<times> tty_struct \<Rightarrow> con \<times> tty_struct" where
  "con_write cooked = (\<lambda>(c, tty).
     let (c, tty) = con_loop cooked (unat (CHARS (write_q tty))) (c, tty)
     in (set_cursor c, tty))"

text \<open>\<open>con_init\<close> places the cursor where the boot sector found it.\<close>

definition con_init :: "u8 \<Rightarrow> u8 \<Rightarrow> con \<Rightarrow> con" where
  "con_init bx b_y c = gotoxy (ucast bx) (ucast b_y) c"

end
