(* ===== verification/Console_Safe.thy ===== *)
theory Console_Safe
  imports Console
begin

unbundle bit_operations_syntax

text \<open>
  The console never writes outside of the video memory: an invariant ties the cursor's
  address to its column and line and keeps the window inside \<open>SCREEN_START\<close> to
  \<open>SCREEN_END\<close>; every operation keeps it, on every byte written to the terminal.
\<close>

section \<open>The invariant\<close>

definition in_video :: "u32 \<Rightarrow> bool" where
  "in_video a \<longleftrightarrow> 0xb8000 \<le> unat a \<and> unat a < 0xc0000"

definition video_only :: "(u32 \<Rightarrow> u16) \<Rightarrow> (u32 \<Rightarrow> u16) \<Rightarrow> bool" where
  "video_only m m' \<longleftrightarrow> (\<forall>a. \<not> in_video a \<longrightarrow> m' a = m a)"

definition cursor_ok :: "con \<Rightarrow> bool" where
  "cursor_ok c \<longleftrightarrow> 0xb8000 \<le> unat (origin c) \<and> unat (origin c) + 4000 \<le> 0xc0000 \<and>
     unat (scr_end c) = unat (origin c) + 4000 \<and>
     unat (c_x c) \<le> 80 \<and> unat (c_y c) < 25 \<and>
     unat (pos c) = unat (origin c) + 160 * unat (c_y c) + 2 * unat (c_x c) \<and>
     unat (top c) < unat (bottom c) \<and> unat (bottom c) \<le> 25"

definition con_ok :: "con \<Rightarrow> bool" where
  "con_ok c \<longleftrightarrow> cursor_ok c \<and> 0 \<le> saved_x c \<and> saved_x c \<le> 80 \<and> 0 \<le> saved_y c \<and> saved_y c < 25 \<and>
     length (par c) = NPAR \<and> npar c < NPAR"

lemma video_only_refl [simp]: "video_only m m"
  by (simp add: video_only_def)

lemma video_only_trans: "video_only m m1 \<Longrightarrow> video_only m1 m2 \<Longrightarrow> video_only m m2"
  by (simp add: video_only_def)

lemma video_only_upd: "in_video a \<Longrightarrow> video_only m m1 \<Longrightarrow> video_only m (m1(a := x))"
  by (auto simp: video_only_def)

lemma unat_plus: "unat a + n < 2 ^ 32 \<Longrightarrow> unat (a + of_nat n :: u32) = unat a + n"
proof -
  assume a: "unat a + n < 2 ^ 32"
  then have "unat (of_nat n :: u32) = n" by (intro unat_of_nat_small) simp
  then show ?thesis using a unat_add_no_overflow [of a "of_nat n"] by simp
qed

lemma unat_minus: "n \<le> unat a \<Longrightarrow> unat (a - of_nat n :: u32) = unat a - n"
proof -
  assume a: "n \<le> unat a"
  moreover have "unat a < 2 ^ 32" using unsigned_less [of a] by simp
  ultimately have "unat (of_nat n :: u32) = n" by (intro unat_of_nat_small) simp
  then show ?thesis using a by (simp add: unat_sub word_le_nat_alt)
qed

lemma unat_plus_numeral: "unat a + numeral w < 2 ^ 32 \<Longrightarrow> unat (a + numeral w :: u32) = unat a + numeral w"
  using unat_plus [of a "numeral w"] by simp

lemma unat_plus_1: "unat a + 1 < 2 ^ 32 \<Longrightarrow> unat (a + 1 :: u32) = unat a + 1"
  using unat_plus [of a 1] by simp

lemma unat_minus_numeral: "numeral w \<le> unat a \<Longrightarrow> unat (a - numeral w :: u32) = unat a - numeral w"
  using unat_minus [of "numeral w" a] by simp

lemma unat_minus_1: "1 \<le> unat a \<Longrightarrow> unat (a - 1 :: u32) = unat a - 1"
  using unat_minus [of 1 a] by simp

lemma unat_times: "unat a * unat b < 2 ^ 32 \<Longrightarrow> unat (a * b :: u32) = unat a * unat b"
  using unat_mult_lem [of a b] by simp

lemma stosw_up:
  "0xb8000 \<le> unat a \<Longrightarrow> unat a + 2 * n \<le> 0xc0000 \<Longrightarrow> video_only m m1 \<Longrightarrow>
     video_only m (stosw n 2 a v m1)"
proof (induction n arbitrary: a m1)
  case (Suc n)
  then have "unat (a + 2) = unat a + 2" by (intro unat_plus_numeral) simp
  then show ?case
    unfolding stosw.simps using Suc.prems
    by (intro Suc.IH video_only_upd) (simp_all add: in_video_def)
qed simp

lemma stosw_down:
  "0xb8000 + 2 * n \<le> unat a + 2 \<Longrightarrow> unat a < 0xc0000 \<Longrightarrow> video_only m m1 \<Longrightarrow>
     video_only m (stosw n (- 2) a v m1)"
proof (induction n arbitrary: a m1)
  case (Suc n)
  then have "unat (a - 2) = unat a - 2" by (intro unat_minus_numeral) simp
  then show ?case
    unfolding stosw.simps using Suc.prems
    by (intro Suc.IH video_only_upd) (simp_all add: in_video_def)
qed simp

lemma movsl_up':
  "0xb8000 \<le> unat d \<Longrightarrow> unat d + 4 * n \<le> 0xc0000 \<Longrightarrow> video_only m m1 \<Longrightarrow>
     video_only m (movsl n 4 s d m1)"
proof (induction n arbitrary: s d m1)
  case (Suc n)
  then have "unat (d + 4) = unat d + 4" "unat (d + 2) = unat d + 2"
    by (intro unat_plus_numeral; simp)+
  then show ?case
    unfolding movsl.simps using Suc.prems
    by (intro Suc.IH video_only_upd) (simp_all add: in_video_def)
qed simp

lemma movsl_down:
  "0xb8000 + 4 * n \<le> unat d + 4 \<Longrightarrow> unat d + 4 \<le> 0xc0000 \<Longrightarrow> video_only m m1 \<Longrightarrow>
     video_only m (movsl n (- 4) s d m1)"
proof (induction n arbitrary: s d m1)
  case (Suc n)
  then have "unat (d - 4) = unat d - 4" "unat (d + 2) = unat d + 2"
    by (intro unat_minus_numeral unat_plus_numeral; simp)+
  then show ?case
    unfolding movsl.simps using Suc.prems
    by (intro Suc.IH video_only_upd) (simp_all add: in_video_def)
qed simp

lemma shift_cells_video:
  "0xb8000 \<le> unat p \<Longrightarrow> unat p + 2 * n \<le> 0xc0000 \<Longrightarrow> video_only m m1 \<Longrightarrow>
     video_only m (shift_cells n p v m1)"
proof (induction n arbitrary: p v m1)
  case (Suc n)
  then have "unat (p + 2) = unat p + 2" by (intro unat_plus_numeral) simp
  then show ?case
    unfolding shift_cells.simps using Suc.prems
    by (intro Suc.IH video_only_upd) (simp_all add: in_video_def)
qed simp

lemma unshift_cells_video:
  "0xb8000 \<le> unat p \<Longrightarrow> unat p + 2 * n + 2 \<le> 0xc0000 \<Longrightarrow> video_only m m1 \<Longrightarrow>
     video_only m (unshift_cells n p m1)"
proof (induction n arbitrary: p m1)
  case (Suc n)
  then have "unat (p + 2) = unat p + 2" by (intro unat_plus_numeral) simp
  then show ?case
    unfolding unshift_cells.simps using Suc.prems
    by (intro Suc.IH video_only_upd) (simp_all add: in_video_def)
qed (simp add: video_only_upd in_video_def)


section \<open>Scrolling\<close>

definition safe :: "con \<Rightarrow> con \<Rightarrow> bool" where
  "safe c c' \<longleftrightarrow> cursor_ok c' \<and> video_only (vmem c) (vmem c')"

lemma unat_half: "unat (drop_bit 1 (a :: u32)) = unat a div 2"
  unfolding unat_drop_bit_eq by (simp add: drop_bit_eq_div)

lemma region_count:
  assumes "cursor_ok c"
  shows "unat (drop_bit 1 ((bottom c - top c - 1) * columns)) = 40 * (unat (bottom c) - unat (top c) - 1)"
    and "unat (columns * 2 * top c) = 160 * unat (top c)"
    and "unat (columns * 2 * (top c + 1)) = 160 * (unat (top c) + 1)"
    and "unat (columns * 2 * bottom c) = 160 * unat (bottom c)"
proof -
  have tb: "unat (top c) < unat (bottom c)" "unat (bottom c) \<le> 25"
    using assms by (auto simp: cursor_ok_def)
  have d: "unat (bottom c - top c) = unat (bottom c) - unat (top c)"
    using tb by (simp add: unat_sub word_le_nat_alt)
  then have d1: "unat (bottom c - top c - 1) = unat (bottom c) - unat (top c) - 1"
    using tb unat_minus_1 [of "bottom c - top c"] by simp
  then have "unat ((bottom c - top c - 1) * columns) = (unat (bottom c) - unat (top c) - 1) * 80"
    using tb unat_times [of "bottom c - top c - 1" columns] by simp
  then show "unat (drop_bit 1 ((bottom c - top c - 1) * columns)) = 40 * (unat (bottom c) - unat (top c) - 1)"
    unfolding unat_half by simp
  show "unat (columns * 2 * top c) = 160 * unat (top c)"
    using tb unat_times [of 160 "top c"] by simp
  have "unat (top c + 1) = unat (top c) + 1" using tb by (intro unat_plus_1) simp
  then show "unat (columns * 2 * (top c + 1)) = 160 * (unat (top c) + 1)"
    using tb unat_times [of 160 "top c + 1"] by simp
  show "unat (columns * 2 * bottom c) = 160 * unat (bottom c)"
    using tb unat_times [of 160 "bottom c"] by simp
qed

lemma scrdown_safe:
  assumes ok: "cursor_ok c"
  shows "safe c (scrdown c)"
proof -
  note r = region_count [OF ok]
  have o: "0xb8000 \<le> unat (origin c)" "unat (origin c) + 4000 \<le> 0xc0000"
    and tb: "unat (top c) < unat (bottom c)" "unat (bottom c) \<le> 25"
    using ok by (auto simp: cursor_ok_def)
  define n where "n = 40 * (unat (bottom c) - unat (top c) - 1)"
  define edi where "edi = origin c + columns * 2 * bottom c - 4"
  have "unat (origin c + columns * 2 * bottom c) = unat (origin c) + 160 * unat (bottom c)"
    using o tb r(4) by (subst unat_add_no_overflow) auto
  then have edi: "unat edi = unat (origin c) + 160 * unat (bottom c) - 4"
    unfolding edi_def using tb by (subst unat_minus_numeral) auto
  have e1: "unat (edi - of_nat (4 * n)) = unat (origin c) + 160 * (unat (top c) + 1) - 4"
    using edi tb o by (subst unat_minus) (auto simp: n_def)
  have e2: "unat (edi - of_nat (4 * n) + 2) = unat (origin c) + 160 * (unat (top c) + 1) - 2"
    using e1 tb o by (subst unat_plus_numeral) auto
  have "video_only (vmem c) (movsl n (- 4) s edi (vmem c))" for s
    using edi o tb by (intro movsl_down) (auto simp: n_def)
  then have "video_only (vmem c) (stosw (unat columns) (- 2) (edi - of_nat (4 * n) + 2) blank
      (movsl n (- 4) s edi (vmem c)))" for s
    using e2 o tb by (intro stosw_down) auto
  moreover have "scrdown c = c\<lparr>vmem := stosw (unat columns) (- 2) (edi - of_nat (4 * n) + 2) blank
      (movsl n (- 4) (origin c + columns * 2 * (bottom c - 1) - 4) edi (vmem c))\<rparr>"
    unfolding scrdown_def Let_def r(1) n_def edi_def ..
  ultimately show ?thesis
    using ok by (simp only: safe_def con.simps) (simp add: cursor_ok_def)
qed

lemma scrup_safe:
  assumes ok: "cursor_ok c"
  shows "safe c (scrup c) \<and> c_x (scrup c) = c_x c \<and> c_y (scrup c) = c_y c \<and>
    top (scrup c) = top c \<and> bottom (scrup c) = bottom c"
proof -
  note r = region_count [OF ok]
  have o: "0xb8000 \<le> unat (origin c)" "unat (origin c) + 4000 \<le> 0xc0000"
    and e: "unat (scr_end c) = unat (origin c) + 4000"
    and p: "unat (pos c) = unat (origin c) + 160 * unat (c_y c) + 2 * unat (c_x c)"
    and xy: "unat (c_x c) \<le> 80" "unat (c_y c) < 25"
    and tb: "unat (top c) < unat (bottom c)" "unat (bottom c) \<le> 25"
    using ok by (auto simp: cursor_ok_def)
  show ?thesis
  proof (cases "top c = 0 \<and> bottom c = lines")
    case False
    define n where "n = 40 * (unat (bottom c) - unat (top c) - 1)"
    define edi where "edi = origin c + columns * 2 * top c"
    have edi: "unat edi = unat (origin c) + 160 * unat (top c)"
      unfolding edi_def using o tb r(2) by (subst unat_add_no_overflow) auto
    have e1: "unat (edi + of_nat (4 * n)) = unat (origin c) + 160 * (unat (bottom c) - 1)"
      using edi tb o by (subst unat_plus) (auto simp: n_def)
    have "video_only (vmem c) (movsl n 4 s edi (vmem c))" for s
      using edi o tb by (intro movsl_up') (auto simp: n_def)
    then have "video_only (vmem c) (stosw (unat columns) 2 (edi + of_nat (4 * n)) blank
        (movsl n 4 s edi (vmem c)))" for s
      using e1 o tb by (intro stosw_up) auto
    moreover have "scrup c = c\<lparr>vmem := stosw (unat columns) 2 (edi + of_nat (4 * n)) blank
        (movsl n 4 (origin c + columns * 2 * (top c + 1)) edi (vmem c))\<rparr>"
      unfolding scrup_def Let_def r(1) n_def edi_def if_not_P [OF False] ..
    ultimately show ?thesis
      using ok by (simp only: safe_def con.simps) (simp add: cursor_ok_def)
  next
    case True
    have o': "unat (origin c + columns * 2) = unat (origin c) + 160"
      and e': "unat (scr_end c + columns * 2) = unat (origin c) + 4160"
      and p': "unat (pos c + columns * 2) = unat (pos c) + 160"
      using o e p xy unat_plus_numeral [of "origin c"] unat_plus_numeral [of "scr_end c"]
        unat_plus_numeral [of "pos c"] by simp_all
    show ?thesis
    proof (cases "SCREEN_END < scr_end c + columns * 2")
      case wrap: True
      have n: "unat (drop_bit 1 ((lines - 1) * columns)) = 960" by (simp add: unat_half)
      have "video_only (vmem c) (movsl 960 4 s SCREEN_START (vmem c))" for s
        by (intro movsl_up') auto
      then have v: "video_only (vmem c) (stosw (unat columns) 2 (SCREEN_START + of_nat (4 * 960)) blank
          (movsl 960 4 s SCREEN_START (vmem c)))" for s
        by (intro stosw_up) auto
      define off where "off = origin c + columns * 2 - SCREEN_START"
      have off: "unat off = unat (origin c) + 160 - 0xb8000"
        unfolding off_def using o' o by (subst unat_minus_numeral) auto
      have "unat (scr_end c + columns * 2 - off) = 0xb8000 + 4000"
        using e' off o by (subst unat_sub) (auto simp: word_le_nat_alt)
      moreover have "unat (pos c + columns * 2 - off) = 0xb8000 + 160 * unat (c_y c) + 2 * unat (c_x c)"
        using p' p off o by (subst unat_sub) (auto simp: word_le_nat_alt)
      moreover have "scrup c = set_origin (c\<lparr>
          vmem := stosw (unat columns) 2 (SCREEN_START + of_nat (4 * 960)) blank
            (movsl 960 4 (origin c + columns * 2) SCREEN_START (vmem c)),
          scr_end := scr_end c + columns * 2 - off, pos := pos c + columns * 2 - off,
          origin := SCREEN_START\<rparr>)"
        using True wrap unfolding scrup_def Let_def n off_def by simp
      ultimately show ?thesis
        using ok v by (simp only: safe_def set_origin_def con.simps) (simp add: cursor_ok_def)
    next
      case stay: False
      then have s: "unat (origin c) + 4160 \<le> 0xc0000" using e' by (simp add: word_less_nat_alt)
      have "unat (scr_end c + columns * 2 - columns * 2) = unat (origin c) + 4000" using e by simp
      then have "video_only (vmem c) (stosw (2 * unat (drop_bit 1 columns)) 2
          (scr_end c + columns * 2 - columns * 2) blank (vmem c))"
        using s o by (intro stosw_up) (auto simp: unat_half)
      then show ?thesis
        using ok True stay o' e' p' s
        by (simp add: safe_def scrup_def Let_def set_origin_def cursor_ok_def)
    qed
  qed
qed

section \<open>The operations\<close>

lemma safe_trans: "safe c c1 \<Longrightarrow> safe c1 c2 \<Longrightarrow> safe c c2"
  by (auto simp: safe_def intro: video_only_trans)

lemma safe_refl: "cursor_ok c \<Longrightarrow> safe c c"
  by (simp add: safe_def)

lemma safe_ok: "safe c c' \<Longrightarrow> cursor_ok c'"
  by (simp add: safe_def)

text \<open>Only the window, the cursor and the cells may change.\<close>

definition keeps :: "con \<Rightarrow> con \<Rightarrow> bool" where
  "keeps c c' \<longleftrightarrow> saved_x c' = saved_x c \<and> saved_y c' = saved_y c \<and> par c' = par c \<and> npar c' = npar c"

lemma keeps_refl: "keeps c c"
  by (simp add: keeps_def)

lemma keeps_trans: "keeps c c1 \<Longrightarrow> keeps c1 c2 \<Longrightarrow> keeps c c2"
  by (simp add: keeps_def)

lemma scrup_keeps: "keeps c (scrup c)"
  by (simp add: keeps_def scrup_def Let_def set_origin_def)

lemma scrdown_keeps: "keeps c (scrdown c)"
  by (simp add: keeps_def scrdown_def Let_def)

lemma gotoxy_safe: "cursor_ok c \<Longrightarrow> safe c (gotoxy nx ny c)"
proof -
  assume ok: "cursor_ok c"
  show ?thesis
  proof (cases "columns \<le> nx \<or> lines \<le> ny")
    case True
    then show ?thesis using ok by (simp add: gotoxy_def safe_refl)
  next
    case False
    then have xy: "unat nx < 80" "unat ny < 25" by (auto simp: word_le_nat_alt)
    then have "unat (ny * columns) = unat ny * 80" by (subst unat_times) auto
    then have "unat (ny * columns + nx) = unat ny * 80 + unat nx"
      using xy by (subst unat_add_no_overflow) auto
    then have "unat ((ny * columns + nx) * 2) = 160 * unat ny + 2 * unat nx"
      using xy by (subst unat_times) auto
    then have "unat (origin c + (ny * columns + nx) * 2) = unat (origin c) + 160 * unat ny + 2 * unat nx"
      using xy ok by (subst unat_add_no_overflow) (auto simp: cursor_ok_def)
    moreover have "gotoxy nx ny c = c\<lparr>c_x := nx, c_y := ny, pos := origin c + (ny * columns + nx) * 2\<rparr>"
      using False by (simp only: gotoxy_def if_False)
    ultimately show ?thesis
      using ok xy by (simp only: safe_def con.simps) (simp add: cursor_ok_def)
  qed
qed

lemma gotoxy_keeps: "keeps c (gotoxy nx ny c)"
  by (simp add: keeps_def gotoxy_def)

lemma lf_safe: "cursor_ok c \<Longrightarrow> safe c (lf c) \<and> keeps c (lf c) \<and> c_x (lf c) = c_x c"
proof -
  assume ok: "cursor_ok c"
  have y: "unat (c_y c + 1) = unat (c_y c) + 1"
    using ok by (intro unat_plus_1) (simp add: cursor_ok_def)
  have p: "unat (pos c + columns * 2) = unat (pos c) + 160"
    using ok unat_plus_numeral [of "pos c"] by (simp add: cursor_ok_def)
  show ?thesis
  proof (cases "c_y c + 1 < bottom c")
    case True
    then have "unat (c_y c) + 1 < unat (bottom c)" using y by (simp add: word_less_nat_alt)
    then show ?thesis
      using True ok y p by (simp add: lf_def safe_def cursor_ok_def keeps_def)
  next
    case False
    then show ?thesis using scrup_safe [OF ok] scrup_keeps [of c] by (simp add: lf_def)
  qed
qed

lemma ri_safe: "cursor_ok c \<Longrightarrow> safe c (ri c) \<and> keeps c (ri c)"
proof -
  assume ok: "cursor_ok c"
  show ?thesis
  proof (cases "top c < c_y c")
    case True
    then have t: "unat (top c) < unat (c_y c)" by (simp add: word_less_nat_alt)
    then have "unat (c_y c - 1) = unat (c_y c) - 1" by (intro unat_minus_1) simp
    moreover have "160 \<le> unat (pos c)" using ok by (simp add: cursor_ok_def)
    then have "unat (pos c - columns * 2) = unat (pos c) - 160"
      using unat_minus_numeral [of _ "pos c"] by simp
    ultimately show ?thesis
      using True t ok by (auto simp: ri_def safe_def cursor_ok_def keeps_def)
  next
    case False
    then show ?thesis using scrdown_safe [OF ok] scrdown_keeps [of c] by (simp add: ri_def)
  qed
qed

lemma line_start:
  assumes "cursor_ok c"
  shows "unat (c_x c * 2) = 2 * unat (c_x c)"
    and "unat (pos c - c_x c * 2) = unat (origin c) + 160 * unat (c_y c)"
proof -
  show x2: "unat (c_x c * 2) = 2 * unat (c_x c)"
    using assms by (subst unat_times) (auto simp: cursor_ok_def)
  show "unat (pos c - c_x c * 2) = unat (origin c) + 160 * unat (c_y c)"
    using assms x2 by (subst unat_sub) (auto simp: cursor_ok_def word_le_nat_alt)
qed

lemma cr_safe: "cursor_ok c \<Longrightarrow> safe c (cr c) \<and> keeps c (cr c)"
  using line_start(2) [of c] by (simp add: cr_def safe_def cursor_ok_def keeps_def)

lemma step_back:
  assumes "cursor_ok c" "c_x c \<noteq> 0"
  shows "unat (c_x c - 1) = unat (c_x c) - 1" "unat (pos c - 2) = unat (pos c) - 2" "1 \<le> unat (c_x c)"
proof -
  show x: "1 \<le> unat (c_x c)" using assms(2) by (simp add: Suc_le_eq unat_gt_0)
  then show "unat (c_x c - 1) = unat (c_x c) - 1" by (rule unat_minus_1)
  show "unat (pos c - 2) = unat (pos c) - 2"
    using assms(1) by (intro unat_minus_numeral) (simp add: cursor_ok_def)
qed

lemma del_safe: "cursor_ok c \<Longrightarrow> safe c (del c) \<and> keeps c (del c)"
proof (cases "c_x c = 0")
  case False
  assume ok: "cursor_ok c"
  note b = step_back [OF ok False]
  have "in_video (pos c - 2)" using ok b unfolding in_video_def by (auto simp: cursor_ok_def)
  then have "video_only (vmem c) ((vmem c)(pos c - 2 := blank))" by (simp add: video_only_upd)
  then show ?thesis
    using False ok b by (auto simp: del_def safe_def cursor_ok_def keeps_def)
qed (simp add: del_def safe_refl keeps_def)

lemma cells_safe:
  assumes "cursor_ok c" and "video_only (vmem c) m"
  shows "safe c (c\<lparr>vmem := m\<rparr>)" and "keeps c (c\<lparr>vmem := m\<rparr>)"
  using assms by (auto simp: safe_def cursor_ok_def keeps_def)

lemma csi_J_safe: "cursor_ok c \<Longrightarrow> safe c (csi_J p c) \<and> keeps c (csi_J p c)"
proof -
  assume ok: "cursor_ok c"
  have "unat (scr_end c - pos c) = unat (scr_end c) - unat (pos c)"
    "unat (pos c - origin c) = unat (pos c) - unat (origin c)"
    using ok by (auto simp: unat_sub word_le_nat_alt cursor_ok_def)
  then have n: "unat (drop_bit 1 (scr_end c - pos c)) = (unat (scr_end c) - unat (pos c)) div 2"
    "unat (drop_bit 1 (pos c - origin c)) = (unat (pos c) - unat (origin c)) div 2"
    by (simp_all only: unat_half)
  have "video_only (vmem c) (stosw (unat (drop_bit 1 (scr_end c - pos c))) 2 (pos c) blank (vmem c))"
    "video_only (vmem c) (stosw (unat (drop_bit 1 (pos c - origin c))) 2 (origin c) blank (vmem c))"
    "video_only (vmem c) (stosw (unat (columns * lines)) 2 (origin c) blank (vmem c))"
    using ok n by (intro stosw_up; simp add: cursor_ok_def)+
  then show ?thesis
    using cells_safe [OF ok] ok safe_refl keeps_refl unfolding csi_J_def by (simp split: if_splits)
qed

lemma csi_K_safe: "cursor_ok c \<Longrightarrow> safe c (csi_K p c) \<and> keeps c (csi_K p c)"
proof -
  assume ok: "cursor_ok c"
  note l = line_start [OF ok]
  have x: "unat (if c_x c < columns then c_x c else columns) \<le> 80"
    by (simp add: word_less_nat_alt)
  have v0: "video_only (vmem c) (stosw (unat (columns - c_x c)) 2 (pos c) blank (vmem c))"
  proof -
    have "unat (columns - c_x c) = 80 - unat (c_x c)"
      using ok by (subst unat_sub) (auto simp: cursor_ok_def word_le_nat_alt)
    then show ?thesis using ok by (intro stosw_up) (auto simp: cursor_ok_def)
  qed
  have v1: "video_only (vmem c) (stosw (unat (if c_x c < columns then c_x c else columns)) 2
      (pos c - c_x c * 2) blank (vmem c))"
    using ok l x by (intro stosw_up) (auto simp: cursor_ok_def)
  have v2: "video_only (vmem c) (stosw (unat columns) 2 (pos c - c_x c * 2) blank (vmem c))"
    using ok l by (intro stosw_up) (auto simp: cursor_ok_def)
  show ?thesis
    using cells_safe [OF ok v0] cells_safe [OF ok v1] cells_safe [OF ok v2] ok safe_refl keeps_refl
    unfolding csi_K_def by (simp split: if_splits)
qed

lemma insert_char_safe: "cursor_ok c \<Longrightarrow> safe c (insert_char c) \<and> keeps c (insert_char c)"
proof -
  assume ok: "cursor_ok c"
  have "video_only (vmem c) (shift_cells (unat columns - unat (c_x c)) (pos c) blank (vmem c))"
    using ok by (intro shift_cells_video) (auto simp: cursor_ok_def)
  then show ?thesis using cells_safe [OF ok] by (simp add: insert_char_def)
qed

lemma delete_char_safe: "cursor_ok c \<Longrightarrow> safe c (delete_char c) \<and> keeps c (delete_char c)"
proof (cases "columns \<le> c_x c")
  case False
  assume ok: "cursor_ok c"
  have "unat (c_x c) < 80" using False by (simp add: word_le_nat_alt)
  then have "video_only (vmem c) (unshift_cells (unat columns - 1 - unat (c_x c)) (pos c) (vmem c))"
    using ok by (intro unshift_cells_video) (auto simp: cursor_ok_def)
  then show ?thesis using cells_safe [OF ok] False by (simp add: delete_char_def)
qed (simp add: delete_char_def safe_refl keeps_refl)

lemma insert_line_safe: "cursor_ok c \<Longrightarrow> safe c (insert_line c) \<and> keeps c (insert_line c)"
proof -
  assume ok: "cursor_ok c"
  let ?c = "c\<lparr>top := c_y c, bottom := lines\<rparr>"
  have "cursor_ok ?c" using ok by (simp add: cursor_ok_def)
  then have "safe ?c (scrdown ?c)" by (rule scrdown_safe)
  then show ?thesis
    using ok scrdown_keeps [of ?c]
    by (simp add: insert_line_def safe_def cursor_ok_def keeps_def scrdown_def Let_def)
qed

lemma delete_line_safe: "cursor_ok c \<Longrightarrow> safe c (delete_line c) \<and> keeps c (delete_line c)"
proof -
  assume ok: "cursor_ok c"
  let ?c = "c\<lparr>top := c_y c, bottom := lines\<rparr>"
  have "cursor_ok ?c" using ok by (simp add: cursor_ok_def)
  note s = scrup_safe [OF this]
  then show ?thesis
    using ok scrup_keeps [of ?c]
    by (simp add: delete_line_def safe_def cursor_ok_def keeps_def)
qed

lemma repeat_safe:
  assumes "\<And>c. cursor_ok c \<Longrightarrow> safe c (f c) \<and> keeps c (f c)" and "cursor_ok c"
  shows "safe c ((f ^^ n) c) \<and> keeps c ((f ^^ n) c)"
proof (induction n)
  case 0
  then show ?case using assms(2) by (simp add: safe_refl keeps_refl)
next
  case (Suc n)
  then have "cursor_ok ((f ^^ n) c)" by (blast intro: safe_ok)
  from assms(1) [OF this] Suc show ?case
    by (auto intro: safe_trans keeps_trans)
qed

lemmas repeated_safe =
  repeat_safe [OF insert_char_safe] repeat_safe [OF delete_char_safe]
  repeat_safe [OF insert_line_safe] repeat_safe [OF delete_line_safe]

lemma put_char_safe: "cursor_ok c \<Longrightarrow> safe c (put_char b c) \<and> keeps c (put_char b c)"
proof -
  assume ok: "cursor_ok c"
  define c1 where "c1 = (if columns \<le> c_x c
    then lf (c\<lparr>c_x := c_x c - columns, pos := pos c - columns * 2\<rparr>) else c)"
  have c1: "safe c c1 \<and> keeps c c1 \<and> unat (c_x c1) < 80"
  proof (cases "columns \<le> c_x c")
    case True
    let ?c = "c\<lparr>c_x := c_x c - columns, pos := pos c - columns * 2\<rparr>"
    have x: "unat (c_x c) = 80" using True ok by (simp add: cursor_ok_def word_le_nat_alt)
    then have x0: "unat (c_x c - columns) = 0"
      using unat_minus_numeral [of _ "c_x c"] by simp
    have "160 \<le> unat (pos c)" using ok by (simp add: cursor_ok_def)
    then have "unat (pos c - columns * 2) = unat (pos c) - 160"
      using unat_minus_numeral [of _ "pos c"] by simp
    then have "cursor_ok ?c" using ok x x0 by (simp add: cursor_ok_def)
    from lf_safe [OF this] show ?thesis
      using True x0 by (simp add: c1_def safe_def keeps_def)
  next
    case False
    then show ?thesis using ok by (simp add: c1_def safe_refl keeps_refl word_le_nat_alt)
  qed
  then have ok1: "cursor_ok c1" by (blast intro: safe_ok)
  have "in_video (pos c1)" using ok1 c1 by (auto simp: in_video_def cursor_ok_def)
  then have v: "video_only (vmem c) ((vmem c1)(pos c1 := ch))" for ch
    using c1 by (simp add: video_only_upd safe_def)
  have p: "unat (pos c1 + 2) = unat (pos c1) + 2" "unat (c_x c1 + 1) = unat (c_x c1) + 1"
    using ok1 c1 unat_plus_numeral [of "pos c1"] unat_plus_1 [of "c_x c1"]
    by (simp_all add: cursor_ok_def)
  have "put_char b c = c1\<lparr>vmem := (vmem c1)(pos c1 := push_bit 8 (ucast (attr c1)) OR ucast b),
           pos := pos c1 + 2, c_x := c_x c1 + 1\<rparr>"
    by (simp only: put_char_def c1_def Let_def)
  then show ?thesis
    using ok1 c1 p v by (simp only: safe_def con.simps) (simp add: cursor_ok_def keeps_def)
qed

lemma tab_safe: "cursor_ok c \<Longrightarrow> safe c (tab c) \<and> keeps c (tab c)"
proof -
  assume ok: "cursor_ok c"
  define n where "n = 8 - (c_x c AND 7)"
  have m: "unat (c_x c AND 7) = unat (c_x c) mod 8"
    using unat_and_mask [of "c_x c" 3] by (simp add: mask_eq_exp_minus_1)
  have n: "unat n = 8 - unat (c_x c) mod 8"
    unfolding n_def using m by (subst unat_sub) (auto simp: word_le_nat_alt less_imp_le)
  have x80: "unat (c_x c) \<le> 80" using ok by (simp add: cursor_ok_def)
  have x: "unat (c_x c + n) = unat (c_x c) + unat n"
    using n x80 by (intro unat_add_no_overflow) auto
  have n2: "unat (n * 2) = 2 * unat n" using n by (subst unat_times) auto
  have p: "unat (pos c + n * 2) = unat (pos c) + 2 * unat n"
    using n n2 ok by (subst unat_add_no_overflow) (auto simp: cursor_ok_def)
  let ?c = "c\<lparr>c_x := c_x c + n, pos := pos c + n * 2\<rparr>"
  have t: "tab c = (if columns < c_x c + n
      then lf (?c\<lparr>c_x := c_x c + n - columns, pos := pos c + n * 2 - columns * 2\<rparr>) else ?c)"
    by (simp add: tab_def n_def Let_def)
  show ?thesis
  proof (cases "columns < c_x c + n")
    case True
    then have g: "80 < unat (c_x c) + unat n" using x by (simp add: word_less_nat_alt)
    let ?d = "?c\<lparr>c_x := c_x c + n - columns, pos := pos c + n * 2 - columns * 2\<rparr>"
    have "unat (c_x c + n - columns) = unat (c_x c) + unat n - 80"
      using x g unat_minus_numeral [of _ "c_x c + n"] by simp
    moreover have "unat (pos c + n * 2 - columns * 2) = unat (pos c) + 2 * unat n - 160"
      using p g ok unat_minus_numeral [of _ "pos c + n * 2"] by (simp add: cursor_ok_def)
    moreover have "0 < unat n" "unat n \<le> 8" using n by auto
    ultimately have "cursor_ok ?d" using ok g by (auto simp: cursor_ok_def)
    from lf_safe [OF this] show ?thesis
      using True by (simp add: t safe_def keeps_def)
  next
    case False
    then have "unat (c_x c) + unat n \<le> 80" using x by (simp add: word_less_nat_alt)
    then show ?thesis using False ok x p by (simp add: t safe_def keeps_def cursor_ok_def)
  qed
qed

lemma ground_safe:
  assumes ok: "cursor_ok c"
  shows "safe c (ground e b c) \<and> keeps c (ground e b c)"
proof -
  have "safe c (c\<lparr>esc := 1\<rparr>) \<and> keeps c (c\<lparr>esc := 1\<rparr>)"
    using ok by (simp add: safe_def keeps_def cursor_ok_def)
  moreover have "safe c (if c_x c \<noteq> 0 then c\<lparr>c_x := c_x c - 1, pos := pos c - 2\<rparr> else c) \<and>
      keeps c (if c_x c \<noteq> 0 then c\<lparr>c_x := c_x c - 1, pos := pos c - 2\<rparr> else c)"
    using ok step_back [OF ok] by (auto simp: safe_def keeps_def cursor_ok_def)
  ultimately show ?thesis
    using put_char_safe [OF ok] lf_safe [OF ok] cr_safe [OF ok] del_safe [OF ok] tab_safe [OF ok]
      safe_refl [OF ok] keeps_refl
    unfolding ground_def Let_def by (simp split: if_splits)
qed



section \<open>Escape sequences\<close>

text \<open>The whole invariant, and that nothing but the video memory is written.\<close>

definition good :: "con \<Rightarrow> con \<Rightarrow> bool" where
  "good c c' \<longleftrightarrow> con_ok c' \<and> video_only (vmem c) (vmem c')"

lemma con_ok_cursor: "con_ok c \<Longrightarrow> cursor_ok c"
  by (simp add: con_ok_def)

lemma good_refl: "con_ok c \<Longrightarrow> good c c"
  by (simp add: good_def)

lemma good_trans: "good c c1 \<Longrightarrow> good c1 c2 \<Longrightarrow> good c c2"
  by (auto simp: good_def intro: video_only_trans)

lemma good_ok: "good c c' \<Longrightarrow> con_ok c'"
  by (simp add: good_def)

lemma goodI: "con_ok c \<Longrightarrow> safe c c' \<and> keeps c c' \<Longrightarrow> good c c'"
  by (simp add: good_def con_ok_def safe_def keeps_def)

lemma save_cur_good: "con_ok c \<Longrightarrow> good c (save_cur c)"
proof -
  assume ok: "con_ok c"
  then have xy: "unat (c_x c) \<le> 80" "unat (c_y c) < 25" by (auto simp: con_ok_def cursor_ok_def)
  then have "int (unat (c_x c)) \<le> 80" "int (unat (c_y c)) < 25" by linarith+
  then have u: "uint (c_x c) \<le> 80" "uint (c_y c) < 25" by simp_all
  moreover have "- (2 ^ 31) \<le> uint (c_x c)" "- (2 ^ 31) \<le> uint (c_y c)"
    by (rule order_trans [of _ 0]; simp)+
  ultimately have "s32 (uint (c_x c)) = uint (c_x c)" "s32 (uint (c_y c)) = uint (c_y c)"
    by (simp_all add: s32_id)
  then show ?thesis
    using ok u by (simp add: good_def con_ok_def cursor_ok_def save_cur_def)
qed

lemma unat_word_of_int: "0 \<le> i \<Longrightarrow> i < 2 ^ 32 \<Longrightarrow> unat (word_of_int i :: u32) = nat i"
  by (simp add: unsigned_of_int take_bit_int_eq_self)

lemma restore_cur_good: "con_ok c \<Longrightarrow> good c (restore_cur c)"
proof -
  assume ok: "con_ok c"
  define nx where "nx = (word_of_int (saved_x c) :: u32)"
  define ny where "ny = (word_of_int (saved_y c) :: u32)"
  have xy: "unat nx \<le> 80" "unat ny < 25"
    using ok unat_word_of_int [of "saved_x c"] unat_word_of_int [of "saved_y c"]
    by (auto simp: nx_def ny_def con_ok_def)
  then have "unat (ny * columns) = unat ny * 80" by (subst unat_times) auto
  then have "unat (ny * columns + nx) = unat ny * 80 + unat nx"
    using xy by (subst unat_add_no_overflow) auto
  then have "unat ((ny * columns + nx) * 2) = 160 * unat ny + 2 * unat nx"
    using xy by (subst unat_times) auto
  then have "unat (origin c + (ny * columns + nx) * 2) = unat (origin c) + 160 * unat ny + 2 * unat nx"
    using xy ok by (subst unat_add_no_overflow) (auto simp: con_ok_def cursor_ok_def)
  moreover have "restore_cur c = c\<lparr>c_x := nx, c_y := ny, pos := origin c + (ny * columns + nx) * 2\<rparr>"
    by (simp only: restore_cur_def nx_def ny_def Let_def)
  ultimately show ?thesis
    using ok xy by (simp only: good_def con_ok_def con.simps) (simp add: cursor_ok_def)
qed

lemma set_region_good: "con_ok c \<Longrightarrow> good c (set_region c)"
  by (auto simp: set_region_def Let_def good_def con_ok_def cursor_ok_def word_less_nat_alt word_le_nat_alt)

lemma csi_m_good: "con_ok c \<Longrightarrow> good c (csi_m c)"
  by (simp add: csi_m_def good_def con_ok_def cursor_ok_def)

lemma csi_good:
  assumes ok: "con_ok c"
  shows "good c (csi ch c)"
proof -
  note co = con_ok_cursor [OF ok]
  have g: "good c (gotoxy nx ny c)" for nx ny
    using goodI [OF ok] gotoxy_safe [OF co] gotoxy_keeps by blast
  have r: "good c (csi_L p c)" "good c (csi_M p c)" "good c (csi_P p c)" "good c (csi_at p c)"
    "good c (csi_J p c)" "good c (csi_K p c)" for p
    unfolding csi_L_def csi_M_def csi_P_def csi_at_def
    using goodI [OF ok] repeated_safe [OF _ co] csi_J_safe [OF co] csi_K_safe [OF co] by blast+
  show ?thesis
    using g r csi_m_good [OF ok] set_region_good [OF ok] save_cur_good [OF ok]
      restore_cur_good [OF ok] good_refl [OF ok]
    unfolding csi_def by (simp split: if_splits)
qed

lemma esc_good: "con_ok c \<Longrightarrow> good c (c\<lparr>esc := e\<rparr>)"
  by (simp add: good_def con_ok_def cursor_ok_def)

lemma params_good:
  assumes ok: "con_ok c"
  shows "good c (params b c)"
proof -
  have "good c (csi (char_of (unat b)) (c\<lparr>esc := 0\<rparr>))"
    using esc_good [OF ok] csi_good good_ok good_trans by blast
  moreover have "npar c < NPAR - 1 \<Longrightarrow> good c (c\<lparr>npar := npar c + 1\<rparr>)"
    "good c (c\<lparr>par := (par c)[npar c := x]\<rparr>)" for x
    using ok by (simp_all add: good_def con_ok_def cursor_ok_def)
  ultimately show ?thesis
    unfolding params_def Let_def by (simp split: if_splits)
qed

lemma params_start_good:
  assumes ok: "con_ok c"
  shows "good c (params_start b c)"
proof -
  let ?c = "c\<lparr>par := replicate NPAR 0, npar := 0, esc := 3, ques := (char_of (unat b) = CHR ''?'')\<rparr>"
  have g: "good c ?c" using ok by (simp add: good_def con_ok_def cursor_ok_def)
  then have "good c (params b ?c)"
    using params_good good_ok good_trans by blast
  with g show ?thesis
    unfolding params_start_def Let_def by (cases "char_of (unat b) = CHR ''?''") simp_all
qed

text \<open>What is asked of the nested call of \<open>copy_to_cooked\<close>.\<close>

definition cooked_ok :: "(con \<times> tty_struct \<Rightarrow> con \<times> tty_struct) \<Rightarrow> bool" where
  "cooked_ok f \<longleftrightarrow> (\<forall>c tty. con_ok c \<longrightarrow> good c (fst (f (c, tty))))"

lemma escape_good:
  assumes ok: "con_ok c" and f: "cooked_ok f"
  shows "good c (fst (escape f b (c, tty)))"
proof -
  let ?c = "c\<lparr>esc := 0\<rparr>"
  have e: "good c ?c" and oke: "con_ok ?c" using esc_good [OF ok] good_ok by blast+
  note co = con_ok_cursor [OF oke]
  have "good ?c (gotoxy nx ny ?c)" "good ?c (ri ?c)" "good ?c (lf ?c)"
    "good ?c (save_cur ?c)" "good ?c (restore_cur ?c)" "good ?c (fst (f (?c, respond_chars tty)))" for nx ny
    using goodI [OF oke] gotoxy_safe [OF co] gotoxy_keeps ri_safe [OF co] lf_safe [OF co]
      save_cur_good [OF oke] restore_cur_good [OF oke] f oke unfolding cooked_ok_def by blast+
  then have "good c (gotoxy nx ny ?c)" "good c (ri ?c)" "good c (lf ?c)"
    "good c (save_cur ?c)" "good c (restore_cur ?c)" "good c (fst (f (?c, respond_chars tty)))" for nx ny
    using good_trans [OF e] by blast+
  moreover have "good c (c\<lparr>esc := 2\<rparr>)" using esc_good [OF ok] .
  ultimately show ?thesis
    using e unfolding escape_def Let_def prod.case by (simp split: if_splits)
qed

lemma con_char_good:
  assumes ok: "con_ok c" and f: "cooked_ok f"
  shows "good c (fst (con_char f b (c, tty)))"
proof -
  have "good c (ground e b c)" for e
    using goodI [OF ok ground_safe [OF con_ok_cursor [OF ok]]] .
  then show ?thesis
    using escape_good [OF ok f] params_start_good [OF ok] params_good [OF ok]
    unfolding con_char_def prod.case by (simp split: if_splits)
qed

lemma con_loop_good:
  assumes f: "cooked_ok f" and ok: "con_ok c"
  shows "good c (fst (con_loop f n (c, tty)))"
  using ok
proof (induction n arbitrary: c tty)
  case 0
  then show ?case by (simp add: good_refl)
next
  case (Suc n)
  obtain b q where bq: "GETCH (write_q tty) = (b, q)" by fastforce
  obtain c1 t1 where c1: "con_char f b (c, tty\<lparr>write_q := q\<rparr>) = (c1, t1)" by fastforce
  have g: "good c c1" using con_char_good [OF Suc.prems f, of b "tty\<lparr>write_q := q\<rparr>"] c1 by simp
  from good_trans [OF g Suc.IH [OF good_ok [OF g], of t1]] show ?case
    using bq c1 by simp
qed


lemma con_init_ok:
  assumes "unat bx < 80" and "unat b_y < 25"
  shows "con_ok (con_init bx b_y (con_start m))"
proof -
  have b: "unat (ucast bx :: u32) = unat bx" "unat (ucast b_y :: u32) = unat b_y"
    using assms by (simp_all add: unsigned_ucast_eq take_bit_nat_eq_self_iff)
  let ?c = "(con_start m)\<lparr>pos := SCREEN_START\<rparr>"
  have "cursor_ok ?c" by (simp add: cursor_ok_def con_start_def)
  from gotoxy_safe [OF this, of "ucast bx" "ucast b_y"] have "cursor_ok (gotoxy (ucast bx) (ucast b_y) ?c)"
    by (rule safe_ok)
  moreover have "gotoxy (ucast bx) (ucast b_y) ?c = con_init bx b_y (con_start m)"
    using assms b by (simp add: gotoxy_def con_init_def word_le_nat_alt con_start_def)
  ultimately show ?thesis
    by (simp add: con_ok_def) (simp add: con_init_def gotoxy_def con_start_def)
qed

end
