(* ===== verification/Tty_Lines.thy ===== *)
theory Tty_Lines
  imports Tty
begin

unbundle bit_operations_syntax

text \<open>
  What the line discipline of theory \<open>Tty\<close> guarantees: its queues stay well formed, the
  count of lines in the cooked queue is right, editing stays within the line, and what is
  written comes out translated, in order.
\<close>

section \<open>The count of lines\<close>

definition tty_ok :: "tty_struct \<Rightarrow> bool" where
  "tty_ok tty \<longleftrightarrow> queue_ok (read_q tty) \<and> queue_ok (write_q tty) \<and> queue_ok (secondary tty)"

text \<open>\<open>secondary.data\<close> counts the line ends in the cooked queue.\<close>

definition lines_ok :: "tty_struct \<Rightarrow> bool" where
  "lines_ok tty \<longleftrightarrow>
     unat (q_data (secondary tty)) = length (filter (is_eol tty) (contents (secondary tty)))"

text \<open>What a writer may do: take characters out of the write queue.\<close>

definition writer_ok :: "tty_writer \<Rightarrow> bool" where
  "writer_ok wr \<longleftrightarrow> (\<forall>tty. tty_ok tty \<longrightarrow> tty_ok (wr tty) \<and> termios (wr tty) = termios tty \<and>
     read_q (wr tty) = read_q tty \<and> secondary (wr tty) = secondary tty \<and>
     (\<exists>n. contents (write_q (wr tty)) = drop n (contents (write_q tty))))"

lemma writer_okD:
  assumes "writer_ok wr" "tty_ok tty"
  shows "tty_ok (wr tty)" "termios (wr tty) = termios tty" "read_q (wr tty) = read_q tty"
    "secondary (wr tty) = secondary tty"
  using assms by (auto simp: writer_ok_def)

lemma put_write_ok: "tty_ok tty \<Longrightarrow> tty_ok (put_write c tty)"
  by (auto simp: tty_ok_def put_write_def intro: tty_q.put_invar)

lemma put_write_other [simp]: "termios (put_write c tty) = termios tty"
  "read_q (put_write c tty) = read_q tty" "secondary (put_write c tty) = secondary tty"
  by (simp_all add: put_write_def)

text \<open>Echoing leaves the other queues alone.\<close>

definition same_input :: "tty_struct \<Rightarrow> tty_struct \<Rightarrow> bool" where
  "same_input tty tty' \<longleftrightarrow> tty_ok tty' \<and> termios tty' = termios tty \<and>
     read_q tty' = read_q tty \<and> secondary tty' = secondary tty"

lemma same_input_refl: "tty_ok tty \<Longrightarrow> same_input tty tty"
  by (simp add: same_input_def)

lemma same_input_put: "same_input tty t \<Longrightarrow> same_input tty (put_write c t)"
  by (auto simp: same_input_def intro: put_write_ok)

lemma same_input_write: "writer_ok wr \<Longrightarrow> same_input tty t \<Longrightarrow> same_input tty (wr t)"
  by (auto simp: same_input_def writer_okD)

lemma echo_same_input:
  assumes "writer_ok wr" "tty_ok tty"
  shows "same_input tty (echo wr c tty)"
  using assms(2) unfolding echo_def
  by (auto intro!: same_input_write [OF assms(1)] same_input_put same_input_refl)

lemma L_FLAG_cong: "termios t' = termios t \<Longrightarrow> L_FLAG f t' = L_FLAG f t"
  by (simp add: L_FLAG_def)

lemma cc_cong: "termios t' = termios t \<Longrightarrow> cc i t' = cc i t"
  by (simp add: cc_def)

lemma is_eol_cong: "termios t' = termios t \<Longrightarrow> is_eol t' = is_eol t"
  by (simp add: is_eol_def fun_eq_iff cc_def)

lemma is_eol_update [simp]: "is_eol (tty\<lparr>secondary := q\<rparr>) = is_eol tty"
  "is_eol (tty\<lparr>read_q := q\<rparr>) = is_eol tty" "is_eol (tty\<lparr>stopped := x\<rparr>) = is_eol tty"
  by (simp_all add: is_eol_def fun_eq_iff cc_def)

lemma lines_small: "length (filter P (contents q)) \<le> 1023"
  using length_filter_le [of P "contents q"] length_contents [of q] by linarith

text \<open>
  Erasing removes the last character of the cooked queue, unless the queue is empty or
  that character ends a line.
\<close>

theorem erase_last:
  assumes wr: "writer_ok wr" and ok: "tty_ok tty"
  shows "tty_ok (erase wr tty) \<and> termios (erase wr tty) = termios tty \<and>
    read_q (erase wr tty) = read_q tty \<and>
    q_data (secondary (erase wr tty)) = q_data (secondary tty) \<and>
    contents (secondary (erase wr tty)) =
      (if contents (secondary tty) = [] \<or> is_eol tty (last (contents (secondary tty)))
       then contents (secondary tty) else butlast (contents (secondary tty)))"
proof (cases "contents (secondary tty) = []")
  case True
  then have "EMPTY (secondary tty)" using ok by (simp add: tty_ok_def EMPTY_contents)
  then show ?thesis using True ok by (simp add: erase_def)
next
  case False
  have q: "queue_ok (secondary tty)" using ok by (simp add: tty_ok_def)
  then have ne: "\<not> EMPTY (secondary tty)" using False by (simp add: EMPTY_contents)
  note d = DEC_head_contents [OF q False]
  let ?t = "if L_ECHO tty then wr (put_write 127 (if sint (LAST (secondary tty)) < 32
      then put_write 127 tty else tty)) else tty"
  have si: "same_input tty ?t"
    using ok by (auto intro!: same_input_write [OF wr] same_input_put same_input_refl)
  have e: "erase wr tty = (if is_eol tty (LAST (secondary tty)) then tty
      else ?t\<lparr>secondary := DEC_head (secondary ?t)\<rparr>)"
    using ne by (simp add: erase_def Let_def is_eol_def)
  show ?thesis
    unfolding e using d si False ok
    by (auto simp: same_input_def tty_ok_def DEC_head_def)
qed

lemma store_lines:
  assumes ok: "tty_ok tty" and room: "\<not> FULL (secondary tty)" and l: "lines_ok tty"
  shows "tty_ok (store c (count_eol c tty)) \<and> lines_ok (store c (count_eol c tty))"
proof -
  have q: "queue_ok (secondary tty)" using ok by (simp add: tty_ok_def)
  have len: "length (contents (secondary tty)) < 1023"
    using room FULL_contents [OF q] length_contents [of "secondary tty"] by simp
  define q' where "q' = secondary (count_eol c tty)"
  have q': "queue_ok q'" "contents q' = contents (secondary tty)"
    using q by (auto simp: q'_def count_eol_def queue_ok_def contents_def)
  have p: "contents (PUTCH c q') = contents (secondary tty) @ [c]" "queue_ok (PUTCH c q')"
    using tty_q.put_abs [OF q'(1)] tty_q.put_invar [OF q'(1)] len q'(2) by auto
  have tm: "termios (count_eol c tty) = termios tty" by (simp add: count_eol_def)
  have sec: "secondary (store c (count_eol c tty)) = PUTCH c q'" by (simp add: store_def q'_def)
  have eol: "is_eol (store c (count_eol c tty)) = is_eol tty"
    by (rule is_eol_cong) (simp add: store_def tm)
  have data: "q_data (PUTCH c q') = q_data (secondary tty) + (if is_eol tty c then 1 else 0)"
    by (simp add: PUTCH_def q'_def count_eol_def)
  have "unat (q_data (secondary tty)) \<le> 1023" using l lines_small by (simp add: lines_ok_def)
  then have "unat (q_data (PUTCH c q')) = unat (q_data (secondary tty)) + (if is_eol tty c then 1 else 0)"
    unfolding data by (subst unat_add_no_overflow) auto
  then have "lines_ok (store c (count_eol c tty))"
    using l unfolding lines_ok_def sec eol p(1) by simp
  moreover have "tty_ok (store c (count_eol c tty))"
    using ok p(2) unfolding tty_ok_def sec by (auto simp: store_def count_eol_def)
  ultimately show ?thesis by simp
qed

lemma erase_lines:
  assumes wr: "writer_ok wr" and ok: "tty_ok tty" and l: "lines_ok tty"
  shows "lines_ok (erase wr tty)"
proof -
  note e = erase_last [OF wr ok]
  have eol: "is_eol (erase wr tty) = is_eol tty" using e by (intro is_eol_cong) blast
  let ?c = "contents (secondary tty)"
  have "filter (is_eol tty) (butlast ?c) = filter (is_eol tty) ?c"
    if "?c \<noteq> []" "\<not> is_eol tty (last ?c)"
    using that by (metis append.right_neutral append_butlast_last_id filter.simps filter_append)
  then show ?thesis
    using l e unfolding lines_ok_def eol by auto
qed

lemma edit_inv:
  assumes "writer_ok wr" "tty_ok tty" "lines_ok tty" "edit wr c tty = Some tty'"
  shows "tty_ok tty' \<and> lines_ok tty' \<and> termios tty' = termios tty \<and> read_q tty' = read_q tty"
proof -
  have "is_eol (tty\<lparr>stopped := x\<rparr>) = is_eol tty" for x by (rule is_eol_cong) simp
  then show ?thesis
    using assms erase_last [OF assms(1,2)] erase_lines [OF assms(1-3)]
    by (auto simp: edit_def tty_ok_def lines_ok_def split: if_splits)
qed

lemma echo_store:
  assumes "writer_ok wr" "tty_ok (count_eol c tty)"
  shows "secondary (store c (echo wr c (count_eol c tty))) = secondary (store c (count_eol c tty))"
    and "termios (store c (echo wr c (count_eol c tty))) = termios tty"
    and "read_q (store c (echo wr c (count_eol c tty))) = read_q tty"
    and "queue_ok (write_q (store c (echo wr c (count_eol c tty))))"
  using echo_same_input [OF assms, of c]
  by (auto simp: same_input_def store_def tty_ok_def count_eol_def)

lemma cook_char_inv:
  assumes wr: "writer_ok wr" and ok: "tty_ok tty" "lines_ok tty" and room: "\<not> FULL (secondary tty)"
  shows "tty_ok (fst (cook_char wr c (tty, k))) \<and> lines_ok (fst (cook_char wr c (tty, k))) \<and>
    termios (fst (cook_char wr c (tty, k))) = termios tty \<and>
    read_q (fst (cook_char wr c (tty, k))) = read_q tty"
proof (cases "map_input tty c")
  case None
  then show ?thesis using ok by (simp add: cook_char_def)
next
  case (Some d)
  show ?thesis
  proof (cases "edit wr d tty")
    case (Some t)
    with \<open>map_input tty c = Some d\<close> edit_inv [OF wr ok Some] show ?thesis
      by (simp add: cook_char_def)
  next
    case None
    have ce: "tty_ok (count_eol d tty)"
      using ok by (auto simp: tty_ok_def count_eol_def queue_ok_def)
    note st = echo_store [OF wr ce] and sl = store_lines [OF ok(1) room ok(2), of d]
    let ?t = "store d (echo wr d (count_eol d tty))"
    have "is_eol ?t = is_eol (store d (count_eol d tty))"
      using st(2) by (intro is_eol_cong) (simp add: store_def count_eol_def)
    then have "lines_ok ?t" using sl st(1) by (simp add: lines_ok_def)
    moreover have "tty_ok ?t" using sl st ok by (simp add: tty_ok_def)
    ultimately show ?thesis
      using \<open>map_input tty c = Some d\<close> None st ok by (simp add: cook_char_def)
  qed
qed

lemma read_q_step:
  assumes "tty_ok tty" "lines_ok tty" "GETCH (read_q tty) = (c, q)"
  shows "tty_ok (tty\<lparr>read_q := q\<rparr>) \<and> lines_ok (tty\<lparr>read_q := q\<rparr>)"
proof -
  have "queue_ok q" using assms(1,3) tty_q.get_invar [of "read_q tty"] by (simp add: tty_ok_def)
  moreover have "is_eol (tty\<lparr>read_q := q\<rparr>) = is_eol tty" by (rule is_eol_cong) simp
  ultimately show ?thesis using assms by (simp add: tty_ok_def lines_ok_def)
qed

lemma cook_loop_inv:
  "writer_ok wr \<Longrightarrow> tty_ok tty \<Longrightarrow> lines_ok tty \<Longrightarrow>
     tty_ok (fst (cook_loop wr n (tty, k))) \<and> lines_ok (fst (cook_loop wr n (tty, k)))"
proof (induction n arbitrary: tty k)
  case (Suc n)
  obtain c q where cq: "GETCH (read_q tty) = (c, q)" by fastforce
  note r = read_q_step [OF Suc.prems(2,3) cq]
  show ?case
  proof (cases "\<not> EMPTY (read_q tty) \<and> \<not> FULL (secondary tty)")
    case True
    then have "\<not> FULL (secondary (tty\<lparr>read_q := q\<rparr>))" by simp
    note i = cook_char_inv [OF Suc.prems(1) conjunct1 [OF r] conjunct2 [OF r] this, of c k]
    obtain t' k' where t': "cook_char wr c (tty\<lparr>read_q := q\<rparr>, k) = (t', k')" by fastforce
    show ?thesis using True cq i Suc.IH [OF Suc.prems(1), of t' k'] t' by simp
  next
    case False
    then show ?thesis using Suc.prems by auto
  qed
qed simp


text \<open>The loop of \<open>copy_to_cooked\<close> ends by itself: 1023 turns empty any queue.\<close>

lemma cook_loop_ends:
  "writer_ok wr \<Longrightarrow> tty_ok tty \<Longrightarrow> lines_ok tty \<Longrightarrow> length (contents (read_q tty)) \<le> n \<Longrightarrow>
     EMPTY (read_q (fst (cook_loop wr n (tty, k)))) \<or> FULL (secondary (fst (cook_loop wr n (tty, k))))"
proof (induction n arbitrary: tty k)
  case 0
  then show ?case by (simp add: EMPTY_contents tty_ok_def)
next
  case (Suc n)
  obtain c q where cq: "GETCH (read_q tty) = (c, q)" by fastforce
  note r = read_q_step [OF Suc.prems(2,3) cq]
  show ?case
  proof (cases "\<not> EMPTY (read_q tty) \<and> \<not> FULL (secondary tty)")
    case True
    then have "\<not> FULL (secondary (tty\<lparr>read_q := q\<rparr>))" by simp
    note i = cook_char_inv [OF Suc.prems(1) conjunct1 [OF r] conjunct2 [OF r] this, of c k]
    obtain t' k' where t': "cook_char wr c (tty\<lparr>read_q := q\<rparr>, k) = (t', k')" by fastforce
    have rq: "queue_ok (read_q tty)" using Suc.prems(2) by (simp add: tty_ok_def)
    have ne: "contents (read_q tty) \<noteq> []" using True EMPTY_contents [OF rq] by simp
    have "contents (read_q tty) = c # contents q" using tty_q.get_abs [OF rq ne] cq by simp
    then have "length (contents (read_q t')) \<le> n" using Suc.prems(4) i t' by simp
    then show ?thesis using True cq i Suc.IH [OF Suc.prems(1), of t' k'] t' by simp
  next
    case False
    then show ?thesis by auto
  qed
qed


section \<open>Reading\<close>

text \<open>
  The characters \<open>tty_read\<close> gets are the first ones of the cooked queue, in order; the
  count of lines stays right. At an end-of-file character it stops and drops it.
\<close>

theorem read_chars_prefix:
  assumes "tty_ok tty" "lines_ok tty" "read_chars n tty = (cs, eof, tty')" "contents (secondary tty) \<noteq> []"
  shows "tty_ok tty' \<and> lines_ok tty' \<and> length cs \<le> n \<and>
    (\<exists>e. contents (secondary tty) = cs @ (if eof then [e] else []) @ contents (secondary tty') \<and>
       (eof \<longrightarrow> is_eol tty e)) \<and>
    (\<not> eof \<longrightarrow> length cs = n \<or> contents (secondary tty') = [])"
  using assms
proof (induction n arbitrary: tty cs eof tty')
  case 0
  then show ?case by auto
next
  case (Suc n)
  have sq: "queue_ok (secondary tty)" using Suc.prems(1) by (simp add: tty_ok_def)
  obtain c q where cq: "GETCH (secondary tty) = (c, q)" by fastforce
  have ct: "contents (secondary tty) = c # contents q" and oq: "queue_ok q"
    using tty_q.get_abs [OF sq Suc.prems(4)] tty_q.get_invar [OF sq] cq by simp_all
  define q1 where "q1 = (if is_eol tty c then q\<lparr>q_data := q_data q - 1\<rparr> else q)"
  define t1 where "t1 = tty\<lparr>secondary := q1\<rparr>"
  have q1: "contents q1 = contents q" "queue_ok q1"
    using oq by (auto simp: q1_def contents_def queue_ok_def)
  have eol: "is_eol t1 = is_eol tty" by (rule is_eol_cong) (simp add: t1_def)
  have ok1: "tty_ok t1" using Suc.prems(1) q1 by (simp add: tty_ok_def t1_def)
  have dq: "q_data q = q_data (secondary tty)" using cq by (auto simp: GETCH_def)
  have l1: "lines_ok t1"
  proof (cases "is_eol tty c")
    case True
    then have d: "unat (q_data q) = Suc (length (filter (is_eol tty) (contents q)))"
      using Suc.prems(2) ct by (simp add: lines_ok_def dq)
    then have "1 \<le> q_data q" by (simp add: word_le_nat_alt)
    then have "unat (q_data q - 1) = length (filter (is_eol tty) (contents q))"
      using d by (simp add: unat_sub)
    then show ?thesis using True q1 by (simp add: lines_ok_def t1_def q1_def)
  next
    case False
    then show ?thesis
      using Suc.prems(2) ct q1 by (simp add: lines_ok_def t1_def q1_def dq)
  qed
  have cc1: "cc i t1 = cc i tty" "L_FLAG f t1 = L_FLAG f tty" for i f
    by (simp_all add: cc_def L_FLAG_def t1_def)
  have run: "(if sint c = EOF_CHAR t1 \<and> L_CANON t1 then ([], True, t1)
      else if n = 0 \<or> EMPTY q1 then ([c], False, t1)
      else let (cs, eof, tty) = read_chars n t1 in (c # cs, eof, tty)) = (cs, eof, tty')"
    using Suc.prems(3) unfolding read_chars.simps cq Let_def prod.case q1_def t1_def .
  show ?case
  proof (cases "sint c = EOF_CHAR t1 \<and> L_CANON t1")
    case True
    then have "cs = []" "eof" "tty' = t1" using run by auto
    moreover have "is_eol tty c" using True cc1 by (simp add: is_eol_def)
    ultimately show ?thesis using ok1 l1 ct q1 by (auto simp: t1_def)
  next
    case noeof: False
    show ?thesis
    proof (cases "n = 0 \<or> EMPTY q1")
      case True
      then have "cs = [c]" "\<not> eof" "tty' = t1" using run noeof by auto
      then show ?thesis using ok1 l1 ct q1 True EMPTY_contents [OF q1(2)] by (auto simp: t1_def)
    next
      case False
      then obtain cs' where cs': "read_chars n t1 = (cs', eof, tty')" "cs = c # cs'"
        using run noeof by (auto split: prod.splits)
      have "contents (secondary t1) \<noteq> []" using False EMPTY_contents [OF q1(2)] by (simp add: t1_def)
      note IH = Suc.IH [OF ok1 l1 cs'(1) this]
      show ?thesis using IH ct q1 cs'(2) eol by (auto simp: t1_def)
    qed
  qed
qed

section \<open>Writing\<close>

text \<open>The text that a write should put out, new lines translated and so on.\<close>

fun out_text :: "tty_struct \<Rightarrow> bool \<Rightarrow> u8 list \<Rightarrow> u8 list" where
  "out_text tty cr [] = []"
| "out_text tty cr (b # bs) =
     (let c = map_output tty b
      in (if O_POST tty \<and> c = 10 \<and> \<not> cr \<and> O_NLCR tty then [13] else []) @
         upper_output tty c # out_text tty False bs)"

lemma out_cong:
  assumes "termios t' = termios t"
  shows "map_output t' = map_output t" "upper_output t' = upper_output t" "O_FLAG f t' = O_FLAG f t"
proof -
  show o: "O_FLAG f t' = O_FLAG f t" for f by (simp add: O_FLAG_def assms)
  show "map_output t' = map_output t" by (rule ext) (simp only: map_output_def o)
  show "upper_output t' = upper_output t" by (rule ext) (simp only: upper_output_def o)
qed

lemma out_text_cong: "termios t' = termios t \<Longrightarrow> out_text t' cr bs = out_text t cr bs"
proof (induction bs arbitrary: cr)
  case (Cons b bs)
  then show ?case
    by (simp only: out_text.simps out_cong [OF Cons.prems])
qed simp

text \<open>
  C33. What is queued and what is still to be written make up the whole text: nothing is lost
  or put out twice when the queue fills up, even between the two characters of a new line.
\<close>

theorem write_chars_text:
  assumes "tty_ok tty" "write_chars bs cr tty = (rest, cr', tty')"
  shows "tty_ok tty' \<and>
    contents (write_q tty') @ out_text tty cr' rest = contents (write_q tty) @ out_text tty cr bs \<and>
    (rest = [] \<or> FULL (write_q tty')) \<and> (\<exists>n \<le> length bs. rest = drop n bs)"
proof -
  have "tty_ok tty' \<and> termios tty' = termios tty \<and>
    contents (write_q tty') @ out_text tty cr' rest = contents (write_q tty) @ out_text tty cr bs \<and>
    (rest = [] \<or> FULL (write_q tty')) \<and> (\<exists>n \<le> length bs. rest = drop n bs)"
    using assms
  proof (induction bs cr tty rule: write_chars.induct)
    case (2 b bs cr tty)
    have wq: "queue_ok (write_q tty)" using "2.prems"(1) by (simp add: tty_ok_def)
    show ?case
    proof (cases "FULL (write_q tty)")
      case True
      then show ?thesis using "2.prems" by auto
    next
      case False
      then have room: "length (contents (write_q tty)) < 1023"
        using FULL_contents [OF wq] length_contents [of "write_q tty"] by simp
      have put: "contents (write_q (put_write x tty)) = contents (write_q tty) @ [x]" for x
        using tty_q.put_abs [OF wq room] by (simp add: put_write_def)
      let ?c = "map_output tty b"
      show ?thesis
      proof (cases "O_POST tty \<and> ?c = 10 \<and> \<not> cr \<and> O_NLCR tty")
        case True
        then have run: "write_chars (b # bs) True (put_write 13 tty) = (rest, cr', tty')"
          using "2.prems"(2) False by (simp add: Let_def)
        note IH = "2.IH"(1) [OF False refl True put_write_ok [OF "2.prems"(1)] run]
        have o: "out_text (put_write 13 tty) c bs = out_text tty c bs" for c bs
          by (rule out_text_cong) simp
        show ?thesis using IH put True by (simp add: o Let_def out_cong [of "put_write 13 tty" tty])
      next
        case other: False
        have run: "write_chars bs False (put_write (upper_output tty ?c) tty) = (rest, cr', tty')"
        proof -
          have "write_chars (b # bs) cr tty =
              write_chars bs False (put_write (upper_output tty ?c) tty)"
            by (subst write_chars.simps(2)) (simp only: Let_def if_not_P [OF False] if_not_P [OF other])
          then show ?thesis using "2.prems"(2) by (rule trans [OF sym])
        qed
        note IH = "2.IH"(2) [OF False refl other put_write_ok [OF "2.prems"(1)] run]
        have o: "out_text (put_write x tty) c bs = out_text tty c bs" for x c bs
          by (rule out_text_cong) simp
        obtain n where n: "n \<le> length bs" "rest = drop n bs" using IH by blast
        have "(if O_POST tty \<and> ?c = 10 \<and> \<not> cr \<and> O_NLCR tty then [13 :: u8] else []) = []"
          using other by simp
        then show ?thesis
          using IH put n by (auto simp: o Let_def intro!: exI [of _ "Suc n"])
      qed
    qed
  qed auto
  then show ?thesis by blast
qed

end
