(* ===== verification/Fs_Types.thy ===== *)
theory Fs_Types
  imports Prelude
begin

unbundle bit_operations_syntax

text \<open>
  The constants and the structures of include/linux/fs.h that the disk driver, the buffer
  cache and the file system share. A pointer to an element of one of the kernel's tables is
  the index of the element; the null pointer is \<open>None\<close>.
\<close>

section \<open>Constants and device numbers\<close>

abbreviation READ :: int where "READ \<equiv> 0"
abbreviation WRITE :: int where "WRITE \<equiv> 1"
abbreviation NR_HASH :: nat where "NR_HASH \<equiv> 307"
abbreviation BLOCK_SIZE :: nat where "BLOCK_SIZE \<equiv> 1024"
abbreviation I_MAP_SLOTS :: nat where "I_MAP_SLOTS \<equiv> 8"
abbreviation Z_MAP_SLOTS :: nat where "Z_MAP_SLOTS \<equiv> 8"
abbreviation SUPER_MAGIC :: u16 where "SUPER_MAGIC \<equiv> 0x137F"
abbreviation NR_SUPER :: nat where "NR_SUPER \<equiv> 8"
abbreviation NR_INODE :: nat where "NR_INODE \<equiv> 32"
abbreviation NR_FILE :: nat where "NR_FILE \<equiv> 64"
abbreviation NR_OPEN :: nat where "NR_OPEN \<equiv> 20"

definition MAJOR :: "u32 \<Rightarrow> u32" where
  "MAJOR a = drop_bit 8 a"

definition MINOR :: "u32 \<Rightarrow> u32" where
  "MINOR a = a AND 0xff"


section \<open>Buffers\<close>

text \<open>
  \<open>b_data\<close> is the block of 1024 bytes that the pointer of the source points to. The list of
  the processes that wait on a buffer (\<open>b_wait\<close>) is in theory \<open>Sleep\<close>.
\<close>

record buffer_head =
  b_data :: "u8 list"
  b_dev :: u16
  b_blocknr :: u16
  b_uptodate :: u8
  b_dirt :: u8
  b_count :: u8
  b_lock :: u8
  b_prev :: "nat option"
  b_next :: "nat option"
  b_prev_free :: "nat option"
  b_next_free :: "nat option"


section \<open>Integers in a block\<close>

text \<open>The 386 keeps the low byte of a 16-bit or 32-bit field first.\<close>

definition le16 :: "u8 list \<Rightarrow> nat \<Rightarrow> u16" where
  "le16 d i = ucast (d ! i) OR push_bit 8 (ucast (d ! (i + 1)))"

definition le32 :: "u8 list \<Rightarrow> nat \<Rightarrow> u32" where
  "le32 d i = ucast (d ! i) OR push_bit 8 (ucast (d ! (i + 1)))
     OR push_bit 16 (ucast (d ! (i + 2))) OR push_bit 24 (ucast (d ! (i + 3)))"

definition bytes16 :: "u16 \<Rightarrow> u8 list" where
  "bytes16 w = [ucast w, ucast (drop_bit 8 w)]"

definition bytes32 :: "u32 \<Rightarrow> u8 list" where
  "bytes32 w = [ucast w, ucast (drop_bit 8 w), ucast (drop_bit 16 w), ucast (drop_bit 24 w)]"

lemma length_bytes [simp]: "length (bytes16 v) = 2" "length (bytes32 w) = 4"
  by (simp_all add: bytes16_def bytes32_def)

lemma le16_bytes16: "le16 (us @ bytes16 w @ vs) (length us) = w"
  unfolding le16_def bytes16_def
proof (rule bit_word_eqI)
  fix n assume "n < LENGTH(16)"
  then show "bit (ucast ((us @ [ucast w, ucast (drop_bit 8 w)] @ vs) ! length us) OR
      push_bit 8 (ucast ((us @ [ucast w, ucast (drop_bit 8 w)] @ vs) ! (length us + 1))) :: u16) n = bit w n"
    by (cases "n < 8") (auto simp: bit_simps nth_append)
qed

lemma le32_bytes32: "le32 (us @ bytes32 w @ vs) (length us) = w"
  unfolding le32_def bytes32_def
proof (rule bit_word_eqI)
  let ?d = "us @ [ucast w, ucast (drop_bit 8 w), ucast (drop_bit 16 w), ucast (drop_bit 24 w)] @ vs"
  have d: "?d ! length us = ucast w" "?d ! (length us + 1) = ucast (drop_bit 8 w)"
    "?d ! (length us + 2) = ucast (drop_bit 16 w)" "?d ! (length us + 3) = ucast (drop_bit 24 w)"
    by (simp_all add: nth_append)
  fix n assume "n < LENGTH(32)"
  then show "bit (ucast (?d ! length us) OR push_bit 8 (ucast (?d ! (length us + 1))) OR
      push_bit 16 (ucast (?d ! (length us + 2))) OR push_bit 24 (ucast (?d ! (length us + 3))) :: u32) n = bit w n"
    unfolding d by (cases "n < 8"; cases "n < 16"; cases "n < 24") (auto simp: bit_simps)
qed

end
