(* ===== verification/Tty_Ioctl.thy ===== *)
theory Tty_Ioctl
  imports Tty Fs_Types
begin

unbundle bit_operations_syntax

text \<open>
  \<open>tty_ioctl\<close> of fs/tty\_ioctl.c: reading and setting the modes of a terminal through
  \<open>struct termios\<close> and the older \<open>struct termio\<close>, flushing its queues, its process group.
\<close>

section \<open>The two structures as bytes\<close>

text \<open>
  A \<open>struct termios\<close> takes 36 bytes: four longs, the line discipline, 17 characters and
  two bytes of padding. The padding is kept at the end of \<open>c_cc\<close>; it is zero in the tables
  the compiler builds.
\<close>

definition termios_bytes :: "termios \<Rightarrow> u8 list" where
  "termios_bytes t = bytes32 (c_iflag t) @ bytes32 (c_oflag t) @ bytes32 (c_cflag t) @
     bytes32 (c_lflag t) @ [c_line t] @ take 19 (c_cc t @ replicate 19 0)"

definition termios_of :: "u8 list \<Rightarrow> termios" where
  "termios_of b = \<lparr>c_iflag = le32 b 0, c_oflag = le32 b 4, c_cflag = le32 b 8, c_lflag = le32 b 12,
     c_line = b ! 16, c_cc = take 19 (drop 17 b)\<rparr>"

text \<open>
  A \<open>struct termio\<close> takes 18 bytes: four shorts, the line discipline, 8 characters and one
  byte of padding, which is what the stack of the kernel held (\<open>junk\<close>).
\<close>

definition termio_bytes :: "u8 \<Rightarrow> termios \<Rightarrow> u8 list" where
  "termio_bytes junk t = bytes16 (ucast (c_iflag t)) @ bytes16 (ucast (c_oflag t)) @
     bytes16 (ucast (c_cflag t)) @ bytes16 (ucast (c_lflag t)) @ [c_line t] @ take 8 (c_cc t) @ [junk]"

text \<open>\<open>*(unsigned short *)&x = v\<close> changes the low half of \<open>x\<close>.\<close>

definition set_low16 :: "u32 \<Rightarrow> u16 \<Rightarrow> u32" where
  "set_low16 x v = (x AND 0xffff0000) OR ucast v"


section \<open>The operations\<close>

definition flush :: "tty_queue \<Rightarrow> tty_queue" where
  "flush q = q\<lparr>q_head := q_tail q\<rparr>"

definition get_termios :: "tty_struct \<Rightarrow> u32 \<Rightarrow> kern \<Rightarrow> (int \<times> kern) result" where
  "get_termios tty a k =
     andthen (verify_area a 36 k) (\<lambda>k.
       Inr (0, put_user (put_fs_bytes (termios_bytes (termios tty)) a) k))"

definition set_termios :: "tty_struct \<Rightarrow> u32 \<Rightarrow> kern \<Rightarrow> tty_struct" where
  "set_termios tty a k = tty\<lparr>termios := termios_of (get_fs_bytes 36 a (fs_mem k))\<rparr>"

definition get_termio :: "u8 \<Rightarrow> tty_struct \<Rightarrow> u32 \<Rightarrow> kern \<Rightarrow> (int \<times> kern) result" where
  "get_termio junk tty a k =
     andthen (verify_area a 18 k) (\<lambda>k.
       Inr (0, put_user (put_fs_bytes (termio_bytes junk (termios tty)) a) k))"

definition set_termio :: "tty_struct \<Rightarrow> u32 \<Rightarrow> kern \<Rightarrow> tty_struct" where
  "set_termio tty a k =
     (let b = get_fs_bytes 18 a (fs_mem k); t = termios tty
      in tty\<lparr>termios := t\<lparr>c_iflag := set_low16 (c_iflag t) (le16 b 0),
           c_oflag := set_low16 (c_oflag t) (le16 b 2), c_cflag := set_low16 (c_cflag t) (le16 b 4),
           c_lflag := set_low16 (c_lflag t) (le16 b 6), c_line := b ! 8,
           c_cc := take 8 (drop 9 b) @ drop 8 (c_cc t)\<rparr>\<rparr>)"

definition flush_read :: "tty_struct \<Rightarrow> tty_struct" where
  "flush_read tty = tty\<lparr>read_q := flush (read_q tty)\<rparr>"

definition flush_write :: "tty_struct \<Rightarrow> tty_struct" where
  "flush_write tty = tty\<lparr>write_q := flush (write_q tty)\<rparr>"

text \<open>\<open>TCFLSH\<close>\<close>

definition tcflsh :: "int \<Rightarrow> tty_struct \<Rightarrow> int \<times> tty_struct" where
  "tcflsh arg tty =
     (if arg = 0 then (0, flush_read tty)
      else if arg = 1 then (0, flush_write tty)
      else if arg = 2 then (0, flush_write (flush_read tty))
      else (- EINVAL, tty))"

text \<open>
  \<open>tty_ioctl\<close>. The index \<open>dev\<close> into \<open>tty_table\<close> is not checked by the code: for a minor
  number above 2 it reads behind the table, and the model says nothing.
\<close>

definition ioctl_tty :: "u8 \<Rightarrow> int \<Rightarrow> int \<Rightarrow> tty_struct \<Rightarrow> kern \<Rightarrow> (int \<times> tty_struct \<times> kern) result" where
  "ioctl_tty junk cmd arg tty k =
     (let a = word_of_int arg :: u32;
          with_tty = (\<lambda>m. andthen m (\<lambda>(r, k). Inr (r, tty, k)))
      in if cmd = 0x5401 then with_tty (get_termios tty a k)
         else if cmd = 0x5404 then Inr (0, set_termios (flush_read tty) a k, k)
         else if cmd = 0x5403 \<or> cmd = 0x5402 then Inr (0, set_termios tty a k, k)
         else if cmd = 0x5405 then with_tty (get_termio junk tty a k)
         else if cmd = 0x5408 then Inr (0, set_termio (flush_read tty) a k, k)
         else if cmd = 0x5407 \<or> cmd = 0x5406 then Inr (0, set_termio tty a k, k)
         else if cmd = 0x5409 then Inr (0, tty, k)
         else if cmd = 0x540B then (let (r, tty) = tcflsh arg tty in Inr (r, tty, k))
         else if cmd = 0x540F then with_tty (andthen (verify_area a 4 k) (\<lambda>k.
           Inr (0, put_user (put_fs_long (word_of_int (tty_pgrp tty)) a) k)))
         else if cmd = 0x5410 then Inr (0, tty\<lparr>tty_pgrp := sint (get_fs_long (fs_mem k) a)\<rparr>, k)
         else if cmd = 0x5411 then with_tty (andthen (verify_area a 4 k) (\<lambda>k.
           Inr (0, put_user (put_fs_long (CHARS (write_q tty)) a) k)))
         else Inr (- EINVAL, tty, k))"

definition tty_ioctl :: "u8 \<Rightarrow> u32 \<Rightarrow> int \<Rightarrow> int \<Rightarrow> tty_struct list \<Rightarrow> kern \<Rightarrow>
    (int \<times> tty_struct list \<times> kern) result" where
  "tty_ioctl junk dev cmd arg ttys k =
     (if MAJOR dev = 5 \<and> task_tty (cur k) < 0 then Inl (Panic ''tty_ioctl: dev<0'')
      else
        let i = (if MAJOR dev = 5 then nat (task_tty (cur k)) else unat (MINOR dev))
        in andthen (ioctl_tty junk cmd arg (ttys ! i) k) (\<lambda>(r, tty, k). Inr (r, ttys[i := tty], k)))"


section \<open>Properties\<close>

lemma length_termios_bytes [simp]: "length (termios_bytes t) = 36"
  by (simp add: termios_bytes_def)

text \<open>Reading the bytes of a structure back.\<close>

lemma le32_four:
  assumes "length us = n" shows "le32 (us @ bytes32 w @ vs) n = w"
  using le32_bytes32 [of us w vs] assms by simp

lemma bytes32_le32: "i + 4 \<le> length b \<Longrightarrow> bytes32 (le32 b i) = take 4 (drop i b)"
proof -
  assume i: "i + 4 \<le> length b"
  have d: "take 4 (drop i b) = [b ! i, b ! (i + 1), b ! (i + 2), b ! (i + 3)]"
    using i by (intro nth_equalityI) (auto simp: less_Suc_eq numeral_eq_Suc)
  have "ucast (le32 b i) = b ! i" "ucast (drop_bit 8 (le32 b i)) = b ! (i + 1)"
    "ucast (drop_bit 16 (le32 b i)) = b ! (i + 2)" "ucast (drop_bit 24 (le32 b i)) = b ! (i + 3)"
    by (rule bit_word_eqI; auto simp: le32_def bit_simps dest: bit_imp_le_length)+
  then show ?thesis unfolding d bytes32_def by simp
qed

lemma termios_bytes_of:
  assumes "length b = 36"
  shows "termios_bytes (termios_of b) = b"
proof -
  have e: "take 4 (drop i b) @ drop (i + 4) b = drop i b" for i
    by (metis append_take_drop_id drop_drop add.commute)
  have "[b ! 16] @ take 19 (drop 17 b) = drop 16 b"
    using assms Cons_nth_drop_Suc [of 16 b] by simp
  then have "termios_bytes (termios_of b) =
      take 4 (drop 0 b) @ take 4 (drop 4 b) @ take 4 (drop 8 b) @ take 4 (drop 12 b) @ drop 16 b"
    using assms by (simp add: termios_bytes_def termios_of_def bytes32_le32)
  also have "\<dots> = b" using e [of 0] e [of 4] e [of 8] e [of 12] by simp
  finally show ?thesis .
qed

text \<open>What is set with \<open>TCSETS\<close> is what \<open>TCGETS\<close> reads.\<close>

theorem tcsets_tcgets:
  assumes "ioctl_tty junk 0x5402 arg tty k = Inr (r, tty', k1)"
    and "ioctl_tty junk 0x5401 arg' tty' k1 = Inr (r', tty'', k2)"
  shows "r = 0 \<and> r' = 0 \<and> tty'' = tty' \<and>
    get_fs_bytes 36 (word_of_int arg') (fs_mem k2) = get_fs_bytes 36 (word_of_int arg) (fs_mem k)"
proof -
  let ?b = "get_fs_bytes 36 (word_of_int arg) (fs_mem k)"
  have b: "length ?b = 36" by (simp add: get_fs_bytes_def)
  have 1: "r = 0" "tty' = tty\<lparr>termios := termios_of ?b\<rparr>" "k1 = k"
    using assms(1) by (auto simp: ioctl_tty_def set_termios_def)
  have t: "termios_bytes (termios tty') = ?b" using termios_bytes_of [OF b] 1 by simp
  obtain k3 where 3: "r' = 0" "tty'' = tty'" "k2 = put_user (put_fs_bytes ?b (word_of_int arg')) k3"
    using assms(2) t by (auto simp: ioctl_tty_def get_termios_def Let_def andthen_eq_Inr)
  have "get_fs_bytes (length ?b) (word_of_int arg') (put_fs_bytes ?b (word_of_int arg') (fs_mem k3)) = ?b"
    by (rule nth_equalityI) (use b in \<open>simp_all add: get_fs_bytes_def get_fs_byte_def put_fs_bytes_nth\<close>)
  then show ?thesis using 1 3 b by (simp add: put_user_def)
qed

text \<open>\<open>TCSETA\<close> changes the low halves of the flags, the discipline and eight characters.\<close>

theorem tcseta_low_half:
  assumes "ioctl_tty junk 0x5406 arg tty k = Inr (r, tty', k')" and "length (c_cc (termios tty)) = 17"
  shows "r = 0 \<and> k' = k \<and> length (c_cc (termios tty')) = 17 \<and>
    (\<forall>f \<in> {c_iflag, c_oflag, c_cflag, c_lflag}.
       f (termios tty') AND 0xffff0000 = f (termios tty) AND 0xffff0000) \<and>
    ucast (c_iflag (termios tty')) = get_fs_word (fs_mem k) (word_of_int arg) \<and>
    (\<forall>i. 8 \<le> i \<and> i < 17 \<longrightarrow> c_cc (termios tty') ! i = c_cc (termios tty) ! i)"
proof -
  let ?b = "get_fs_bytes 18 (word_of_int arg) (fs_mem k)"
  have b: "length ?b = 18" by (simp add: get_fs_bytes_def)
  have m: "(0xffff0000 :: u32) = NOT (mask 16)" by (simp add: mask_eq_exp_minus_1 not_eq_complement)
  have hi: "set_low16 x v AND 0xffff0000 = x AND 0xffff0000" and lo: "ucast (set_low16 x v) = v" for x v
    unfolding set_low16_def m
    by (rule bit_word_eqI; auto simp: bit_simps dest: bit_imp_le_length)+
  have run: "r = 0" "k' = k" "tty' = set_termio tty (word_of_int arg) k"
    using assms(1) by (auto simp: ioctl_tty_def)
  have "le16 ?b 0 = get_fs_word (fs_mem k) (word_of_int arg)"
    by (simp add: le16_def get_fs_word_def get_fs_bytes_def get_fs_byte_def)
  then show ?thesis
    using assms(2) b by (auto simp: run set_termio_def Let_def hi lo nth_append)
qed


section \<open>At a concrete terminal\<close>

text \<open>A kernel of one task whose memory reads as ones, and whose pages need no copy.\<close>

definition one_task :: kern where
  "one_task = \<lparr>task = (\<lambda>i. if i = 0 then Some (INIT_TASK 0) else None),
     current = 0, last_task_used_math = None, jiffies = 0, startup_time = 0, last_pid = 0,
     fpu = [], fpu0 = [], fs_mem = (\<lambda>_. 1), mem = \<lparr>mem_map = (\<lambda>_. 0), phys = (\<lambda>_. 0)\<rparr>\<rparr>"

theorem tcseta_low_half_witness:
  "\<exists>tty'. ioctl_tty 0 0x5406 64 console_tty one_task = Inr (0, tty', one_task) \<and>
     c_cc (termios tty') ! 8 = 0x11 \<and> ucast (c_iflag (termios tty')) = (0x0101 :: u16)"
proof -
  obtain tty' where r: "ioctl_tty 0 0x5406 64 console_tty one_task = Inr (0, tty', one_task)"
    by (simp add: ioctl_tty_def)
  have l: "length (c_cc (termios console_tty)) = 17" by (simp add: console_tty_def INIT_C_CC_def)
  have "get_fs_word (fs_mem one_task) 64 = 0x0101" by (simp add: one_task_def get_fs_word_def)
  moreover have "c_cc (termios console_tty) ! 8 = 0x11" by (simp add: console_tty_def INIT_C_CC_def)
  ultimately show ?thesis using tcseta_low_half [OF r l] r by auto
qed

text \<open>A page directory whose first entry is missing: \<open>write_verify\<close> has nothing to do.\<close>

theorem tcsets_tcgets_witness:
  "\<exists>tty' tty'' k2. ioctl_tty 0 0x5402 64 console_tty one_task = Inr (0, tty', one_task) \<and>
     ioctl_tty 0 0x5401 128 tty' one_task = Inr (0, tty'', k2) \<and>
     get_fs_bytes 36 128 (fs_mem k2) = replicate 36 1"
proof -
  obtain tty' where r: "ioctl_tty 0 0x5402 64 console_tty one_task = Inr (0, tty', one_task)"
    by (simp add: ioctl_tty_def)
  have w: "write_verify a (mem one_task) = Inr (mem one_task)" for a
    by (simp add: write_verify_def one_task_def Let_def)
  have "verify_area 128 36 one_task = Inr one_task"
    unfolding verify_area_def Let_def
    by (simp add: s32_id verify_pages.simps w) 
  then obtain k2 where g: "ioctl_tty 0 0x5401 128 tty' one_task = Inr (0, tty', k2)"
    by (simp add: ioctl_tty_def get_termios_def)
  have "get_fs_bytes 36 64 (fs_mem one_task) = replicate 36 1"
    by (simp add: get_fs_bytes_def get_fs_byte_def one_task_def map_replicate_const)
  then show ?thesis using tcsets_tcgets [OF r g] r g by auto
qed

end
