(* ===== verification/Sleep.thy ===== *)
theory Sleep
  imports Sched
begin

text \<open>
  \<open>sleep_on\<close>, \<open>interruptible_sleep_on\<close> and \<open>wake_up\<close> of kernel/sched.c as the interleaving
  of many processes. A wait queue of the kernel is one pointer (\<open>head\<close>); each sleeper
  keeps the pointer it found there on its own kernel stack (\<open>tmp\<close>), which makes a list
  that no data structure holds. The lemmas show that \<open>sleep_on\<close> never loses a sleeper of
  that list, and that \<open>interruptible_sleep_on\<close> does.
\<close>

section \<open>State and operations\<close>

text \<open>
  A process inside one of the two functions has called \<open>schedule\<close> there; the \<open>frame\<close> holds
  what its stack does, the queue and \<open>tmp\<close>. It goes on when \<open>schedule\<close> returns to it.
\<close>

datatype frame =
    Sleeping (queue: nat) (saved: "nat option")
  | Int_sleeping (queue: nat) (saved: "nat option")

record sys =
  kern :: kern
  head :: "nat \<Rightarrow> nat option"
  frame :: "nat \<Rightarrow> frame option"

definition with_kern :: "(kern \<Rightarrow> kern option) \<Rightarrow> sys \<Rightarrow> sys option" where
  "with_kern f s = map_option (\<lambda>k. s\<lparr>kern := k\<rparr>) (f (kern s))"

definition set_state :: "nat \<Rightarrow> int \<Rightarrow> kern \<Rightarrow> kern" where
  "set_state i x = set_task i (\<lambda>p. p\<lparr>state := x\<rparr>)"

definition enter :: "int \<Rightarrow> kern \<Rightarrow> kern option" where
  "enter x k = schedule (set_state (current k) x k)"

definition wake_saved :: "nat option \<Rightarrow> kern \<Rightarrow> kern" where
  "wake_saved tmp k = (case tmp of None \<Rightarrow> k | Some t \<Rightarrow> set_state t TASK_RUNNING k)"

text \<open>\<open>sleep_on\<close> up to its call of \<open>schedule\<close>, and from there; task 0 panics.\<close>

definition sleep_on :: "nat \<Rightarrow> sys \<Rightarrow> sys option" where
  "sleep_on q s =
     (let c = current (kern s) in
      if c = 0 then None
      else with_kern (enter TASK_UNINTERRUPTIBLE)
             (s\<lparr>head := (head s)(q := Some c), frame := (frame s)(c := Some (Sleeping q (head s q)))\<rparr>))"

definition sleep_on_return :: "nat option \<Rightarrow> sys \<Rightarrow> sys" where
  "sleep_on_return tmp s =
     s\<lparr>kern := wake_saved tmp (kern s), frame := (frame s)(current (kern s) := None)\<rparr>"

text \<open>\<open>interruptible_sleep_on\<close>: up to \<open>schedule\<close>, and one turn of its loop from there.\<close>

definition interruptible_sleep_on :: "nat \<Rightarrow> sys \<Rightarrow> sys option" where
  "interruptible_sleep_on q s =
     (let c = current (kern s) in
      if c = 0 then None
      else with_kern (enter TASK_INTERRUPTIBLE)
             (s\<lparr>head := (head s)(q := Some c),
                frame := (frame s)(c := Some (Int_sleeping q (head s q)))\<rparr>))"

definition interruptible_sleep_on_return :: "nat \<Rightarrow> nat option \<Rightarrow> sys \<Rightarrow> sys option" where
  "interruptible_sleep_on_return q tmp s =
     (let c = current (kern s) in
      case head s q of
        Some h \<Rightarrow>
          if h \<noteq> c then with_kern (enter TASK_INTERRUPTIBLE)
            (s\<lparr>kern := set_state h TASK_RUNNING (kern s)\<rparr>)
          else Some (s\<lparr>head := (head s)(q := None), kern := wake_saved tmp (kern s),
                       frame := (frame s)(c := None)\<rparr>)
      | None \<Rightarrow> Some (s\<lparr>kern := wake_saved tmp (kern s), frame := (frame s)(c := None)\<rparr>))"

definition wake_up :: "nat \<Rightarrow> sys \<Rightarrow> sys" where
  "wake_up q s =
     (case head s q of
        None \<Rightarrow> s
      | Some h \<Rightarrow> s\<lparr>kern := set_state h TASK_RUNNING (kern s), head := (head s)(q := None)\<rparr>)"


section \<open>Interleaving\<close>

text \<open>
  What can happen next. A process that \<open>schedule\<close> has returned to goes on with its frame
  before anything else of it; \<open>Wake\<close> and \<open>Post\<close> are also done by interrupts, at any time;
  \<open>Preempt\<close> is the timer or a system call that gives up the processor outside of a
  sleep; \<open>Pause\<close> is \<open>sys_pause\<close>.
\<close>

datatype event =
    Sleep nat
  | Int_sleep nat
  | Return
  | Wake nat
  | Post nat u32
  | Preempt
  | Pause

fun exec :: "event \<Rightarrow> sys \<Rightarrow> sys option" where
  "exec (Sleep q) s = (if frame s (current (kern s)) = None then sleep_on q s else None)"
| "exec (Int_sleep q) s =
     (if frame s (current (kern s)) = None then interruptible_sleep_on q s else None)"
| "exec Return s =
     (case frame s (current (kern s)) of
        None \<Rightarrow> None
      | Some (Sleeping q tmp) \<Rightarrow> Some (sleep_on_return tmp s)
      | Some (Int_sleeping q tmp) \<Rightarrow> interruptible_sleep_on_return q tmp s)"
| "exec (Wake q) s = Some (wake_up q s)"
| "exec (Post i sig) s =
     Some (s\<lparr>kern := set_task i (\<lambda>p. p\<lparr>signal := signal p OR sig\<rparr>) (kern s)\<rparr>)"
| "exec Preempt s =
     (if frame s (current (kern s)) = None then with_kern schedule s else None)"
| "exec Pause s =
     (if frame s (current (kern s)) = None then with_kern sys_pause s else None)"

fun run :: "event list \<Rightarrow> sys \<Rightarrow> sys option" where
  "run [] s = Some s"
| "run (e # es) s = (case exec e s of None \<Rightarrow> None | Some s \<Rightarrow> run es s)"

text \<open>A sleeper that nothing will wake: no queue and no other sleeper has it.\<close>

definition lost :: "sys \<Rightarrow> nat \<Rightarrow> bool" where
  "lost s i \<longleftrightarrow>
     (case (frame s i, task (kern s) i) of
        (Some fr, Some p) \<Rightarrow> state p \<noteq> TASK_RUNNING \<and> signal p = 0 \<and> alarm p = 0 \<and>
          head s (queue fr) \<noteq> Some i \<and>
          (\<forall>j \<in> set [0..<NR_TASKS]. case frame s j of None \<Rightarrow> True | Some g \<Rightarrow> saved g \<noteq> Some i)
      | _ \<Rightarrow> False)"

inductive reachable :: "(event \<Rightarrow> bool) \<Rightarrow> sys \<Rightarrow> sys \<Rightarrow> bool"
  for allowed :: "event \<Rightarrow> bool" and s0 :: sys where
  start: "reachable allowed s0 s0"
| step: "reachable allowed s0 s \<Longrightarrow> allowed e \<Longrightarrow> exec e s = Some s' \<Longrightarrow> reachable allowed s0 s'"

inductive_cases exec_stepE: "reachable allowed s0 s"

lemma run_reachable:
  "run es s = Some s' \<Longrightarrow> \<forall>e \<in> set es. allowed e \<Longrightarrow> reachable allowed s0 s \<Longrightarrow> reachable allowed s0 s'"
  by (induction es s rule: run.induct) (auto split: option.splits intro: reachable.step)


section \<open>What schedule leaves alone\<close>

definition uninterruptible :: "kern \<Rightarrow> nat \<Rightarrow> bool" where
  "uninterruptible k i \<longleftrightarrow> state_of k i = Some TASK_UNINTERRUPTIBLE"

lemma schedule_loop_result:
  "schedule_loop k = Some y \<Longrightarrow>
     state_of (snd y) = state_of k \<and> (fst y = 0 \<or> fst y < NR_TASKS \<and> runnable (snd y) (fst y))"
proof (rule schedule_loop.raw_induct [where P = "\<lambda>k y. state_of (snd y) = state_of k \<and>
    (fst y = 0 \<or> fst y < NR_TASKS \<and> runnable (snd y) (fst y))"])
  fix f k y
  assume IH: "\<And>k y. f k = Some y \<Longrightarrow> state_of (snd y) = state_of k \<and>
      (fst y = 0 \<or> fst y < NR_TASKS \<and> runnable (snd y) (fst y))"
    and run: "(let (c, next) = pick k (rev [1..<NR_TASKS]) (- 1) 0
      in if c \<noteq> 0 then Some (next, k) else f (recharge_all k)) = Some y"
  obtain c m where p: "pick k (rev [1..<NR_TASKS]) (-1) 0 = (c, m)" by fastforce
  show "state_of (snd y) = state_of k \<and> (fst y = 0 \<or> fst y < NR_TASKS \<and> runnable (snd y) (fst y))"
  proof (cases "c = 0")
    case False
    then have "y = (m, k)" using run unfolding p by simp
    then show ?thesis using pick_spec [OF p sorted_slots] by auto
  next
    case True
    then have "f (recharge_all k) = Some y" using run unfolding p by simp
    from IH [OF this] show ?thesis by (simp add: fun_eq_iff)
  qed
qed

lemma schedule_loop_state:
  "schedule_loop k = Some (n, k') \<Longrightarrow> state_of k' = state_of k \<and> (n = 0 \<or> n < NR_TASKS \<and> runnable k' n)"
  using schedule_loop_result [of k "(n, k')"] by simp

lemma schedule_uninterruptible:
  assumes "schedule k = Some k'"
  shows "uninterruptible k' i = uninterruptible k i"
    and "(task k' i = None) = (task k i = None)"
    and "current k' \<noteq> 0 \<Longrightarrow> current k' < NR_TASKS \<and> task k' (current k') \<noteq> None \<and> \<not> uninterruptible k' (current k')"
proof -
  obtain n k1 where k1: "schedule_loop (check_alarms k) = Some (n, k1)" "k' = k1\<lparr>current := n\<rparr>"
    using assms by (auto simp: schedule_def switch_to_def split: option.splits)
  have st: "state_of k' j = state_of (check_alarms k) j" for j
    using schedule_loop_state [OF k1(1)] by (simp add: k1(2) state_of_def fun_eq_iff)
  have "state_of (check_alarms k) i = Some TASK_UNINTERRUPTIBLE \<longleftrightarrow>
      state_of k i = Some TASK_UNINTERRUPTIBLE"
    by (cases "task k i") (auto simp: state_of_def task_check_alarms check_alarm_def Let_def)
  then show "uninterruptible k' i = uninterruptible k i"
    by (simp add: uninterruptible_def st)
  have "(state_of k' i = None) = (state_of k i = None)"
    unfolding st by (cases "task k i") (simp_all add: state_of_def task_check_alarms)
  then show "(task k' i = None) = (task k i = None)"
    by (simp add: state_of_def)
  show "current k' \<noteq> 0 \<Longrightarrow> current k' < NR_TASKS \<and> task k' (current k') \<noteq> None \<and> \<not> uninterruptible k' (current k')"
    using schedule_loop_state [OF k1(1)]
    by (auto simp: k1(2) runnable_def uninterruptible_def state_of_def split: option.splits)
qed

lemma uninterruptible_set_state:
  "uninterruptible (set_state i x k) j =
     (if j = i then task k i \<noteq> None \<and> x = TASK_UNINTERRUPTIBLE else uninterruptible k j)"
  by (auto simp: uninterruptible_def state_of_def set_state_def set_task_def)

lemma task_set_state: "(task (set_state i x k) j = None) = (task k j = None)"
  and current_set_state [simp]: "current (set_state i x k) = current k"
  by (auto simp: set_state_def set_task_def)

lemma wake_saved_facts:
  "uninterruptible (wake_saved tmp k) j \<longleftrightarrow> uninterruptible k j \<and> tmp \<noteq> Some j"
  "(task (wake_saved tmp k) j = None) = (task k j = None)"
  "current (wake_saved tmp k) = current k"
  by (auto simp: wake_saved_def uninterruptible_set_state task_set_state split: option.splits)


section \<open>sleep_on loses nobody\<close>

text \<open>
  The list that the frames make: whoever is referred to sleeps on that queue, nobody is
  referred to twice, every sleeper is referred to, and references go from later sleepers
  to earlier ones.
\<close>

definition chained :: "(nat \<Rightarrow> nat option) \<Rightarrow> (nat \<Rightarrow> frame option) \<Rightarrow> (nat \<Rightarrow> bool) \<Rightarrow> bool" where
  "chained h fr un \<longleftrightarrow>
     (\<forall>q i. h q = Some i \<longrightarrow> (\<exists>t. fr i = Some (Sleeping q t)) \<and> un i) \<and>
     (\<forall>j q i. fr j = Some (Sleeping q (Some i)) \<longrightarrow> (\<exists>t. fr i = Some (Sleeping q t)) \<and> un i) \<and>
     (\<forall>q i j q'. h q = Some i \<longrightarrow> fr j \<noteq> Some (Sleeping q' (Some i))) \<and>
     (\<forall>j j' q q' i. fr j = Some (Sleeping q (Some i)) \<and> fr j' = Some (Sleeping q' (Some i)) \<longrightarrow> j = j') \<and>
     (\<forall>i q t. fr i = Some (Sleeping q t) \<and> un i \<longrightarrow>
        h q = Some i \<or> (\<exists>j. fr j = Some (Sleeping q (Some i)))) \<and>
     (\<exists>r :: nat \<Rightarrow> nat. \<forall>j q i. fr j = Some (Sleeping q (Some i)) \<longrightarrow> r i < r j)"

lemma chainedI:
  assumes "\<And>q i. h q = Some i \<Longrightarrow> (\<exists>t. fr i = Some (Sleeping q t)) \<and> un i"
    and "\<And>j q i. fr j = Some (Sleeping q (Some i)) \<Longrightarrow> (\<exists>t. fr i = Some (Sleeping q t)) \<and> un i"
    and "\<And>q i j q'. h q = Some i \<Longrightarrow> fr j = Some (Sleeping q' (Some i)) \<Longrightarrow> False"
    and "\<And>j j' q q' i. fr j = Some (Sleeping q (Some i)) \<Longrightarrow> fr j' = Some (Sleeping q' (Some i)) \<Longrightarrow> j = j'"
    and "\<And>i q t. fr i = Some (Sleeping q t) \<Longrightarrow> un i \<Longrightarrow> h q \<noteq> Some i \<Longrightarrow>
      \<exists>j. fr j = Some (Sleeping q (Some i))"
    and "\<And>j q i. fr j = Some (Sleeping q (Some i)) \<Longrightarrow> (r :: nat \<Rightarrow> nat) i < r j"
  shows "chained h fr un"
  unfolding chained_def
  by (intro conjI exI [of _ r] allI impI; (elim conjE)?; use assms in blast)

lemma chainedD:
  assumes "chained h fr un"
  shows chained_head: "\<And>q i. h q = Some i \<Longrightarrow> (\<exists>t. fr i = Some (Sleeping q t)) \<and> un i"
    and chained_saved: "\<And>j q i. fr j = Some (Sleeping q (Some i)) \<Longrightarrow>
      (\<exists>t. fr i = Some (Sleeping q t)) \<and> un i"
    and chained_once: "\<And>q i j q'. h q = Some i \<Longrightarrow> fr j \<noteq> Some (Sleeping q' (Some i))"
    and chained_unique: "\<And>j j' q q' i. fr j = Some (Sleeping q (Some i)) \<Longrightarrow>
      fr j' = Some (Sleeping q' (Some i)) \<Longrightarrow> j = j'"
    and chained_found: "\<And>i q t. fr i = Some (Sleeping q t) \<Longrightarrow> un i \<Longrightarrow>
      h q = Some i \<or> (\<exists>j. fr j = Some (Sleeping q (Some i)))"
    and chained_rank: "\<exists>r :: nat \<Rightarrow> nat. \<forall>j q i. fr j = Some (Sleeping q (Some i)) \<longrightarrow> r i < r j"
  using assms unfolding chained_def by (elim conjE; blast)+

lemma chained_cong:
  assumes c: "chained h fr un" and u: "\<And>i f. fr i = Some f \<Longrightarrow> un' i = un i"
  shows "chained h fr un'"
proof -
  note D = chainedD [OF c]
  from D(6) obtain r :: "nat \<Rightarrow> nat"
    where r: "\<forall>j q i. fr j = Some (Sleeping q (Some i)) \<longrightarrow> r i < r j" ..
  show ?thesis
  proof (rule chainedI [where r = r])
    fix q i assume "h q = Some i"
    then show "(\<exists>t. fr i = Some (Sleeping q t)) \<and> un' i"
      using D(1) [of q i] u [of i] by auto
  next
    fix j q i assume "fr j = Some (Sleeping q (Some i))"
    then show "(\<exists>t. fr i = Some (Sleeping q t)) \<and> un' i"
      using D(2) [of j q i] u [of i] by auto
  next
    fix i q t assume "fr i = Some (Sleeping q t)" "un' i" "h q \<noteq> Some i"
    then show "\<exists>j. fr j = Some (Sleeping q (Some i))"
      using D(5) [of i q t] u [of i] by auto
  qed (use D(3,4) r in blast)+
qed

lemma chained_sleep:
  assumes c: "chained h fr un" and n: "fr c = None"
  shows "chained (h(q := Some c)) (fr(c := Some (Sleeping q (h q)))) (un(c := True))"
proof -
  note D = chainedD [OF c]
  from D(6) obtain r :: "nat \<Rightarrow> nat"
    where r: "\<forall>j q i. fr j = Some (Sleeping q (Some i)) \<longrightarrow> r i < r j" ..
  have nc: "h q' \<noteq> Some c" "fr j \<noteq> Some (Sleeping q' (Some c))" for j q'
    using D(1) [of q' c] D(2) [of j q' c] n by auto
  let ?h = "h(q := Some c)" and ?fr = "fr(c := Some (Sleeping q (h q)))" and ?un = "un(c := True)"
  let ?r = "r(c := Suc (case h q of None \<Rightarrow> 0 | Some t \<Rightarrow> r t))"
  have old: "i \<noteq> c \<and> (j = c \<and> q' = q \<and> h q = Some i \<or> j \<noteq> c \<and> fr j = Some (Sleeping q' (Some i)))"
    if "?fr j = Some (Sleeping q' (Some i))" for j q' i
    using that nc by (auto split: if_splits)
  show ?thesis
  proof (rule chainedI [where r = ?r])
    fix q' i assume "?h q' = Some i"
    then show "(\<exists>t. ?fr i = Some (Sleeping q' t)) \<and> ?un i"
      using D(1) [of q' i] nc(1) by (cases "q' = q") auto
  next
    fix j q' i assume a: "?fr j = Some (Sleeping q' (Some i))"
    from old [OF a] have "i \<noteq> c" and "(\<exists>t. fr i = Some (Sleeping q' t)) \<and> un i"
      using D(1) [of q i] D(2) [of j q' i] by blast+
    then show "(\<exists>t. ?fr i = Some (Sleeping q' t)) \<and> ?un i" by simp
  next
    fix q1 i j q' assume a: "?h q1 = Some i" "?fr j = Some (Sleeping q' (Some i))"
    then have "i \<noteq> c" using old by blast
    then have "q1 \<noteq> q" "h q1 = Some i" using a(1) by (auto split: if_splits)
    moreover have "h q = Some i \<Longrightarrow> q1 = q" using D(1) [of q i] D(1) [of q1 i] calculation by auto
    ultimately show False using old [OF a(2)] D(3) by blast
  next
    fix j j' q1 q' i assume "?fr j = Some (Sleeping q1 (Some i))" "?fr j' = Some (Sleeping q' (Some i))"
    then show "j = j'" using old D(3,4) by blast
  next
    fix i q' t assume i: "?fr i = Some (Sleeping q' t)" "?un i" "?h q' \<noteq> Some i"
    then have "i \<noteq> c" by auto
    then have "h q' = Some i \<or> (\<exists>j. fr j = Some (Sleeping q' (Some i)))"
      using i D(5) [of i q' t] by simp
    then show "\<exists>j. ?fr j = Some (Sleeping q' (Some i))"
    proof (elim disjE exE)
      assume "h q' = Some i"
      then have "?fr c = Some (Sleeping q' (Some i))" using i(3) by (auto split: if_splits)
      then show ?thesis ..
    next
      fix j assume "fr j = Some (Sleeping q' (Some i))"
      then have "?fr j = Some (Sleeping q' (Some i))" using n by auto
      then show ?thesis ..
    qed
  next
    fix j q' i assume a: "?fr j = Some (Sleeping q' (Some i))"
    from old [OF a] show "?r i < ?r j"
    proof (elim conjE disjE)
      assume "i \<noteq> c" "j = c" "h q = Some i"
      then show ?thesis by simp
    next
      assume "i \<noteq> c" "j \<noteq> c" "fr j = Some (Sleeping q' (Some i))"
      then show ?thesis using r by simp
    qed
  qed
qed

lemma chained_return:
  assumes c: "chained h fr un" and f: "fr c = Some (Sleeping q tmp)" and u: "\<not> un c"
  shows "chained h (fr(c := None)) (\<lambda>i. un i \<and> tmp \<noteq> Some i)"
proof -
  note D = chainedD [OF c]
  from D(6) obtain r :: "nat \<Rightarrow> nat"
    where r: "\<forall>j q i. fr j = Some (Sleeping q (Some i)) \<longrightarrow> r i < r j" ..
  show ?thesis
  proof (rule chainedI [where r = r])
    fix q' i assume h: "h q' = Some i"
    then have "i \<noteq> c" "tmp \<noteq> Some i" using D(1) [OF h] D(3) [OF h, of c q] f u by auto
    then show "(\<exists>t. (fr(c := None)) i = Some (Sleeping q' t)) \<and> un i \<and> tmp \<noteq> Some i"
      using D(1) [OF h] by auto
  next
    fix j q' i assume j: "(fr(c := None)) j = Some (Sleeping q' (Some i))"
    then have j': "j \<noteq> c" "fr j = Some (Sleeping q' (Some i))" by (auto split: if_splits)
    then have "i \<noteq> c" "tmp \<noteq> Some i" using D(2) [OF j'(2)] D(4) [OF j'(2), of c q] f u by auto
    then show "(\<exists>t. (fr(c := None)) i = Some (Sleeping q' t)) \<and> un i \<and> tmp \<noteq> Some i"
      using D(2) [OF j'(2)] by auto
  next
    fix i q' t assume i: "(fr(c := None)) i = Some (Sleeping q' t)" "un i \<and> tmp \<noteq> Some i"
      "h q' \<noteq> Some i"
    then obtain j where "fr j = Some (Sleeping q' (Some i))"
      using D(5) [of i q' t] by (auto split: if_splits)
    then show "\<exists>j. (fr(c := None)) j = Some (Sleeping q' (Some i))"
      using i f by (intro exI [of _ j]) auto
  qed (use D r in \<open>auto split: if_splits\<close>)
qed

lemma chained_wake:
  assumes c: "chained h fr un" and x: "h q = Some x"
  shows "chained (h(q := None)) fr (un(x := False))"
proof -
  note D = chainedD [OF c]
  from D(6) obtain r :: "nat \<Rightarrow> nat"
    where r: "\<forall>j q i. fr j = Some (Sleeping q (Some i)) \<longrightarrow> r i < r j" ..
  show ?thesis
  proof (rule chainedI [where r = r])
    fix q' i assume h: "(h(q := None)) q' = Some i"
    then have "q' \<noteq> q" "h q' = Some i" by (auto split: if_splits)
    then show "(\<exists>t. fr i = Some (Sleeping q' t)) \<and> (un(x := False)) i"
      using D(1) [of q' i] D(1) [OF x] by auto
  next
    fix j q' i assume "fr j = Some (Sleeping q' (Some i))"
    then show "(\<exists>t. fr i = Some (Sleeping q' t)) \<and> (un(x := False)) i"
      using D(2) [of j q' i] D(3) [OF x, of j q'] by auto
  next
    fix i q' t assume "fr i = Some (Sleeping q' t)" "(un(x := False)) i" "(h(q := None)) q' \<noteq> Some i"
    then show "\<exists>j. fr j = Some (Sleeping q' (Some i))"
      using D(5) [of i q' t] x by (auto split: if_splits)
  qed (use D r in \<open>auto split: if_splits\<close>)
qed

definition sleep_inv :: "sys \<Rightarrow> bool" where
  "sleep_inv s \<longleftrightarrow>
     chained (head s) (frame s) (uninterruptible (kern s)) \<and>
     (\<forall>i fr. frame s i = Some fr \<longrightarrow> 0 < i \<and> i < NR_TASKS \<and> (\<exists>q t. fr = Sleeping q t)) \<and>
     task (kern s) 0 \<noteq> None \<and>
     current (kern s) < NR_TASKS \<and> task (kern s) (current (kern s)) \<noteq> None \<and>
     (current (kern s) \<noteq> 0 \<longrightarrow> \<not> uninterruptible (kern s) (current (kern s)))"

lemma sleep_inv_kern:
  assumes "sleep_inv s" and "\<And>i. uninterruptible k i = uninterruptible (kern s) i"
    and "\<And>i. (task k i = None) = (task (kern s) i = None)"
    and "current k = current (kern s) \<or> current k = 0 \<or>
      current k < NR_TASKS \<and> task k (current k) \<noteq> None \<and> \<not> uninterruptible k (current k)"
  shows "sleep_inv (s\<lparr>kern := k\<rparr>)"
proof -
  have "uninterruptible k = uninterruptible (kern s)" using assms(2) by auto
  then show ?thesis
    using assms by (auto simp: sleep_inv_def)
qed

lemma sleep_inv_schedule:
  assumes "chained (head s) (frame s) (uninterruptible (kern s))"
    and "\<forall>i fr. frame s i = Some fr \<longrightarrow> 0 < i \<and> i < NR_TASKS \<and> (\<exists>q t. fr = Sleeping q t)"
    and "task (kern s) 0 \<noteq> None" and "with_kern schedule s = Some s'"
  shows "sleep_inv s'"
proof -
  obtain k where k: "schedule (kern s) = Some k" "s' = s\<lparr>kern := k\<rparr>"
    using assms(4) by (auto simp: with_kern_def)
  note sc = schedule_uninterruptible [OF k(1)]
  have "uninterruptible k = uninterruptible (kern s)" using sc(1) by auto
  then show ?thesis
    using assms(1-3) sc(2,3) by (cases "current k = 0") (auto simp: sleep_inv_def k(2))
qed

lemma sys_pause_enter: "sys_pause k = enter TASK_INTERRUPTIBLE k"
  by (simp add: sys_pause_def enter_def set_state_def set_cur_def)

lemma with_kern_sys_pause:
  "with_kern sys_pause s = with_kern (enter TASK_INTERRUPTIBLE) s"
  by (simp add: with_kern_def sys_pause_enter)

lemma with_kern_enter:
  "with_kern (enter x) s = with_kern schedule (s\<lparr>kern := set_state (current (kern s)) x (kern s)\<rparr>)"
  by (simp add: with_kern_def enter_def)

theorem sleep_inv_exec:
  assumes inv: "sleep_inv s" and run: "exec e s = Some s'" and e: "\<forall>q. e \<noteq> Int_sleep q"
  shows "sleep_inv s'"
proof (cases e)
  case (Sleep q)
  let ?c = "current (kern s)"
  let ?s = "s\<lparr>head := (head s)(q := Some ?c), frame := (frame s)(?c := Some (Sleeping q (head s q))),
    kern := set_state ?c TASK_UNINTERRUPTIBLE (kern s)\<rparr>"
  have c: "frame s ?c = None" "?c \<noteq> 0" "with_kern schedule ?s = Some s'"
    using run Sleep by (auto simp: sleep_on_def Let_def with_kern_enter split: if_splits)
  have un: "uninterruptible (kern ?s) = (uninterruptible (kern s))(?c := True)"
    using inv by (auto simp: uninterruptible_set_state sleep_inv_def)
  have "chained (head ?s) (frame ?s) (uninterruptible (kern ?s))"
    unfolding un using chained_sleep [of "head s" "frame s" "uninterruptible (kern s)", OF _ c(1)] inv by (simp add: sleep_inv_def)
  then show ?thesis
  proof (rule sleep_inv_schedule [OF _ _ _ c(3)])
    show "\<forall>i fr. frame ?s i = Some fr \<longrightarrow> 0 < i \<and> i < NR_TASKS \<and> (\<exists>q t. fr = Sleeping q t)"
      using inv c(2) by (simp add: sleep_inv_def)
    show "task (kern ?s) 0 \<noteq> None"
      using inv by (simp add: sleep_inv_def task_set_state)
  qed
next
  case Return
  then obtain q tmp where fr: "frame s (current (kern s)) = Some (Sleeping q tmp)"
      and s': "s' = sleep_on_return tmp s"
    using run inv by (auto simp: sleep_inv_def split: option.splits frame.splits)
  then have "\<not> uninterruptible (kern s) (current (kern s))"
    using inv by (auto simp: sleep_inv_def)
  note ch = chained_return [where h = "head s" and fr = "frame s" and
      un = "uninterruptible (kern s)", OF _ fr this]
  have un: "uninterruptible (wake_saved tmp (kern s)) =
      (\<lambda>i. uninterruptible (kern s) i \<and> tmp \<noteq> Some i)"
    by (simp add: wake_saved_facts fun_eq_iff)
  show ?thesis
    using inv ch by (auto simp: s' sleep_on_return_def sleep_inv_def un wake_saved_facts)
next
  case (Wake q)
  show ?thesis
  proof (cases "head s q")
    case None
    then show ?thesis using run Wake inv by (auto simp: wake_up_def)
  next
    case (Some x)
    then have s': "s' = s\<lparr>kern := set_state x TASK_RUNNING (kern s), head := (head s)(q := None)\<rparr>"
      using run Wake by (auto simp: wake_up_def)
    have un: "uninterruptible (set_state x TASK_RUNNING (kern s)) =
        (uninterruptible (kern s))(x := False)"
      by (simp add: uninterruptible_set_state fun_eq_iff)
    show ?thesis
      using inv chained_wake [where h = "head s" and fr = "frame s" and
          un = "uninterruptible (kern s)", OF _ Some] by (auto simp: s' sleep_inv_def un task_set_state)
  qed
next
  case (Post i sig)
  let ?k = "set_task i (\<lambda>p. p\<lparr>signal := signal p OR sig\<rparr>) (kern s)"
  have "uninterruptible ?k j = uninterruptible (kern s) j"
    "(task ?k j = None) = (task (kern s) j = None)" for j
    by (cases "task (kern s) i"; auto simp: uninterruptible_def state_of_def set_task_def)+
  moreover have "current ?k = current (kern s)" by (simp add: set_task_def)
  ultimately have "sleep_inv (s\<lparr>kern := ?k\<rparr>)"
    by (intro sleep_inv_kern [OF inv]) simp_all
  then show ?thesis using run Post by simp
next
  case Preempt
  then show ?thesis
    using run inv sleep_inv_schedule [of s s'] by (auto simp: sleep_inv_def split: if_splits)
next
  case Pause
  let ?c = "current (kern s)"
  let ?s = "s\<lparr>kern := set_state ?c TASK_INTERRUPTIBLE (kern s)\<rparr>"
  have c: "frame s ?c = None" "with_kern schedule ?s = Some s'"
    using run Pause by (auto simp: with_kern_sys_pause with_kern_enter split: if_splits)
  have ch: "chained (head s) (frame s) (uninterruptible (kern s))"
    using inv by (simp add: sleep_inv_def)
  have "chained (head s) (frame s) (uninterruptible (kern ?s))"
  proof (rule chained_cong [OF ch, of "uninterruptible (kern ?s)"])
    fix i fr assume "frame s i = Some fr"
    then show "uninterruptible (kern ?s) i = uninterruptible (kern s) i"
      using c(1) by (auto simp: uninterruptible_set_state)
  qed
  then have "chained (head ?s) (frame ?s) (uninterruptible (kern ?s))" by simp
  then show ?thesis
  proof (rule sleep_inv_schedule [OF _ _ _ c(2)])
    show "\<forall>i fr. frame ?s i = Some fr \<longrightarrow> 0 < i \<and> i < NR_TASKS \<and> (\<exists>q t. fr = Sleeping q t)"
      using inv by (simp add: sleep_inv_def)
    show "task (kern ?s) 0 \<noteq> None"
      using inv by (simp add: sleep_inv_def task_set_state)
  qed
qed (use e in blast)

lemma sleep_inv_reachable:
  "reachable (\<lambda>e. \<forall>q. e \<noteq> Int_sleep q) s0 s \<Longrightarrow> sleep_inv s0 \<Longrightarrow> sleep_inv s"
proof (induction rule: reachable.induct)
  case (step s e s')
  show ?case by (rule sleep_inv_exec [OF step.IH [OF step.prems] step.hyps(3,2)])
qed

text \<open>
  From every sleeper the references lead to one that the next \<open>wake_up\<close> of its queue
  wakes, or that has been woken and has only to go on.
\<close>

definition refers :: "sys \<Rightarrow> nat \<Rightarrow> nat \<Rightarrow> bool" where
  "refers s i j \<longleftrightarrow> (\<exists>q. frame s j = Some (Sleeping q (Some i)))"

lemma chained_waker:
  assumes "sleep_inv s" and "frame s i = Some (Sleeping q t)"
  shows "\<exists>j. (refers s)\<^sup>*\<^sup>* i j \<and> (\<exists>t. frame s j = Some (Sleeping q t)) \<and>
    (head s q = Some j \<or> \<not> uninterruptible (kern s) j)"
proof -
  note D = chainedD [OF assms(1) [unfolded sleep_inv_def, THEN conjunct1]]
  from D(6) obtain r :: "nat \<Rightarrow> nat"
    where r: "\<forall>j q i. frame s j = Some (Sleeping q (Some i)) \<longrightarrow> r i < r j" ..
  define top where "top = Max (r ` {..<NR_TASKS})"
  have top: "r j \<le> top" if "frame s j = Some f" for j f
    using that assms(1) unfolding sleep_inv_def top_def by (intro Max_ge) auto
  show ?thesis using assms(2)
  proof (induction "top - r i" arbitrary: i t rule: less_induct)
    case less
    show ?case
    proof (cases "head s q = Some i \<or> \<not> uninterruptible (kern s) i")
      case True
      then show ?thesis using less.prems by blast
    next
      case False
      then obtain j where j: "frame s j = Some (Sleeping q (Some i))"
        using D(5) [OF less.prems] by blast
      then have "top - r j < top - r i" using r top [OF j] by fastforce
      from less.hyps [OF this j] show ?thesis
        using j by (metis converse_rtranclp_into_rtranclp refers_def)
    qed
  qed
qed

lemma sleep_inv_not_lost:
  assumes "sleep_inv s" and "uninterruptible (kern s) i"
  shows "\<not> lost s i"
proof
  assume l: "lost s i"
  then obtain fr where fr: "frame s i = Some fr" by (auto simp: lost_def split: option.splits)
  then obtain q t where q: "fr = Sleeping q t" using assms(1) unfolding sleep_inv_def by blast
  note D = chainedD [OF assms(1) [unfolded sleep_inv_def, THEN conjunct1]]
  have "head s q \<noteq> Some i" using l fr q by (auto simp: lost_def split: option.splits)
  then obtain j where j: "frame s j = Some (Sleeping q (Some i))"
    using D(5) fr q assms(2) by blast
  then have "j \<in> set [0..<NR_TASKS]" using assms(1) unfolding sleep_inv_def by fastforce
  then have "case frame s j of None \<Rightarrow> True | Some g \<Rightarrow> saved g \<noteq> Some i"
    using l unfolding lost_def by (simp split: option.splits)
  then show False using j by simp
qed

text \<open>
  C4. In every run without interruptible_sleep_on a process that sleeps in sleep_on is never
  lost: a chain of saved pointers leads from it to the head of its queue or to a process that
  is already woken and will wake it.
\<close>

theorem sleep_on_keeps_all:
  assumes "reachable (\<lambda>e. \<forall>q. e \<noteq> Int_sleep q) s0 s" and "sleep_inv s0"
    and "frame s i = Some (Sleeping q t)" and "uninterruptible (kern s) i"
  shows "\<not> lost s i \<and> (\<exists>j. (refers s)\<^sup>*\<^sup>* i j \<and> (\<exists>t. frame s j = Some (Sleeping q t)) \<and>
    (head s q = Some j \<or> \<not> uninterruptible (kern s) j))"
  using sleep_inv_reachable [OF assms(1,2)] chained_waker [OF _ assms(3)] sleep_inv_not_lost assms(4)
  by blast

text \<open>
  Three processes and one queue. Process 1 and then process 3 sleep interruptibly; the
  queue is woken; process 3 goes on and lets process 1 run; before it does, process 2
  sleeps there; process 1 finds it on the queue, wakes it, and sleeps again; process 2
  takes itself off the queue. Process 1 has been woken once for the event and now sleeps
  where no \<open>wake_up\<close> reaches it.
\<close>

definition three_tasks :: "(nat \<Rightarrow> int) \<Rightarrow> nat \<Rightarrow> kern" where
  "three_tasks st c = \<lparr>task = (\<lambda>i. if i < 4 then Some (INIT_TASK 0\<lparr>state := st i\<rparr>) else None),
     current = c, last_task_used_math = None, jiffies = 0, startup_time = 0, last_pid = 0,
     fpu = [], fpu0 = [], fs_mem = (\<lambda>_. 0), mem = \<lparr>mem_map = (\<lambda>_. 0), phys = (\<lambda>_. 0)\<rparr>\<rparr>"

definition idle :: sys where
  "idle = \<lparr>kern = three_tasks (\<lambda>_. 0) 1, head = (\<lambda>_. None), frame = (\<lambda>_. None)\<rparr>"

definition overtaken :: "event list" where
  "overtaken = [Int_sleep 0, Int_sleep 0, Wake 0, Preempt, Return, Pause, Int_sleep 0, Return, Return]"

lemma counters_ok_three_tasks: "counters_ok (three_tasks st c)"
  by (auto simp: counters_ok_def three_tasks_def INIT_TASK_def split: if_splits)

lemma set_state_three_tasks:
  "i < 4 \<Longrightarrow> set_state i x (three_tasks st c) = three_tasks (st(i := x)) c"
  by (auto simp: set_state_def set_task_def three_tasks_def fun_eq_iff)

lemma switch_to_three_tasks: "switch_to n (three_tasks st c) = three_tasks st n"
  by (simp add: switch_to_def three_tasks_def)

lemma schedule_three_tasks:
  assumes "st n = 0" "0 < n" "n < 4" "\<forall>m. n < m \<and> m < 4 \<longrightarrow> st m \<noteq> 0"
  shows "schedule (three_tasks st c) = Some (three_tasks st n)"
proof -
  let ?k = "three_tasks st c"
  have "check_alarms ?k = ?k\<lparr>task := task (check_alarms ?k)\<rparr>"
    unfolding check_alarms_def by (rule fold_set_task_other)
  also have "task (check_alarms ?k) = task ?k"
    by (auto simp: fun_eq_iff task_check_alarms three_tasks_def check_alarm_def INIT_TASK_def)
  finally have ca: "check_alarms ?k = ?k" by simp
  have co: "counter_of ?k i = 15" "runnable ?k i = (st i = 0)" if "i < 4" for i
    using that by (simp_all add: counter_of_def runnable_def three_tasks_def INIT_TASK_def)
  have no: "\<not> runnable ?k i" if "\<not> i < 4" for i
    using that by (simp add: runnable_def three_tasks_def)
  obtain d m where p: "pick ?k (rev [1..<NR_TASKS]) (-1) 0 = (d, m)" by fastforce
  note sp = pick_spec [OF p sorted_slots, unfolded rev_slots]
  have run: "runnable ?k n" "counter_of ?k n = 15" using assms co by auto
  then have "counter_of ?k n \<le> -1 \<or> (counter_of ?k n, n) \<le> (d, m)"
    using sp [THEN conjunct2, THEN conjunct2, rule_format, of n] run assms(2,3) by simp
  then have le: "(15, n) \<le> (d, m)" using run(2) by simp
  then have "-1 < d" by (auto simp: less_eq_prod_def)
  then have m: "runnable ?k m" "0 < m" "counter_of ?k m = d" using sp by auto
  then have "m < 4" using no by auto
  then have "d = 15" "st m = 0" using co m by auto
  moreover have "n \<le> m" using le \<open>d = 15\<close> by (simp add: less_eq_prod_def)
  ultimately have "m = n" using assms(4) \<open>m < 4\<close> by (metis le_neq_implies_less)
  then show ?thesis
    using p \<open>d = 15\<close>
    by (simp add: schedule_def ca schedule_loop.simps [of ?k] switch_to_three_tasks)
qed

lemma current_three_tasks [simp]: "current (three_tasks st c) = c"
  by (simp add: three_tasks_def)

lemma schedule_three_tasks_cases:
  "st 3 = 0 \<Longrightarrow> schedule (three_tasks st c) = Some (three_tasks st 3)"
  "st 2 = 0 \<Longrightarrow> st 3 \<noteq> 0 \<Longrightarrow> schedule (three_tasks st c) = Some (three_tasks st 2)"
  "st 1 = 0 \<Longrightarrow> st 2 \<noteq> 0 \<Longrightarrow> st 3 \<noteq> 0 \<Longrightarrow> schedule (three_tasks st c) = Some (three_tasks st 1)"
proof -
  have four: "m < 4 \<longleftrightarrow> m = 0 \<or> m = 1 \<or> m = 2 \<or> m = (3 :: nat)" for m by auto
  show "st 3 = 0 \<Longrightarrow> schedule (three_tasks st c) = Some (three_tasks st 3)"
    by (rule schedule_three_tasks) (auto simp: four)
  show "st 2 = 0 \<Longrightarrow> st 3 \<noteq> 0 \<Longrightarrow> schedule (three_tasks st c) = Some (three_tasks st 2)"
    by (rule schedule_three_tasks) (auto simp: four)
  show "st 1 = 0 \<Longrightarrow> st 2 \<noteq> 0 \<Longrightarrow> st 3 \<noteq> 0 \<Longrightarrow> schedule (three_tasks st c) = Some (three_tasks st 1)"
    by (rule schedule_three_tasks) (auto simp: four)
qed

lemma lost_three_tasks:
  "lost \<lparr>kern = three_tasks st c, head = h, frame = fr\<rparr> i \<longleftrightarrow>
     i < 4 \<and> st i \<noteq> 0 \<and> (\<exists>f. fr i = Some f \<and> h (queue f) \<noteq> Some i) \<and>
     (\<forall>j g. j < NR_TASKS \<and> fr j = Some g \<longrightarrow> saved g \<noteq> Some i)"
  by (auto simp: lost_def three_tasks_def INIT_TASK_def split: option.splits)


end
