(* ===== verification/Sys.thy ===== *)
theory Sys
  imports Segment Sleep
begin

unbundle bit_operations_syntax

text \<open>
  The system calls of kernel/sys.c that act on the process and its group, and the signals
  of kernel/exit.c: \<open>send_sig\<close>, \<open>do_kill\<close>, \<open>release\<close> and \<open>sys_waitpid\<close>. The lemmas say who
  may change what: user and group numbers, signals, process groups.
\<close>

section \<open>kernel/sys.c\<close>

text \<open>The calls that are not implemented, with what they return.\<close>

definition unimplemented :: "(string \<times> int) list" where
  "unimplemented =
     [(''ftime'', - ENOSYS), (''mknod'', - ENOSYS), (''break'', - ENOSYS), (''mount'', - ENOSYS),
      (''umount'', - ENOSYS), (''ustat'', - 1), (''ptrace'', - ENOSYS), (''stty'', - ENOSYS),
      (''gtty'', - ENOSYS), (''rename'', - ENOSYS), (''prof'', - ENOSYS)]"

definition unimplemented2 :: "(string \<times> int) list" where
  "unimplemented2 =
     [(''acct'', - ENOSYS), (''phys'', - ENOSYS), (''lock'', - ENOSYS), (''mpx'', - ENOSYS),
      (''ulimit'', - ENOSYS)]"

text \<open>Numbers of users and groups are 16 bits wide in the descriptor, \<open>int\<close>s in the calls.\<close>

definition sys_setgid :: "int \<Rightarrow> kern \<Rightarrow> int \<times> kern" where
  "sys_setgid g s =
     (let c = cur s in
      if euid c \<noteq> 0 \<and> uid c \<noteq> 0 then
        if uint (gid c) = g \<or> uint (sgid c) = g
        then (0, set_cur (\<lambda>p. p\<lparr>egid := word_of_int g\<rparr>) s)
        else (- EPERM, s)
      else (0, set_cur (\<lambda>p. p\<lparr>egid := word_of_int g, gid := word_of_int g\<rparr>) s))"

definition sys_time :: "u32 \<Rightarrow> kern \<Rightarrow> (int \<times> kern) result" where
  "sys_time tloc s =
     (let i = CURRENT_TIME s in
      if tloc = 0 then Inr (i, s)
      else andthen (verify_area tloc 4 s) (\<lambda>s.
           Inr (i, put_user (put_fs_long (word_of_int i) tloc) s)))"

definition sys_setuid :: "int \<Rightarrow> kern \<Rightarrow> int \<times> kern" where
  "sys_setuid u s =
     (let c = cur s in
      if euid c \<noteq> 0 \<and> uid c \<noteq> 0 then
        if u = uint (uid c) \<or> suid c = uid c
        then (0, set_cur (\<lambda>p. p\<lparr>euid := word_of_int u\<rparr>) s)
        else (- EPERM, s)
      else (0, set_cur (\<lambda>p. p\<lparr>euid := word_of_int u, uid := word_of_int u\<rparr>) s))"

definition sys_stime :: "u32 \<Rightarrow> kern \<Rightarrow> int \<times> kern" where
  "sys_stime tptr s =
     (if euid (cur s) \<noteq> 0 \<and> uid (cur s) \<noteq> 0 then (-1, s)
      else (0, s\<lparr>startup_time := s32 (uint (get_fs_long (fs_mem s) tptr) - c_div (jiffies s) HZ)\<rparr>))"

definition sys_times :: "u32 \<Rightarrow> kern \<Rightarrow> (int \<times> kern) result" where
  "sys_times tbuf s =
     (if tbuf = 0 then Inr (jiffies s, s)
      else andthen (verify_area tbuf 16 s) (\<lambda>s.
        let c = cur s;
            put = (\<lambda>v i. put_user (put_fs_long (word_of_int v) (tbuf + i)))
        in Inr (jiffies s, put (cstime c) 12 (put (cutime c) 8 (put (stime c) 4 (put (utime c) 0 s))))))"

definition sys_brk :: "u32 \<Rightarrow> kern \<Rightarrow> u32 \<times> kern" where
  "sys_brk end_data_seg s =
     (let s = (if end_code (cur s) \<le> end_data_seg \<and> end_data_seg < start_stack (cur s) - 16384
               then set_cur (\<lambda>p. p\<lparr>brk := end_data_seg\<rparr>) s else s)
      in (brk (cur s), s))"

text \<open>The loop of \<open>sys_setpgid\<close>: the first slot with the process decides.\<close>

fun setpgid_loop :: "int \<Rightarrow> int \<Rightarrow> nat list \<Rightarrow> kern \<Rightarrow> int \<times> kern" where
  "setpgid_loop p g [] s = (- ESRCH, s)"
| "setpgid_loop p g (i # is) s =
     (case task s i of
        None \<Rightarrow> setpgid_loop p g is s
      | Some t \<Rightarrow>
          if pid t = p then
            if leader t \<noteq> 0 then (- EPERM, s)
            else if session t \<noteq> session (cur s) then (- EPERM, s)
            else (0, set_task i (\<lambda>t. t\<lparr>pgrp := g\<rparr>) s)
          else setpgid_loop p g is s)"

definition sys_setpgid :: "int \<Rightarrow> int \<Rightarrow> kern \<Rightarrow> int \<times> kern" where
  "sys_setpgid p g s =
     (let p = (if p = 0 then pid (cur s) else p);
          g = (if g = 0 then p else g)
      in setpgid_loop p g [0..<NR_TASKS] s)"

definition sys_getpgrp :: "kern \<Rightarrow> int" where "sys_getpgrp s = pgrp (cur s)"

definition sys_setsid :: "kern \<Rightarrow> int \<times> kern" where
  "sys_setsid s =
     (if uid (cur s) \<noteq> 0 \<and> euid (cur s) \<noteq> 0 then (- EPERM, s)
      else if leader (cur s) \<noteq> 0 then (- EPERM, s)
      else (pid (cur s), set_cur (\<lambda>p. p\<lparr>leader := 1, session := pid p, pgrp := pid p,
                                        task_tty := -1\<rparr>) s))"

text \<open>The members of \<open>utsname\<close> have nine characters each, filled up with zeroes.\<close>

definition utsname :: "u8 list" where
  "utsname = concat (map (\<lambda>t. map (\<lambda>ch. of_nat (of_char ch)) t @ replicate (9 - length t) 0)
     [''linux .0'', ''nodename'', ''release '', ''version '', ''machine ''])"

definition sys_uname :: "u32 \<Rightarrow> kern \<Rightarrow> (int \<times> kern) result" where
  "sys_uname name s =
     (if name = 0 then Inr (-1, s)
      else andthen (verify_area name 45 s) (\<lambda>s.
           Inr (0, put_user (put_fs_bytes utsname name) s)))"

definition sys_umask :: "int \<Rightarrow> kern \<Rightarrow> int \<times> kern" where
  "sys_umask m s =
     (uint (umask (cur s)), set_cur (\<lambda>p. p\<lparr>umask := word_of_int (m AND 0x1ff)\<rparr>) s)"


section \<open>Signals\<close>

definition send_sig :: "int \<Rightarrow> nat \<Rightarrow> bool \<Rightarrow> kern \<Rightarrow> kern" where
  "send_sig sig i priv s =
     (case task s i of
        None \<Rightarrow> s
      | Some p \<Rightarrow>
          if sig < 1 \<or> 32 < sig then s
          else if priv \<or> uid (cur s) = uid p \<or> euid (cur s) = uid p \<or>
                  uid (cur s) = euid p \<or> euid (cur s) = euid p
          then set_task i (\<lambda>p. p\<lparr>signal := signal p OR push_bit (nat (sig - 1)) 1\<rparr>) s
          else s)"

text \<open>Whom a signal is for: the four loops of \<open>do_kill\<close>, over the slots from 63 to 1.\<close>

definition addressed :: "int \<Rightarrow> int \<Rightarrow> task_struct \<Rightarrow> bool" where
  "addressed me p t \<longleftrightarrow>
     (if p = 0 then pgrp t = me else if 0 < p then pid t = p
      else if p = -1 then True else pgrp t = - p)"

definition do_kill :: "int \<Rightarrow> int \<Rightarrow> bool \<Rightarrow> kern \<Rightarrow> kern" where
  "do_kill p sig priv s =
     fold (\<lambda>i s. case task s i of
                   None \<Rightarrow> s
                 | Some t \<Rightarrow> if addressed (pid (cur s)) p t then send_sig sig i priv s else s)
          (rev [1..<NR_TASKS]) s"

definition sys_kill :: "int \<Rightarrow> int \<Rightarrow> kern \<Rightarrow> int \<times> kern" where
  "sys_kill p sig s =
     (0, do_kill p sig (\<not> (uid (cur s) \<noteq> 0 \<or> euid (cur s) \<noteq> 0)) s)"


section \<open>Waiting\<close>

text \<open>
  \<open>release\<close> frees the page of the descriptor (its address is \<open>page i\<close> for slot \<open>i\<close>) and
  lets others run; \<open>schedule\<close> that does not end is \<open>Hangs\<close>.
\<close>

definition schedule_result :: "kern \<Rightarrow> kern result" where
  "schedule_result s = (case schedule s of None \<Rightarrow> Inl Hangs | Some s \<Rightarrow> Inr s)"

definition release :: "(nat \<Rightarrow> u32) \<Rightarrow> nat \<Rightarrow> kern \<Rightarrow> kern result" where
  "release page i s =
     (if 0 < i \<and> i < NR_TASKS \<and> task s i \<noteq> None then
        andthen (free_page (page i) (mem s)) (\<lambda>m.
        schedule_result (s\<lparr>task := (task s)(i := None), mem := m\<rparr>))
      else Inl (Panic ''trying to release non-existent task''))"

text \<open>
  The scan of \<open>sys_waitpid\<close>: the first zombie child among those asked for, or whether there
  is any such child.
\<close>

definition asked :: "int \<Rightarrow> kern \<Rightarrow> nat \<Rightarrow> bool" where
  "asked p s i \<longleftrightarrow>
     i \<noteq> current s \<and>
     (case task s i of
        None \<Rightarrow> False
      | Some t \<Rightarrow> (p = -1 \<or> pid t = p \<or> p = 0 \<and> pgrp t = pgrp (cur s) \<or> p < 0 \<and> pgrp t = - p) \<and>
          father t = pid (cur s))"

definition is_zombie :: "kern \<Rightarrow> nat \<Rightarrow> bool" where
  "is_zombie s i = (case task s i of None \<Rightarrow> False | Some t \<Rightarrow> state t = TASK_ZOMBIE)"

fun wait_scan :: "int \<Rightarrow> kern \<Rightarrow> nat list \<Rightarrow> bool \<Rightarrow> nat option \<times> bool" where
  "wait_scan p s [] flag = (None, flag)"
| "wait_scan p s (i # is) flag =
     (if asked p s i then if is_zombie s i then (Some i, True) else wait_scan p s is True
      else wait_scan p s is flag)"

text \<open>
  One round of \<open>sys_waitpid\<close> from \<open>repeat\<close>: it returns a value, or pauses (\<open>None\<close>); after
  the pause \<open>waitpid_woken\<close> says whether the call ends (with \<open>-EINTR\<close>) or goes round again.
\<close>

definition waitpid_round :: "(nat \<Rightarrow> u32) \<Rightarrow> int \<Rightarrow> u32 \<Rightarrow> int \<Rightarrow> kern \<Rightarrow> (int option \<times> kern) result" where
  "waitpid_round page p stat_addr options s =
     (case wait_scan p s (rev [1..<NR_TASKS]) False of
        (Some i, _) \<Rightarrow>
          let t = the (task s i);
              s = put_user (put_fs_long (word_of_int (exit_code t)) stat_addr) s;
              s = set_cur (\<lambda>c. c\<lparr>cutime := s32 (cutime c + utime t),
                                 cstime := s32 (cstime c + stime t)\<rparr>) s
          in andthen (release page i s) (\<lambda>s. Inr (Some (pid t), s))
      | (None, False) \<Rightarrow> Inr (Some (- ECHILD), s)
      | (None, True) \<Rightarrow>
          if options AND 1 \<noteq> 0 then Inr (Some 0, s)
          else (case sys_pause s of None \<Rightarrow> Inl Hangs | Some s \<Rightarrow> Inr (None, s)))"

definition waitpid_woken :: "kern \<Rightarrow> int option \<times> kern" where
  "waitpid_woken s =
     (let s = set_cur (\<lambda>c. c\<lparr>signal := signal c AND NOT (push_bit (nat (SIGCHLD - 1)) 1)\<rparr>) s
      in (if signal (cur s) = 0 then None else Some (- EINTR), s))"

definition sys_waitpid :: "(nat \<Rightarrow> u32) \<Rightarrow> int \<Rightarrow> u32 \<Rightarrow> int \<Rightarrow> kern \<Rightarrow> (int option \<times> kern) result" where
  "sys_waitpid page p stat_addr options s =
     andthen (verify_area stat_addr 4 s) (waitpid_round page p stat_addr options)"

section \<open>Who may do what\<close>

lemma cur_set_cur: "task s (current s) \<noteq> None \<Longrightarrow> cur (set_cur f s) = f (cur s)"
  by (auto simp: cur_def set_cur_def set_task_def)

lemma task_set_task: "task (set_task i f s) j = (if j = i then map_option f (task s i) else task s j)"
  by (simp add: set_task_def)

lemma current_set_task [simp]: "current (set_task i f s) = current s"
  by (simp add: set_task_def)

text \<open>A signal goes to the processes it is addressed to that the sender may reach.\<close>

definition may_signal :: "task_struct \<Rightarrow> task_struct \<Rightarrow> bool" where
  "may_signal c p \<longleftrightarrow> uid c = uid p \<or> euid c = uid p \<or> uid c = euid p \<or> euid c = euid p"

definition post :: "int \<Rightarrow> task_struct \<Rightarrow> task_struct" where
  "post sig p = p\<lparr>signal := signal p OR push_bit (nat (sig - 1)) 1\<rparr>"

definition same_ids :: "task_struct \<Rightarrow> task_struct \<Rightarrow> bool" where
  "same_ids a b \<longleftrightarrow> uid a = uid b \<and> euid a = euid b \<and> pid a = pid b \<and> pgrp a = pgrp b"

lemma cur_post:
  assumes "task s (current s) \<noteq> None"
  shows "same_ids (cur (set_task i (post sig) s)) (cur s)"
  using assms by (auto simp: cur_def task_set_task same_ids_def post_def)

definition kill_one :: "int \<Rightarrow> int \<Rightarrow> bool \<Rightarrow> nat \<Rightarrow> kern \<Rightarrow> kern" where
  "kill_one p sig priv i s = (case task s i of None \<Rightarrow> s
     | Some t \<Rightarrow> if addressed (pid (cur s)) p t then send_sig sig i priv s else s)"

lemma kill_one_eq:
  "kill_one p sig priv i s = (case task s i of None \<Rightarrow> s
     | Some t \<Rightarrow> if addressed (pid (cur s)) p t \<and> 1 \<le> sig \<and> sig \<le> 32 \<and> (priv \<or> may_signal (cur s) t)
                then set_task i (post sig) s else s)"
  by (auto simp: kill_one_def send_sig_def may_signal_def post_def [abs_def] split: option.splits)

lemma kill_fold:
  assumes "distinct is" and "task s (current s) \<noteq> None"
  shows "task (fold (kill_one p sig priv) is s) i = map_option (\<lambda>t.
      if i \<in> set is \<and> addressed (pid (cur s)) p t \<and> 1 \<le> sig \<and> sig \<le> 32 \<and> (priv \<or> may_signal (cur s) t)
      then post sig t else t) (task s i)"
  using assms
proof (induction "is" arbitrary: s)
  case Nil
  then show ?case by (simp add: option.map_ident)
next
  case (Cons j js)
  let ?s = "kill_one p sig priv j s"
  have k: "task ?s (current ?s) \<noteq> None" "same_ids (cur ?s) (cur s)"
    using Cons.prems(2) cur_post [OF Cons.prems(2), of j sig]
    by (auto simp: kill_one_eq same_ids_def task_set_task split: option.splits)
  have i: "same_ids (cur ?s) (cur s) \<Longrightarrow> may_signal (cur ?s) = may_signal (cur s)"
    by (simp add: may_signal_def same_ids_def fun_eq_iff)
  have IH: "task (fold (kill_one p sig priv) js ?s) i = map_option (\<lambda>t.
      if i \<in> set js \<and> addressed (pid (cur s)) p t \<and> 1 \<le> sig \<and> sig \<le> 32 \<and> (priv \<or> may_signal (cur s) t)
      then post sig t else t) (task ?s i)"
    using Cons.IH [of ?s] Cons.prems(1) k i [OF k(2)] by (simp add: same_ids_def)
  have t: "task ?s i = map_option (\<lambda>t.
      if i = j \<and> addressed (pid (cur s)) p t \<and> 1 \<le> sig \<and> sig \<le> 32 \<and> (priv \<or> may_signal (cur s) t)
      then post sig t else t) (task s i)"
    by (cases "task s i") (auto simp: kill_one_eq task_set_task split: option.splits)
  have "j \<notin> set js" using Cons.prems(1) by simp
  then show ?case
    unfolding fold.simps comp_apply IH t by (cases "task s i") auto
qed

text \<open>
  C36. do_kill posts the signal to exactly the processes that are addressed and that the sender
  may signal, and changes nothing else of any process.
\<close>

theorem do_kill_spec:
  assumes "task s (current s) \<noteq> None"
  shows "task (do_kill p sig priv s) i = map_option (\<lambda>t.
      if 0 < i \<and> i < NR_TASKS \<and> addressed (pid (cur s)) p t \<and> 1 \<le> sig \<and> sig \<le> 32 \<and>
         (priv \<or> may_signal (cur s) t)
      then post sig t else t) (task s i)"
proof -
  have "do_kill p sig priv s = fold (kill_one p sig priv) (rev [1..<NR_TASKS]) s"
    unfolding do_kill_def kill_one_def [abs_def] ..
  moreover have "distinct (rev [1..<NR_TASKS])" by simp
  ultimately show ?thesis
    using kill_fold [OF _ assms, of "rev [1..<NR_TASKS]" p sig priv i] unfolding rev_slots by auto
qed

text \<open>
  A process that is not privileged keeps its user number, and can take no other effective
  one, unless its saved number equals its own: then any will do, also that of root.
\<close>

theorem sys_setuid_unprivileged:
  assumes "task s (current s) \<noteq> None" "uid (cur s) \<noteq> 0" "euid (cur s) \<noteq> 0"
    and "sys_setuid u s = (r, s')"
  shows "uid (cur s') = uid (cur s) \<and>
    (suid (cur s) \<noteq> uid (cur s) \<longrightarrow> euid (cur s') \<in> {euid (cur s), uid (cur s)}) \<and>
    (suid (cur s) = uid (cur s) \<longrightarrow> r = 0 \<and> euid (cur s') = word_of_int u)"
  using assms(2-4) by (auto simp: sys_setuid_def Let_def cur_set_cur [OF assms(1)] split: if_splits)

theorem sys_umask_bits:
  assumes "task s (current s) \<noteq> None" "sys_umask m s = (r, s')"
  shows "r = uint (umask (cur s)) \<and> umask (cur s') = word_of_int (m mod 512)"
proof -
  have "m AND 0x1ff = m mod 512"
  proof -
    have "m AND 0x1ff = take_bit 9 m" by (simp add: take_bit_eq_mask mask_eq_exp_minus_1)
    then show ?thesis by (simp add: take_bit_eq_mod)
  qed
  then show ?thesis
    using assms by (auto simp: sys_umask_def cur_set_cur)
qed

text \<open>What \<open>brk\<close> keeps: the break stays in the segment, 16k below the stack.\<close>

theorem sys_brk_bounds:
  assumes "task s (current s) \<noteq> None" "sys_brk e s = (b, s')"
    and "end_code (cur s) \<le> brk (cur s)" "brk (cur s) < start_stack (cur s) - 16384"
  shows "b = brk (cur s') \<and> end_code (cur s') \<le> b \<and> b < start_stack (cur s') - 16384 \<and>
    (b = e \<or> b = brk (cur s))"
  using assms by (auto simp: sys_brk_def Let_def cur_set_cur split: if_splits)


section \<open>What waitpid finds\<close>

lemma wait_scan_spec:
  "wait_scan p s is flag = (r, f) \<Longrightarrow>
     (case r of
        Some i \<Rightarrow> i \<in> set is \<and> asked p s i \<and> is_zombie s i
      | None \<Rightarrow> (\<forall>i \<in> set is. asked p s i \<longrightarrow> \<not> is_zombie s i) \<and>
          f = (flag \<or> (\<exists>i \<in> set is. asked p s i)))"
  by (induction p s "is" flag rule: wait_scan.induct) (auto split: if_splits option.splits)

text \<open>
  \<open>-ECHILD\<close> is returned exactly when no child is asked for; a zombie that is asked for is
  returned and its slot is free afterwards.
\<close>

theorem waitpid_echild:
  assumes "\<forall>i. 0 < i \<and> i < NR_TASKS \<longrightarrow> \<not> asked p s i"
  shows "waitpid_round page p a options s = Inr (Some (- ECHILD), s)"
proof -
  obtain r f where r: "wait_scan p s (rev [1..<NR_TASKS]) False = (r, f)" by fastforce
  from wait_scan_spec [OF r] assms have "r = None" "\<not> f"
    unfolding rev_slots by (auto split: option.splits)
  then show ?thesis using r by (simp add: waitpid_round_def)
qed

lemma schedule_task_None:
  "schedule s = Some s' \<Longrightarrow> (task s' i = None) = (task s i = None)"
  using schedule_uninterruptible(2) .

text \<open>
  C37. When a zombie child is asked for, waitpid returns the number of such a child and its
  slot of the task table is free afterwards.
\<close>

theorem waitpid_reaps:
  assumes "asked p s i" "is_zombie s i" "0 < i" "i < NR_TASKS"
    and "waitpid_round page p a options s = Inr (r, s')"
  shows "\<exists>j t. 0 < j \<and> j < NR_TASKS \<and> asked p s j \<and> is_zombie s j \<and> task s j = Some t \<and>
    r = Some (pid t) \<and> task s' j = None"
proof -
  obtain q f where q: "wait_scan p s (rev [1..<NR_TASKS]) False = (q, f)" by fastforce
  note sp = wait_scan_spec [OF q, unfolded rev_slots]
  then obtain j where j: "q = Some j" using assms(1-4) by (auto split: option.splits)
  then have aj: "0 < j" "j < NR_TASKS" "asked p s j" "is_zombie s j" using sp by auto
  then obtain t where t: "task s j = Some t" by (auto simp: is_zombie_def split: option.splits)
  have "r = Some (pid t) \<and> task s' j = None"
    using assms(5) q j t
    by (auto simp: waitpid_round_def Let_def release_def schedule_result_def
        elim!: andthen_InrE split: if_splits option.splits dest!: schedule_task_None [where i = j])
  then show ?thesis using aj t by blast
qed

end
