(* ===== verification/Vsprintf.thy ===== *)
theory Vsprintf
  imports Prelude "HOL-Library.Char_ord"
begin

unbundle bit_operations_syntax

text \<open>
  The formatter of kernel/vsprintf.c. \<open>number\<close> and \<open>vsprintf\<close> return what the code writes
  to its buffer; the lemmas relate what it writes to the number it was given, to the
  field width, and to the digits \<open>skip_atoi\<close> reads.
\<close>

section \<open>skip\_atoi and number\<close>

definition is_digit :: "char \<Rightarrow> bool" where
  "is_digit c \<longleftrightarrow> CHR ''0'' \<le> c \<and> c \<le> CHR ''9''"

definition code_of :: "char \<Rightarrow> int" where
  "code_of c = int (of_char c)"

fun skip_digits :: "int \<Rightarrow> string \<Rightarrow> int \<times> string" where
  "skip_digits i [] = (i, [])"
| "skip_digits i (c # s) =
     (if is_digit c then skip_digits (s32 (i * 10 + code_of c - code_of CHR ''0'')) s else (i, c # s))"

definition skip_atoi :: "string \<Rightarrow> int \<times> string" where
  "skip_atoi s = skip_digits 0 s"

abbreviation ZEROPAD :: u8 where "ZEROPAD \<equiv> 1"
abbreviation SIGN :: u8 where "SIGN \<equiv> 2"
abbreviation PLUS :: u8 where "PLUS \<equiv> 4"
abbreviation SPACE :: u8 where "SPACE \<equiv> 8"
abbreviation LEFT :: u8 where "LEFT \<equiv> 16"
abbreviation SPECIAL :: u8 where "SPECIAL \<equiv> 32"
abbreviation SMALL :: u8 where "SMALL \<equiv> 64"

definition upper_digits :: string where
  "upper_digits = ''0123456789ABCDEFGHIJKLMNOPQRSTUVWXYZ''"

definition lower_digits :: string where
  "lower_digits = ''0123456789abcdefghijklmnopqrstuvwxyz''"

text \<open>\<open>while (n-->0) *str++ = c;\<close>: what it writes, and the \<open>n\<close> it leaves.\<close>

definition pad :: "int \<Rightarrow> char \<Rightarrow> string \<times> int" where
  "pad n c = (replicate (nat n) c, if 0 < n then -1 else n - 1)"

text \<open>
  The digits that \<open>do_div\<close> yields, least significant first, as \<open>tmp\<close> holds them. The
  division is unsigned.
\<close>

function digits_of :: "nat \<Rightarrow> nat \<Rightarrow> nat list" where
  "digits_of base n =
     (if n = 0 \<or> base < 2 then [] else n mod base # digits_of base (n div base))"
  by pat_completeness auto
termination
  by (relation "measure snd") (auto simp: div_less_dividend)

declare digits_of.simps [simp del]

text \<open>The sign character and the number to print; the prefix of base 8 and 16.\<close>

definition sign_of :: "u8 \<Rightarrow> u32 \<Rightarrow> string \<times> u32" where
  "sign_of type num =
     (if type AND SIGN \<noteq> 0 \<and> sint num < 0 then (''-'', - num)
      else (if type AND PLUS \<noteq> 0 then ''+'' else if type AND SPACE \<noteq> 0 then '' '' else '''', num))"

definition prefix_of :: "u8 \<Rightarrow> int \<Rightarrow> string \<Rightarrow> string" where
  "prefix_of type base digits =
     (if type AND SPECIAL \<noteq> 0
      then if base = 8 then ''0'' else if base = 16 then [CHR ''0'', digits ! 33] else ''''
      else '''')"

definition tmp_of :: "int \<Rightarrow> string \<Rightarrow> u32 \<Rightarrow> string" where
  "tmp_of base digits num =
     (if num = 0 then ''0'' else map (\<lambda>d. digits ! d) (digits_of (nat base) (unat num)))"

definition number :: "u32 \<Rightarrow> int \<Rightarrow> int \<Rightarrow> int \<Rightarrow> u8 \<Rightarrow> string option" where
  "number num base sz precision type =
     (let digits = (if type AND SMALL \<noteq> 0 then lower_digits else upper_digits);
          type = (if type AND LEFT \<noteq> 0 then type AND NOT ZEROPAD else type)
      in if base < 2 \<or> 36 < base then None
         else
           let c = (if type AND ZEROPAD \<noteq> 0 then CHR ''0'' else CHR '' '');
               (sign, num) = sign_of type num;
               sz = (if sign \<noteq> '''' then sz - 1 else sz);
               sz = (if type AND SPECIAL \<noteq> 0
                     then if base = 16 then sz - 2 else if base = 8 then sz - 1 else sz else sz);
               tmp = tmp_of base digits num;
               precision = max precision (int (length tmp));
               sz = sz - precision;
               (s1, sz) = (if type AND (ZEROPAD + LEFT) = 0 then pad sz CHR '' '' else ('''', sz));
               s2 = sign @ prefix_of type base digits;
               (s3, sz) = (if type AND LEFT = 0 then pad sz c else ('''', sz));
               s4 = fst (pad (precision - int (length tmp)) CHR ''0'');
               s5 = fst (pad sz CHR '' '')
           in Some (s1 @ s2 @ s3 @ s4 @ rev tmp @ s5))"


section \<open>vsprintf\<close>

text \<open>
  The arguments as \<open>va_arg\<close> reads them. A missing argument, or one of the wrong kind, has
  no meaning in C: the result is \<open>None\<close>.
\<close>

datatype va = Va_int u32 | Va_str string | Va_ptr u32

definition va_int :: "va list \<Rightarrow> (u32 \<times> va list) option" where
  "va_int args = (case args of Va_int n # as \<Rightarrow> Some (n, as) | _ \<Rightarrow> None)"

fun flags_of :: "u8 \<Rightarrow> string \<Rightarrow> u8 \<times> string" where
  "flags_of flags [] = (flags, [])"
| "flags_of flags (c # s) =
     (if c = CHR ''-'' then flags_of (flags OR LEFT) s
      else if c = CHR ''+'' then flags_of (flags OR PLUS) s
      else if c = CHR '' '' then flags_of (flags OR SPACE) s
      else if c = CHR ''#'' then flags_of (flags OR SPECIAL) s
      else if c = CHR ''0'' then flags_of (flags OR ZEROPAD) s
      else (flags, c # s))"

text \<open>The star of a width or a precision is not skipped: the code reads on at the star.\<close>

definition get_width :: "u8 \<Rightarrow> string \<Rightarrow> va list \<Rightarrow> (int \<times> u8 \<times> string \<times> va list) option" where
  "get_width flags s args =
     (case s of
        [] \<Rightarrow> Some (-1, flags, s, args)
      | c # _ \<Rightarrow>
          if is_digit c then (let (w, s) = skip_atoi s in Some (w, flags, s, args))
          else if c = CHR ''*'' then
            (case va_int args of
               None \<Rightarrow> None
             | Some (w, args) \<Rightarrow>
                 if sint w < 0 then Some (s32 (- sint w), flags OR LEFT, s, args)
                 else Some (sint w, flags, s, args))
          else Some (-1, flags, s, args))"

definition get_precision :: "string \<Rightarrow> va list \<Rightarrow> (int \<times> string \<times> va list) option" where
  "get_precision s args =
     (case s of
        CHR ''.'' # s \<Rightarrow>
          (case s of
             c # _ \<Rightarrow>
               if is_digit c then (let (p, s) = skip_atoi s in Some (max p 0, s, args))
               else if c = CHR ''*'' then
                 (case va_int args of
                    None \<Rightarrow> None
                  | Some (p, args) \<Rightarrow> Some (max (sint p) 0, s, args))
               else Some (0, s, args)
           | [] \<Rightarrow> Some (0, s, args))
      | _ \<Rightarrow> Some (-1, s, args))"

definition skip_qualifier :: "string \<Rightarrow> string" where
  "skip_qualifier s =
     (case s of c # t \<Rightarrow> if c = CHR ''h'' \<or> c = CHR ''l'' \<or> c = CHR ''L'' then t else s | [] \<Rightarrow> [])"

text \<open>\<open>while (--n > 0) *str++ = ' ';\<close>\<close>

definition pad_pre :: "int \<Rightarrow> string \<times> int" where
  "pad_pre n = (replicate (nat (n - 1)) CHR '' '', if 1 < n then 0 else n - 1)"

text \<open>
  One conversion: the text it adds, the write of \<open>%n\<close> (to the address it is given, the
  count so far) and the arguments left. The last component says whether the character
  \<open>c\<close> has been consumed; it has not when the format ends after the \<open>%\<close>.
\<close>

definition conversion :: "nat \<Rightarrow> char option \<Rightarrow> u8 \<Rightarrow> int \<Rightarrow> int \<Rightarrow> va list \<Rightarrow>
    (string \<times> (u32 \<times> int) list \<times> va list) option" where
  "conversion count c flags width precision args =
     (let num = (\<lambda>base width flags.
            case va_int args of
              None \<Rightarrow> None
            | Some (n, args) \<Rightarrow>
                (case number n base width precision flags of
                   None \<Rightarrow> None
                 | Some out \<Rightarrow> Some (out, [], args)))
      in case c of
        None \<Rightarrow> Some (''%'', [], args)
      | Some ch \<Rightarrow>
          if ch = CHR ''c'' then
            (case va_int args of
               None \<Rightarrow> None
             | Some (n, args) \<Rightarrow>
                 let (s1, width) = (if flags AND LEFT = 0 then pad_pre width else ('''', width));
                     s2 = fst (pad_pre width)
                 in Some (s1 @ [char_of (unat (take_bit 8 n))] @ s2, [], args))
          else if ch = CHR ''s'' then
            (case args of
               Va_str s # args \<Rightarrow>
                 let len = (if precision < 0 then int (length s) else min (int (length s)) precision);
                     (s1, width) = (if flags AND LEFT = 0
                                    then (replicate (nat (width - len)) CHR '' '', min width len - 1)
                                    else ('''', width))
                 in Some (s1 @ take (nat len) s @ replicate (nat (width - len)) CHR '' '', [], args)
             | _ \<Rightarrow> None)
          else if ch = CHR ''o'' then num 8 width flags
          else if ch = CHR ''p'' then
            (if width = -1 then num 16 8 (flags OR ZEROPAD) else num 16 width flags)
          else if ch = CHR ''x'' then num 16 width (flags OR SMALL)
          else if ch = CHR ''X'' then num 16 width flags
          else if ch = CHR ''d'' \<or> ch = CHR ''i'' then num 10 width (flags OR SIGN)
          else if ch = CHR ''u'' then num 10 width flags
          else if ch = CHR ''n'' then
            (case args of Va_ptr p # args \<Rightarrow> Some ('''', [(p, int count)], args) | _ \<Rightarrow> None)
          else Some (if ch = CHR ''%'' then ''%'' else [CHR ''%'', ch], [], args))"

lemma flags_of_length: "flags_of f s = (f', s') \<Longrightarrow> length s' \<le> length s"
  by (induction f s rule: flags_of.induct) (auto split: if_splits intro: le_SucI)

lemma skip_digits_length: "skip_digits i s = (n, s') \<Longrightarrow> length s' \<le> length s"
  by (induction i s rule: skip_digits.induct) (auto split: if_splits intro: le_SucI)

lemma skip_atoi_length: "skip_atoi s = (n, s') \<Longrightarrow> length s' \<le> length s"
  unfolding skip_atoi_def by (rule skip_digits_length)

lemma get_width_length: "get_width f s args = Some (w, f', s', args') \<Longrightarrow> length s' \<le> length s"
  unfolding get_width_def
  by (auto split: list.splits if_splits option.splits prod.splits dest!: skip_atoi_length)

lemma get_precision_length: "get_precision s args = Some (p, s', args') \<Longrightarrow> length s' \<le> length s"
  unfolding get_precision_def
  by (auto split: list.splits if_splits option.splits prod.splits char.splits bool.splits
      dest!: skip_atoi_length)

lemma skip_qualifier_length: "length (skip_qualifier s) \<le> length s"
  by (auto simp: skip_qualifier_def split: list.splits)

text \<open>A whole specification: the code from the \<open>%\<close> up to the conversion character.\<close>

definition get_spec :: "string \<Rightarrow> va list \<Rightarrow> (u8 \<times> int \<times> int \<times> string \<times> va list) option" where
  "get_spec s args =
     (case flags_of 0 s of (flags, s) \<Rightarrow>
      (case get_width flags s args of
         None \<Rightarrow> None
       | Some (width, flags, s, args) \<Rightarrow>
           (case get_precision s args of
              None \<Rightarrow> None
            | Some (precision, s, args) \<Rightarrow> Some (flags, width, precision, skip_qualifier s, args))))"

lemma get_spec_length:
  assumes "get_spec s args = Some (f, w, p, s', args')"
  shows "length s' \<le> length s"
proof -
  obtain f1 s1 where 1: "flags_of 0 s = (f1, s1)" by fastforce
  obtain w2 f2 s2 a2 where 2: "get_width f1 s1 args = Some (w2, f2, s2, a2)"
    using assms 1 by (auto simp: get_spec_def split: option.splits)
  obtain p3 s3 a3 where 3: "get_precision s2 a2 = Some (p3, s3, a3)"
    using assms 1 2 by (auto simp: get_spec_def split: option.splits)
  have "s' = skip_qualifier s3" using assms 1 2 3 by (auto simp: get_spec_def)
  then show ?thesis
    using flags_of_length [OF 1] get_width_length [OF 2] get_precision_length [OF 3]
      skip_qualifier_length [of s3] by simp
qed

text \<open>The loop over the format: the text written so far, and the writes of \<open>%n\<close>.\<close>

function vsprintf_loop :: "string \<Rightarrow> string \<Rightarrow> (u32 \<times> int) list \<Rightarrow> va list \<Rightarrow>
    (string \<times> (u32 \<times> int) list) option" where
  "vsprintf_loop [] out writes args = Some (out, writes)"
| "vsprintf_loop (c # s) out writes args =
     (if c \<noteq> CHR ''%'' then vsprintf_loop s (out @ [c]) writes args
      else
        case get_spec s args of
          None \<Rightarrow> None
        | Some (flags, width, precision, s, args) \<Rightarrow>
            (case conversion (length out) (case s of [] \<Rightarrow> None | c # _ \<Rightarrow> Some c)
                    flags width precision args of
               None \<Rightarrow> None
             | Some (text, w, args) \<Rightarrow> vsprintf_loop (tl s) (out @ text) (writes @ w) args))"
  by pat_completeness auto
termination
  by (relation "measure (\<lambda>(s, _). length s)") (auto dest!: get_spec_length)

definition vsprintf :: "string \<Rightarrow> va list \<Rightarrow> (string \<times> (u32 \<times> int) list) option" where
  "vsprintf fmt args = vsprintf_loop fmt [] [] args"


section \<open>Digits\<close>

definition digit_char :: "nat \<Rightarrow> char" where
  "digit_char d = upper_digits ! d"

lemma less_10: "(d :: nat) < 10 \<Longrightarrow>
    d = 0 \<or> d = 1 \<or> d = 2 \<or> d = 3 \<or> d = 4 \<or> d = 5 \<or> d = 6 \<or> d = 7 \<or> d = 8 \<or> d = 9"
  by presburger

lemma digit_char_10:
  "d < 10 \<Longrightarrow> is_digit (digit_char d) \<and> code_of (digit_char d) - code_of CHR ''0'' = int d"
  by (drule less_10, elim disjE)
    (simp_all add: digit_char_def upper_digits_def is_digit_def code_of_def less_eq_char_def)

lemma lower_digit_10: "d < 10 \<Longrightarrow> lower_digits ! d = digit_char d"
  by (drule less_10, elim disjE) (simp_all add: digit_char_def upper_digits_def lower_digits_def)

text \<open>\<open>skip_atoi\<close> reads back the digits that \<open>number\<close> writes in base 10.\<close>

lemma skip_digits_digits_of:
  "n < 2 ^ 31 \<Longrightarrow> skip_digits 0 (map digit_char (rev (digits_of 10 n)) @ rest) =
     skip_digits (int n) rest"
proof (induction "10 :: nat" n arbitrary: rest rule: digits_of.induct)
  case (1 n)
  show ?case
  proof (cases "n = 0")
    case True
    then show ?thesis by (simp add: digits_of.simps)
  next
    case False
    then have d: "digits_of 10 n = n mod 10 # digits_of 10 (n div 10)"
      by (simp add: digits_of.simps [of 10 n])
    have "skip_digits 0 (map digit_char (rev (digits_of 10 n)) @ rest) =
        skip_digits 0 (map digit_char (rev (digits_of 10 (n div 10))) @ digit_char (n mod 10) # rest)"
      by (simp add: d)
    also have "\<dots> = skip_digits (int (n div 10)) (digit_char (n mod 10) # rest)"
      by (rule 1(1)) (use False 1(2) in auto)
    also have "\<dots> = skip_digits (s32 (int (n div 10) * 10 + int (n mod 10))) rest"
      using digit_char_10 [of "n mod 10"] by (simp add: algebra_simps)
    also have "int (n div 10) * 10 + int (n mod 10) = int n"
      by presburger
    also have "s32 (int n) = int n"
      using 1(2) by (intro s32_id) auto
    finally show ?thesis .
  qed
qed

lemma digits_of_length: "2 \<le> base \<Longrightarrow> n < 2 ^ k \<Longrightarrow> length (digits_of base n) \<le> k"
proof (induction k arbitrary: n)
  case 0
  then show ?case by (simp add: digits_of.simps)
next
  case (Suc k)
  have "n div base \<le> n div 2"
    using Suc.prems(1) by (intro div_le_mono2) auto
  also have "\<dots> < 2 ^ k" using Suc.prems(2) by simp
  finally have "length (digits_of base (n div base)) \<le> k"
    using Suc by blast
  then show ?case by (simp add: digits_of.simps [of base n])
qed

lemma digits_of_less: "2 \<le> base \<Longrightarrow> d \<in> set (digits_of base n) \<Longrightarrow> d < base"
proof (induction base n rule: digits_of.induct)
  case (1 base n)
  show ?case
  proof (cases "n = 0")
    case True
    then show ?thesis using 1 by (simp add: digits_of.simps)
  next
    case False
    then show ?thesis using 1 by (auto simp: digits_of.simps [of base n])
  qed
qed

text \<open>The buffer \<open>tmp[36]\<close> is long enough for every base and number.\<close>

theorem number_tmp_fits:
  assumes "2 \<le> base" and "base \<le> 36"
  shows "length (digits_of (nat base) (unat (num :: u32))) \<le> 32 \<and>
    (\<forall>d \<in> set (digits_of (nat base) (unat num)). d < length upper_digits \<and> d < length lower_digits)"
proof
  have "unat num < 2 ^ 32" using unsigned_less [of num] by simp
  then show "length (digits_of (nat base) (unat num)) \<le> 32"
    using assms by (intro digits_of_length) auto
  show "\<forall>d \<in> set (digits_of (nat base) (unat num)). d < length upper_digits \<and> d < length lower_digits"
    using assms digits_of_less [of "nat base"]
    by (fastforce simp: upper_digits_def lower_digits_def)
qed


section \<open>number\<close>

text \<open>What \<open>number\<close> writes apart from the padding to the width: sign, prefix, digits.\<close>

lemma length_pad [simp]: "length (fst (pad n c)) = nat n"
  by (simp add: pad_def)

lemma pad_length: "pad n c = (s, m) \<Longrightarrow> length s = nat n \<and> (m \<le> 0) = True \<and> nat m = 0"
  by (auto simp: pad_def)

lemma number_length:
  assumes "number num base width precision type = Some out"
  shows "\<exists>l. 0 \<le> l \<and> (\<forall>width out. number num base width precision type = Some out \<longrightarrow>
       length out = nat (width - l) + nat l)"
proof -
  define digits where "digits = (if type AND SMALL \<noteq> 0 then lower_digits else upper_digits)"
  define ty where "ty = (if type AND LEFT \<noteq> 0 then type AND NOT ZEROPAD else type)"
  obtain sg n where sg: "sign_of ty num = (sg, n)" by fastforce
  define prec where "prec = max precision (int (length (tmp_of base digits n)))"
  define l where "l = int (length sg) + int (length (prefix_of ty base digits)) + prec"
  have l1: "length sg = (if sg \<noteq> '''' then 1 else 0)"
    using sg by (auto simp: sign_of_def split: if_splits)
  have l2: "length (prefix_of ty base digits) = (if ty AND SPECIAL \<noteq> 0
      then if base = 16 then 2 else if base = 8 then 1 else 0 else 0)"
    by (simp add: prefix_of_def)
  have prec: "int (length (tmp_of base digits n)) \<le> prec" by (simp add: prec_def)
  have "length out = nat (width - l) + nat l"
    if "number num base width precision type = Some out" for width out
  proof -
    define sz where "sz = width - l"
    have sz: "(if ty AND SPECIAL \<noteq> 0
        then if base = 16 then (if sg \<noteq> '''' then width - 1 else width) - 2
             else if base = 8 then (if sg \<noteq> '''' then width - 1 else width) - 1
             else (if sg \<noteq> '''' then width - 1 else width)
        else (if sg \<noteq> '''' then width - 1 else width)) - prec = sz"
      unfolding sz_def l_def l1 l2 by simp
    obtain s1 z1 where s1: "(if ty AND (ZEROPAD + LEFT) = 0 then pad sz CHR '' '' else ('''', sz)) = (s1, z1)"
      by fastforce
    obtain s3 z3 where s3: "(if ty AND LEFT = 0 then pad z1 (if ty AND ZEROPAD \<noteq> 0 then CHR ''0''
        else CHR '' '') else ('''', z1)) = (s3, z3)" by fastforce
    have "out = s1 @ (sg @ prefix_of ty base digits) @ s3 @
        fst (pad (prec - int (length (tmp_of base digits n))) CHR ''0'') @
        rev (tmp_of base digits n) @ fst (pad z3 CHR '' '')"
      using that unfolding number_def Let_def digits_def [symmetric] ty_def [symmetric] sg prod.case
        prec_def [symmetric] sz s1 s3 by (simp split: if_splits)
    then have "length out = length s1 + length sg + length (prefix_of ty base digits) + length s3 +
        nat prec + nat z3"
      using prec by simp
    moreover have "length s1 + length s3 + nat z3 = nat sz"
    proof -
      have "length s1 = nat sz \<and> z1 \<le> 0 \<or> s1 = [] \<and> z1 = sz"
        using s1 pad_length [of sz] by (auto split: if_splits)
      moreover have "length s3 = nat z1 \<and> z3 \<le> 0 \<or> s3 = [] \<and> z3 = z1"
        using s3 pad_length [of z1] by (auto split: if_splits)
      ultimately show ?thesis by auto
    qed
    moreover have "nat l = length sg + length (prefix_of ty base digits) + nat prec"
      using prec by (simp add: l_def)
    ultimately show ?thesis by (simp add: sz_def)
  qed
  moreover have "0 \<le> l" using prec by (simp add: l_def)
  ultimately show ?thesis by blast
qed

text \<open>
  The text of a number is exactly as long as the larger of the field width and its
  shortest text.
\<close>

theorem number_width:
  assumes "number num base (-1) precision type = Some least"
    and "number num base width precision type = Some out"
  shows "length out = max (nat width) (length least)"
proof -
  obtain l where "0 \<le> l" and l: "\<And>width out. number num base width precision type = Some out \<Longrightarrow>
       length out = nat (width - l) + nat l"
    using number_length [OF assms(1)] by blast
  then show ?thesis using l [OF assms(1)] l [OF assms(2)] by auto
qed

text \<open>
  C38. The decimal text number prints for a non-negative int is read back by skip_atoi.
\<close>

theorem number_decimal_roundtrip:
  assumes "unat num < 2 ^ 31" and "rest = '''' \<or> \<not> is_digit (hd rest)"
  shows "\<exists>out. number num 10 (-1) (-1) 0 = Some out \<and> skip_atoi (out @ rest) = (sint num, rest)"
proof -
  have end_: "skip_digits i rest = (i, rest)" for i
    using assms(2) by (cases rest) auto
  have si: "sint num = int (unat num)"
  proof -
    have "int (unat num) < int (2 ^ 31)"
      using assms(1) by (rule of_nat_less_iff [THEN iffD2])
    then have "uint num < 2 ^ 31" by simp
    moreover have "0 \<le> uint num" by simp
    ultimately have "signed_take_bit 31 (uint num) = uint num"
      by (intro signed_take_bit_int_eq_self) linarith+
    then show ?thesis by (simp add: sint_uint)
  qed
  have tmp: "tmp_of 10 upper_digits num =
      (if num = 0 then ''0'' else map digit_char (digits_of 10 (unat num)))"
    by (simp add: tmp_of_def digit_char_def [abs_def])
  have out: "number num 10 (-1) (-1) 0 = Some (rev (tmp_of 10 upper_digits num))"
    by (simp add: number_def Let_def sign_of_def prefix_of_def pad_def)
  have "skip_digits 0 (rev (tmp_of 10 upper_digits num) @ rest) = skip_digits (int (unat num)) rest"
  proof (cases "num = 0")
    case True
    then show ?thesis
      by (simp add: tmp_of_def is_digit_def s32_id)
  next
    case False
    then show ?thesis
      using skip_digits_digits_of [OF assms(1), of rest] by (simp add: tmp rev_map)
  qed
  then show ?thesis
    using out end_ si by (simp add: skip_atoi_def)
qed

theorem vsprintf_plain:
  assumes "CHR ''%'' \<notin> set fmt"
  shows "vsprintf fmt args = Some (fmt, [])"
proof -
  have "vsprintf_loop fmt out w args = Some (out @ fmt, w)" for out w
    using assms by (induction fmt arbitrary: out) auto
  then show ?thesis by (simp add: vsprintf_def)
qed

text \<open>A star is taken as the conversion character: it and the letter after it are copied.\<close>

theorem vsprintf_star:
  "vsprintf ''%*d'' (Va_int n # args) = Some (''%*d'', [])"
  by (simp add: vsprintf_def get_width_def get_precision_def skip_qualifier_def conversion_def get_spec_def
      va_int_def is_digit_def Let_def)

end
