(* ===== verification/Mktime.thy ===== *)
theory Mktime
  imports Prelude
begin

text \<open>
  \<open>kernel_mktime\<close> of kernel/mktime.c: the seconds since 1970 of a broken-down time, with
  the proof that its leap year tricks count the days of the calendar.
\<close>

record tm =
  tm_sec :: int
  tm_min :: int
  tm_hour :: int
  tm_mday :: int
  tm_mon :: int
  tm_year :: int
  tm_wday :: int
  tm_yday :: int
  tm_isdst :: int

abbreviation MINUTE :: int where "MINUTE \<equiv> 60"
abbreviation HOUR :: int where "HOUR \<equiv> 60 * MINUTE"
abbreviation DAY :: int where "DAY \<equiv> 24 * HOUR"
abbreviation YEAR :: int where "YEAR \<equiv> 365 * DAY"

definition month :: "int list" where
  "month = [0, DAY * 31, DAY * (31+29), DAY * (31+29+31), DAY * (31+29+31+30),
     DAY * (31+29+31+30+31), DAY * (31+29+31+30+31+30), DAY * (31+29+31+30+31+30+31),
     DAY * (31+29+31+30+31+30+31+31), DAY * (31+29+31+30+31+30+31+31+30),
     DAY * (31+29+31+30+31+30+31+31+30+31), DAY * (31+29+31+30+31+30+31+31+30+31+30)]"

text \<open>Every assignment to \<open>res\<close> wraps at 32 bits.\<close>

definition kernel_mktime :: "tm \<Rightarrow> int" where
  "kernel_mktime tm =
     (let year = s32 (tm_year tm - 70);
          res = s32 (YEAR * year + DAY * c_div (year + 1) 4);
          res = s32 (res + month ! nat (tm_mon tm));
          res = (if tm_mon tm > 1 \<and> c_mod (year + 2) 4 \<noteq> 0 then s32 (res - DAY) else res);
          res = s32 (res + DAY * (tm_mday tm - 1));
          res = s32 (res + HOUR * tm_hour tm);
          res = s32 (res + MINUTE * tm_min tm)
      in s32 (res + tm_sec tm))"


section \<open>The calendar\<close>

definition leap :: "int \<Rightarrow> bool" where
  "leap y \<longleftrightarrow> y mod 4 = 0 \<and> (y mod 100 \<noteq> 0 \<or> y mod 400 = 0)"

definition year_days :: "int \<Rightarrow> int" where
  "year_days y = (if leap y then 366 else 365)"

definition month_days :: "int \<Rightarrow> int \<Rightarrow> int" where
  "month_days y m = (if m = 1 then if leap y then 29 else 28
                     else if m \<in> {3, 5, 8, 10} then 30 else 31)"

text \<open>The days from 1 January 1970 to the first of a month; months count from 0.\<close>

definition days_to :: "int \<Rightarrow> int \<Rightarrow> int" where
  "days_to y m = (\<Sum>k \<in> {1970..<y}. year_days k) + (\<Sum>k \<in> {0..<m}. month_days y k)"

lemma s32_trim: "s32 (s32 a + b) = s32 (a + b)" "s32 (s32 a - b) = s32 (a - b)"
proof -
  have "take_bit 32 (s32 a) = take_bit 32 a" for a
    by (simp add: s32_def take_bit_signed_take_bit)
  then have "take_bit 32 (s32 a + b) = take_bit 32 (a + b)" "take_bit 32 (s32 a - b) = take_bit 32 (a - b)"
    by (metis take_bit_add, metis take_bit_diff)
  then show "s32 (s32 a + b) = s32 (a + b)" "s32 (s32 a - b) = s32 (a - b)"
    by (simp_all add: s32_def signed_take_bit_eq_iff_take_bit_eq)
qed

lemma s32_trim2: "s32 (s32 a + b + c) = s32 (a + b + c)" "s32 (s32 a + b - c) = s32 (a + b - c)"
  "s32 (s32 a - b + c) = s32 (a - b + c)" "s32 (s32 a + b + c + d) = s32 (a + b + c + d)"
  "s32 (s32 a + b + c + d + e) = s32 (a + b + c + d + e)"
  using s32_trim(1) [of a "b + c"] s32_trim(1) [of a "b + c + d"] s32_trim(1) [of a "b + c + d + e"] s32_trim(1) [of a "b - c"] s32_trim(1) [of a "c - b"]
  by (simp_all add: algebra_simps)

lemma leap_4: "1970 \<le> y \<Longrightarrow> y < 2100 \<Longrightarrow> leap y = (y mod 4 = 0)"
proof -
  assume y: "1970 \<le> y" "y < 2100"
  have "y = 2000" if "y mod 100 = 0"
  proof -
    have "100 dvd y" using that by (rule mod_0_imp_dvd)
    then obtain k where "y = 100 * k" by (rule dvdE)
    with y show ?thesis by simp
  qed
  then show ?thesis by (auto simp: leap_def)
qed

lemma year_sum:
  assumes "0 \<le> n" and "n \<le> 129"
  shows "(\<Sum>k \<in> {1970..<1970 + n}. year_days k) = 365 * n + (n + 1) div 4"
proof -
  have "int m \<le> 129 \<Longrightarrow> (\<Sum>k \<in> {1970..<1970 + int m}. year_days k) = 365 * int m + (int m + 1) div 4" for m
  proof (induction m)
    case (Suc m)
    have "{1970..<1970 + int (Suc m)} = insert (1970 + int m) {1970..<1970 + int m}" by auto
    then have "(\<Sum>k \<in> {1970..<1970 + int (Suc m)}. year_days k) =
        year_days (1970 + int m) + (365 * int m + (int m + 1) div 4)"
      using Suc by simp
    moreover have "year_days (1970 + int m) = 365 + (if (1970 + int m) mod 4 = 0 then 1 else 0)"
      using Suc.prems leap_4 [of "1970 + int m"] by (simp add: year_days_def)
    ultimately show ?case
      by (simp add: algebra_simps) presburger
  qed simp
  from this [of "nat n"] show ?thesis using assms by simp
qed

lemma months_less_12: "0 \<le> (m :: int) \<Longrightarrow> m < 12 \<Longrightarrow>
    m = 0 \<or> m = 1 \<or> m = 2 \<or> m = 3 \<or> m = 4 \<or> m = 5 \<or> m = 6 \<or> m = 7 \<or> m = 8 \<or> m = 9 \<or> m = 10 \<or> m = 11"
  by presburger

lemma month_sum_Suc: "0 \<le> m \<Longrightarrow> (\<Sum>k \<in> {0..<m + 1}. month_days y k) =
    (\<Sum>k \<in> {0..<m}. month_days y k) + month_days y m"
proof -
  assume "0 \<le> m"
  then have "{0..<m + 1} = insert m {0..<m}" by auto
  then show ?thesis by simp
qed

lemma month_sum:
  assumes "0 \<le> m" "m < 12"
  shows "DAY * (\<Sum>k \<in> {0..<m}. month_days y k) =
    month ! nat m - (if m > 1 \<and> \<not> leap y then DAY else 0)"
proof -
  note sums = month_sum_Suc [of 0 y] month_sum_Suc [of 1 y] month_sum_Suc [of 2 y]
    month_sum_Suc [of 3 y] month_sum_Suc [of 4 y] month_sum_Suc [of 5 y] month_sum_Suc [of 6 y]
    month_sum_Suc [of 7 y] month_sum_Suc [of 8 y] month_sum_Suc [of 9 y] month_sum_Suc [of 10 y]
  show ?thesis
    using months_less_12 [OF assms] sums
    by (elim disjE) (simp_all add: month_def month_days_def)
qed

lemma kernel_mktime_seconds:
  assumes "70 \<le> tm_year tm" "tm_year tm < 138" "0 \<le> tm_mon tm" "tm_mon tm < 12"
    and "1 \<le> tm_mday tm" "tm_mday tm \<le> 31" "0 \<le> tm_hour tm" "tm_hour tm < 24"
    and "0 \<le> tm_min tm" "tm_min tm < 60" "0 \<le> tm_sec tm" "tm_sec tm < 60"
  shows "kernel_mktime tm =
    (((days_to (1900 + tm_year tm) (tm_mon tm) + tm_mday tm - 1) * 24 + tm_hour tm) * 60
      + tm_min tm) * 60 + tm_sec tm"
proof -
  define n where "n = tm_year tm - 70"
  have n: "0 \<le> n" "n < 68" using assms by (auto simp: n_def)
  have y: "s32 (tm_year tm - 70) = n" using n unfolding n_def by (intro s32_id) auto
  have lp: "leap (1900 + tm_year tm) \<longleftrightarrow> c_mod (n + 2) 4 = 0"
  proof -
    have "leap (1970 + n) = ((1970 + n) mod 4 = 0)" using n by (intro leap_4) auto
    also have "\<dots> = ((n + 2) mod 4 = 0)" by presburger
    finally show ?thesis using n by (simp add: n_def c_mod_nonneg)
  qed
  let ?d = "YEAR * n + DAY * ((n + 1) div 4) + month ! nat (tm_mon tm)
    - (if tm_mon tm > 1 \<and> c_mod (n + 2) 4 \<noteq> 0 then DAY else 0)"
  have days: "DAY * days_to (1900 + tm_year tm) (tm_mon tm) = ?d"
    using year_sum [of n] n month_sum [OF assms(3,4), of "1900 + tm_year tm"] lp
    by (simp add: days_to_def n_def algebra_simps)
  have run: "kernel_mktime tm = s32 (?d + DAY * (tm_mday tm - 1) + HOUR * tm_hour tm
      + MINUTE * tm_min tm + tm_sec tm)"
  proof -
    have "c_div (n + 1) 4 = (n + 1) div 4" using n by (simp add: c_div_nonneg)
    then show ?thesis
      by (cases "tm_mon tm > 1 \<and> c_mod (n + 2) 4 \<noteq> 0")
        (simp_all only: kernel_mktime_def Let_def y s32_trim s32_trim2 if_True if_False diff_0_right
          simp_thms)
  qed
  have mon: "0 \<le> month ! nat (tm_mon tm)" "month ! nat (tm_mon tm) \<le> 335 * DAY"
    using months_less_12 [OF assms(3,4)] by (elim disjE; simp add: month_def)+
  have d4: "0 \<le> (n + 1) div 4" "(n + 1) div 4 \<le> 17" using n by auto
  have small: "- DAY \<le> ?d" "?d \<le> 67 * YEAR + 17 * DAY + 335 * DAY"
    using mon n d4 by auto
  have "kernel_mktime tm = ?d + DAY * (tm_mday tm - 1) + HOUR * tm_hour tm
      + MINUTE * tm_min tm + tm_sec tm"
    unfolding run using small assms(5-12) by (intro s32_id) auto
  then show ?thesis
    unfolding days [symmetric] by (simp add: algebra_simps)
qed

text \<open>
  kernel_mktime equals the seconds of the calendar since 1970 for the years 1970 to 2037,
  leap years included.
\<close>

theorem kernel_mktime_calendar:
  assumes "70 \<le> tm_year tm" "tm_year tm < 138" "0 \<le> tm_mon tm" "tm_mon tm < 12"
    and "1 \<le> tm_mday tm" "tm_mday tm \<le> 31" "0 \<le> tm_hour tm" "tm_hour tm < 24"
    and "0 \<le> tm_min tm" "tm_min tm < 60" "0 \<le> tm_sec tm" "tm_sec tm < 60"
  shows "kernel_mktime tm =
    (((days_to (1900 + tm_year tm) (tm_mon tm) + tm_mday tm - 1) * 24 + tm_hour tm) * 60
      + tm_min tm) * 60 + tm_sec tm"
  using assms by (rule kernel_mktime_seconds)

theorem kernel_mktime_calendar_witness:
  "kernel_mktime \<lparr>tm_sec = 7, tm_min = 14, tm_hour = 3, tm_mday = 19, tm_mon = 0, tm_year = 137,
     tm_wday = 0, tm_yday = 0, tm_isdst = 0\<rparr> =
    (((days_to 2037 0 + 18) * 24 + 3) * 60 + 14) * 60 + 7"
  using kernel_mktime_calendar [of "\<lparr>tm_sec = 7, tm_min = 14, tm_hour = 3, tm_mday = 19,
     tm_mon = 0, tm_year = 137, tm_wday = 0, tm_yday = 0, tm_isdst = 0\<rparr>"] by simp

end
