(* ===== verification/Examples.thy ===== *)
theory Examples
  imports Console_Safe Tty_Lines Tty_Ioctl Sys Vsprintf Mktime
begin

unbundle bit_operations_syntax

text \<open>
  The properties of the components at concrete inputs: each theorem of this theory applies
  a property where all its hypotheses hold.
\<close>

section \<open>Pages\<close>

text \<open>One page table, at 0x1000, that maps one page at 0x2000 for the address 0x400000.\<close>

definition one_page :: mm where
  "one_page = \<lparr>mem_map = (\<lambda>_. 0), phys = (\<lambda>_. 0)(4 := 0x1007, 0x1000 := 0x2007)\<rparr>"

lemma pde_one_page: "i < 1024 \<Longrightarrow> pde one_page i = (if i = 1 then 0x1007 else 0)"
proof -
  assume i: "i < 1024"
  have "unat (long_of 0 i) = 4 * i" using i by (simp add: long_of_def unat_word_ariths unat_of_nat)
  then have "long_of 0 i = 4 \<longleftrightarrow> i = 1" "long_of 0 i \<noteq> 0x1000"
    using i by (auto simp: word_unat_eq_iff)
  then show ?thesis by (simp add: pde_def one_page_def)
qed

lemma wf_one_page: "wf_tables one_page"
proof -
  have "not_free one_page 0x1000"
    using page_addr_ge by (fastforce simp: not_free_def)
  then show ?thesis
    by (auto simp: wf_tables_def pde_one_page frame_of_def present_def split: if_splits)
qed

lemma translate_one_page: "translate one_page 0x400000 = Some 0x2007"
  by (simp add: translate_def dir_index_def table_index_def pte_def pde_one_page frame_of_def
      present_def long_of_def) (simp add: one_page_def present_def)


lemma free_table_low:
  "\<forall>a. frame_of (phys s a) < LOW_MEM \<Longrightarrow>
     \<exists>s'. free_table n t s = Inr s' \<and> (\<forall>a. frame_of (phys s' a) < LOW_MEM)"
proof (induction n arbitrary: t s)
  case (Suc n)
  have f: "free_page (frame_of (phys s t)) s = Inr s" using Suc.prems by (simp add: free_page_def)
  have "\<forall>a. frame_of (phys (s\<lparr>phys := (phys s)(t := 0)\<rparr>) a) < LOW_MEM"
    using Suc.prems by (simp add: frame_of_def)
  from Suc.IH [OF this] show ?case using f by simp
qed simp

theorem free_page_tables_unmaps_witness:
  "\<exists>s'. free_page_tables 0x400000 0x400000 one_page = Inr s' \<and> translate s' 0x400000 = None"
proof -
  have low: "\<forall>a. frame_of (phys one_page a) < LOW_MEM"
    by (simp add: one_page_def frame_of_def)
  obtain s1 where t: "free_table 1024 0x1000 one_page = Inr s1" and l: "\<forall>a. frame_of (phys s1 a) < LOW_MEM"
    using free_table_low [OF low] by blast
  have f: "free_page (frame_of (phys s1 4)) s1 = Inr s1" using l by (simp add: free_page_def)
  have d: "phys one_page 4 = 0x1007" by (simp add: one_page_def)
  have "free_dirs (Suc 0) 4 one_page = Inr (s1\<lparr>phys := (phys s1)(4 := 0)\<rparr>)"
    using t f d by (simp add: frame_of_def)
  then obtain s' where run: "free_page_tables 0x400000 0x400000 one_page = Inr s'"
    by (simp add: free_page_tables_def dir_slot_def)
  have "dirs 0x400000 = 1" "dir_index 0x400000 = 1" by (simp_all add: dirs_def dir_index_def)
  then show ?thesis
    using free_page_tables_unmaps [OF wf_one_page run, of "0x400000"] run by auto
qed


section \<open>Processes\<close>

text \<open>The initial task with two users: one child of process 1 that is a zombie.\<close>

definition family :: kern where
  "family = one_task\<lparr>task := (\<lambda>_. None)
     (0 := Some (INIT_TASK 0),
      1 := Some ((INIT_TASK 0)\<lparr>pid := 1, uid := 7, euid := 7, suid := 7,
             end_code := 0x1000, brk := 0x2000, start_stack := 0x100000\<rparr>),
      2 := Some ((INIT_TASK 0)\<lparr>pid := 2, father := 1, uid := 7, state := TASK_ZOMBIE\<rparr>)), current := 1\<rparr>"

lemma family_cur: "task family (current family) \<noteq> None"
  by (simp add: family_def)

lemma counters_ok_family: "counters_ok family"
  by (auto simp: counters_ok_def family_def INIT_TASK_def split: if_splits)

theorem schedule_spec_witness: "\<exists>s'. schedule family = Some s' \<and> chosen s' (current s')"
  using schedule_spec [OF counters_ok_family] by blast

theorem math_state_restore_lazy_witness:
  "fpu (math_state_restore family) = fp_of family (current family)"
  using math_state_restore_lazy [of family] family_cur by (simp add: math_ok_def family_def one_task_def)

theorem do_kill_spec_witness:
  "map_option signal (task (do_kill 2 9 False family) 2) = Some 0x100"
  using do_kill_spec [OF family_cur, of 2 9 False 2]
  by (simp add: family_def one_task_def cur_def INIT_TASK_def addressed_def may_signal_def post_def)

theorem sys_setuid_unprivileged_witness:
  "fst (sys_setuid 0 family) = 0 \<and> euid (cur (snd (sys_setuid 0 family))) = 0"
  using sys_setuid_unprivileged [OF family_cur _ _ prod.collapse [symmetric], of 0]
  by (simp add: cur_def family_def INIT_TASK_def)

theorem sys_brk_bounds_witness:
  "fst (sys_brk 0x3000 family) = brk (cur (snd (sys_brk 0x3000 family)))"
  using sys_brk_bounds [OF family_cur prod.collapse [symmetric]]
  by (simp add: cur_def family_def INIT_TASK_def)

theorem waitpid_echild_witness:
  "\<exists>p. waitpid_round (\<lambda>_. 0) p 0 0 family = Inr (Some (- ECHILD), family)"
  using waitpid_echild [of 5 family "\<lambda>_. 0" 0 0]
  by (intro exI [of _ 5]) (simp add: asked_def cur_def family_def INIT_TASK_def)

theorem waitpid_reaps_witness:
  "\<exists>s'. waitpid_round (\<lambda>_. 0) 2 0 0 family = Inr (Some 2, s') \<and> task s' 2 = None"
proof -
  have a: "asked 2 family 2" "is_zombie family 2"
    by (simp_all add: asked_def is_zombie_def cur_def family_def one_task_def INIT_TASK_def)
  have only: "asked 2 family j \<Longrightarrow> j = 2" for j
    by (simp add: asked_def cur_def family_def one_task_def INIT_TASK_def split: if_splits)
  have two: "2 \<in> set (rev [1..<NR_TASKS])" unfolding rev_slots by simp
  obtain r flag where w: "wait_scan 2 family (rev [1..<NR_TASKS]) False = (r, flag)"
    by (rule prod.exhaust)
  have "r = Some 2"
  proof (cases r)
    case None
    show ?thesis using wait_scan_spec [OF w, unfolded None option.case] a two by blast
  next
    case (Some j)
    then show ?thesis using wait_scan_spec [OF w, unfolded Some option.case] only by blast
  qed
  define s1 where "s1 = set_cur (\<lambda>c. c\<lparr>cutime := s32 (cutime c + utime (the (task family 2))),
      cstime := s32 (cstime c + stime (the (task family 2)))\<rparr>)
    (put_user (put_fs_long (word_of_int (exit_code (the (task family 2)))) 0) family)"
  have "counters_ok (s1\<lparr>task := (task s1)(2 := None), mem := mem s1\<rparr>)"
    by (auto simp: s1_def counters_ok_def family_def one_task_def INIT_TASK_def set_cur_def set_task_def
        put_user_def split: if_splits)
  then obtain s' where "schedule (s1\<lparr>task := (task s1)(2 := None), mem := mem s1\<rparr>) = Some s'"
    using schedule_spec by blast
  then have "release (\<lambda>_. 0) 2 s1 = Inr s'"
    by (simp add: release_def free_page_def schedule_result_def s1_def family_def set_cur_def set_task_def
        put_user_def)
  then have run: "waitpid_round (\<lambda>_. 0) 2 0 0 family = Inr (Some 2, s')"
    unfolding waitpid_round_def w \<open>r = Some 2\<close> s1_def Let_def
    by (simp add: family_def INIT_TASK_def)
  obtain j where "asked 2 family j" "task s' j = None"
    using waitpid_reaps [OF a _ _ run] by auto
  with run only show ?thesis by auto
qed

theorem sleep_on_keeps_all_witness:
  "\<exists>s. run [Sleep 0] idle = Some s \<and> \<not> lost s 1"
proof -
  have s: "run [Sleep 0] idle = Some \<lparr>kern = three_tasks ((\<lambda>_. 0)(1 := 2)) 3,
      head = (\<lambda>_. None)(0 := Some 1), frame = (\<lambda>_. None)(1 := Some (Sleeping 0 None))\<rparr>" (is "_ = Some ?s")
    by (simp add: idle_def sleep_on_def with_kern_def enter_def set_state_three_tasks
        schedule_three_tasks_cases flip: One_nat_def)
  have r: "reachable (\<lambda>e. \<forall>q. e \<noteq> Int_sleep q) idle ?s"
    using run_reachable [OF s _ reachable.start] by simp
  have i: "sleep_inv idle"
    by (simp add: sleep_inv_def chained_def idle_def three_tasks_def uninterruptible_def state_of_def INIT_TASK_def)
  have "\<not> lost ?s 1"
    using sleep_on_keeps_all [OF r i, of 1 0 None]
    by (simp add: three_tasks_def uninterruptible_def state_of_def INIT_TASK_def)
  with s show ?thesis by blast
qed


section \<open>Characters and numbers\<close>

theorem get_put_fs_bytes_witness: "get_fs_bytes 3 10 (put_fs_bytes [1, 2, 3] 10 (\<lambda>_. 0)) = [1, 2, 3]"
  using get_put_fs_bytes [of "[1, 2, 3]" 10 "\<lambda>_. 0"] by (simp add: numeral_3_eq_3)

theorem ctype_ascii_witness: "isupper 65 \<and> \<not> islower 65 \<and> isxdigit 65"
  using ctype_ascii [of 65] by simp

theorem tolower_wrong_witness: "tolower 65 = 227"
  using tolower_wrong [rule_format, of 65] by simp

theorem number_tmp_fits_witness: "length (digits_of 2 (unat (255 :: u32))) \<le> 32"
  using number_tmp_fits [of 2 255] by simp

theorem number_width_witness: "\<exists>out. number 0 10 5 (-1) 0 = Some out \<and> length out = 5"
proof -
  obtain out where a: "number 0 10 5 (-1) 0 = Some out" by (simp add: number_def sign_of_def Let_def tmp_of_def prefix_of_def pad_def)
  obtain out' where b: "number 0 10 (-1) (-1) 0 = Some out'" and "length out' = 1"
    by (simp add: number_def sign_of_def Let_def tmp_of_def prefix_of_def pad_def)
  then show ?thesis using number_width [OF b a] a by simp
qed

theorem number_decimal_roundtrip_witness:
  "\<exists>out. number 1991 10 (-1) (-1) 0 = Some out \<and> skip_atoi (out @ ''x'') = (1991, ''x'')"
  using number_decimal_roundtrip [of 1991 "''x''"] by (simp add: is_digit_def)

theorem vsprintf_plain_witness: "vsprintf ''tty0'' [] = Some (''tty0'', [])"
  using vsprintf_plain [of "''tty0''" "[]"] by simp


section \<open>The terminal\<close>


text \<open>A terminal whose cooked queue holds one line of two characters.\<close>

definition a_line :: tty_struct where
  "a_line = console_tty\<lparr>secondary := \<lparr>q_data = 1, q_head = 2, q_tail = 0, q_proc_list = None,
     q_buf = [97, 10] @ replicate 1022 0\<rparr>\<rparr>"

lemma a_line_ok: "tty_ok a_line" "contents (secondary a_line) = [97, 10]"
proof -
  have e: "queue_ok (empty_queue 0)" by (simp add: queue_ok_def ring_ok_def empty_queue_def)
  show "contents (secondary a_line) = [97, 10]"
    by (simp add: contents_def ring_abs_def ring_chars_def a_line_def mask_eq_exp_minus_1 upt_rec)
  show "tty_ok a_line"
    using e by (simp add: tty_ok_def a_line_def console_tty_def queue_ok_def ring_ok_def)
qed

lemma lines_ok_a_line: "lines_ok a_line"
  by (simp add: lines_ok_def a_line_ok is_eol_def)
     (simp add: a_line_def console_tty_def INIT_C_CC_def cc_def)


theorem read_chars_prefix_witness:
  "\<exists>cs eof tty'. read_chars 1 a_line = (cs, eof, tty') \<and> length cs \<le> 1 \<and> lines_ok tty'"
proof -
  obtain cs eof tty' where r: "read_chars 1 a_line = (cs, eof, tty')" by (metis prod.exhaust)
  show ?thesis
    using read_chars_prefix [OF a_line_ok(1) lines_ok_a_line r] a_line_ok(2) r by auto
qed

theorem write_chars_text_witness:
  "\<exists>rest cr' tty'. write_chars [104, 105] False a_line = (rest, cr', tty') \<and>
     (rest = [] \<or> FULL (write_q tty'))"
proof -
  obtain rest cr' tty' where r: "write_chars [104, 105] False a_line = (rest, cr', tty')"
    by (metis prod.exhaust)
  show ?thesis using write_chars_text [OF a_line_ok(1) r] r by blast
qed

end
