(* ===== verification/Hd.thy ===== *)
theory Hd
  imports Fs_Types
begin

unbundle bit_operations_syntax

text \<open>
  The hard disk driver, kernel/hd.c, for the two disks of the configuration LINUS_HD
  (include/linux/config.h): the translation of blocks to cylinder, head and sector, the
  queue of requests with its elevator, the commands sent to the controller and the
  interrupt handlers that move the data.
\<close>

section \<open>State\<close>

abbreviation MAX_ERRORS :: int where "MAX_ERRORS \<equiv> 5"
abbreviation NR_HD :: nat where "NR_HD \<equiv> 2"
abbreviation NR_REQUEST :: nat where "NR_REQUEST \<equiv> 32"

text \<open>\<open>HD_TYPE\<close>: head, sect, cyl, wpcom, lzone, ctl of each disk.\<close>

record hd_i_struct =
  hi_head :: u32
  hi_sect :: u32
  hi_cyl :: u32
  hi_wpcom :: u32
  hi_lzone :: u32
  hi_ctl :: u32

definition hd_info :: "hd_i_struct list" where
  "hd_info = replicate 2
     \<lparr>hi_head = 5, hi_sect = 17, hi_cyl = 980, hi_wpcom = 300, hi_lzone = 980, hi_ctl = 0\<rparr>"

record hd_struct =
  start_sect :: u32
  nr_sects :: u32

record hd_request =
  rq_hd :: int
  rq_nsector :: int
  rq_sector :: int
  rq_head :: int
  rq_cyl :: int
  rq_cmd :: int
  rq_errors :: int
  rq_bh :: nat
  rq_next :: "nat option"

definition IN_ORDER :: "hd_request \<Rightarrow> hd_request \<Rightarrow> bool" where
  "IN_ORDER s1 s2 \<longleftrightarrow> rq_hd s1 < rq_hd s2 \<or> rq_hd s1 = rq_hd s2 \<and>
     (rq_cyl s1 < rq_cyl s2 \<or> rq_cyl s1 = rq_cyl s2 \<and>
     (rq_head s1 < rq_head s2 \<or> rq_head s1 = rq_head s2 \<and>
     rq_sector s1 < rq_sector s2))"

text \<open>The values of the function pointer \<open>do_hd\<close>, and the two lists of sleepers.\<close>

datatype handler = Read_intr | Write_intr | Do_request

datatype sleepers = Request_wait | Buffer_wait nat

text \<open>
  The machine's ports are part of the state: \<open>inp n p\<close> is the byte that the \<open>n\<close>-th read of
  a port gives when it reads port \<open>p\<close> and \<open>insw n\<close> the sector that the \<open>n\<close>-th \<open>rep;insw\<close>
  gives, so that a theorem about every state is about every behaviour of the controller;
  \<open>outs\<close> are the bytes written so far and \<open>sectors\<close> the sectors written by \<open>rep;outsw\<close>.
  \<open>woken\<close> records the calls of \<open>wake_up\<close>, \<open>printed\<close> the messages.
\<close>

record hd_sys =
  request :: "nat \<Rightarrow> hd_request"
  this_request :: "nat option"
  sorting :: bool
  do_hd :: "handler option"
  hd_parts :: "nat \<Rightarrow> hd_struct"
  bufs :: "nat \<Rightarrow> buffer_head"
  inp :: "nat \<Rightarrow> u16 \<Rightarrow> u8"
  inp_n :: nat
  insw :: "nat \<Rightarrow> u8 list"
  insw_n :: nat
  outs :: "(u16 \<times> u8) list"
  sectors :: "u8 list list"
  woken :: "sleepers list"
  printed :: "string list"

definition set_request :: "nat \<Rightarrow> (hd_request \<Rightarrow> hd_request) \<Rightarrow> hd_sys \<Rightarrow> hd_sys" where
  "set_request i f s = s\<lparr>request := (request s)(i := f (request s i))\<rparr>"

definition set_buf :: "nat \<Rightarrow> (buffer_head \<Rightarrow> buffer_head) \<Rightarrow> hd_sys \<Rightarrow> hd_sys" where
  "set_buf i f s = s\<lparr>bufs := (bufs s)(i := f (bufs s i))\<rparr>"

definition printk :: "string \<Rightarrow> hd_sys \<Rightarrow> hd_sys" where
  "printk m s = s\<lparr>printed := printed s @ [m]\<rparr>"

definition wake_up_hd :: "sleepers \<Rightarrow> hd_sys \<Rightarrow> hd_sys" where
  "wake_up_hd q s = s\<lparr>woken := woken s @ [q]\<rparr>"

definition inb :: "u16 \<Rightarrow> hd_sys \<Rightarrow> u8 \<times> hd_sys" where
  "inb p s = (inp s (inp_n s) p, s\<lparr>inp_n := inp_n s + 1\<rparr>)"

definition outb :: "u8 \<Rightarrow> u16 \<Rightarrow> hd_sys \<Rightarrow> hd_sys" where
  "outb v p s = s\<lparr>outs := outs s @ [(p, v)]\<rparr>"

text \<open>\<open>port_read\<close> of 256 words at offset \<open>off\<close> of a buffer, \<open>port_write\<close> of 256 words.\<close>

definition port_read :: "nat \<Rightarrow> nat \<Rightarrow> hd_sys \<Rightarrow> hd_sys" where
  "port_read b off s =
     (set_buf b (\<lambda>h. h\<lparr>b_data := take off (b_data h) @ insw s (insw_n s) @ drop (off + 512) (b_data h)\<rparr>) s)
       \<lparr>insw_n := insw_n s + 1\<rparr>"

definition port_write :: "nat \<Rightarrow> nat \<Rightarrow> hd_sys \<Rightarrow> hd_sys" where
  "port_write b off s = s\<lparr>sectors := sectors s @ [take 512 (drop off (b_data (bufs s b)))]\<rparr>"


section \<open>Registers\<close>

abbreviation HD_DATA :: u16 where "HD_DATA \<equiv> 0x1f0"
abbreviation HD_ERROR :: u16 where "HD_ERROR \<equiv> 0x1f1"
abbreviation HD_NSECTOR :: u16 where "HD_NSECTOR \<equiv> 0x1f2"
abbreviation HD_SECTOR :: u16 where "HD_SECTOR \<equiv> 0x1f3"
abbreviation HD_LCYL :: u16 where "HD_LCYL \<equiv> 0x1f4"
abbreviation HD_HCYL :: u16 where "HD_HCYL \<equiv> 0x1f5"
abbreviation HD_CURRENT :: u16 where "HD_CURRENT \<equiv> 0x1f6"
abbreviation HD_STATUS :: u16 where "HD_STATUS \<equiv> 0x1f7"
abbreviation HD_CMD :: u16 where "HD_CMD \<equiv> 0x3f6"
abbreviation ERR_STAT :: u8 where "ERR_STAT \<equiv> 0x01"
abbreviation DRQ_STAT :: u8 where "DRQ_STAT \<equiv> 0x08"
abbreviation SEEK_STAT :: u8 where "SEEK_STAT \<equiv> 0x10"
abbreviation WRERR_STAT :: u8 where "WRERR_STAT \<equiv> 0x20"
abbreviation READY_STAT :: u8 where "READY_STAT \<equiv> 0x40"
abbreviation BUSY_STAT :: u8 where "BUSY_STAT \<equiv> 0x80"
abbreviation WIN_READ :: int where "WIN_READ \<equiv> 0x20"
abbreviation WIN_WRITE :: int where "WIN_WRITE \<equiv> 0x30"
abbreviation WIN_SPECIFY :: int where "WIN_SPECIFY \<equiv> 0x91"


section \<open>Locks on buffers\<close>

definition lock_buffer :: "nat \<Rightarrow> hd_sys \<Rightarrow> hd_sys" where
  "lock_buffer b s =
     (let s = (if b_lock (bufs s b) \<noteq> 0 then printk ''hd.c: buffer multiply locked'' s else s)
      in set_buf b (\<lambda>h. h\<lparr>b_lock := 1\<rparr>) s)"

definition unlock_buffer :: "nat \<Rightarrow> hd_sys \<Rightarrow> hd_sys" where
  "unlock_buffer b s =
     (let s = (if b_lock (bufs s b) = 0 then printk ''hd.c: free buffer being unlocked'' s else s);
          s = set_buf b (\<lambda>h. h\<lparr>b_lock := 0\<rparr>) s
      in wake_up_hd (Buffer_wait b) s)"


section \<open>The controller\<close>

text \<open>\<open>while (--retries && (inb(HD_STATUS)&0xc0)!=0x40);\<close>\<close>

fun controller_wait :: "nat \<Rightarrow> hd_sys \<Rightarrow> nat \<times> hd_sys" where
  "controller_wait retries s =
     (if retries \<le> 1 then (0, s)
      else let (v, s) = inb HD_STATUS s in
        if v AND 0xc0 = 0x40 then (retries - 1, s) else controller_wait (retries - 1) s)"

declare controller_wait.simps [simp del]

definition controller_ready :: "hd_sys \<Rightarrow> nat \<times> hd_sys" where
  "controller_ready s = controller_wait 1000 s"

definition win_result :: "hd_sys \<Rightarrow> bool \<times> hd_sys" where
  "win_result s =
     (let (i, s) = inb HD_STATUS s in
        if i AND (BUSY_STAT OR READY_STAT OR WRERR_STAT OR SEEK_STAT OR ERR_STAT)
           = READY_STAT OR SEEK_STAT
        then (False, s)
        else let s = (if i AND 1 \<noteq> 0 then snd (inb HD_ERROR s) else s) in (True, s))"

text \<open>\<open>_CTL\<close> is 0 and \<open>_WPCOM\<close> is 300 >> 2 (include/linux/hdreg.h).\<close>

definition hd_out :: "u32 \<Rightarrow> u32 \<Rightarrow> u32 \<Rightarrow> u32 \<Rightarrow> u32 \<Rightarrow> u32 \<Rightarrow> handler \<Rightarrow> hd_sys \<Rightarrow> hd_sys result" where
  "hd_out drive nsect sect head cyl cmd intr_addr s =
     (if drive > 1 \<or> head > 15 then Inl (Panic ''Trying to write bad sector'')
      else let (r, s) = controller_ready s in
        if r = 0 then Inl (Panic ''HD controller not ready'')
        else
          let s = s\<lparr>do_hd := Some intr_addr\<rparr>;
              s = outb 0 HD_CMD s;
              port = HD_DATA;
              s = outb (ucast (drop_bit 2 (300 :: u32))) (port + 1) s;
              s = outb (ucast nsect) (port + 2) s;
              s = outb (ucast sect) (port + 3) s;
              s = outb (ucast cyl) (port + 4) s;
              s = outb (ucast (drop_bit 8 cyl)) (port + 5) s;
              s = outb (ucast (0xA0 OR push_bit 4 drive OR head)) (port + 6) s;
              s = outb (ucast cmd) (port + 7) s
          in Inr s)"

text \<open>
  \<open>drive_busy\<close>: at most \<open>n\<close> polls, then one more read. The condition
  \<open>i == READY_STAT | SEEK_STAT\<close> is \<open>(i == READY_STAT) | SEEK_STAT\<close> in C.
\<close>

fun drive_poll :: "nat \<Rightarrow> hd_sys \<Rightarrow> hd_sys" where
  "drive_poll 0 s = s"
| "drive_poll (Suc n) s =
     (let (v, s) = inb HD_STATUS s in
        if READY_STAT = v AND (BUSY_STAT OR READY_STAT) then s else drive_poll n s)"

declare drive_poll.simps [simp del]

definition drive_busy :: "hd_sys \<Rightarrow> bool \<times> hd_sys" where
  "drive_busy s =
     (let s = drive_poll 100000 s;
          (i, s) = inb HD_STATUS s;
          i = i AND (BUSY_STAT OR READY_STAT OR SEEK_STAT)
      in if (if i = READY_STAT then 1 else 0) OR SEEK_STAT \<noteq> 0 then (False, s)
         else (True, printk ''HD controller times out'' s))"

fun busy_wait :: "nat \<Rightarrow> hd_sys \<Rightarrow> hd_sys" where
  "busy_wait 0 s = s"
| "busy_wait (Suc n) s = (let (b, s) = drive_busy s in if b then busy_wait n s else s)"

declare busy_wait.simps [simp del]

text \<open>\<open>inb(ERR_STAT)\<close> reads port 1: \<open>ERR_STAT\<close> is a bit of the status, not a port.\<close>

definition reset_controller :: "hd_sys \<Rightarrow> hd_sys" where
  "reset_controller s =
     (let s = outb 4 HD_CMD s;
          s = outb 0 HD_CMD s;
          s = busy_wait 10000 s;
          (b, s) = drive_busy s;
          s = (if b then printk ''HD-controller still busy'' s else s);
          (i, s) = inb (ucast ERR_STAT) s
      in if i \<noteq> 1 then printk ''HD-controller reset failed'' s else s)"

definition reset_hd :: "int \<Rightarrow> hd_sys \<Rightarrow> hd_sys result" where
  "reset_hd nr s =
     hd_out (word_of_int nr) 17 17 4 977 (word_of_int WIN_SPECIFY) Do_request (reset_controller s)"


section \<open>Interrupt handlers\<close>

text \<open>Some requests point to the next one through \<open>rq_next\<close>; \<open>p\<close> is the current request.\<close>

definition this_rq :: "hd_sys \<Rightarrow> hd_request" where
  "this_rq s = request s (the (this_request s))"

definition set_this :: "(hd_request \<Rightarrow> hd_request) \<Rightarrow> hd_sys \<Rightarrow> hd_sys" where
  "set_this f s = set_request (the (this_request s)) f s"

definition drop_this :: "hd_sys \<Rightarrow> hd_sys" where
  "drop_this s =
     (let s = set_this (\<lambda>r. r\<lparr>rq_hd := - 1\<rparr>) s in s\<lparr>this_request := rq_next (this_rq s)\<rparr>)"

definition bad_rw_intr :: "hd_sys \<Rightarrow> hd_sys result" where
  "bad_rw_intr s =
     (let i = rq_hd (this_rq s);
          e = rq_errors (this_rq s);
          s = set_this (\<lambda>r. r\<lparr>rq_errors := s32 (e + 1)\<rparr>) s;
          s = (if e \<ge> MAX_ERRORS
               then let b = rq_bh (this_rq s);
                        s = set_buf b (\<lambda>h. h\<lparr>b_uptodate := 0\<rparr>) s;
                        s = unlock_buffer b s;
                        s = wake_up_hd Request_wait s
                    in drop_this s
               else s)
      in reset_hd i s)"

fun wait_drq :: "nat \<Rightarrow> hd_sys \<Rightarrow> bool \<times> hd_sys" where
  "wait_drq 0 s = (False, s)"
| "wait_drq (Suc n) s =
     (let (v, s) = inb HD_STATUS s in if v AND DRQ_STAT \<noteq> 0 then (True, s) else wait_drq n s)"

declare wait_drq.simps [simp del]

definition rq_half :: "hd_request \<Rightarrow> nat" where
  "rq_half r = 512 * nat (rq_nsector r mod 2)"

definition do_request :: "hd_sys \<Rightarrow> hd_sys result" where
  "do_request s =
     (if sorting s then Inr s
      else if this_request s = None then Inr (s\<lparr>do_hd := None\<rparr>)
      else
        let r = this_rq s;
            send = hd_out (word_of_int (rq_hd r)) (word_of_int (rq_nsector r))
              (word_of_int (rq_sector r)) (word_of_int (rq_head r)) (word_of_int (rq_cyl r))
              (word_of_int (rq_cmd r))
        in if rq_cmd r = WIN_WRITE
           then andthen (send Write_intr s) (\<lambda>s.
             let (ok, s) = wait_drq 3000 s in
               if \<not> ok then reset_hd (rq_hd (this_rq s)) s
               else Inr (port_write (rq_bh (this_rq s)) (rq_half (this_rq s)) s))
           else if rq_cmd r = WIN_READ then send Read_intr s
           else Inl (Panic ''unknown hd-command''))"

definition end_request :: "hd_sys \<Rightarrow> hd_sys result" where
  "end_request s =
     (let b = rq_bh (this_rq s);
          s = set_buf b (\<lambda>h. h\<lparr>b_uptodate := 1, b_dirt := 0\<rparr>) s;
          s = wake_up_hd Request_wait s;
          s = unlock_buffer b s;
          s = drop_this s
      in do_request s)"

definition read_intr :: "hd_sys \<Rightarrow> hd_sys result" where
  "read_intr s =
     (let (bad, s) = win_result s in
        if bad then bad_rw_intr s
        else
          let s = port_read (rq_bh (this_rq s)) (rq_half (this_rq s)) s;
              s = set_this (\<lambda>r. r\<lparr>rq_errors := 0\<rparr>) s;
              s = set_this (\<lambda>r. r\<lparr>rq_nsector := s32 (rq_nsector r - 1)\<rparr>) s
          in if rq_nsector (this_rq s) \<noteq> 0 then Inr s
             else end_request s)"

definition write_intr :: "hd_sys \<Rightarrow> hd_sys result" where
  "write_intr s =
     (let (bad, s) = win_result s in
        if bad then bad_rw_intr s
        else
          let s = set_this (\<lambda>r. r\<lparr>rq_nsector := s32 (rq_nsector r - 1)\<rparr>) s
          in if rq_nsector (this_rq s) \<noteq> 0 then Inr (port_write (rq_bh (this_rq s)) 512 s)
             else end_request s)"

text \<open>The interrupt calls what \<open>do_hd\<close> points to (kernel/system_call.s).\<close>

definition hd_interrupt :: "hd_sys \<Rightarrow> hd_sys result" where
  "hd_interrupt s =
     (case do_hd s of
        None \<Rightarrow> Inl (Panic ''Unexpected HD interrupt'')
      | Some Read_intr \<Rightarrow> read_intr s
      | Some Write_intr \<Rightarrow> write_intr s
      | Some Do_request \<Rightarrow> do_request s)"


section \<open>Adding a request\<close>

text \<open>
  The loop of \<open>add_request\<close>: from \<open>tmp\<close> on, the element after which \<open>req\<close> goes. A list that
  loops back on itself is a loop without end.
\<close>

partial_function (option) find_place :: "(nat \<Rightarrow> hd_request) \<Rightarrow> hd_request \<Rightarrow> nat \<Rightarrow> nat option" where
  "find_place rqs req tmp =
     (case rq_next (rqs tmp) of
        None \<Rightarrow> Some tmp
      | Some nxt \<Rightarrow>
          if (IN_ORDER (rqs tmp) req \<or> \<not> IN_ORDER (rqs tmp) (rqs nxt)) \<and> IN_ORDER req (rqs nxt)
          then Some tmp else find_place rqs req nxt)"

text \<open>The part between \<open>sorting=1\<close> and \<open>sorting=0\<close>.\<close>

definition link_request :: "nat \<Rightarrow> hd_sys \<Rightarrow> hd_sys result" where
  "link_request req s =
     (case this_request s of
        None \<Rightarrow> Inr (s\<lparr>this_request := Some req\<rparr>)
      | Some tmp \<Rightarrow>
          (case rq_next (request s tmp) of
             None \<Rightarrow> Inr (set_request tmp (\<lambda>r. r\<lparr>rq_next := Some req\<rparr>) s)
           | Some nxt \<Rightarrow>
               (case find_place (request s) (request s req) nxt of
                  None \<Rightarrow> Inl Hangs
                | Some tmp \<Rightarrow>
                    let s = set_request req (\<lambda>r. r\<lparr>rq_next := rq_next (request s tmp)\<rparr>) s
                    in Inr (set_request tmp (\<lambda>r. r\<lparr>rq_next := Some req\<rparr>) s))))"

definition add_request :: "nat \<Rightarrow> hd_sys \<Rightarrow> hd_sys result" where
  "add_request req s =
     (if rq_nsector (request s req) \<noteq> 2 then Inl (Panic ''nsector!=2 not implemented'')
      else
        andthen (link_request req (s\<lparr>sorting := True\<rparr>)) (\<lambda>s.
          let s = s\<lparr>sorting := False\<rparr> in
            if do_hd s = None then do_request s else Inr s))"

text \<open>
  \<open>rw_abs_hd\<close> up to the point where the process waits: it sleeps until a request is free
  (\<open>Full\<close>, and is to be called again, with the buffer locked), or it has queued its request
  and sleeps until the buffer is unlocked (\<open>Queued\<close>), or goes on at once (\<open>Unlocked\<close>).
\<close>

datatype rw_outcome = Full | Queued | Unlocked

definition free_request :: "hd_sys \<Rightarrow> nat option" where
  "free_request s = List.find (\<lambda>i. rq_hd (request s i) < 0) [0..<NR_REQUEST]"

definition get_request :: "int \<Rightarrow> u32 \<Rightarrow> u32 \<Rightarrow> u32 \<Rightarrow> u32 \<Rightarrow> nat \<Rightarrow> hd_sys \<Rightarrow> (rw_outcome \<times> hd_sys) result" where
  "get_request rw nr sec head cyl b s =
     (case free_request s of
        None \<Rightarrow> Inr (Full, s)
      | Some req \<Rightarrow>
          let s = set_request req (\<lambda>_. \<lparr>rq_hd = sint nr, rq_nsector = 2, rq_sector = sint sec,
                rq_head = sint head, rq_cyl = sint cyl,
                rq_cmd = (if rw = READ then WIN_READ else WIN_WRITE),
                rq_errors = 0, rq_bh = b, rq_next = None\<rparr>) s
          in andthen (add_request req s) (\<lambda>s.
               Inr (if b_lock (bufs s b) \<noteq> 0 then Queued else Unlocked, s)))"

definition rw_abs_hd :: "int \<Rightarrow> u32 \<Rightarrow> u32 \<Rightarrow> u32 \<Rightarrow> u32 \<Rightarrow> nat \<Rightarrow> hd_sys \<Rightarrow> (rw_outcome \<times> hd_sys) result" where
  "rw_abs_hd rw nr sec head cyl b s =
     (if rw \<noteq> READ \<and> rw \<noteq> WRITE then Inl (Panic ''Bad hd command, must be R/W'')
      else get_request rw nr sec head cyl b (lock_buffer b s))"

text \<open>The translation of a block to drive, sector, head and cylinder.\<close>

definition hd_address :: "(nat \<Rightarrow> hd_struct) \<Rightarrow> buffer_head \<Rightarrow> (u32 \<times> u32 \<times> u32 \<times> u32) option" where
  "hd_address parts bh =
     (let block = push_bit 1 (ucast (b_blocknr bh)) :: u32;
          dev = MINOR (ucast (b_dev bh))
      in if dev \<ge> 5 * of_nat NR_HD \<or> block + 2 > nr_sects (parts (unat dev)) then None
         else
           let block = block + start_sect (parts (unat dev));
               dev = dev div 5;
               sec = block mod hi_sect (hd_info ! unat dev);
               block = block div hi_sect (hd_info ! unat dev);
               head = block mod hi_head (hd_info ! unat dev);
               cyl = block div hi_head (hd_info ! unat dev)
           in Some (dev, sec + 1, head, cyl))"

definition rw_hd :: "int \<Rightarrow> nat \<Rightarrow> hd_sys \<Rightarrow> (rw_outcome \<times> hd_sys) result" where
  "rw_hd rw b s =
     (case hd_address (hd_parts s) (bufs s b) of
        None \<Rightarrow> Inr (Unlocked, s)
      | Some (dev, sec, head, cyl) \<Rightarrow> rw_abs_hd rw dev sec head cyl b s)"

text \<open>\<open>hd_init\<close>: its registration of the interrupt gate is left out.\<close>

definition hd_init :: "hd_sys \<Rightarrow> hd_sys" where
  "hd_init s =
     (let s = fold (\<lambda>i. set_request i (\<lambda>r. r\<lparr>rq_hd := - 1, rq_next := None\<rparr>)) [0..<NR_REQUEST] s;
          s = fold (\<lambda>i s. s\<lparr>hd_parts := (hd_parts s)(i * 5 := \<lparr>start_sect = 0, nr_sects =
                hi_head (hd_info ! i) * hi_sect (hd_info ! i) * hi_cyl (hd_info ! i)\<rparr>)\<rparr>) [0..<NR_HD] s;
          (v, s) = inb 0x21 s;
          s = outb (v AND 0xfb) 0x21 s;
          (v, s) = inb 0xA1 s
      in outb (v AND 0xbf) 0xA1 s)"


text \<open>
  What \<open>sys_setup\<close> does with the first block of a drive once it has been read into the first
  buffer: the four entries of the partition table, 16 bytes each, from offset 0x1BE.
\<close>

definition setup_drive :: "nat \<Rightarrow> hd_sys \<Rightarrow> hd_sys result" where
  "setup_drive drive s =
     (let b = bufs s 0 in
        if b_uptodate b = 0 then Inl (Panic '''')
        else if b_data b ! 510 \<noteq> 0x55 \<or> b_data b ! 511 \<noteq> 0xAA then Inl (Panic '''')
        else Inr (fold (\<lambda>i s. s\<lparr>hd_parts := (hd_parts s)(i + 5 * drive :=
               \<lparr>start_sect = le32 (b_data b) (0x1BE + 16 * (i - 1) + 8),
                nr_sects = le32 (b_data b) (0x1BE + 16 * (i - 1) + 12)\<rparr>)\<rparr>) [1..<5] s))"

end
