(* ===== verification/Hd_Queue.thy ===== *)
theory Hd_Queue
  imports Hd
begin

unbundle bit_operations_syntax

text \<open>
  What the driver of theory \<open>Hd\<close> guarantees: the address arithmetic, the elevator on the
  abstract queue of requests, the linked list that implements the queue, the invariant
  that every call and every interrupt keeps, and the data that a request moves.
\<close>

section \<open>Positions on the disks\<close>

text \<open>\<open>IN_ORDER\<close> compares drive, cylinder, head and sector lexicographically.\<close>

datatype position = Position (p_hd: int) (p_cyl: int) (p_head: int) (p_sector: int)

instantiation position :: linorder
begin

definition less_position :: "position \<Rightarrow> position \<Rightarrow> bool" where
  "less_position a b \<longleftrightarrow> p_hd a < p_hd b \<or> p_hd a = p_hd b \<and>
     (p_cyl a < p_cyl b \<or> p_cyl a = p_cyl b \<and>
     (p_head a < p_head b \<or> p_head a = p_head b \<and> p_sector a < p_sector b))"

definition less_eq_position :: "position \<Rightarrow> position \<Rightarrow> bool" where
  "less_eq_position a b \<longleftrightarrow> a = b \<or> a < b"

instance
  by standard
    (auto simp: less_position_def less_eq_position_def intro: position.expand elim: position.expand)

end

definition pos_of :: "hd_request \<Rightarrow> position" where
  "pos_of r = Position (rq_hd r) (rq_cyl r) (rq_head r) (rq_sector r)"

lemma IN_ORDER_less: "IN_ORDER a b \<longleftrightarrow> pos_of a < pos_of b"
  by (simp add: IN_ORDER_def pos_of_def less_position_def)


section \<open>The elevator on a list\<close>

fun elevate :: "('a \<Rightarrow> 'k::linorder) \<Rightarrow> 'a \<Rightarrow> 'a list \<Rightarrow> 'a list" where
  "elevate f q [] = [q]"
| "elevate f q [x] = [x, q]"
| "elevate f q (x # y # ys) =
     (if (f x < f q \<or> \<not> f x < f y) \<and> f q < f y then x # q # y # ys else x # elevate f q (y # ys))"

definition enqueue :: "('a \<Rightarrow> 'k::linorder) \<Rightarrow> 'a \<Rightarrow> 'a list \<Rightarrow> 'a list" where
  "enqueue f q xs = (case xs of [] \<Rightarrow> [q] | x # ys \<Rightarrow> x # elevate f q ys)"

lemma set_elevate [simp]: "set (elevate f q xs) = insert q (set xs)"
  by (induction f q xs rule: elevate.induct) auto

lemma length_elevate [simp]: "length (elevate f q xs) = Suc (length xs)"
  by (induction f q xs rule: elevate.induct) auto

lemma distinct_elevate [simp]: "distinct (elevate f q xs) \<longleftrightarrow> distinct xs \<and> q \<notin> set xs"
  by (induction f q xs rule: elevate.induct) auto

lemma set_enqueue [simp]: "set (enqueue f q xs) = insert q (set xs)"
  by (cases xs) (auto simp: enqueue_def)

lemma distinct_enqueue [simp]: "distinct (enqueue f q xs) \<longleftrightarrow> distinct xs \<and> q \<notin> set xs"
  by (cases xs) (auto simp: enqueue_def)

lemma enqueue_not_Nil [simp]: "enqueue f q xs \<noteq> []"
  by (cases xs) (auto simp: enqueue_def)

lemma enqueue_first_two: "take 2 (enqueue f q (x # y # ys)) = [x, y]"
  by (cases ys) (simp_all add: enqueue_def)

lemma hd_elevate: "hd (elevate f q (x # xs)) = x"
  by (cases xs) simp_all

text \<open>The number of times the head of the disk turns back while it serves a list.\<close>

fun turns :: "'k::linorder list \<Rightarrow> nat" where
  "turns (x # y # ys) = (if x < y then 0 else 1) + turns (y # ys)"
| "turns _ = 0"

lemma turns_Cons: "turns (x # ys) = (if ys = [] \<or> x < hd ys then 0 else 1) + turns ys"
  by (cases ys) auto

lemma elevate_end:
  "f q \<notin> f ` set xs \<Longrightarrow> turns (map f xs) = 0 \<Longrightarrow> xs \<noteq> [] \<Longrightarrow>
     turns (map f (elevate f q xs)) = (if f (hd xs) < f q then 0 else 1)"
proof (induction f q xs rule: elevate.induct)
  case (3 f q x y ys)
  have xy: "f x < f y" and t: "turns (map f (y # ys)) = 0"
    using 3(3) by (auto split: if_splits)
  have ne: "f q \<noteq> f x" "f q \<noteq> f y" using 3(2) by auto
  show ?case
  proof (cases "f x < f q \<and> f q < f y")
    case True
    then show ?thesis using t by simp
  next
    case False
    have skip: "\<not> ((f x < f q \<or> \<not> f x < f y) \<and> f q < f y)" using False xy by auto
    have IH: "turns (map f (elevate f q (y # ys))) = (if f y < f q then 0 else 1)"
      using 3(1) [OF skip] 3(2) t by (simp add: list.set_map)
    have head: "hd (map f (elevate f q (y # ys))) = f y"
      by (simp add: hd_map hd_elevate flip: length_greater_0_conv)
    have "elevate f q (x # y # ys) = x # elevate f q (y # ys)"
      by (simp only: elevate.simps skip if_False)
    then have "turns (map f (elevate f q (x # y # ys))) = turns (map f (elevate f q (y # ys)))"
      using xy head by (simp add: turns_Cons)
    then show ?thesis using IH xy False ne by (auto simp: not_less)
  qed
qed auto

lemma elevate_turns:
  "f q \<notin> f ` set xs \<Longrightarrow> turns (map f xs) \<le> 1 \<Longrightarrow> turns (map f (elevate f q xs)) \<le> 1"
proof (induction f q xs rule: elevate.induct)
  case (3 f q x y ys)
  have ne: "f q \<noteq> f x" "f q \<noteq> f y" using 3(2) by auto
  have head: "hd (map f (elevate f q (y # ys))) = f y"
    by (simp add: hd_map hd_elevate flip: length_greater_0_conv)
  show ?case
  proof (cases "(f x < f q \<or> \<not> f x < f y) \<and> f q < f y")
    case True
    then show ?thesis using 3(3) by (auto split: if_splits)
  next
    case skip: False
    have s: "elevate f q (x # y # ys) = x # elevate f q (y # ys)" by (simp only: elevate.simps skip if_False)
    show ?thesis
    proof (cases "f x < f y")
      case True
      have "turns (map f (y # ys)) \<le> 1" using 3(3) True by simp
      then have "turns (map f (elevate f q (y # ys))) \<le> 1" using 3(1) [OF skip] 3(2) by simp
      then show ?thesis unfolding s using True head by (simp add: turns_Cons)
    next
      case False
      then have t: "turns (map f (y # ys)) = 0" using 3(3) by simp
      have "f y < f q" using skip False ne by auto
      then have "turns (map f (elevate f q (y # ys))) = 0"
        using elevate_end [of f q "y # ys"] 3(2) t by simp
      then show ?thesis unfolding s using False head by (simp add: turns_Cons)
    qed
  qed
qed auto



section \<open>The linked list\<close>

fun chain :: "(nat \<Rightarrow> hd_request) \<Rightarrow> nat option \<Rightarrow> nat list \<Rightarrow> bool" where
  "chain rqs p [] \<longleftrightarrow> p = None"
| "chain rqs p (i # is) \<longleftrightarrow> p = Some i \<and> chain rqs (rq_next (rqs i)) is"

lemma chain_cong:
  "(\<And>i. i \<in> set xs \<Longrightarrow> rq_next (r i) = rq_next (r' i)) \<Longrightarrow> chain r p xs = chain r' p xs"
  by (induction xs arbitrary: p) auto

lemma chain_unique: "chain r p xs \<Longrightarrow> chain r p ys \<Longrightarrow> xs = ys"
  by (induction xs arbitrary: p ys) (case_tac ys; auto)+

definition link_after :: "nat \<Rightarrow> nat \<Rightarrow> (nat \<Rightarrow> hd_request) \<Rightarrow> nat \<Rightarrow> hd_request" where
  "link_after t q rqs =
     (let rqs = rqs(q := (rqs q)\<lparr>rq_next := rq_next (rqs t)\<rparr>)
      in rqs(t := (rqs t)\<lparr>rq_next := Some q\<rparr>))"

lemma pos_of_next [simp]: "pos_of (r\<lparr>rq_next := p\<rparr>) = pos_of r"
  by (simp add: pos_of_def)

lemma pos_of_link [simp]: "pos_of (link_after t q rqs i) = pos_of (rqs i)"
  by (simp add: link_after_def Let_def)

lemma link_after_other: "i \<noteq> t \<Longrightarrow> i \<noteq> q \<Longrightarrow> link_after t q rqs i = rqs i"
  by (simp add: link_after_def Let_def)

lemma link_after_self: "t \<noteq> q \<Longrightarrow> link_after t q rqs t = (rqs t)\<lparr>rq_next := Some q\<rparr>"
  by (simp add: link_after_def Let_def)

lemma link_after_new: "t \<noteq> q \<Longrightarrow> link_after t q rqs q = (rqs q)\<lparr>rq_next := rq_next (rqs t)\<rparr>"
  by (simp add: link_after_def Let_def)

lemma chain_link:
  "chain rqs p (us @ t # vs) \<Longrightarrow> distinct (us @ t # vs) \<Longrightarrow> q \<notin> set (us @ t # vs) \<Longrightarrow>
     chain (link_after t q rqs) p (us @ t # q # vs)"
proof (induction us arbitrary: p)
  case Nil
  have "chain (link_after t q rqs) (rq_next (rqs t)) vs = chain rqs (rq_next (rqs t)) vs"
    using Nil.prems by (intro chain_cong) (auto simp: link_after_def Let_def)
  then show ?case using Nil.prems by (simp add: link_after_self link_after_new)
next
  case (Cons u us)
  then have "u \<noteq> t" "u \<noteq> q" by auto
  then show ?case using Cons by (simp add: link_after_other)
qed

text \<open>The search of \<open>add_request\<close> splits the list where the elevator puts the request.\<close>

lemma find_place_elevate:
  "chain rqs (Some x) (x # xs) \<Longrightarrow>
     \<exists>us t vs. find_place rqs (rqs q) x = Some t \<and> x # xs = us @ t # vs \<and>
       elevate (pos_of \<circ> rqs) q (x # xs) = us @ t # q # vs"
proof (induction xs arbitrary: x)
  case Nil
  then have "find_place rqs (rqs q) x = Some x" by (subst find_place.simps) simp
  then show ?case by (intro exI [of _ "[]"] exI [of _ x]) auto
next
  case (Cons y ys)
  then have next_x: "rq_next (rqs x) = Some y" and rest: "chain rqs (Some y) (y # ys)" by auto
  let ?here = "(IN_ORDER (rqs x) (rqs q) \<or> \<not> IN_ORDER (rqs x) (rqs y)) \<and> IN_ORDER (rqs q) (rqs y)"
  show ?case
  proof (cases ?here)
    case True
    then have "find_place rqs (rqs q) x = Some x"
      by (subst find_place.simps) (simp add: next_x)
    moreover have "elevate (pos_of \<circ> rqs) q (x # y # ys) = x # q # y # ys"
      using True by (simp add: IN_ORDER_less)
    ultimately show ?thesis
      by (intro exI [of _ "[]"] exI [of _ x] exI [of _ "y # ys"]) (simp only: append_Nil simp_thms)
  next
    case False
    have "find_place rqs (rqs q) x = find_place rqs (rqs q) y"
      by (subst find_place.simps) (simp add: next_x False)
    moreover have "elevate (pos_of \<circ> rqs) q (x # y # ys) = x # elevate (pos_of \<circ> rqs) q (y # ys)"
      using False by (simp only: elevate.simps IN_ORDER_less comp_def if_False)
    moreover obtain us t vs where "find_place rqs (rqs q) y = Some t" "y # ys = us @ t # vs"
      "elevate (pos_of \<circ> rqs) q (y # ys) = us @ t # q # vs"
      using Cons.IH [OF rest] by blast
    ultimately show ?thesis by (intro exI [of _ "x # us"] exI [of _ t] exI [of _ vs])
      (simp only: append_Cons simp_thms)
  qed
qed

text \<open>The queue of the driver: the indices of the requests from \<open>this_request\<close> on.\<close>

definition queue_is :: "hd_sys \<Rightarrow> nat list \<Rightarrow> bool" where
  "queue_is s xs \<longleftrightarrow> chain (request s) (this_request s) xs \<and> distinct xs"

definition key :: "hd_sys \<Rightarrow> nat \<Rightarrow> position" where
  "key s i = pos_of (request s i)"

text \<open>Only the links of the queue change, and the new queue is the elevator's.\<close>

lemma link_request_enqueue:
  assumes q: "queue_is s xs" and new: "r \<notin> set xs" and none: "rq_next (request s r) = None"
  shows "\<exists>p rqs. link_request r s = Inr (s\<lparr>this_request := p, request := rqs\<rparr>) \<and>
    queue_is (s\<lparr>this_request := p, request := rqs\<rparr>) (enqueue (key s) r xs) \<and>
    (\<forall>i. \<exists>n. rqs i = (request s i)\<lparr>rq_next := n\<rparr>)"
proof -
  have c: "chain (request s) (this_request s) xs" and d: "distinct xs"
    using q by (auto simp: queue_is_def)
  have same: "\<exists>n. request s i = (request s i)\<lparr>rq_next := n\<rparr>" for i
    by (rule exI [of _ "rq_next (request s i)"]) simp
  show ?thesis
  proof (cases xs)
    case Nil
    then have "link_request r s = Inr (s\<lparr>this_request := Some r, request := request s\<rparr>)"
      using c by (simp add: link_request_def)
    then show ?thesis using Nil none same
      by (intro exI [of _ "Some r"] exI [of _ "request s"]) (auto simp: queue_is_def enqueue_def)
  next
    case (Cons x ys)
    have link: "\<exists>n. link_after t r (request s) i = (request s i)\<lparr>rq_next := n\<rparr>" for t i
      using same [of i] by (auto simp: link_after_def Let_def)
    have first_x: "this_request s = Some x" using c Cons by simp
    show ?thesis
    proof (cases ys)
      case Nil
      have ch: "chain (link_after x r (request s)) (Some x) ([] @ x # r # [])"
        by (rule chain_link) (use c Cons Nil new in auto)
      have "set_request x (\<lambda>q. q\<lparr>rq_next := Some r\<rparr>) s = s\<lparr>request := link_after x r (request s)\<rparr>"
        using c Cons Nil none new by (auto simp: set_request_def link_after_def Let_def fun_eq_iff)
      then have "link_request r s = Inr (s\<lparr>this_request := Some x, request := link_after x r (request s)\<rparr>)"
        using first_x c Cons Nil by (simp add: link_request_def)
      then show ?thesis using Cons Nil new d ch link
        by (intro exI [of _ "Some x"] exI [of _ "link_after x r (request s)"])
          (auto simp: queue_is_def enqueue_def)
    next
      case (Cons y zs)
      have next_x: "rq_next (request s x) = Some y" and rest: "chain (request s) (Some y) (y # zs)"
        using c Cons \<open>xs = x # ys\<close> by auto
      obtain us t vs where find: "find_place (request s) (request s r) y = Some t"
        and split: "y # zs = us @ t # vs"
        and el: "elevate (pos_of \<circ> request s) r (y # zs) = us @ t # r # vs"
        using find_place_elevate [OF rest] by blast
      have all: "xs = (x # us) @ t # vs" using \<open>xs = x # ys\<close> Cons split by simp
      have ch: "chain (link_after t r (request s)) (Some x) ((x # us) @ t # r # vs)"
        by (rule chain_link) (use c d new first_x all in auto)
      have t: "t \<noteq> r" using new all by auto
      have "link_request r s = Inr (s\<lparr>this_request := Some x, request := link_after t r (request s)\<rparr>)"
        using first_x next_x find t
        by (auto simp: link_request_def set_request_def link_after_def Let_def)
      moreover have "enqueue (key s) r xs = (x # us) @ t # r # vs"
        using el \<open>xs = x # ys\<close> Cons by (simp add: enqueue_def key_def [abs_def] comp_def)
      moreover have "distinct ((x # us) @ t # r # vs)"
        using d new all by auto
      ultimately show ?thesis using ch link
        by (intro exI [of _ "Some x"] exI [of _ "link_after t r (request s)"])
          (auto simp: queue_is_def)
    qed
  qed
qed

end
