(* ===== verification/Hd_Safe.thy ===== *)
theory Hd_Safe
  imports Hd_Queue
begin

unbundle bit_operations_syntax

text \<open>
  The invariant of the disk driver: every call that starts a request and every interrupt
  keeps the queue, the table of requests, the locks of the buffers and the handler of the
  next interrupt in step. The theorems on the address arithmetic and on the data that a
  request moves follow.
\<close>

section \<open>What the port operations leave alone\<close>

definition core :: "hd_sys \<Rightarrow> (nat \<Rightarrow> hd_request) \<times> nat option \<times> bool \<times> (nat \<Rightarrow> buffer_head) \<times> (nat \<Rightarrow> hd_struct)" where
  "core s = (request s, this_request s, sorting s, bufs s, hd_parts s)"

named_theorems core_simps

lemma core_updates [core_simps]:
  "core (s\<lparr>inp_n := n\<rparr>) = core s" "core (s\<lparr>outs := o'\<rparr>) = core s" "core (s\<lparr>do_hd := h\<rparr>) = core s"
  "core (s\<lparr>printed := p\<rparr>) = core s" "core (s\<lparr>insw_n := n\<rparr>) = core s" "core (s\<lparr>sectors := d\<rparr>) = core s" "core (s\<lparr>woken := w\<rparr>) = core s"
  by (simp_all add: core_def)

lemma inb_simps [core_simps]:
  "core (snd (inb p s)) = core s" "do_hd (snd (inb p s)) = do_hd s"
  "insw (snd (inb p s)) = insw s" "insw_n (snd (inb p s)) = insw_n s"
  by (simp_all add: inb_def core_simps)

lemma outb_simps [core_simps]:
  "core (outb v p s) = core s" "do_hd (outb v p s) = do_hd s"
  "insw (outb v p s) = insw s" "insw_n (outb v p s) = insw_n s"
  by (simp_all add: outb_def core_simps)

lemma printk_simps [core_simps]:
  "core (printk m s) = core s" "do_hd (printk m s) = do_hd s"
  "insw (printk m s) = insw s" "insw_n (printk m s) = insw_n s"
  by (simp_all add: printk_def core_simps)

lemma controller_wait_core [core_simps]:
  "core (snd (controller_wait n s)) = core s \<and> do_hd (snd (controller_wait n s)) = do_hd s \<and>
     insw (snd (controller_wait n s)) = insw s \<and> insw_n (snd (controller_wait n s)) = insw_n s"
proof (induction n arbitrary: s)
  case 0
  then show ?case by (simp add: controller_wait.simps)
next
  case (Suc n)
  show ?case
    by (subst (1 2 3 4) controller_wait.simps) (simp add: Let_def split_beta core_simps Suc)
qed

lemma win_result_core [core_simps]:
  "core (snd (win_result s)) = core s" "do_hd (snd (win_result s)) = do_hd s"
  "insw (snd (win_result s)) = insw s" "insw_n (snd (win_result s)) = insw_n s"
  by (simp_all add: win_result_def Let_def split_beta core_simps)

lemma drive_poll_core [core_simps]:
  "core (drive_poll n s) = core s \<and> insw (drive_poll n s) = insw s \<and> insw_n (drive_poll n s) = insw_n s"
  by (induction n arbitrary: s) (simp_all add: drive_poll.simps Let_def split_beta core_simps)

lemma drive_busy_core [core_simps]:
  "core (snd (drive_busy s)) = core s"
  "insw (snd (drive_busy s)) = insw s" "insw_n (snd (drive_busy s)) = insw_n s"
  by (simp_all add: drive_busy_def Let_def split_beta core_simps drive_poll_core)

text \<open>Whatever the status, \<open>drive_busy\<close> says that the drive is not busy.\<close>

lemma drive_busy_never: "fst (drive_busy s) = False"
proof -
  have "b OR 0x10 \<noteq> (0 :: nat)" for b by (simp add: or_eq_0_iff)
  then show ?thesis by (simp add: drive_busy_def Let_def split_beta)
qed

lemma busy_wait_once: "busy_wait (Suc n) s = snd (drive_busy s)"
  by (simp add: busy_wait.simps Let_def split_beta drive_busy_never)

lemma reset_controller_core [core_simps]:
  "core (reset_controller s) = core s"
  "insw (reset_controller s) = insw s" "insw_n (reset_controller s) = insw_n s"
proof -
  have n: "busy_wait 10000 s' = snd (drive_busy s')" for s'
    using busy_wait_once [of 9999 s'] by simp
  show "core (reset_controller s) = core s"
    "insw (reset_controller s) = insw s" "insw_n (reset_controller s) = insw_n s"
    by (simp_all add: reset_controller_def Let_def split_beta core_simps drive_busy_never n)
qed

lemma hd_out_Inr:
  assumes "hd_out drive nsect sect head cyl cmd h s = Inr s'"
  shows "core s' = core s" "do_hd s' = Some h" "insw s' = insw s" "insw_n s' = insw_n s"
  using assms
  by (auto simp: hd_out_def Let_def split_beta core_simps controller_ready_def controller_wait_core
      split: if_splits)

lemma hd_out_Inl:
  assumes "hd_out drive nsect sect head cyl cmd h s = Inl e" and "drive \<le> 1" and "head \<le> 15"
  shows "e = Panic ''HD controller not ready''"
  using assms by (auto simp: hd_out_def Let_def split_beta split: if_splits)

lemma reset_hd_Inr:
  assumes "reset_hd i s = Inr s'"
  shows "core s' = core s" "do_hd s' = Some Do_request"
  using hd_out_Inr [OF assms [unfolded reset_hd_def]] by (auto simp: core_simps)

lemma wait_drq_core [core_simps]:
  "core (snd (wait_drq n s)) = core s \<and> do_hd (snd (wait_drq n s)) = do_hd s"
  by (induction n arbitrary: s) (simp_all add: wait_drq.simps Let_def split_beta core_simps)



section \<open>The invariant\<close>

definition rq_ok :: "hd_request \<Rightarrow> bool" where
  "rq_ok r \<longleftrightarrow> rq_hd r \<in> {0, 1} \<and> rq_nsector r \<in> {1, 2} \<and> rq_cmd r \<in> {WIN_READ, WIN_WRITE} \<and>
     0 \<le> rq_head r \<and> rq_head r \<le> 15 \<and> 0 \<le> rq_errors r \<and> rq_errors r \<le> MAX_ERRORS"

text \<open>
  The requests on the queue are those that are in use; each holds the lock of a buffer of
  its own.
\<close>

definition pre_ok :: "nat list \<Rightarrow> hd_sys \<Rightarrow> bool" where
  "pre_ok xs s \<longleftrightarrow> queue_is s xs \<and> \<not> sorting s \<and>
     set xs = {i. i < NR_REQUEST \<and> 0 \<le> rq_hd (request s i)} \<and>
     (\<forall>i \<in> set xs. rq_ok (request s i) \<and> b_lock (bufs s (rq_bh (request s i))) \<noteq> 0) \<and>
     inj_on (\<lambda>i. rq_bh (request s i)) (set xs)"

lemma pre_okD:
  assumes "pre_ok xs s"
  shows "queue_is s xs" "\<not> sorting s" "set xs = {i. i < NR_REQUEST \<and> 0 \<le> rq_hd (request s i)}"
    "i \<in> set xs \<Longrightarrow> rq_ok (request s i)" "i \<in> set xs \<Longrightarrow> b_lock (bufs s (rq_bh (request s i))) \<noteq> 0"
    "inj_on (\<lambda>i. rq_bh (request s i)) (set xs)"
  using assms unfolding pre_ok_def by blast+

lemma pre_okI:
  assumes "queue_is s xs" and "\<not> sorting s"
    and "set xs = {i. i < NR_REQUEST \<and> 0 \<le> rq_hd (request s i)}"
    and "\<And>i. i \<in> set xs \<Longrightarrow> rq_ok (request s i) \<and> b_lock (bufs s (rq_bh (request s i))) \<noteq> 0"
    and "inj_on (\<lambda>i. rq_bh (request s i)) (set xs)"
  shows "pre_ok xs s"
  using assms unfolding pre_ok_def by blast

text \<open>Somebody waits for the controller as long as there is a request.\<close>

definition handler_ok :: "nat list \<Rightarrow> hd_sys \<Rightarrow> bool" where
  "handler_ok xs s \<longleftrightarrow> (xs \<noteq> [] \<longrightarrow> do_hd s \<noteq> None) \<and>
     (do_hd s = Some Read_intr \<longrightarrow> xs \<noteq> [] \<and> rq_cmd (this_rq s) = WIN_READ) \<and>
     (do_hd s = Some Write_intr \<longrightarrow> xs \<noteq> [] \<and> rq_cmd (this_rq s) = WIN_WRITE)"

definition hd_ok :: "hd_sys \<Rightarrow> bool" where
  "hd_ok s \<longleftrightarrow> (\<exists>xs. pre_ok xs s \<and> handler_ok xs s)"

lemma pre_ok_core: "core s' = core s \<Longrightarrow> pre_ok xs s' = pre_ok xs s"
  by (simp add: core_def pre_ok_def queue_is_def)

lemma this_rq_core: "core s' = core s \<Longrightarrow> this_rq s' = this_rq s"
  by (simp add: core_def this_rq_def)

lemma this_request_core: "core s' = core s \<Longrightarrow> this_request s' = this_request s"
  by (simp add: core_def)

lemma pre_ok_this:
  "pre_ok (x # xs) s \<Longrightarrow> this_request s = Some x \<and> this_rq s = request s x \<and> rq_ok (request s x)"
  by (simp add: pre_ok_def queue_is_def this_rq_def)

lemma pre_ok_empty: "pre_ok xs s \<Longrightarrow> this_request s = None \<longleftrightarrow> xs = []"
  by (cases xs) (auto simp: pre_ok_def queue_is_def)

text \<open>Writing to the memory of a buffer, to its flags or to a field of the request in progress.\<close>

lemma pre_ok_set_buf:
  "pre_ok xs s \<Longrightarrow> (\<And>h. b_lock (f h) = b_lock h) \<Longrightarrow> pre_ok xs (set_buf b f s)"
  by (auto simp: pre_ok_def queue_is_def set_buf_def)

lemma pre_ok_set_this:
  assumes "pre_ok (x # xs) s" and "rq_ok (f (request s x))"
    and "\<And>r. rq_next (f r) = rq_next r" "\<And>r. rq_hd (f r) = rq_hd r" "\<And>r. rq_bh (f r) = rq_bh r"
  shows "pre_ok (x # xs) (set_this f s)"
proof -
  have this_x: "this_request s = Some x" using pre_ok_this [OF assms(1)] by simp
  let ?r = "(request s)(x := f (request s x))"
  have "chain ?r (this_request s) (x # xs) = chain (request s) (this_request s) (x # xs)"
    by (rule chain_cong) (simp add: assms(3))
  moreover have "(\<lambda>i. rq_bh (?r i)) = (\<lambda>i. rq_bh (request s i))"
    and "\<And>i. rq_hd (?r i) = rq_hd (request s i)"
    by (auto simp: assms(4,5) fun_eq_iff)
  moreover have s': "set_this f s = s\<lparr>request := ?r\<rparr>"
    using this_x by (simp add: set_this_def set_request_def)
  moreover have "rq_ok (?r i) \<and> b_lock (bufs s (rq_bh (?r i))) \<noteq> 0" if "i \<in> set (x # xs)" for i
    using assms(2,5) pre_okD(4,5) [OF assms(1) that] by (cases "i = x") simp_all
  ultimately have c: "chain ?r (this_request s) (x # xs)"
    and b: "(\<lambda>i. rq_bh (?r i)) = (\<lambda>i. rq_bh (request s i))"
    and h: "\<And>i. rq_hd (?r i) = rq_hd (request s i)"
    and s': "set_this f s = s\<lparr>request := ?r\<rparr>"
    and o: "\<And>i. i \<in> set (x # xs) \<Longrightarrow> rq_ok (?r i) \<and> b_lock (bufs s (rq_bh (?r i))) \<noteq> 0"
    using pre_okD(1) [OF assms(1)] by (blast | simp only: queue_is_def)+
  show ?thesis
  proof (rule pre_okI)
    show "queue_is (set_this f s) (x # xs)"
      using c pre_okD(1) [OF assms(1)] unfolding s' queue_is_def by (simp del: chain.simps fun_upd_apply)
    show "\<not> sorting (set_this f s)" using pre_okD(2) [OF assms(1)] unfolding s' by simp
    show "set (x # xs) = {i. i < NR_REQUEST \<and> 0 \<le> rq_hd (request (set_this f s) i)}"
      using pre_okD(3) [OF assms(1)] h unfolding s' by (simp del: list.set fun_upd_apply)
    show "inj_on (\<lambda>i. rq_bh (request (set_this f s) i)) (set (x # xs))"
      using pre_okD(6) [OF assms(1)] b unfolding s' by (simp del: list.set fun_upd_apply)
    show "rq_ok (request (set_this f s) i) \<and> b_lock (bufs (set_this f s) (rq_bh (request (set_this f s) i))) \<noteq> 0"
      if "i \<in> set (x # xs)" for i
      using o [OF that] unfolding s' by (simp del: fun_upd_apply)
  qed
qed

text \<open>Finishing the request in progress: its buffer is unlocked, the others are not touched.\<close>

lemma pre_ok_finish:
  assumes ok: "pre_ok (x # xs) s" and b: "b = rq_bh (request s x)"
    and buf: "\<And>c. c \<noteq> b \<Longrightarrow> bufs s' c = bufs s c"
    and rq: "\<And>i. i \<noteq> x \<Longrightarrow> request s' i = request s i"
    and next_x: "rq_next (request s' x) = rq_next (request s x)"
    and s': "this_request s' = this_request s" "sorting s' = sorting s"
  shows "pre_ok xs (drop_this s')"
proof -
  have this_x: "this_request s = Some x" using pre_ok_this [OF ok] by simp
  have x: "x \<notin> set xs" "distinct xs" and ch: "chain (request s) (rq_next (request s x)) xs"
    using pre_okD(1) [OF ok] by (auto simp: queue_is_def)
  let ?r = "request (drop_this s')"
  have d: "bufs (drop_this s') = bufs s'" "sorting (drop_this s') = sorting s"
    "this_request (drop_this s') = rq_next (request s x)"
    and r: "rq_hd (?r x) = - 1" "\<And>i. i \<noteq> x \<Longrightarrow> ?r i = request s i"
    using s' this_x rq next_x
    by (simp_all add: drop_this_def set_this_def set_request_def this_rq_def Let_def)
  have "chain ?r (rq_next (request s x)) xs = chain (request s) (rq_next (request s x)) xs"
    by (rule chain_cong) (metis r(2) x(1))
  then have q: "queue_is (drop_this s') xs"
    using ch x d(3) by (simp add: queue_is_def)
  have set_xs: "insert x (set xs) = {i. i < NR_REQUEST \<and> 0 \<le> rq_hd (request s i)}"
    using pre_okD(3) [OF ok] by simp
  have inj: "inj_on (\<lambda>i. rq_bh (request s i)) (insert x (set xs))"
    using pre_okD(6) [OF ok] unfolding list.set .
  have other: "rq_bh (request s i) \<noteq> b" if "i \<in> set xs" for i
    using inj x that unfolding b by (auto simp: inj_on_def)
  show ?thesis
  proof (rule pre_okI)
    show "set xs = {i. i < NR_REQUEST \<and> 0 \<le> rq_hd (?r i)}"
    proof (rule set_eqI)
      fix i
      have "i \<in> insert x (set xs) \<longleftrightarrow> i < NR_REQUEST \<and> 0 \<le> rq_hd (request s i)"
        by (simp only: set_xs mem_Collect_eq)
      then show "i \<in> set xs \<longleftrightarrow> i \<in> {i. i < NR_REQUEST \<and> 0 \<le> rq_hd (?r i)}"
        using x(1) by (cases "i = x") (simp_all add: r)
    qed
    have "inj_on (\<lambda>i. rq_bh (?r i)) (set xs) = inj_on (\<lambda>i. rq_bh (request s i)) (set xs)"
      by (rule inj_on_cong) (metis r(2) x(1))
    then show "inj_on (\<lambda>i. rq_bh (?r i)) (set xs)"
      using inj_on_subset [OF inj subset_insertI] by simp
  next
    fix i assume i: "i \<in> set xs"
    then have ri: "?r i = request s i" using x(1) r(2) by metis
    show "rq_ok (?r i) \<and> b_lock (bufs (drop_this s') (rq_bh (?r i))) \<noteq> 0"
      using pre_okD(4,5) [OF ok, of i] i unfolding ri d(1) by (simp add: buf [OF other [OF i]])
  qed (use q d pre_okD(2) [OF ok] in simp_all)
qed


section \<open>Every step keeps the invariant\<close>

lemma do_request_core:
  assumes "\<not> sorting s" "this_request s = Some x" and run: "do_request s = Inr s'"
  shows "core s' = core s \<and>
    (rq_cmd (this_rq s) = WIN_READ \<and> do_hd s' = Some Read_intr \<or>
     rq_cmd (this_rq s) = WIN_WRITE \<and> do_hd s' \<in> {Some Write_intr, Some Do_request})"
proof -
  let ?r = "this_rq s"
  let ?send = "hd_out (word_of_int (rq_hd ?r)) (word_of_int (rq_nsector ?r))
    (word_of_int (rq_sector ?r)) (word_of_int (rq_head ?r)) (word_of_int (rq_cyl ?r))
    (word_of_int (rq_cmd ?r))"
  let ?k = "\<lambda>s. let (ok, s) = wait_drq 3000 s in
    if \<not> ok then reset_hd (rq_hd (this_rq s)) s
    else Inr (port_write (rq_bh (this_rq s)) (rq_half (this_rq s)) s)"
  have eq: "do_request s = (if rq_cmd ?r = WIN_WRITE then andthen (?send Write_intr s) ?k
      else if rq_cmd ?r = WIN_READ then ?send Read_intr s else Inl (Panic ''unknown hd-command''))"
    using assms(1,2) by (simp only: do_request_def Let_def if_False option.simps)
  show ?thesis
  proof (cases "rq_cmd ?r = WIN_WRITE")
    case True
    then have "andthen (?send Write_intr s) ?k = Inr s'" using run unfolding eq if_P [OF True] by -
    then obtain s1 where out: "?send Write_intr s = Inr s1" and k: "?k s1 = Inr s'"
      by (rule andthen_InrE)
    obtain ok s2 where w: "wait_drq 3000 s1 = (ok, s2)" by fastforce
    have s2: "core s2 = core s1 \<and> do_hd s2 = do_hd s1"
      using wait_drq_core [of 3000 s1] w by simp
    have "core s' = core s2 \<and> do_hd s' \<in> {do_hd s2, Some Do_request}"
    proof (cases ok)
      case True
      then have "s' = port_write (rq_bh (this_rq s2)) (rq_half (this_rq s2)) s2"
        using k w by simp
      then show ?thesis by (simp add: port_write_def core_simps)
    next
      case False
      then have "reset_hd (rq_hd (this_rq s2)) s2 = Inr s'" using k w by simp
      from reset_hd_Inr [OF this] show ?thesis by simp
    qed
    then show ?thesis using s2 hd_out_Inr(1,2) [OF out] True by auto
  next
    case False
    then have "rq_cmd ?r = WIN_READ \<and> ?send Read_intr s = Inr s'"
      using run eq by (auto split: if_splits)
    then show ?thesis using hd_out_Inr(1,2) by blast
  qed
qed

lemma do_request_ok:
  assumes ok: "pre_ok xs s" and run: "do_request s = Inr s'"
  shows "pre_ok xs s' \<and> handler_ok xs s'"
proof (cases xs)
  case Nil
  then have "s' = s\<lparr>do_hd := None\<rparr>"
    using run pre_okD(2) [OF ok] pre_ok_empty [OF ok] by (simp add: do_request_def)
  then show ?thesis using ok Nil by (simp add: handler_ok_def pre_ok_def queue_is_def)
next
  case (Cons x ys)
  have "this_request s = Some x" using pre_ok_this ok Cons by blast
  note r = do_request_core [OF pre_okD(2) [OF ok] this run]
  then have "pre_ok xs s'" using ok pre_ok_core [of s' s xs] by blast
  moreover have "this_rq s' = this_rq s" using r this_rq_core by blast
  ultimately show ?thesis using r Cons by (auto simp: handler_ok_def)
qed

text \<open>\<open>s\<close> is \<open>s0\<close> with changes to the request in progress and to its buffer only.\<close>

definition this_only :: "nat \<Rightarrow> hd_sys \<Rightarrow> hd_sys \<Rightarrow> bool" where
  "this_only x s0 s \<longleftrightarrow> (\<forall>c. c \<noteq> rq_bh (request s0 x) \<longrightarrow> bufs s c = bufs s0 c) \<and>
     (\<forall>i. i \<noteq> x \<longrightarrow> request s i = request s0 i) \<and>
     rq_next (request s x) = rq_next (request s0 x) \<and> rq_bh (request s x) = rq_bh (request s0 x) \<and>
     this_request s = this_request s0 \<and> sorting s = sorting s0"

lemma end_request_do:
  assumes ok: "pre_ok (x # xs) s0" and o: "this_only x s0 s"
  shows "\<exists>s1. end_request s = do_request s1 \<and> pre_ok xs s1"
proof -
  let ?b = "rq_bh (this_rq s)"
  let ?s = "unlock_buffer ?b (wake_up_hd Request_wait (set_buf ?b (\<lambda>h. h\<lparr>b_uptodate := 1, b_dirt := 0\<rparr>) s))"
  have b: "?b = rq_bh (request s0 x)"
    using o pre_ok_this [OF ok] by (simp add: this_only_def this_rq_def)
  have "end_request s = do_request (drop_this ?s)" by (simp add: end_request_def Let_def)
  moreover have "pre_ok xs (drop_this ?s)"
    using o unfolding b
    by (intro pre_ok_finish [OF ok refl])
      (simp_all add: this_only_def unlock_buffer_def wake_up_hd_def set_buf_def printk_def Let_def)
  ultimately show ?thesis by blast
qed

lemma end_request_ok:
  assumes "pre_ok (x # xs) s0" and "this_only x s0 s" and "end_request s = Inr s'"
  shows "pre_ok xs s' \<and> handler_ok xs s'"
  using end_request_do [OF assms(1,2)] assms(3) do_request_ok by auto

lemma reset_hd_ok:
  assumes "pre_ok xs s" and "reset_hd i s = Inr s'"
  shows "pre_ok xs s' \<and> handler_ok xs s'"
  using reset_hd_Inr [OF assms(2)] assms(1) pre_ok_core [of s' s xs] by (auto simp: handler_ok_def)

lemma bad_rw_intr_ok:
  assumes ok: "pre_ok (x # xs) s" and run: "bad_rw_intr s = Inr s'"
  shows "\<exists>ys. pre_ok ys s' \<and> handler_ok ys s'"
proof -
  note t = pre_ok_this [OF ok]
  let ?e = "rq_errors (request s x)"
  let ?s1 = "set_this (\<lambda>r. r\<lparr>rq_errors := s32 (?e + 1)\<rparr>) s"
  have e: "0 \<le> ?e" "?e \<le> 5" using t by (auto simp: rq_ok_def)
  show ?thesis
  proof (cases "?e \<ge> MAX_ERRORS")
    case False
    then have "rq_ok ((request s x)\<lparr>rq_errors := s32 (?e + 1)\<rparr>)"
      using t e by (simp add: rq_ok_def s32_id)
    then have "pre_ok (x # xs) ?s1" using ok by (intro pre_ok_set_this) auto
    moreover have "reset_hd (rq_hd (request s x)) ?s1 = Inr s'"
      using run False t by (simp add: bad_rw_intr_def Let_def)
    ultimately show ?thesis using reset_hd_ok by blast
  next
    case True
    let ?b = "rq_bh (request s x)"
    let ?r = "(request s)(x := (request s x)\<lparr>rq_errors := s32 (?e + 1)\<rparr>)"
    let ?s2 = "wake_up_hd Request_wait (unlock_buffer ?b (set_buf ?b (\<lambda>h. h\<lparr>b_uptodate := 0\<rparr>) ?s1))"
    have s1: "?s1 = s\<lparr>request := ?r\<rparr>" using t by (simp add: set_this_def set_request_def)
    have "pre_ok xs (drop_this ?s2)"
      by (rule pre_ok_finish [OF ok refl])
        (simp_all add: s1 unlock_buffer_def wake_up_hd_def set_buf_def printk_def Let_def)
    moreover have "reset_hd (rq_hd (request s x)) (drop_this ?s2) = Inr s'"
      using run True t by (simp add: bad_rw_intr_def Let_def s1 this_rq_def)
    ultimately show ?thesis using reset_hd_ok by blast
  qed
qed


lemma core_this_only: "core s = core s0 \<Longrightarrow> this_only x s0 s"
  by (simp add: core_def this_only_def)

lemma set_this_this_only:
  assumes "this_only x s0 s" and "this_request s0 = Some x"
    and "\<And>r. rq_next (f r) = rq_next r" "\<And>r. rq_bh (f r) = rq_bh r"
  shows "this_only x s0 (set_this f s)"
  using assms by (simp add: this_only_def set_this_def set_request_def)

lemma port_read_this_only:
  assumes "this_only x s0 s" and "b = rq_bh (request s0 x)"
  shows "this_only x s0 (port_read b off s)"
  using assms by (simp add: this_only_def port_read_def set_buf_def)

lemma pre_ok_port_read: "pre_ok xs s \<Longrightarrow> pre_ok xs (port_read b off s)"
proof -
  assume "pre_ok xs s"
  then have "pre_ok xs (set_buf b (\<lambda>h. h\<lparr>b_data := take off (b_data h) @ insw s (insw_n s) @
      drop (off + 512) (b_data h)\<rparr>) s)" by (rule pre_ok_set_buf) simp
  then show ?thesis
    unfolding port_read_def by (rule pre_ok_core [OF core_updates(5), THEN iffD2])
qed

lemma this_rq_set_this [simp]: "this_rq (set_this f s) = f (this_rq s)"
  by (simp add: this_rq_def set_this_def set_request_def)

lemma do_hd_set_this [simp]: "do_hd (set_this f s) = do_hd s" "do_hd (port_read b off s) = do_hd s"
  "this_rq (port_read b off s) = this_rq s" "do_hd (port_write b off s) = do_hd s"
  "this_rq (port_write b off s) = this_rq s"
  by (simp_all add: set_this_def set_request_def port_read_def set_buf_def this_rq_def port_write_def)

lemma s32_small [simp]: "s32 0 = 0" "s32 1 = 1"
  by (simp_all add: s32_id)

lemma rq_nsector_cases:
  assumes "rq_ok r"
  shows "(rq_nsector r = 2 \<and> s32 (rq_nsector r - 1) = 1) \<or> (rq_nsector r = 1 \<and> s32 (rq_nsector r - 1) = 0)"
  using assms by (auto simp: rq_ok_def s32_id)

lemma read_intr_ok:
  assumes ok: "pre_ok (x # xs) s" and h: "handler_ok (x # xs) s" "do_hd s = Some Read_intr"
    and run: "read_intr s = Inr s'"
  shows "\<exists>ys. pre_ok ys s' \<and> handler_ok ys s'"
proof -
  obtain bad s1 where w: "win_result s = (bad, s1)" by fastforce
  have c: "core s1 = core s" "do_hd s1 = do_hd s" using win_result_core [of s] w by simp_all
  have ok1: "pre_ok (x # xs) s1" using ok pre_ok_core [OF c(1)] by blast
  note t = pre_ok_this [OF ok1]
  show ?thesis
  proof (cases bad)
    case True
    then have "bad_rw_intr s1 = Inr s'" using run w by (simp add: read_intr_def)
    then show ?thesis by (rule bad_rw_intr_ok [OF ok1])
  next
    case False
    let ?b = "rq_bh (this_rq s1)" and ?off = "rq_half (this_rq s1)"
    let ?s2 = "set_this (\<lambda>r. r\<lparr>rq_errors := 0\<rparr>) (port_read ?b ?off s1)"
    let ?s3 = "set_this (\<lambda>r. r\<lparr>rq_nsector := s32 (rq_nsector r - 1)\<rparr>) ?s2"
    have go: "(if s32 (rq_nsector (this_rq s1) - 1) \<noteq> 0 then Inr ?s3 else end_request ?s3) = Inr s'"
      using run w False by (simp add: read_intr_def Let_def)
    have ok2: "pre_ok (x # xs) ?s2"
      using pre_ok_port_read [OF ok1, of ?b ?off] pre_ok_this [OF pre_ok_port_read [OF ok1, of ?b ?off]]
      by (intro pre_ok_set_this) (auto simp: rq_ok_def)
    have r2: "request ?s2 x = (request s1 x)\<lparr>rq_errors := 0\<rparr>"
      using t by (simp add: set_this_def set_request_def port_read_def set_buf_def)
    have "rq_ok (request s1 x)" using t by simp
    from rq_nsector_cases [OF this] show ?thesis
    proof
      assume n: "rq_nsector (request s1 x) = 2 \<and> s32 (rq_nsector (request s1 x) - 1) = 1"
      then have "pre_ok (x # xs) ?s3"
        using pre_ok_this [OF ok2] by (intro pre_ok_set_this [OF ok2]) (auto simp: rq_ok_def r2)
      moreover have "s' = ?s3"
      proof -
        have v: "s32 (rq_nsector (this_rq s1) - 1) = 1" using n t by simp
        show ?thesis using go unfolding v by simp
      qed
      moreover have "handler_ok (x # xs) ?s3"
        using h c this_rq_core [OF c(1)] by (simp add: handler_ok_def)
      ultimately show ?thesis by blast
    next
      assume n: "rq_nsector (request s1 x) = 1 \<and> s32 (rq_nsector (request s1 x) - 1) = 0"
      have "this_only x s1 ?s3"
        using t by (intro set_this_this_only port_read_this_only core_this_only refl) auto
      then have "pre_ok xs s' \<and> handler_ok xs s'"
        using go n t by (intro end_request_ok [OF ok1]) auto
      then show ?thesis by blast
    qed
  qed
qed

lemma write_intr_ok:
  assumes ok: "pre_ok (x # xs) s" and h: "handler_ok (x # xs) s" "do_hd s = Some Write_intr"
    and run: "write_intr s = Inr s'"
  shows "\<exists>ys. pre_ok ys s' \<and> handler_ok ys s'"
proof -
  obtain bad s1 where w: "win_result s = (bad, s1)" by fastforce
  have c: "core s1 = core s" "do_hd s1 = do_hd s" using win_result_core [of s] w by simp_all
  have ok1: "pre_ok (x # xs) s1" using ok pre_ok_core [OF c(1)] by blast
  note t = pre_ok_this [OF ok1]
  show ?thesis
  proof (cases bad)
    case True
    then have "bad_rw_intr s1 = Inr s'" using run w by (simp add: write_intr_def)
    then show ?thesis by (rule bad_rw_intr_ok [OF ok1])
  next
    case False
    let ?s3 = "set_this (\<lambda>r. r\<lparr>rq_nsector := s32 (rq_nsector r - 1)\<rparr>) s1"
    have go: "(if s32 (rq_nsector (this_rq s1) - 1) \<noteq> 0 then Inr (port_write (rq_bh (this_rq s1)) 512 ?s3)
        else end_request ?s3) = Inr s'"
      using run w False by (simp add: write_intr_def Let_def split: if_split_asm)
    have "rq_ok (request s1 x)" using t by simp
    from rq_nsector_cases [OF this] show ?thesis
    proof
      assume n: "rq_nsector (request s1 x) = 2 \<and> s32 (rq_nsector (request s1 x) - 1) = 1"
      then have "pre_ok (x # xs) ?s3"
        using t by (intro pre_ok_set_this [OF ok1]) (auto simp: rq_ok_def)
      then have "pre_ok (x # xs) (port_write (rq_bh (this_rq s1)) 512 ?s3)"
        unfolding port_write_def by (rule pre_ok_core [OF core_updates(6), THEN iffD2])
      moreover have "handler_ok (x # xs) (port_write (rq_bh (this_rq s1)) 512 ?s3)"
        using h c this_rq_core [OF c(1)] by (simp add: handler_ok_def)
      ultimately show ?thesis using go n t by auto
    next
      assume n: "rq_nsector (request s1 x) = 1 \<and> s32 (rq_nsector (request s1 x) - 1) = 0"
      have "this_only x s1 ?s3"
        using t by (intro set_this_this_only core_this_only refl) auto
      then have "pre_ok xs s' \<and> handler_ok xs s'"
        using go n t by (intro end_request_ok [OF ok1]) auto
      then show ?thesis by blast
    qed
  qed
qed

lemma hd_interrupt_ok:
  assumes "hd_ok s" and run: "hd_interrupt s = Inr s'"
  shows "hd_ok s'"
proof -
  obtain xs where ok: "pre_ok xs s" and h: "handler_ok xs s" using assms by (auto simp: hd_ok_def)
  obtain k where k: "do_hd s = Some k" using run by (cases "do_hd s") (auto simp: hd_interrupt_def)
  have "\<exists>ys. pre_ok ys s' \<and> handler_ok ys s'"
  proof (cases k)
    case Read_intr
    then obtain x ys where "xs = x # ys" using h k by (cases xs) (auto simp: handler_ok_def)
    then show ?thesis using read_intr_ok ok h k Read_intr run by (auto simp: hd_interrupt_def)
  next
    case Write_intr
    then obtain x ys where "xs = x # ys" using h k by (cases xs) (auto simp: handler_ok_def)
    then show ?thesis using write_intr_ok ok h k Write_intr run by (auto simp: hd_interrupt_def)
  next
    case Do_request
    then show ?thesis using do_request_ok [OF ok] k run by (auto simp: hd_interrupt_def)
  qed
  then show ?thesis by (simp add: hd_ok_def)
qed


section \<open>Starting a request\<close>

text \<open>The arguments of \<open>rw_abs_hd\<close> that \<open>rw_hd\<close> computes.\<close>

lemma hd_info_nth: "i < 2 \<Longrightarrow> hi_sect (hd_info ! i) = 17 \<and> hi_head (hd_info ! i) = 5"
  by (simp add: hd_info_def)

lemma hd_address_bounds:
  assumes "hd_address parts b = Some (dev, sec, head, cyl)"
  shows "unat dev < 2" "unat head < 5" "1 \<le> unat sec" "unat sec \<le> 17"
proof -
  let ?d = "MINOR (ucast (b_dev b)) :: u32"
  have d10: "\<not> 10 \<le> ?d" and dev: "dev = ?d div 5"
    using assms by (auto simp: hd_address_def Let_def split: if_splits)
  show d: "unat dev < 2"
    using d10 unfolding dev by (simp add: unat_div word_le_nat_alt)
  note info = hd_info_nth [OF d]
  define k :: u32 where "k = push_bit 1 (ucast (b_blocknr b)) + start_sect (parts (unat ?d))"
  have hs: "head = (k div 17) mod 5" "sec = k mod 17 + 1"
    using assms info unfolding dev k_def by (auto simp: hd_address_def Let_def split: if_splits)
  show "unat head < 5" unfolding hs by (simp add: unat_mod)
  have "unat (k mod 17) < 17" by (simp add: unat_mod)
  moreover have "unat (k mod 17 + 1) = unat (k mod 17) + 1"
    using calculation unat_add_no_overflow [of "k mod 17" 1] by simp
  ultimately show "1 \<le> unat sec" "unat sec \<le> 17" unfolding hs by simp_all
qed

lemma sint_small: "unat (x :: u32) < 2 ^ 31 \<Longrightarrow> sint x = int (unat x)"
proof -
  assume "unat x < 2 ^ 31"
  then have "int (unat x) < int (2 ^ 31)" by (rule of_nat_less_iff [THEN iffD2])
  then have "uint x < 2 ^ 31" by simp
  moreover have "0 \<le> uint x" by simp
  ultimately have "signed_take_bit 31 (uint x) = uint x"
    by (intro signed_take_bit_int_eq_self) linarith+
  then show ?thesis by (simp add: sint_uint)
qed

lemma free_request_Some: "free_request s = Some i \<Longrightarrow> i < NR_REQUEST \<and> rq_hd (request s i) < 0"
  by (auto simp: free_request_def find_Some_iff)

lemma free_request_None: "free_request s = None \<longleftrightarrow> (\<forall>i < NR_REQUEST. 0 \<le> rq_hd (request s i))"
  unfolding free_request_def find_None_iff by (metis atLeastLessThan_iff leD leI le0 set_upt)

text \<open>A request goes on the queue where the elevator puts it, and starts the controller if need be.\<close>

lemma pre_ok_enqueue:
  assumes ok: "pre_ok xs s" and i: "i < NR_REQUEST" "i \<notin> set xs"
    and r: "rq_ok r" "rq_next r = None" "b_lock (bufs s (rq_bh r)) \<noteq> 0"
    and own: "\<forall>j \<in> set xs. rq_bh (request s j) \<noteq> rq_bh r"
  shows "\<exists>p rqs ys. link_request i ((set_request i (\<lambda>_. r) s)\<lparr>sorting := True\<rparr>) =
      Inr ((set_request i (\<lambda>_. r) s)\<lparr>sorting := True, this_request := p, request := rqs\<rparr>) \<and>
    pre_ok ys ((set_request i (\<lambda>_. r) s)\<lparr>this_request := p, request := rqs, sorting := False\<rparr>) \<and>
    set ys = insert i (set xs) \<and> (\<forall>k. \<exists>n. rqs k = ((request s)(i := r)) k\<lparr>rq_next := n\<rparr>) \<and>
    (xs \<noteq> [] \<longrightarrow> p = this_request s)"
proof -
  let ?s = "(set_request i (\<lambda>_. r) s)\<lparr>sorting := True\<rparr>"
  let ?r = "(request s)(i := r)"
  have rq: "request ?s = ?r" "this_request ?s = this_request s" by (simp_all add: set_request_def)
  have q: "queue_is ?s xs"
  proof -
    have "chain ?r (this_request s) xs = chain (request s) (this_request s) xs"
      by (rule chain_cong) (use i in auto)
    then show ?thesis using pre_okD(1) [OF ok] by (simp add: queue_is_def rq)
  qed
  obtain p rqs where link: "link_request i ?s = Inr (?s\<lparr>this_request := p, request := rqs\<rparr>)"
    and q': "queue_is (?s\<lparr>this_request := p, request := rqs\<rparr>) (enqueue (key ?s) i xs)"
    and same: "\<And>k. \<exists>n. rqs k = (request ?s k)\<lparr>rq_next := n\<rparr>"
    using link_request_enqueue [OF q i(2)] r(2) by (auto simp: rq)
  let ?ys = "enqueue (key ?s) i xs"
  let ?t = "(set_request i (\<lambda>_. r) s)\<lparr>this_request := p, request := rqs, sorting := False\<rparr>"
  have f: "rq_hd (rqs k) = rq_hd (?r k)" "rq_bh (rqs k) = rq_bh (?r k)" "rq_ok (rqs k) = rq_ok (?r k)" for k
    using same [of k] unfolding rq by (auto simp: rq_ok_def)
  have b: "bufs ?t = bufs s" "request ?t = rqs" by (simp_all add: set_request_def)
  have "pre_ok ?ys ?t"
  proof (rule pre_okI)
    show "queue_is ?t ?ys" using q' by (simp add: queue_is_def)
    show "\<not> sorting ?t" by simp
    show "set ?ys = {k. k < NR_REQUEST \<and> 0 \<le> rq_hd (request ?t k)}"
    proof (rule set_eqI)
      fix k
      have "k \<in> set xs \<longleftrightarrow> k < NR_REQUEST \<and> 0 \<le> rq_hd (request s k)"
        by (simp only: pre_okD(3) [OF ok] mem_Collect_eq)
      moreover have "0 \<le> rq_hd r" using r(1) by (auto simp: rq_ok_def)
      ultimately show "k \<in> set ?ys \<longleftrightarrow> k \<in> {k. k < NR_REQUEST \<and> 0 \<le> rq_hd (request ?t k)}"
        unfolding b mem_Collect_eq f using i by (cases "k = i") simp_all
    qed
    show "rq_ok (request ?t k) \<and> b_lock (bufs ?t (rq_bh (request ?t k))) \<noteq> 0" if "k \<in> set ?ys" for k
      using that pre_okD(4,5) [OF ok, of k] r unfolding b f by (cases "k = i") auto
    have "inj_on (\<lambda>k. rq_bh (?r k)) (insert i (set xs))"
    proof -
      have "inj_on (\<lambda>k. rq_bh (?r k)) (set xs) = inj_on (\<lambda>k. rq_bh (request s k)) (set xs)"
        by (rule inj_on_cong) (use i in auto)
      then show ?thesis using pre_okD(6) [OF ok] own i(2) by (auto simp: image_iff)
    qed
    then show "inj_on (\<lambda>k. rq_bh (request ?t k)) (set ?ys)" unfolding b f by simp
  qed
  moreover have "p = this_request s" if ne: "xs \<noteq> []"
  proof -
    obtain x ys where "xs = x # ys" using ne by (cases xs) auto
    then show ?thesis using q' q by (simp add: queue_is_def enqueue_def rq)
  qed
  ultimately show ?thesis
    using link same unfolding rq
    by (intro exI [of _ p] exI [of _ rqs] exI [of _ ?ys]) auto
qed


lemma get_request_ok:
  assumes h: "hd_ok s" and lock: "b_lock (bufs s b) \<noteq> 0"
    and own: "\<forall>i < NR_REQUEST. 0 \<le> rq_hd (request s i) \<longrightarrow> rq_bh (request s i) \<noteq> b"
    and a: "unat nr < 2" "unat head < 5"
    and run: "get_request rw nr sec head cyl b s = Inr (w, s')"
  shows "hd_ok s'"
proof -
  obtain xs where ok: "pre_ok xs s" and hok: "handler_ok xs s" using h by (auto simp: hd_ok_def)
  show ?thesis
  proof (cases "free_request s")
    case None
    then show ?thesis using run h by (simp add: get_request_def)
  next
    case (Some i)
    note i = free_request_Some [OF Some]
    have new: "i \<notin> set xs" using i pre_okD(3) [OF ok] by auto
    define r where "r = \<lparr>rq_hd = sint nr, rq_nsector = 2, rq_sector = sint sec, rq_head = sint head,
      rq_cyl = sint cyl, rq_cmd = (if rw = READ then WIN_READ else WIN_WRITE), rq_errors = 0,
      rq_bh = b, rq_next = None\<rparr>"
    have n: "sint nr = int (unat nr)" "sint head = int (unat head)" using a by (simp_all add: sint_small)
    have "int (unat nr) < 2" "int (unat head) < 5" using a by linarith+
    then have "uint nr < 2" and u5: "uint head < 5" by simp_all
    moreover have "0 \<le> uint nr" by (rule uint_ge_0)
    ultimately have u: "uint nr = 0 \<or> uint nr = 1" by arith
    have r: "rq_ok r" "rq_next r = None" "b_lock (bufs s (rq_bh r)) \<noteq> 0" "rq_nsector r = 2"
      using u u5 n lock by (auto simp: r_def rq_ok_def)
    have "\<forall>j \<in> set xs. rq_bh (request s j) \<noteq> rq_bh r"
      using own pre_okD(3) [OF ok] by (auto simp: r_def)
    from pre_ok_enqueue [OF ok _ new r(1-3) this] i obtain p rqs ys where
      link: "link_request i ((set_request i (\<lambda>_. r) s)\<lparr>sorting := True\<rparr>) =
        Inr ((set_request i (\<lambda>_. r) s)\<lparr>sorting := True, this_request := p, request := rqs\<rparr>)"
      and ok': "pre_ok ys ((set_request i (\<lambda>_. r) s)\<lparr>this_request := p, request := rqs, sorting := False\<rparr>)"
      and ys: "set ys = insert i (set xs)" "\<And>k. \<exists>n. rqs k = ((request s)(i := r)) k\<lparr>rq_next := n\<rparr>"
        "xs \<noteq> [] \<longrightarrow> p = this_request s"
      by blast
    let ?t = "(set_request i (\<lambda>_. r) s)\<lparr>this_request := p, request := rqs, sorting := False\<rparr>"
    have g: "get_request rw nr sec head cyl b s =
      andthen (add_request i (set_request i (\<lambda>_. r) s)) (\<lambda>s. Inr (if b_lock (bufs s b) \<noteq> 0 then Queued else Unlocked, s))"
      using Some unfolding get_request_def r_def by (simp only: option.case Let_def)
    obtain s1 where s1: "add_request i (set_request i (\<lambda>_. r) s) = Inr s1" "s' = s1"
      using run unfolding g andthen_eq_Inr by auto
    have add: "add_request i (set_request i (\<lambda>_. r) s) =
        (if do_hd ?t = None then do_request ?t else Inr ?t)"
    proof -
      have "rq_nsector (request (set_request i (\<lambda>_. r) s) i) = 2" using r(4) by (simp add: set_request_def)
      then show ?thesis unfolding add_request_def link by (simp add: Let_def)
    qed
    show ?thesis
    proof (cases "do_hd ?t = None")
      case True
      then have "do_request ?t = Inr s'" using s1 unfolding add if_P [OF True] by simp
      from do_request_ok [OF ok' this] show ?thesis by (auto simp: hd_ok_def)
    next
      case False
      then have t: "s' = ?t" using s1 unfolding add if_not_P [OF False] by simp
      have same: "do_hd ?t = do_hd s" by (simp add: set_request_def)
      have "handler_ok ys ?t"
      proof (cases xs)
        case Nil
        then show ?thesis using hok False same by (auto simp: handler_ok_def)
      next
        case (Cons k ks)
        have tk: "this_request s = Some k" using pre_ok_this ok Cons by blast
        have "k \<noteq> i" using new Cons by auto
        then have "rq_cmd (rqs k) = rq_cmd (this_rq s)"
          using ys(2) [of k] tk by (auto simp: this_rq_def)
        then have "rq_cmd (this_rq ?t) = rq_cmd (this_rq s)"
          using ys(3) tk Cons by (simp add: this_rq_def)
        moreover have "ys \<noteq> []" using ys(1) by auto
        ultimately show ?thesis using hok False same Cons by (auto simp: handler_ok_def)
      qed
      then show ?thesis using ok' t by (auto simp: hd_ok_def)
    qed
  qed
qed

lemma lock_buffer_ok:
  assumes "hd_ok s" shows "hd_ok (lock_buffer b s)"
proof -
  obtain xs where ok: "pre_ok xs s" and h: "handler_ok xs s" using assms by (auto simp: hd_ok_def)
  let ?s = "lock_buffer b s"
  have e: "request ?s = request s" "this_request ?s = this_request s" "sorting ?s = sorting s"
    "do_hd ?s = do_hd s" "\<And>c. b_lock (bufs ?s c) = (if c = b then 1 else b_lock (bufs s c))"
    by (simp_all add: lock_buffer_def set_buf_def printk_def Let_def)
  have "pre_ok xs ?s"
    using pre_okD(1,2,3,4,5,6) [OF ok] by (intro pre_okI) (simp_all add: queue_is_def e)
  moreover have "handler_ok xs ?s" using h by (simp add: handler_ok_def this_rq_def e)
  ultimately show ?thesis by (auto simp: hd_ok_def)
qed

section \<open>Calls and interrupts in any order\<close>

text \<open>
  The driver's life: a process starts a transfer of a buffer that nobody has locked, a
  process that found the table of requests full tries again, the controller interrupts.
\<close>

inductive hd_step :: "hd_sys \<Rightarrow> hd_sys \<Rightarrow> bool" where
  call: "b_lock (bufs s b) = 0 \<Longrightarrow> rw_hd rw b s = Inr (w, s') \<Longrightarrow> hd_step s s'"
| retry: "b_lock (bufs s b) \<noteq> 0 \<Longrightarrow>
    \<forall>i < NR_REQUEST. 0 \<le> rq_hd (request s i) \<longrightarrow> rq_bh (request s i) \<noteq> b \<Longrightarrow>
    hd_address (hd_parts s) (bufs s b) = Some (nr, sec, head, cyl) \<Longrightarrow>
    get_request rw nr sec head cyl b s = Inr (w, s') \<Longrightarrow> hd_step s s'"
| interrupt: "hd_interrupt s = Inr s' \<Longrightarrow> hd_step s s'"

inductive_cases hd_stepE: "hd_step s s'"

lemma queued_locked:
  assumes "hd_ok s" "i < NR_REQUEST" "0 \<le> rq_hd (request s i)"
  shows "b_lock (bufs s (rq_bh (request s i))) \<noteq> 0"
proof -
  obtain xs where ok: "pre_ok xs s" using assms(1) by (auto simp: hd_ok_def)
  have "i \<in> set xs" using pre_okD(3) [OF ok] assms(2,3) by auto
  then show ?thesis by (rule pre_okD(5) [OF ok])
qed

lemma hd_step_ok:
  assumes "hd_step s s'" and ok: "hd_ok s"
  shows "hd_ok s'"
  using assms(1)
proof cases
  case (call b rw w)
  show ?thesis
  proof (cases "hd_address (hd_parts s) (bufs s b)")
    case None
    then show ?thesis using call(2) ok by (simp add: rw_hd_def)
  next
    case (Some a)
    obtain nr sec head cyl where a: "a = (nr, sec, head, cyl)" by (cases a) auto
    note bd = hd_address_bounds [OF Some [unfolded a]]
    have run: "get_request rw nr sec head cyl b (lock_buffer b s) = Inr (w, s')"
      using call(2) Some a by (simp add: rw_hd_def rw_abs_hd_def split: if_splits)
    have e: "request (lock_buffer b s) = request s" "b_lock (bufs (lock_buffer b s) b) = 1"
      by (simp_all add: lock_buffer_def set_buf_def printk_def Let_def)
    have "\<forall>i < NR_REQUEST. 0 \<le> rq_hd (request s i) \<longrightarrow> rq_bh (request s i) \<noteq> b"
      using queued_locked [OF ok] call(1) by metis
    then show ?thesis
      using get_request_ok [OF lock_buffer_ok [OF ok] _ _ bd(1,2) run] e by simp
  qed
next
  case (retry b nr sec head cyl rw w)
  show ?thesis
    by (rule get_request_ok [OF ok retry(1,2) hd_address_bounds(1,2) [OF retry(3)] retry(4)])
next
  case interrupt
  then show ?thesis using hd_interrupt_ok [OF ok] by blast
qed

lemma fold_free_requests:
  "request (fold (\<lambda>i. set_request i (\<lambda>r. r\<lparr>rq_hd := - 1, rq_next := None\<rparr>)) is s) k =
     (if k \<in> set is then (request s k)\<lparr>rq_hd := - 1, rq_next := None\<rparr> else request s k)"
  by (induction "is" arbitrary: s) (auto simp: set_request_def)

lemma fold_free_others:
  "this_request (fold (\<lambda>i. set_request i (\<lambda>r. r\<lparr>rq_hd := - 1, rq_next := None\<rparr>)) is s) = this_request s"
  "sorting (fold (\<lambda>i. set_request i (\<lambda>r. r\<lparr>rq_hd := - 1, rq_next := None\<rparr>)) is s) = sorting s"
  "do_hd (fold (\<lambda>i. set_request i (\<lambda>r. r\<lparr>rq_hd := - 1, rq_next := None\<rparr>)) is s) = do_hd s"
  by (induction "is" arbitrary: s) (simp_all add: set_request_def)

lemma hd_init_ok:
  assumes "this_request s = None" "\<not> sorting s" "do_hd s = None"
  shows "hd_ok (hd_init s)"
proof -
  let ?f = "fold (\<lambda>i. set_request i (\<lambda>r. r\<lparr>rq_hd := - 1, rq_next := None\<rparr>)) [0..<NR_REQUEST] s"
  have e: "request (hd_init s) = request ?f" "this_request (hd_init s) = None"
    "\<not> sorting (hd_init s)" "do_hd (hd_init s) = None"
    using assms
    by (simp_all add: hd_init_def inb_def outb_def Let_def fold_free_others numeral_2_eq_2
        del: upt_rec_numeral)
  have "pre_ok [] (hd_init s)"
    using e by (intro pre_okI) (auto simp: queue_is_def fold_free_requests)
  moreover have "handler_ok [] (hd_init s)" using e by (simp add: handler_ok_def)
  ultimately show ?thesis by (auto simp: hd_ok_def)
qed

end
