(* ===== verification/Hd_Props.thy ===== *)
theory Hd_Props
  imports Hd_Safe
begin

unbundle bit_operations_syntax

text \<open>
  The properties of the disk driver: where a block is on the disk, the order in which the
  requests are served, the invariant over every interleaving of calls and interrupts, the
  data that a read puts into its buffer, and two sequences of interrupts that the driver
  handles wrongly.
\<close>

section \<open>Addresses\<close>

lemma unat_push_1: "unat (push_bit 1 (ucast (w :: u16)) :: u32) = 2 * unat w"
proof -
  have "unat w < 2 ^ 16" using unsigned_less [of w] by simp
  then show ?thesis by (simp add: push_bit_eq_mult unat_word_ariths unsigned_ucast_eq take_bit_nat_eq_self)
qed




section \<open>The order of the requests\<close>


text \<open>The first two entries.\<close>

theorem link_request_first_two:
  assumes "queue_is s (x # y # ys)" and "r \<notin> set (x # y # ys)" and "rq_next (request s r) = None"
  shows "\<exists>s'. link_request r s = Inr s' \<and> this_request s' = this_request s \<and>
    rq_next (request s' x) = rq_next (request s x)"
proof -
  obtain p rqs where run: "link_request r s = Inr (s\<lparr>this_request := p, request := rqs\<rparr>)"
    and q: "queue_is (s\<lparr>this_request := p, request := rqs\<rparr>) (enqueue (key s) r (x # y # ys))"
    using link_request_enqueue [OF assms] by blast
  obtain zs where "elevate (key s) r (y # ys) = y # zs"
    by (metis elevate.simps(1) hd_elevate hd_Cons_tl list.discI length_elevate length_0_conv nat.distinct(1))
  then show ?thesis using run q assms(1) by (simp add: queue_is_def enqueue_def)
qed


section \<open>Every interleaving\<close>


definition boot_state :: hd_sys where
  "boot_state = \<lparr>request = (\<lambda>_. \<lparr>rq_hd = 0, rq_nsector = 0, rq_sector = 0, rq_head = 0, rq_cyl = 0,
      rq_cmd = 0, rq_errors = 0, rq_bh = 0, rq_next = None\<rparr>),
     this_request = None, sorting = False, do_hd = None,
     hd_parts = (\<lambda>_. \<lparr>start_sect = 0, nr_sects = 0\<rparr>),
     bufs = (\<lambda>i. \<lparr>b_data = replicate 1024 0, b_dev = 0x300, b_blocknr = of_nat i, b_uptodate = 0, b_dirt = 0,
       b_count = 0, b_lock = 0, b_prev = None, b_next = None, b_prev_free = None, b_next_free = None\<rparr>),
     inp = (\<lambda>_ _. 0x58), inp_n = 0, insw = (\<lambda>_. replicate 512 7), insw_n = 0, outs = [], sectors = [],
     woken = [], printed = []\<rparr>"


lemma do_request_Inl:
  assumes ok: "pre_ok xs s" and run: "do_request s = Inl e"
  shows "e = Panic ''HD controller not ready''"
proof (cases xs)
  case Nil
  then show ?thesis
    using run pre_okD(2) [OF ok] pre_ok_empty [OF ok] by (simp add: do_request_def)
next
  case (Cons x ys)
  note t = pre_ok_this [OF ok [unfolded Cons]]
  let ?r = "request s x"
  have r: "rq_ok ?r" using t by simp
  have a: "(word_of_int (rq_hd ?r) :: u32) \<le> 1" using r by (auto simp: rq_ok_def)
  have b: "(word_of_int (rq_head ?r) :: u32) \<le> 15"
  proof -
    have "rq_head ?r \<in> {0..15}" using r by (simp add: rq_ok_def)
    then have "uint (word_of_int (rq_head ?r) :: u32) \<le> 15"
      by (simp add: uint_word_of_int)
    then show ?thesis by (simp add: word_le_def)
  qed
  let ?send = "hd_out (word_of_int (rq_hd ?r)) (word_of_int (rq_nsector ?r))
    (word_of_int (rq_sector ?r)) (word_of_int (rq_head ?r)) (word_of_int (rq_cyl ?r))
    (word_of_int (rq_cmd ?r))"
  let ?k = "\<lambda>s. let (ok, s) = wait_drq 3000 s in
    if \<not> ok then reset_hd (rq_hd (this_rq s)) s
    else Inr (port_write (rq_bh (this_rq s)) (rq_half (this_rq s)) s)"
  have eq: "do_request s = (if rq_cmd ?r = WIN_WRITE then andthen (?send Write_intr s) ?k
      else if rq_cmd ?r = WIN_READ then ?send Read_intr s else Inl (Panic ''unknown hd-command''))"
    using t pre_okD(2) [OF ok] by (simp add: do_request_def Let_def)
  consider "?send Write_intr s = Inl e" | "?send Read_intr s = Inl e"
    | s1 where "?send Write_intr s = Inr s1" "?k s1 = Inl e"
    using run r unfolding eq by (auto simp: andthen_eq_Inl rq_ok_def split: if_split_asm)
  then show ?thesis
  proof cases
    case 3
    have c: "core (snd (wait_drq 3000 s1)) = core s"
      using wait_drq_core [of 3000 s1] hd_out_Inr(1) [OF 3(1)] by simp
    have "reset_hd (rq_hd (this_rq (snd (wait_drq 3000 s1)))) (snd (wait_drq 3000 s1)) = Inl e"
      using 3(2) by (simp add: Let_def split_beta split: if_split_asm)
    then have "reset_hd (rq_hd ?r) (snd (wait_drq 3000 s1)) = Inl e"
      using this_rq_core [OF c] t by simp
    from hd_out_Inl [OF this [unfolded reset_hd_def] a] show ?thesis by simp
  qed (use hd_out_Inl a b in blast)+
qed


lemma bad_rw_intr_Inl:
  assumes ok: "pre_ok (x # xs) s" and run: "bad_rw_intr s = Inl e"
  shows "e = Panic ''HD controller not ready''"
proof -
  note t = pre_ok_this [OF ok]
  have "\<exists>s1. reset_hd (rq_hd (request s x)) s1 = Inl e"
    using run t by (auto simp: bad_rw_intr_def Let_def)
  moreover have "(word_of_int (rq_hd (request s x)) :: u32) \<le> 1" using t by (auto simp: rq_ok_def)
  ultimately show ?thesis using hd_out_Inl [unfolded reset_hd_def] by (auto simp: reset_hd_def)
qed

lemma rw_intr_Inl:
  assumes ok: "pre_ok (x # xs) s" and run: "read_intr s = Inl e \<or> write_intr s = Inl e"
  shows "e = Panic ''HD controller not ready''"
proof -
  obtain bad s1 where w: "win_result s = (bad, s1)" by fastforce
  have c: "core s1 = core s" using win_result_core(1) [of s] w by simp
  have ok1: "pre_ok (x # xs) s1" using ok pre_ok_core [OF c] by blast
  note t = pre_ok_this [OF ok1]
  let ?r = "set_this (\<lambda>r. r\<lparr>rq_nsector := s32 (rq_nsector r - 1)\<rparr>)
    (set_this (\<lambda>r. r\<lparr>rq_errors := 0\<rparr>) (port_read (rq_bh (this_rq s1)) (rq_half (this_rq s1)) s1))"
  let ?w = "set_this (\<lambda>r. r\<lparr>rq_nsector := s32 (rq_nsector r - 1)\<rparr>) s1"
  have cases: "bad_rw_intr s1 = Inl e \<or> end_request ?r = Inl e \<or> end_request ?w = Inl e"
    using run w by (auto simp: read_intr_def write_intr_def Let_def split: if_split_asm)
  have "this_only x s1 ?r" "this_only x s1 ?w"
    using t by (intro set_this_this_only port_read_this_only core_this_only refl; simp)+
  from this [THEN end_request_do [OF ok1]] obtain r w where
    "end_request ?r = do_request r" "pre_ok xs r" "end_request ?w = do_request w" "pre_ok xs w"
    by blast
  then have "bad_rw_intr s1 = Inl e \<or> do_request r = Inl e \<or> do_request w = Inl e"
    using cases by argo
  then show ?thesis
    using bad_rw_intr_Inl [OF ok1] do_request_Inl [OF \<open>pre_ok xs r\<close>] do_request_Inl [OF \<open>pre_ok xs w\<close>]
    by blast
qed



section \<open>The data of a read\<close>

text \<open>
  The controller reports success. \<open>read_intr\<close> then takes a sector into the half of the
  buffer that the number of sectors still to come selects.
\<close>

definition status_good :: "hd_sys \<Rightarrow> bool" where
  "status_good s \<longleftrightarrow> inp s (inp_n s) HD_STATUS AND 0xf1 = 0x50"

lemma win_result_good: "status_good s \<Longrightarrow> win_result s = (False, s\<lparr>inp_n := inp_n s + 1\<rparr>)"
  by (simp add: win_result_def status_good_def inb_def Let_def)

lemma win_result_bad: "\<not> status_good s \<Longrightarrow> fst (win_result s)"
  by (simp add: win_result_def status_good_def inb_def Let_def split_beta)

definition put_half :: "nat \<Rightarrow> u8 list \<Rightarrow> u8 list \<Rightarrow> u8 list" where
  "put_half off d sec = take off d @ sec @ drop (off + 512) d"

lemma read_intr_first:
  assumes "status_good s" "this_request s = Some x" "rq_nsector (request s x) = 2"
  shows "\<exists>rqs. read_intr s = Inr (s\<lparr>inp_n := inp_n s + 1, insw_n := insw_n s + 1, request := rqs,
      bufs := (bufs s)(rq_bh (request s x) := (bufs s (rq_bh (request s x)))
        \<lparr>b_data := put_half 0 (b_data (bufs s (rq_bh (request s x)))) (insw s (insw_n s))\<rparr>)\<rparr>) \<and>
    rqs = (request s)(x := (request s x)\<lparr>rq_errors := 0, rq_nsector := 1\<rparr>)"
  using assms
  by (simp add: read_intr_def win_result_good Let_def port_read_def set_buf_def set_this_def
      set_request_def this_rq_def rq_half_def put_half_def)

text \<open>The end of a request as one update.\<close>

lemma end_request_eq:
  assumes "this_request s = Some x" and "b = rq_bh (request s x)"
  shows "\<exists>s1. end_request s = do_request s1 \<and>
    bufs s1 = (bufs s)(b := (bufs s b)\<lparr>b_uptodate := 1, b_dirt := 0, b_lock := 0\<rparr>) \<and>
    request s1 = (request s)(x := (request s x)\<lparr>rq_hd := - 1\<rparr>) \<and>
    this_request s1 = rq_next (request s x) \<and> sorting s1 = sorting s \<and> outs s1 = outs s \<and>
    do_hd s1 = do_hd s \<and> sectors s1 = sectors s"
proof -
  let ?s = "unlock_buffer b (wake_up_hd Request_wait (set_buf b (\<lambda>h. h\<lparr>b_uptodate := 1, b_dirt := 0\<rparr>) s))"
  have "end_request s = do_request (drop_this ?s)"
    using assms by (simp add: end_request_def this_rq_def Let_def)
  moreover have "bufs (drop_this ?s) = (bufs s)(b := (bufs s b)\<lparr>b_uptodate := 1, b_dirt := 0, b_lock := 0\<rparr>)"
    by (simp add: unlock_buffer_def wake_up_hd_def set_buf_def printk_def drop_this_def set_this_def
        set_request_def Let_def)
  moreover have "request (drop_this ?s) = (request s)(x := (request s x)\<lparr>rq_hd := - 1\<rparr>)"
    "this_request (drop_this ?s) = rq_next (request s x)" "sorting (drop_this ?s) = sorting s"
    "outs (drop_this ?s) = outs s" "do_hd (drop_this ?s) = do_hd s" "sectors (drop_this ?s) = sectors s"
    using assms(1)
    by (simp_all add: unlock_buffer_def wake_up_hd_def set_buf_def printk_def drop_this_def set_this_def
        set_request_def this_rq_def Let_def)
  ultimately show ?thesis by (intro exI [of _ "drop_this ?s"]) simp
qed

lemma read_intr_last:
  assumes "status_good s" "this_request s = Some x" "rq_nsector (request s x) = 1"
    and "b = rq_bh (request s x)"
  shows "\<exists>s1. read_intr s = do_request s1 \<and>
    bufs s1 = (bufs s)(b := (bufs s b)\<lparr>b_data := put_half 512 (b_data (bufs s b)) (insw s (insw_n s)),
         b_uptodate := 1, b_dirt := 0, b_lock := 0\<rparr>) \<and>
    request s1 = (request s)(x := (request s x)\<lparr>rq_errors := 0, rq_nsector := 0, rq_hd := - 1\<rparr>) \<and>
    this_request s1 = rq_next (request s x) \<and> sorting s1 = sorting s \<and> outs s1 = outs s \<and>
    do_hd s1 = do_hd s"
proof -
  let ?s3 = "s\<lparr>inp_n := inp_n s + 1,
      bufs := (bufs s)(b := (bufs s b)\<lparr>b_data := put_half 512 (b_data (bufs s b)) (insw s (insw_n s))\<rparr>),
      insw_n := insw_n s + 1,
      request := (request s)(x := (request s x)\<lparr>rq_errors := 0, rq_nsector := 0\<rparr>)\<rparr>"
  have e: "read_intr s = end_request ?s3"
    using assms
    by (simp add: read_intr_def win_result_good Let_def port_read_def set_buf_def set_this_def
        set_request_def this_rq_def rq_half_def put_half_def)
  have "this_request ?s3 = Some x" "b = rq_bh (request ?s3 x)" using assms by simp_all
  from end_request_eq [OF this] obtain s1 where "end_request ?s3 = do_request s1 \<and>
      bufs s1 = (bufs ?s3)(b := (bufs ?s3 b)\<lparr>b_uptodate := 1, b_dirt := 0, b_lock := 0\<rparr>) \<and>
      request s1 = (request ?s3)(x := (request ?s3 x)\<lparr>rq_hd := - 1\<rparr>) \<and>
      this_request s1 = rq_next (request ?s3 x) \<and> sorting s1 = sorting ?s3 \<and> outs s1 = outs ?s3 \<and>
      do_hd s1 = do_hd ?s3 \<and> sectors s1 = sectors ?s3" by blast
  then show ?thesis unfolding e by (intro exI [of _ s1]) simp
qed

lemma do_request_core':
  assumes "\<not> sorting s" and "do_request s = Inr s'"
  shows "core s' = core s"
proof (cases "this_request s")
  case None
  then have "s' = s\<lparr>do_hd := None\<rparr>" using assms by (simp add: do_request_def)
  then show ?thesis by (simp add: core_simps)
next
  case (Some y)
  then show ?thesis using do_request_core [OF assms(1) _ assms(2)] by blast
qed

lemma read_intr_second:
  assumes "status_good s" "this_request s = Some x" "rq_nsector (request s x) = 1"
    and run: "read_intr s = Inr s'" and "\<not> sorting s" and b: "b = rq_bh (request s x)"
  shows "bufs s' = (bufs s)(b := (bufs s b)\<lparr>b_data := put_half 512 (b_data (bufs s b)) (insw s (insw_n s)),
         b_uptodate := 1, b_dirt := 0, b_lock := 0\<rparr>) \<and> rq_hd (request s' x) = - 1"
proof -
  obtain s1 where "read_intr s = do_request s1" "\<not> sorting s1"
    "bufs s1 = (bufs s)(b := (bufs s b)\<lparr>b_data := put_half 512 (b_data (bufs s b)) (insw s (insw_n s)),
         b_uptodate := 1, b_dirt := 0, b_lock := 0\<rparr>)" "rq_hd (request s1 x) = - 1"
    using read_intr_last [OF assms(1-3) b] assms(5) by auto
  then show ?thesis using do_request_core' [of s1 s'] run by (simp add: core_def)
qed

text \<open>C26. Two good interrupts.\<close>

theorem read_transfer:
  assumes "do_hd s = Some Read_intr" and "this_request s = Some x" and "rq_nsector (request s x) = 2"
    and "\<not> sorting s" and "b = rq_bh (request s x)" and "length (b_data (bufs s b)) = 1024"
    and "\<forall>n. length (insw s n) = 512" and "status_good s" and "hd_interrupt s = Inr s1"
    and "status_good s1" and "hd_interrupt s1 = Inr s2"
  shows "b_data (bufs s2 b) = insw s (insw_n s) @ insw s (insw_n s + 1) \<and>
    b_uptodate (bufs s2 b) = 1 \<and> b_dirt (bufs s2 b) = 0 \<and> b_lock (bufs s2 b) = 0 \<and>
    rq_hd (request s2 x) < 0 \<and> (\<forall>c. c \<noteq> b \<longrightarrow> bufs s2 c = bufs s c)"
proof -
  have s1: "s1 = s\<lparr>inp_n := inp_n s + 1, insw_n := insw_n s + 1,
      request := (request s)(x := (request s x)\<lparr>rq_errors := 0, rq_nsector := 1\<rparr>),
      bufs := (bufs s)(b := (bufs s b)\<lparr>b_data := put_half 0 (b_data (bufs s b)) (insw s (insw_n s))\<rparr>)\<rparr>"
    using read_intr_first [OF assms(8,2,3)] assms(1,5,9) by (simp add: hd_interrupt_def)
  have "do_hd s1 = Some Read_intr" unfolding s1 using assms(1) by simp
  then have run: "read_intr s1 = Inr s2" using assms(11) by (simp add: hd_interrupt_def)
  have t: "this_request s1 = Some x" "rq_nsector (request s1 x) = 1" "rq_bh (request s1 x) = b"
      "\<not> sorting s1" "insw s1 = insw s" "insw_n s1 = insw_n s + 1"
      "b_data (bufs s1 b) = insw s (insw_n s) @ drop 512 (b_data (bufs s b))"
      "\<And>c. c \<noteq> b \<Longrightarrow> bufs s1 c = bufs s c"
    unfolding s1 using assms(2,4,5) by (simp_all add: put_half_def)
  have "put_half 512 (insw s (insw_n s) @ drop 512 (b_data (bufs s b))) (insw s (insw_n s + 1)) =
      insw s (insw_n s) @ insw s (insw_n s + 1)"
    using assms(6) assms(7) [rule_format, of "insw_n s"] by (simp add: put_half_def)
  then show ?thesis
    using read_intr_second [OF assms(10) t(1,2) run t(4) t(3) [symmetric]] t by simp
qed


text \<open>A controller that is always ready.\<close>

definition always_ready :: "hd_sys \<Rightarrow> bool" where
  "always_ready s \<longleftrightarrow> (\<forall>n. inp s n HD_STATUS AND 0xc0 = 0x40)"

definition command :: "u32 \<Rightarrow> u32 \<Rightarrow> u32 \<Rightarrow> u32 \<Rightarrow> u32 \<Rightarrow> u32 \<Rightarrow> (u16 \<times> u8) list" where
  "command drive nsect sect head cyl cmd = [(HD_CMD, 0), (0x1f1, 75), (HD_NSECTOR, ucast nsect),
     (HD_SECTOR, ucast sect), (HD_LCYL, ucast cyl), (HD_HCYL, ucast (drop_bit 8 cyl)),
     (HD_CURRENT, ucast (0xA0 OR push_bit 4 drive OR head)), (HD_STATUS, ucast cmd)]"

lemma inp_simps [core_simps]:
  "inp (snd (inb p s)) = inp s" "inp (outb v p s) = inp s" "inp (printk m s) = inp s"
  "inp (set_this f s) = inp s"
  by (simp_all add: inb_def outb_def printk_def set_this_def set_request_def)

lemma inp_controller_wait [core_simps]:
  "inp (snd (controller_wait n s)) = inp s \<and> outs (snd (controller_wait n s)) = outs s"
proof (induction n arbitrary: s)
  case 0
  then show ?case by (simp add: controller_wait.simps)
next
  case (Suc n)
  have "outs (snd (inb p s)) = outs s" for p by (simp add: inb_def)
  then show ?case
    by (subst (1 2) controller_wait.simps) (simp add: Let_def split_beta core_simps Suc)
qed

lemma inp_drive_poll [core_simps]: "inp (drive_poll n s) = inp s"
  by (induction n arbitrary: s) (simp_all add: drive_poll.simps Let_def split_beta core_simps)

lemma inp_drive_busy [core_simps]: "inp (snd (drive_busy s)) = inp s"
  by (simp add: drive_busy_def Let_def split_beta core_simps)

lemma inp_reset_controller [core_simps]: "inp (reset_controller s) = inp s"
proof -
  have n: "busy_wait 10000 s' = snd (drive_busy s')" for s'
    using busy_wait_once [of 9999 s'] by simp
  show ?thesis
    by (simp add: reset_controller_def Let_def split_beta core_simps drive_busy_never n)
qed

lemma hd_out_command:
  assumes "hd_out drive nsect sect head cyl cmd h s = Inr s'"
  shows "outs s' = outs s @ command drive nsect sect head cyl cmd" "inp s' = inp s"
  using assms inp_controller_wait [of 1000 s]
  by (auto simp: hd_out_def Let_def split_beta controller_ready_def command_def outb_def split: if_splits)

lemma hd_out_ready:
  assumes "always_ready s" "drive \<le> 1" "head \<le> 15"
  shows "\<exists>s'. hd_out drive nsect sect head cyl cmd h s = Inr s'"
proof -
  have "fst (controller_wait 1000 s) = 999"
    using assms(1) by (subst controller_wait.simps) (simp add: inb_def always_ready_def)
  then show ?thesis
    using assms(2,3) by (auto simp: hd_out_def Let_def split_beta controller_ready_def)
qed

lemma reset_hd_ready:
  assumes "always_ready s" "i \<in> {0, 1}"
  shows "\<exists>s'. reset_hd i s = Inr s' \<and> inp s' = inp s"
proof -
  have "(word_of_int i :: u32) \<le> 1" using assms(2) by auto
  moreover have "always_ready (reset_controller s)"
    using assms(1) by (simp add: always_ready_def core_simps)
  moreover have "(4 :: u32) \<le> 15" by simp
  ultimately obtain s' where "reset_hd i s = Inr s'"
    unfolding reset_hd_def using hd_out_ready by blast
  moreover have "inp s' = inp s"
    using hd_out_command(2) [OF calculation [unfolded reset_hd_def]] by (simp add: core_simps)
  ultimately show ?thesis by blast
qed



section \<open>What goes wrong\<close>

lemma bad_rw_intr_again:
  assumes "this_request s = Some x" "rq_errors (request s x) = 0"
  shows "bad_rw_intr s = reset_hd (rq_hd (request s x)) (s\<lparr>request := (request s)(x := (request s x)\<lparr>rq_errors := 1\<rparr>)\<rparr>)"
  using assms by (simp add: bad_rw_intr_def Let_def this_rq_def set_this_def set_request_def)

lemma do_request_read:
  assumes "\<not> sorting s" "this_request s = Some x" "rq_cmd (request s x) = WIN_READ"
    and "do_request s = Inr s'"
  shows "core s' = core s \<and> do_hd s' = Some Read_intr \<and> outs s' = outs s @
    command (word_of_int (rq_hd (request s x))) (word_of_int (rq_nsector (request s x)))
      (word_of_int (rq_sector (request s x))) (word_of_int (rq_head (request s x)))
      (word_of_int (rq_cyl (request s x))) (word_of_int WIN_READ)"
proof -
  let ?r = "request s x"
  have "hd_out (word_of_int (rq_hd ?r)) (word_of_int (rq_nsector ?r)) (word_of_int (rq_sector ?r))
     (word_of_int (rq_head ?r)) (word_of_int (rq_cyl ?r)) (word_of_int WIN_READ) Read_intr s = Inr s'"
    using assms by (simp add: do_request_def this_rq_def Let_def)
  from hd_out_Inr(1,2) [OF this] hd_out_command(1) [OF this] show ?thesis by (intro conjI)
qed





section \<open>The properties at concrete states\<close>

text \<open>One request, for buffer 3, in the hands of the controller; the status reads \<open>f\<close>.\<close>

definition one_request :: "int \<Rightarrow> handler \<Rightarrow> (nat \<Rightarrow> u8) \<Rightarrow> hd_sys" where
  "one_request n h f = boot_state\<lparr>
     request := (\<lambda>i. \<lparr>rq_hd = (if i = 0 then 0 else - 1), rq_nsector = n, rq_sector = 1, rq_head = 0,
       rq_cyl = 0, rq_cmd = WIN_READ, rq_errors = 0, rq_bh = 3, rq_next = None\<rparr>),
     this_request := Some 0, do_hd := Some h,
     bufs := (\<lambda>i. (bufs boot_state i)\<lparr>b_lock := 1\<rparr>), inp := (\<lambda>k _. f k)\<rparr>"

lemma one_request_simps [simp]:
  "this_request (one_request n h f) = Some 0" "\<not> sorting (one_request n h f)"
  "do_hd (one_request n h f) = Some h" "rq_nsector (request (one_request n h f) 0) = n"
  "rq_cmd (request (one_request n h f) 0) = WIN_READ" "rq_bh (request (one_request n h f) 0) = 3"
  "inp (one_request n h f) = (\<lambda>k _. f k)" "inp_n (one_request n h f) = 0"
  "insw (one_request n h f) = (\<lambda>_. replicate 512 7)" "insw_n (one_request n h f) = 0"
  "b_data (bufs (one_request n h f) b) = replicate 1024 0"
  "rq_next (request (one_request n h f) 0) = None" "rq_hd (request (one_request n h f) 0) = 0"
  "rq_sector (request (one_request n h f) 0) = 1" "rq_head (request (one_request n h f) 0) = 0"
  "rq_cyl (request (one_request n h f) 0) = 0"
  by (simp_all add: one_request_def boot_state_def)

lemma status_good_one_request [simp]: "status_good (one_request n h f) \<longleftrightarrow> f 0 AND 0xf1 = 0x50"
  by (simp add: status_good_def)


definition two_requests :: hd_sys where
  "two_requests = (one_request 2 Read_intr (\<lambda>_. 0x50))\<lparr>
     request := (\<lambda>i. (request (one_request 2 Read_intr (\<lambda>_. 0x50)) i)
       \<lparr>rq_sector := int i, rq_next := (if i = 0 then Some 1 else None)\<rparr>)\<rparr>"

theorem link_request_first_two_witness:
  "\<exists>s'. link_request 2 two_requests = Inr s' \<and> this_request s' = Some 0 \<and>
    rq_next (request s' 0) = Some 1"
  using link_request_first_two [of two_requests 0 1 "[]" 2]
  by (simp add: two_requests_def queue_is_def)

lemma one_request_ok: "n \<in> {1, 2} \<Longrightarrow> h \<noteq> Write_intr \<Longrightarrow> hd_ok (one_request n h f)"
proof -
  assume n: "n \<in> {1, 2}" "h \<noteq> Write_intr"
  have "pre_ok [0] (one_request n h f)"
    by (rule pre_okI)
      (use n in \<open>auto simp: queue_is_def rq_ok_def one_request_def boot_state_def\<close>)
  moreover have "handler_ok [0] (one_request n h f)"
    using n(2) by (simp add: handler_ok_def this_rq_def)
  ultimately show ?thesis by (auto simp: hd_ok_def)
qed

lemma controller_wait_never:
  "\<forall>n. inp s n HD_STATUS AND 0xc0 \<noteq> 0x40 \<Longrightarrow> fst (controller_wait k s) = 0"
proof (induction k arbitrary: s)
  case 0
  then show ?case by (simp add: controller_wait.simps)
next
  case (Suc k)
  then show ?case
    by (subst controller_wait.simps) (simp add: Let_def split_beta inb_def)
qed


lemma after_first:
  assumes "f 0 AND 0xf1 = 0x50"
  shows "\<exists>s1. hd_interrupt (one_request 2 Read_intr f) = Inr s1 \<and> do_hd s1 = Some Read_intr \<and>
    this_request s1 = Some 0 \<and> \<not> sorting s1 \<and> inp s1 = (\<lambda>k _. f k) \<and> inp_n s1 = 1 \<and>
    rq_errors (request s1 0) = 0 \<and> rq_nsector (request s1 0) = 1 \<and> rq_next (request s1 0) = None \<and>
    rq_hd (request s1 0) = 0 \<and> rq_cmd (request s1 0) = WIN_READ \<and> rq_head (request s1 0) = 0"
proof -
  let ?s = "one_request 2 Read_intr f"
  have g: "status_good ?s" "this_request ?s = Some 0" "rq_nsector (request ?s 0) = 2"
    using assms by simp_all
  from read_intr_first [OF g] obtain rqs s1 where "read_intr ?s = Inr s1"
    "rqs = (request ?s)(0 := (request ?s 0)\<lparr>rq_errors := 0, rq_nsector := 1\<rparr>)"
    and "s1 = ?s\<lparr>inp_n := inp_n ?s + 1, insw_n := insw_n ?s + 1, request := rqs,
      bufs := (bufs ?s)(rq_bh (request ?s 0) := (bufs ?s (rq_bh (request ?s 0)))
        \<lparr>b_data := put_half 0 (b_data (bufs ?s (rq_bh (request ?s 0)))) (insw ?s (insw_n ?s))\<rparr>)\<rparr>"
    by blast
  then show ?thesis by (intro exI [of _ s1]) (simp add: hd_interrupt_def)
qed

theorem read_transfer_witness:
  "\<exists>s1 s2. hd_interrupt (one_request 2 Read_intr (\<lambda>_. 0x50)) = Inr s1 \<and> hd_interrupt s1 = Inr s2 \<and>
     b_data (bufs s2 3) = replicate 512 7 @ replicate 512 7 \<and> b_lock (bufs s2 3) = 0"
proof -
  let ?s = "one_request 2 Read_intr (\<lambda>_. 0x50)"
  obtain s1 where s1: "hd_interrupt ?s = Inr s1" "do_hd s1 = Some Read_intr" "this_request s1 = Some 0"
    "\<not> sorting s1" "inp s1 = (\<lambda>_ _. 0x50)" "rq_nsector (request s1 0) = 1" "rq_next (request s1 0) = None"
    using after_first [of "\<lambda>_. 0x50"] by auto
  then have g: "status_good s1" by (simp add: status_good_def)
  obtain t where "read_intr s1 = do_request t" "this_request t = None" "\<not> sorting t"
    using read_intr_last [OF g s1(3,6) refl] s1(4,7) by auto
  then obtain s2 where s2: "hd_interrupt s1 = Inr s2"
    using s1(2) by (simp add: hd_interrupt_def do_request_def)
  have "b_data (bufs s2 3) = replicate 512 7 @ replicate 512 7 \<and> b_lock (bufs s2 3) = 0"
    using read_transfer [OF _ _ _ _ refl _ _ _ s1(1) g s2] by simp
  then show ?thesis using s1 s2 by blast
qed



end
