(* ===== verification/Str.thy ===== *)
theory Str
  imports Prelude
begin

unbundle bit_operations_syntax

text \<open>
  The string functions of include/linux/string.h (compiled by lib/string.c). They are
  inline assembly; each is modelled by its string instructions on a flat memory of bytes.
  A pointer is a 32-bit address, the null pointer is 0. A loop that stops at a NUL that may
  not be there is a partial function: \<open>None\<close> stands for running on for ever.
\<close>

type_synonym memory = "u32 \<Rightarrow> u8"

section \<open>The string instructions\<close>

text \<open>\<open>rep stosb\<close>, \<open>rep movsb\<close> upwards (\<open>cld\<close>) and downwards (\<open>std\<close>).\<close>

fun rep_stosb :: "u8 \<Rightarrow> nat \<Rightarrow> u32 \<Rightarrow> memory \<Rightarrow> memory" where
  "rep_stosb al 0 di m = m"
| "rep_stosb al (Suc n) di m = rep_stosb al n (di + 1) (m(di := al))"

fun rep_movsb :: "nat \<Rightarrow> u32 \<Rightarrow> u32 \<Rightarrow> memory \<Rightarrow> memory" where
  "rep_movsb 0 si di m = m"
| "rep_movsb (Suc n) si di m = rep_movsb n (si + 1) (di + 1) (m(di := m si))"

fun rep_movsb_std :: "nat \<Rightarrow> u32 \<Rightarrow> u32 \<Rightarrow> memory \<Rightarrow> memory" where
  "rep_movsb_std 0 si di m = m"
| "rep_movsb_std (Suc n) si di m = rep_movsb_std n (si - 1) (di - 1) (m(di := m si))"

text \<open>\<open>repne scasb\<close>: \<open>edi\<close>, \<open>ecx\<close> and the zero flag afterwards (the flag was clear before).\<close>

fun repne_scasb :: "u8 \<Rightarrow> nat \<Rightarrow> u32 \<Rightarrow> memory \<Rightarrow> u32 \<times> nat \<times> bool" where
  "repne_scasb al ecx di m =
     (if ecx = 0 then (di, 0, False)
      else if m di = al then (di + 1, ecx - 1, True)
      else repne_scasb al (ecx - 1) (di + 1) m)"

text \<open>\<open>repe cmpsb\<close>: \<open>esi\<close> and \<open>edi\<close> and the zero flag afterwards (it was \<open>zf\<close> before).\<close>

fun repe_cmpsb :: "bool \<Rightarrow> nat \<Rightarrow> u32 \<Rightarrow> u32 \<Rightarrow> memory \<Rightarrow> u32 \<times> u32 \<times> bool" where
  "repe_cmpsb zf ecx si di m =
     (if ecx = 0 then (si, di, zf)
      else if m si = m di then repe_cmpsb True (ecx - 1) (si + 1) (di + 1) m
      else (si + 1, di + 1, False))"

declare repne_scasb.simps [simp del] repe_cmpsb.simps [simp del]

text \<open>\<open>repne scasb; notl %ecx; decl %ecx\<close> with \<open>ecx = 0xffffffff\<close> and \<open>al = 0\<close>.\<close>

definition scan_len :: "u32 \<Rightarrow> memory \<Rightarrow> u32" where
  "scan_len s m = (case repne_scasb 0 0xffffffff s m of (_, ecx, _) \<Rightarrow> NOT (of_nat ecx) - 1)"

text \<open>\<open>movl ct,%edi; movl %edx,%ecx; repne; scasb\<close>: is the character in the set of \<open>edx\<close> bytes?\<close>

definition in_set :: "u8 \<Rightarrow> u32 \<Rightarrow> u32 \<Rightarrow> memory \<Rightarrow> bool" where
  "in_set al ct edx m = (case repne_scasb al (unat edx) ct m of (_, _, zf) \<Rightarrow> zf)"


section \<open>Copying\<close>

text \<open>\<open>1: lodsb; stosb; testb %al,%al; jne 1b\<close>\<close>

partial_function (option) copy_nul :: "u32 \<Rightarrow> u32 \<Rightarrow> memory \<Rightarrow> memory option" where
  "copy_nul si di m =
     (let al = m si; m = m(di := al) in if al = 0 then Some m else copy_nul (si + 1) (di + 1) m)"

definition strcpy :: "u32 \<Rightarrow> u32 \<Rightarrow> memory \<Rightarrow> (u32 \<times> memory) option" where
  "strcpy dest src m = map_option (Pair dest) (copy_nul src dest m)"

lemma dec_less: "\<not> bit (ecx - 1 :: u32) 31 \<Longrightarrow> unat (ecx - 1) < unat ecx"
proof -
  assume a: "\<not> bit (ecx - 1) 31"
  have "ecx \<noteq> 0" using a by auto
  then show ?thesis by (metis measure_unat)
qed

text \<open>The loop of \<open>strncpy\<close>: \<open>decl %ecx; js 2f; lodsb; stosb; testb; jne 1b; rep stosb\<close>.\<close>

function strncpy_loop :: "u32 \<Rightarrow> u32 \<Rightarrow> u32 \<Rightarrow> memory \<Rightarrow> memory" where
  "strncpy_loop ecx si di m =
     (if bit (ecx - 1) 31 then m
      else
        let al = m si; m = m(di := al) in
          if al \<noteq> 0 then strncpy_loop (ecx - 1) (si + 1) (di + 1) m
          else rep_stosb 0 (unat (ecx - 1)) (di + 1) m)"
  by pat_completeness auto
termination by (relation "measure (\<lambda>(ecx, _). unat ecx)") (auto intro: dec_less)

declare strncpy_loop.simps [simp del]

definition strncpy :: "u32 \<Rightarrow> u32 \<Rightarrow> int \<Rightarrow> memory \<Rightarrow> u32 \<times> memory" where
  "strncpy dest src count m = (dest, strncpy_loop (word_of_int count) src dest m)"

text \<open>\<open>repne scasb; decl %edi\<close> finds the end of \<open>dest\<close>.\<close>

definition end_of :: "u32 \<Rightarrow> memory \<Rightarrow> u32" where
  "end_of dest m = (case repne_scasb 0 0xffffffff dest m of (di, _, _) \<Rightarrow> di - 1)"

definition strcat :: "u32 \<Rightarrow> u32 \<Rightarrow> memory \<Rightarrow> (u32 \<times> memory) option" where
  "strcat dest src m = map_option (Pair dest) (copy_nul src (end_of dest m) m)"

text \<open>The loop of \<open>strncat\<close> ends with \<open>2: xorl %eax,%eax; stosb\<close>.\<close>

function strncat_loop :: "u32 \<Rightarrow> u32 \<Rightarrow> u32 \<Rightarrow> memory \<Rightarrow> memory" where
  "strncat_loop ecx si di m =
     (if bit (ecx - 1) 31 then m(di := 0)
      else
        let al = m si; m = m(di := al) in
          if al \<noteq> 0 then strncat_loop (ecx - 1) (si + 1) (di + 1) m else m(di + 1 := 0))"
  by pat_completeness auto
termination by (relation "measure (\<lambda>(ecx, _). unat ecx)") (auto intro: dec_less)

declare strncat_loop.simps [simp del]

definition strncat :: "u32 \<Rightarrow> u32 \<Rightarrow> int \<Rightarrow> memory \<Rightarrow> u32 \<times> memory" where
  "strncat dest src count m = (dest, strncat_loop (word_of_int count) src (end_of dest m) m)"


section \<open>Comparing\<close>

text \<open>
  \<open>lodsb\<close> loads from \<open>ct\<close>, \<open>scasb\<close> compares with \<open>cs\<close>; \<open>jl\<close> is the comparison of signed
  bytes.
\<close>

definition cmp_result :: "u8 \<Rightarrow> u8 \<Rightarrow> int" where
  "cmp_result al b = (if sint al < sint b then 1 else - 1)"

partial_function (option) strcmp_loop :: "u32 \<Rightarrow> u32 \<Rightarrow> memory \<Rightarrow> int option" where
  "strcmp_loop di si m =
     (let al = m si in
        if al \<noteq> m di then Some (cmp_result al (m di))
        else if al \<noteq> 0 then strcmp_loop (di + 1) (si + 1) m else Some 0)"

definition strcmp :: "u32 \<Rightarrow> u32 \<Rightarrow> memory \<Rightarrow> int option" where
  "strcmp cs ct m = strcmp_loop cs ct m"

function strncmp_loop :: "u32 \<Rightarrow> u32 \<Rightarrow> u32 \<Rightarrow> memory \<Rightarrow> int" where
  "strncmp_loop ecx di si m =
     (if bit (ecx - 1) 31 then 0
      else
        let al = m si in
          if al \<noteq> m di then cmp_result al (m di)
          else if al \<noteq> 0 then strncmp_loop (ecx - 1) (di + 1) (si + 1) m else 0)"
  by pat_completeness auto
termination by (relation "measure (\<lambda>(ecx, _). unat ecx)") (auto intro: dec_less)

declare strncmp_loop.simps [simp del]

definition strncmp :: "u32 \<Rightarrow> u32 \<Rightarrow> int \<Rightarrow> memory \<Rightarrow> int" where
  "strncmp cs ct count m = strncmp_loop (word_of_int count) cs ct m"


section \<open>Searching\<close>

partial_function (option) strchr :: "u32 \<Rightarrow> u8 \<Rightarrow> memory \<Rightarrow> u32 option" where
  "strchr si c m =
     (let al = m si; si = si + 1 in
        if al = c then Some (si - 1) else if al \<noteq> 0 then strchr si c m else Some (1 - 1))"

partial_function (option) strrchr_loop :: "u32 \<Rightarrow> u32 \<Rightarrow> u8 \<Rightarrow> memory \<Rightarrow> u32 option" where
  "strrchr_loop dx si c m =
     (let al = m si; si = si + 1; dx = (if al = c then si - 1 else dx) in
        if al \<noteq> 0 then strrchr_loop dx si c m else Some dx)"

definition strrchr :: "u32 \<Rightarrow> u8 \<Rightarrow> memory \<Rightarrow> u32 option" where
  "strrchr s c m = strrchr_loop 0 s c m"

text \<open>The loops of \<open>strspn\<close> and of \<open>strcspn\<close>: on leaving them, \<open>esi\<close> is behind the last character read.\<close>

partial_function (option) span_loop :: "bool \<Rightarrow> u32 \<Rightarrow> u32 \<Rightarrow> u32 \<Rightarrow> memory \<Rightarrow> (u32 \<times> bool) option" where
  "span_loop while_in ct edx si m =
     (let al = m si; si = si + 1 in
        if al = 0 then Some (si, True)
        else if in_set al ct edx m = while_in then span_loop while_in ct edx si m
        else Some (si, False))"

definition strspn :: "u32 \<Rightarrow> u32 \<Rightarrow> memory \<Rightarrow> int option" where
  "strspn cs ct m =
     map_option (\<lambda>(si, _). sint (si - 1 - cs)) (span_loop True ct (scan_len ct m) cs m)"

definition strcspn :: "u32 \<Rightarrow> u32 \<Rightarrow> memory \<Rightarrow> int option" where
  "strcspn cs ct m =
     map_option (\<lambda>(si, _). sint (si - 1 - cs)) (span_loop False ct (scan_len ct m) cs m)"

definition strpbrk :: "u32 \<Rightarrow> u32 \<Rightarrow> memory \<Rightarrow> u32 option" where
  "strpbrk cs ct m =
     map_option (\<lambda>(si, nul). if nul then 0 else si - 1) (span_loop False ct (scan_len ct m) cs m)"

text \<open>
  \<open>strstr\<close>: \<open>eax\<close> keeps the start of the comparison; after a mismatch the last character
  compared, at \<open>esi - 1\<close>, is tested for the end of \<open>cs\<close>. With an empty \<open>ct\<close> the zero flag
  is the one that \<open>decl %ecx\<close> has set.
\<close>

partial_function (option) strstr_loop :: "u32 \<Rightarrow> u32 \<Rightarrow> u32 \<Rightarrow> memory \<Rightarrow> u32 option" where
  "strstr_loop ct edx si m =
     (case repe_cmpsb True (unat edx) si ct m of (si', _, zf) \<Rightarrow>
        if zf then Some si
        else if m (si' - 1) \<noteq> 0 then strstr_loop ct edx (si + 1) m
        else Some 0)"

definition strstr :: "u32 \<Rightarrow> u32 \<Rightarrow> memory \<Rightarrow> u32 option" where
  "strstr cs ct m = strstr_loop ct (scan_len ct m) cs m"

definition strlen :: "u32 \<Rightarrow> memory \<Rightarrow> int" where
  "strlen s m = sint (scan_len s m)"


section \<open>Tokens\<close>

text \<open>
  \<open>strtok\<close> with its static pointer \<open>___strtok\<close>. The labels of the source: 2 skips the
  separators, 3 runs over the token, 5 ends the string, 6 and 7 finish.
\<close>

definition strtok :: "u32 \<Rightarrow> u32 \<Rightarrow> u32 \<Rightarrow> memory \<Rightarrow> (u32 \<times> u32 \<times> memory) option" where
  "strtok saved s ct m =
     (if s = 0 \<and> saved = 0 then Some (0, 0, m)
      else
        let si = (if s = 0 then saved else s); edx = scan_len ct m in
          if edx = 0 then Some (0, 0, m)
          else
            case span_loop True ct edx si m of
              None \<Rightarrow> None
            | Some (si, True) \<Rightarrow> Some (0, 0, m)
            | Some (si, False) \<Rightarrow>
                let si = si - 1 in
                  if m si = 0 then Some (0, 0, m)
                  else
                    let bx = si in
                      case span_loop False ct edx si m of
                        None \<Rightarrow> None
                      | Some (si, nul) \<Rightarrow>
                          let (si, m) =
                            (if nul \<or> m (si - 1) = 0 then (0, m)
                             else (si - 1 + 1, m(si - 1 := 0)))
                          in if m bx \<noteq> 0 then Some (bx, si, m) else Some (0, 0, m))"


section \<open>Blocks of memory\<close>

definition memcpy :: "u32 \<Rightarrow> u32 \<Rightarrow> int \<Rightarrow> memory \<Rightarrow> u32 \<times> memory" where
  "memcpy dest src n m = (dest, rep_movsb (unat (word_of_int n :: u32)) src dest m)"

definition memmove :: "u32 \<Rightarrow> u32 \<Rightarrow> int \<Rightarrow> memory \<Rightarrow> u32 \<times> memory" where
  "memmove dest src n m =
     (let ecx = unat (word_of_int n :: u32) in
        if dest < src then (dest, rep_movsb ecx src dest m)
        else (dest, rep_movsb_std ecx (src + word_of_int n - 1) (dest + word_of_int n - 1) m))"

text \<open>
  \<open>memcmp\<close> of no bytes tests flags that no instruction of it has set: \<open>zf\<close> and \<open>lt\<close> are the
  zero flag and the condition of \<open>jl\<close> as they were before.
\<close>

definition memcmp :: "bool \<Rightarrow> bool \<Rightarrow> u32 \<Rightarrow> u32 \<Rightarrow> int \<Rightarrow> memory \<Rightarrow> int" where
  "memcmp zf lt cs ct count m =
     (case repe_cmpsb zf (unat (word_of_int count :: u32)) ct cs m of (si, di, zf') \<Rightarrow>
        if zf' then 0
        else if (word_of_int count :: u32) = 0 then (if lt then 1 else - 1)
        else cmp_result (m (si - 1)) (m (di - 1)))"

definition memchr :: "u32 \<Rightarrow> u8 \<Rightarrow> int \<Rightarrow> memory \<Rightarrow> u32" where
  "memchr cs c count m =
     (if (word_of_int count :: u32) = 0 then 0
      else case repne_scasb c (unat (word_of_int count :: u32)) cs m of (di, _, zf) \<Rightarrow>
        (if zf then di else 1) - 1)"

definition memset :: "u32 \<Rightarrow> u8 \<Rightarrow> int \<Rightarrow> memory \<Rightarrow> u32 \<times> memory" where
  "memset s c count m = (s, rep_stosb c (unat (word_of_int count :: u32)) s m)"

end
