(* ===== verification/Str_Props.thy ===== *)
theory Str_Props
  imports Str
begin

unbundle bit_operations_syntax

text \<open>
  The string functions of theory \<open>Str\<close> against strings as lists of bytes: lengths, copies,
  comparison, spans, tokens and the moving of blocks that overlap.
\<close>

section \<open>Strings in memory\<close>

fun str_at :: "memory \<Rightarrow> u32 \<Rightarrow> u8 list \<Rightarrow> bool" where
  "str_at m a [] \<longleftrightarrow> m a = 0"
| "str_at m a (c # cs) \<longleftrightarrow> m a = c \<and> c \<noteq> 0 \<and> str_at m (a + 1) cs"

lemma str_at_cong:
  "(\<And>i. i \<le> length s \<Longrightarrow> m (a + of_nat i) = m' (a + of_nat i)) \<Longrightarrow> str_at m a s = str_at m' a s"
proof (induction s arbitrary: a)
  case Nil
  then show ?case using Nil [of 0] by simp
next
  case (Cons c s)
  have "m a = m' a" using Cons.prems [of 0] by simp
  moreover have "str_at m (a + 1) s = str_at m' (a + 1) s"
  proof (rule Cons.IH)
    fix i assume "i \<le> length s"
    then show "m (a + 1 + of_nat i) = m' (a + 1 + of_nat i)"
      using Cons.prems [of "Suc i"] by (simp add: add.assoc)
  qed
  ultimately show ?case by simp
qed

lemma str_at_append:
  "str_at m a (s @ t) \<longleftrightarrow> (\<forall>i < length s. m (a + of_nat i) = s ! i \<and> s ! i \<noteq> 0) \<and>
     str_at m (a + of_nat (length s)) t"
proof (induction s arbitrary: a)
  case (Cons c s)
  have "(\<forall>i < Suc (length s). m (a + of_nat i) = (c # s) ! i \<and> (c # s) ! i \<noteq> 0) \<longleftrightarrow>
      m a = c \<and> c \<noteq> 0 \<and> (\<forall>i < length s. m (a + 1 + of_nat i) = s ! i \<and> s ! i \<noteq> 0)"
    by (auto simp: less_Suc_eq_0_disj add.assoc)
  then show ?case using Cons by (simp add: add.assoc)
qed simp

lemma str_at_iff:
  "str_at m a s \<longleftrightarrow> (\<forall>i < length s. m (a + of_nat i) = s ! i \<and> s ! i \<noteq> 0) \<and> m (a + of_nat (length s)) = 0"
  using str_at_append [of m a s "[]"] by simp

lemma str_at_unique: "str_at m a s \<Longrightarrow> str_at m a t \<Longrightarrow> s = t"
proof (induction s arbitrary: a t)
  case Nil
  then show ?case by (cases t) auto
next
  case (Cons c s)
  then show ?case by (cases t) auto
qed

lemma str_at_nonzero: "str_at m a s \<Longrightarrow> 0 \<notin> set s"
  by (induction s arbitrary: a) auto

lemma of_nat_inj: "i < 2 ^ 32 \<Longrightarrow> j < 2 ^ 32 \<Longrightarrow> (of_nat i :: u32) = of_nat j \<longleftrightarrow> i = j"
  by (metis unat_of_nat_small)


section \<open>Lengths and sets of characters\<close>

lemma repne_scasb_str:
  "str_at m a s \<Longrightarrow> length s < n \<Longrightarrow>
     repne_scasb 0 n a m = (a + of_nat (length s) + 1, n - length s - 1, True)"
proof (induction s arbitrary: a n)
  case Nil
  then show ?case by (subst repne_scasb.simps) simp
next
  case (Cons c s)
  then have "repne_scasb 0 (n - 1) (a + 1) m =
      (a + 1 + of_nat (length s) + 1, n - 1 - length s - 1, True)"
    by (intro Cons.IH) auto
  then show ?case using Cons.prems by (subst repne_scasb.simps) (auto simp: algebra_simps)
qed

lemma scan_len_str:
  assumes "str_at m a s" and "length s < 2 ^ 32 - 1"
  shows "scan_len a m = of_nat (length s)"
proof -
  have "repne_scasb 0 0xffffffff a m =
      (a + of_nat (length s) + 1, 0xffffffff - length s - 1, True)"
    using assms by (intro repne_scasb_str) auto
  moreover have "(of_nat (0xffffffff - length s - 1) :: u32) = - 2 - of_nat (length s)"
  proof -
    have "(of_nat (0xffffffff - (length s + 1)) :: u32) = of_nat 0xffffffff - of_nat (length s + 1)"
      using assms(2) by (intro of_nat_diff) simp
    then show ?thesis by simp
  qed
  ultimately show ?thesis
    by (simp add: scan_len_def not_eq_complement)
qed

lemma in_set_iff:
  "in_set c ct edx m \<longleftrightarrow> c \<in> (\<lambda>i. m (ct + of_nat i)) ` {..<unat edx}"
proof -
  have "(case repne_scasb c n a m of (_, _, zf) \<Rightarrow> zf) \<longleftrightarrow> (\<exists>i < n. m (a + of_nat i) = c)" for n a
  proof (induction n arbitrary: a)
    case 0
    then show ?case by (subst repne_scasb.simps) simp
  next
    case (Suc n)
    have "(\<exists>i < Suc n. m (a + of_nat i) = c) \<longleftrightarrow> m a = c \<or> (\<exists>i < n. m (a + 1 + of_nat i) = c)"
      by (auto simp: less_Suc_eq_0_disj add.assoc)
    then show ?case using Suc [of "a + 1"] by (subst repne_scasb.simps) auto
  qed
  then show ?thesis by (auto simp: in_set_def)
qed

lemma in_set_str:
  assumes "str_at m ct t" and "length t < 2 ^ 32 - 1"
  shows "in_set c ct (scan_len ct m) m \<longleftrightarrow> c \<in> set t"
proof -
  have "unat (scan_len ct m) = length t"
    using assms by (simp add: scan_len_str unat_of_nat_small)
  moreover have "(\<lambda>i. m (ct + of_nat i)) ` {..<length t} = (!) t ` {..<length t}"
    using assms(1) by (intro image_cong) (auto simp: str_at_iff)
  ultimately show ?thesis by (auto simp: in_set_iff set_conv_nth)
qed

lemma span_loop_str:
  assumes "str_at m a s"
  shows "span_loop w ct edx a m =
    Some (a + of_nat (length (takeWhile (\<lambda>c. in_set c ct edx m = w) s)) + 1,
      takeWhile (\<lambda>c. in_set c ct edx m = w) s = s)"
  using assms
proof (induction s arbitrary: a)
  case Nil
  then show ?case by (subst span_loop.simps) simp
next
  case (Cons c s)
  then show ?case
    by (subst span_loop.simps) (auto simp: Let_def algebra_simps)
qed

lemma sint_of_nat_small: "n < 2 ^ 31 \<Longrightarrow> sint (of_nat n :: u32) = int n"
proof -
  assume "n < 2 ^ 31"
  then have "int n < 2 ^ 31" by (metis of_nat_less_iff of_nat_numeral of_nat_power)
  then show ?thesis by (simp add: signed_of_nat signed_take_bit_int_eq_self)
qed

text \<open>The length of a string.\<close>

theorem strlen_length:
  assumes "str_at m a s" and "length s < 2 ^ 31"
  shows "strlen a m = int (length s)"
  using assms by (simp add: strlen_def scan_len_str sint_of_nat_small)

text \<open>Spans.\<close>

theorem strspn_takeWhile:
  assumes "str_at m cs s" and "str_at m ct t" and "length s < 2 ^ 31" and "length t < 2 ^ 32 - 1"
  shows "strspn cs ct m = Some (int (length (takeWhile (\<lambda>c. c \<in> set t) s))) \<and>
    strcspn cs ct m = Some (int (length (takeWhile (\<lambda>c. c \<notin> set t) s)))"
proof -
  have "length (takeWhile P s) < 2 ^ 31" for P
    using length_takeWhile_le [of P s] assms(3) by linarith
  then show ?thesis
    by (simp add: strspn_def strcspn_def span_loop_str [OF assms(1)] in_set_str [OF assms(2,4)]
        sint_of_nat_small)
qed



section \<open>Copies\<close>

text \<open>Writing a list of bytes from an address on.\<close>

fun write_at :: "u32 \<Rightarrow> u8 list \<Rightarrow> memory \<Rightarrow> memory" where
  "write_at a [] m = m"
| "write_at a (c # cs) m = write_at (a + 1) cs (m(a := c))"

lemma write_at_other:
  "(\<And>i. i < length cs \<Longrightarrow> b \<noteq> a + of_nat i) \<Longrightarrow> write_at a cs m b = m b"
proof (induction cs arbitrary: a m)
  case (Cons c cs)
  have "write_at (a + 1) cs (m(a := c)) b = (m(a := c)) b"
  proof (rule Cons.IH)
    fix i assume "i < length cs"
    then show "b \<noteq> a + 1 + of_nat i" using Cons.prems [of "Suc i"] by (simp add: add.assoc)
  qed
  then show ?case using Cons.prems [of 0] by simp
qed simp

lemma add_of_nat_eq: "i < 2 ^ 32 \<Longrightarrow> j < 2 ^ 32 \<Longrightarrow> a + of_nat i = (a :: u32) + of_nat j \<longleftrightarrow> i = j"
  by (simp add: of_nat_inj)

lemma write_at_nth:
  "length cs \<le> 2 ^ 32 \<Longrightarrow> i < length cs \<Longrightarrow> write_at a cs m (a + of_nat i) = cs ! i"
proof (induction cs arbitrary: a m i)
  case (Cons c cs)
  show ?case
  proof (cases i)
    case 0
    have "write_at (a + 1) cs (m(a := c)) a = (m(a := c)) a"
    proof (rule write_at_other)
      fix j assume "j < length cs"
      then show "a \<noteq> a + 1 + of_nat j"
        using add_of_nat_eq [of 0 "Suc j" a] Cons.prems(1) by (simp add: add.assoc)
    qed
    then show ?thesis using 0 by simp
  next
    case (Suc j)
    then show ?thesis using Cons.IH [of j "a + 1"] Cons.prems by (simp add: add.assoc)
  qed
qed simp

lemma write_at_str:
  assumes "0 \<notin> set s" and "length s < 2 ^ 32"
  shows "str_at (write_at a (s @ [0]) m) a s"
proof -
  have n: "write_at a (s @ [0]) m (a + of_nat i) = (s @ [0]) ! i" if "i \<le> length s" for i
    using that assms(2) by (intro write_at_nth) auto
  show ?thesis
    unfolding str_at_iff
    using n [of "length s"] n assms(1) by (auto simp: nth_append dest: nth_mem)
qed

text \<open>Source and destination do not meet.\<close>

definition apart :: "u32 \<Rightarrow> nat \<Rightarrow> u32 \<Rightarrow> nat \<Rightarrow> bool" where
  "apart a n b k \<longleftrightarrow> (\<forall>i < n. \<forall>j < k. a + of_nat i \<noteq> b + of_nat j)"

lemma apartD: "apart a n b k \<Longrightarrow> i < n \<Longrightarrow> j < k \<Longrightarrow> a + of_nat i \<noteq> b + of_nat j"
  by (simp add: apart_def)

lemma apart_Suc:
  assumes "apart a (Suc n) b (Suc k)"
  shows "apart (a + 1) n (b + 1) k"
  unfolding apart_def
proof (intro allI impI)
  fix i j assume "i < n" "j < k"
  then show "a + 1 + of_nat i \<noteq> b + 1 + of_nat j"
    using apartD [OF assms, of "Suc i" "Suc j"] by (simp add: add.assoc)
qed

lemma copy_nul_str:
  "str_at m a s \<Longrightarrow> apart a (Suc (length s)) b (Suc (length s)) \<Longrightarrow>
     copy_nul a b m = Some (write_at b (s @ [0]) m)"
proof (induction s arbitrary: a b m)
  case Nil
  then show ?case by (subst copy_nul.simps) simp
next
  case (Cons c s)
  have "str_at (m(b := c)) (a + 1) s = str_at m (a + 1) s"
  proof (rule str_at_cong)
    fix i assume "i \<le> length s"
    then have "a + of_nat (Suc i) \<noteq> b + of_nat 0"
      by (intro apartD [OF Cons.prems(2)]) auto
    then show "(m(b := c)) (a + 1 + of_nat i) = m (a + 1 + of_nat i)" by (simp add: add.assoc)
  qed
  then have "copy_nul (a + 1) (b + 1) (m(b := c)) = Some (write_at (b + 1) (s @ [0]) (m(b := c)))"
    using Cons.prems(1) apart_Suc Cons.prems(2)
    by (intro Cons.IH) (simp_all del: fun_upd_apply)
  then show ?case using Cons.prems(1) by (subst copy_nul.simps) (auto simp: Let_def)
qed

text \<open>\<open>strcpy\<close>.\<close>

theorem strcpy_copies:
  assumes "str_at m src s" and "apart src (Suc (length s)) dest (Suc (length s))" and "length s < 2 ^ 32"
  shows "\<exists>m'. strcpy dest src m = Some (dest, m') \<and> str_at m' dest s \<and>
    (\<forall>a. (\<forall>i \<le> length s. a \<noteq> dest + of_nat i) \<longrightarrow> m' a = m a)"
proof -
  let ?m = "write_at dest (s @ [0]) m"
  have "strcpy dest src m = Some (dest, ?m)"
    using copy_nul_str [OF assms(1,2)] by (simp add: strcpy_def)
  moreover have "str_at ?m dest s"
    using str_at_nonzero [OF assms(1)] assms(3) by (rule write_at_str)
  moreover have "?m a = m a" if "\<forall>i \<le> length s. a \<noteq> dest + of_nat i" for a
    using that by (intro write_at_other) auto
  ultimately show ?thesis by blast
qed

lemma end_of_str:
  "str_at m a s \<Longrightarrow> length s < 2 ^ 32 - 1 \<Longrightarrow> end_of a m = a + of_nat (length s)"
  using repne_scasb_str [where n = "0xffffffff"] by (simp add: end_of_def)

text \<open>\<open>strcat\<close>.\<close>

theorem strcat_appends:
  assumes "str_at m dest s" and "str_at m src t"
    and "apart src (Suc (length t)) (dest + of_nat (length s)) (Suc (length t))"
    and "length s + length t < 2 ^ 32 - 1"
  shows "\<exists>m'. strcat dest src m = Some (dest, m') \<and> str_at m' dest (s @ t)"
proof -
  let ?e = "dest + of_nat (length s)"
  let ?m = "write_at ?e (t @ [0]) m"
  have "strcat dest src m = Some (dest, ?m)"
    using copy_nul_str [OF assms(2,3)] end_of_str [OF assms(1)] assms(4) by (simp add: strcat_def)
  moreover have "str_at ?m ?e t"
    using str_at_nonzero [OF assms(2)] assms(4) by (intro write_at_str) auto
  moreover have "?m (dest + of_nat i) = s ! i \<and> s ! i \<noteq> 0" if "i < length s" for i
  proof -
    have "?m (dest + of_nat i) = m (dest + of_nat i)"
    proof (rule write_at_other)
      fix j assume "j < length (t @ [0])"
      then show "dest + of_nat i \<noteq> ?e + of_nat j"
        using add_of_nat_eq [of i "length s + j" dest] that assms(4) by (simp add: add.assoc)
    qed
    then show ?thesis using assms(1) that by (simp add: str_at_iff)
  qed
  ultimately show ?thesis by (simp add: str_at_append)
qed



section \<open>Comparison\<close>

text \<open>
  The order of \<open>strcmp\<close>: the first difference decides, bytes compared as signed numbers, the
  NUL at the end included.
\<close>

definition str_less :: "u8 list \<Rightarrow> u8 list \<Rightarrow> bool" where
  "str_less s t \<longleftrightarrow> (s @ [0], t @ [0]) \<in> lexord {(a, b). sint a < sint b}"

lemma str_less_simps:
  "str_less (a # s) (b # t) \<longleftrightarrow> sint a < sint b \<or> a = b \<and> str_less s t"
  "b \<noteq> 0 \<Longrightarrow> str_less [] (b # t) \<longleftrightarrow> 0 < sint b"
  "a \<noteq> 0 \<Longrightarrow> str_less (a # s) [] \<longleftrightarrow> sint a < 0"
  "\<not> str_less [] []"
  by (auto simp: str_less_def)

lemma strcmp_loop_str:
  "str_at m cs s \<Longrightarrow> str_at m ct t \<Longrightarrow>
     strcmp_loop cs ct m = Some (if s = t then 0 else if str_less s t then - 1 else 1)"
proof (induction s arbitrary: t cs ct)
  case Nil
  show ?case
  proof (cases t)
    case Nil
    then show ?thesis using Nil.prems by (subst strcmp_loop.simps) simp
  next
    case (Cons b t')
    then have "m cs = 0" "m ct = b" "b \<noteq> 0" using Nil.prems by auto
    moreover have "sint b \<noteq> 0" using \<open>b \<noteq> 0\<close> by (metis signed_0 signed_word_eqI)
    ultimately show ?thesis using Cons
      by (subst strcmp_loop.simps) (auto simp: Let_def cmp_result_def str_less_simps)
  qed
next
  case (Cons a s')
  show ?case
  proof (cases t)
    case Nil
    then have "m ct = 0" "m cs = a" "a \<noteq> 0" using Cons.prems by auto
    moreover have "sint a \<noteq> 0" using \<open>a \<noteq> 0\<close> by (metis signed_0 signed_word_eqI)
    ultimately show ?thesis using Nil
      by (subst strcmp_loop.simps) (auto simp: Let_def cmp_result_def str_less_simps)
  next
    case (Cons b t')
    then have ab: "m cs = a" "m ct = b" "a \<noteq> 0" "b \<noteq> 0" "str_at m (cs + 1) s'" "str_at m (ct + 1) t'"
      using Cons.prems by auto
    show ?thesis
    proof (cases "a = b")
      case True
      have "strcmp_loop (cs + 1) (ct + 1) m = Some (if s' = t' then 0 else if str_less s' t' then - 1 else 1)"
        using ab by (intro Cons.IH)
      then show ?thesis using ab True Cons
        by (subst strcmp_loop.simps) (simp add: Let_def str_less_simps)
    next
      case False
      then have "sint a \<noteq> sint b" by (metis signed_word_eqI)
      then show ?thesis using ab False Cons
        by (subst strcmp_loop.simps) (auto simp: Let_def cmp_result_def str_less_simps)
    qed
  qed
qed

text \<open>\<open>strcmp\<close>.\<close>

theorem strcmp_order:
  assumes "str_at m cs s" and "str_at m ct t"
  shows "strcmp cs ct m = Some (if s = t then 0 else if str_less s t then - 1 else 1)"
  unfolding strcmp_def using assms by (rule strcmp_loop_str)


section \<open>Bounded copies\<close>

lemma rep_stosb_write: "rep_stosb c n a m = write_at a (replicate n c) m"
  by (induction n arbitrary: a m) simp_all

text \<open>The first \<open>n\<close> bytes of the string and of the zeroes behind it.\<close>

definition padded :: "nat \<Rightarrow> u8 list \<Rightarrow> u8 list" where
  "padded n s = take n s @ replicate (n - length s) 0"

lemma length_padded [simp]: "length (padded n s) = n"
  by (simp add: padded_def)

lemma unat_of_int_small: "0 \<le> n \<Longrightarrow> n < 2 ^ 32 \<Longrightarrow> unat (word_of_int n :: u32) = nat n"
  by (simp add: unsigned_of_int take_bit_int_eq_self)

lemma unat_Suc_dec: "(x :: u32) \<noteq> 0 \<Longrightarrow> unat x = Suc (unat (x - 1))"
  using unat_minus_one [of x] unat_gt_0 [of x] by linarith

lemma bit_minus_1: "unat (ecx :: u32) \<le> 2 ^ 31 \<Longrightarrow> bit (ecx - 1) 31 \<longleftrightarrow> ecx = 0"
proof -
  assume a: "unat ecx \<le> 2 ^ 31"
  show ?thesis
  proof (cases "ecx = 0")
    case False
    then have u: "unat (ecx - 1) < 2 ^ 31" using a measure_unat [OF False] by simp
    have "bit (ecx - 1) 31 \<longleftrightarrow> bit (unat (ecx - 1)) 31" by (simp add: bit_unsigned_iff)
    also have "\<dots> \<longleftrightarrow> odd (unat (ecx - 1) div 2 ^ 31)" by (rule bit_iff_odd)
    finally have "\<not> bit (ecx - 1) 31" using u by simp
    then show ?thesis using False by simp
  qed simp
qed

lemma strncpy_loop_str:
  "str_at m si s \<Longrightarrow> unat ecx \<le> 2 ^ 31 \<Longrightarrow> apart si (Suc (length s)) di (unat ecx) \<Longrightarrow>
     strncpy_loop ecx si di m = write_at di (padded (unat ecx) s) m"
proof (induction ecx si di m arbitrary: s rule: strncpy_loop.induct)
  case (1 ecx si di m)
  show ?case
  proof (cases "ecx = 0")
    case True
    then show ?thesis by (subst strncpy_loop.simps) (simp add: padded_def)
  next
    case False
    then have nb: "\<not> bit (ecx - 1) 31" using bit_minus_1 "1.prems"(2) by blast
    have u: "unat ecx = Suc (unat (ecx - 1))" using False by (rule unat_Suc_dec)
    show ?thesis
    proof (cases s)
      case Nil
      then have "m si = 0" using "1.prems" by simp
      then show ?thesis using nb Nil u
        by (subst strncpy_loop.simps) (simp add: Let_def padded_def rep_stosb_write)
    next
      case (Cons c s')
      then have c: "m si = c" "c \<noteq> 0" "str_at m (si + 1) s'" using "1.prems" by auto
      have "str_at (m(di := c)) (si + 1) s' = str_at m (si + 1) s'"
      proof (rule str_at_cong)
        fix i assume "i \<le> length s'"
        then have "si + of_nat (Suc i) \<noteq> di + of_nat 0"
          using Cons u by (intro apartD [OF "1.prems"(3)]) auto
        then show "(m(di := c)) (si + 1 + of_nat i) = m (si + 1 + of_nat i)" by (simp add: add.assoc)
      qed
      moreover have "apart (si + 1) (Suc (length s')) (di + 1) (unat (ecx - 1))"
        using "1.prems"(3) Cons u apart_Suc by simp
      ultimately have "strncpy_loop (ecx - 1) (si + 1) (di + 1) (m(di := c)) =
          write_at (di + 1) (padded (unat (ecx - 1)) s') (m(di := c))"
        using "1.IH" [OF nb refl refl] c u "1.prems"(2) by (simp del: fun_upd_apply)
      then show ?thesis using nb c Cons u
        by (subst strncpy_loop.simps) (simp add: Let_def padded_def del: fun_upd_apply)
    qed
  qed
qed

text \<open>\<open>strncpy\<close>.\<close>

theorem strncpy_pads:
  assumes "str_at m src s" and "0 \<le> n" and "n < 2 ^ 31" and "apart src (Suc (length s)) dest (nat n)"
  shows "\<exists>m'. strncpy dest src n m = (dest, m') \<and>
    (\<forall>i < nat n. m' (dest + of_nat i) = (if i < length s then s ! i else 0)) \<and>
    (\<forall>a. (\<forall>i < nat n. a \<noteq> dest + of_nat i) \<longrightarrow> m' a = m a)"
proof -
  have u: "unat (word_of_int n :: u32) = nat n"
    using assms(2,3) by (simp add: unat_of_int_small)
  let ?m = "write_at dest (padded (nat n) s) m"
  have "strncpy dest src n m = (dest, ?m)"
    using strncpy_loop_str [OF assms(1), of "word_of_int n" dest] assms(3,4)
    unfolding strncpy_def u by simp
  moreover have "?m (dest + of_nat i) = (if i < length s then s ! i else 0)" if "i < nat n" for i
  proof -
    have "?m (dest + of_nat i) = padded (nat n) s ! i"
      using that assms(3) by (intro write_at_nth) auto
    then show ?thesis using that by (simp add: padded_def nth_append)
  qed
  moreover have "?m a = m a" if "\<forall>i < nat n. a \<noteq> dest + of_nat i" for a
    using that by (intro write_at_other) auto
  ultimately show ?thesis by blast
qed

text \<open>
  \<open>strncat\<close> of a short string writes one byte too many: a second NUL behind the first.
\<close>

lemma strncat_loop_str:
  "str_at m si s \<Longrightarrow> length s < unat ecx \<Longrightarrow> unat ecx \<le> 2 ^ 31 \<Longrightarrow> apart si (Suc (length s)) di (Suc (length s)) \<Longrightarrow>
     strncat_loop ecx si di m = write_at di (s @ [0, 0]) m"
proof (induction s arbitrary: ecx si di m)
  case Nil
  then have nb: "\<not> bit (ecx - 1) 31" using bit_minus_1 [of ecx] by auto
  then show ?case using Nil by (subst strncat_loop.simps) (simp add: Let_def)
next
  case (Cons c s)
  have nz: "ecx \<noteq> 0" using Cons.prems(2) by auto
  then have nb: "\<not> bit (ecx - 1) 31" using bit_minus_1 Cons.prems(3) by blast
  have u: "unat ecx = Suc (unat (ecx - 1))" using nz by (rule unat_Suc_dec)
  have c: "m si = c" "c \<noteq> 0" "str_at m (si + 1) s" using Cons.prems by auto
  have "str_at (m(di := c)) (si + 1) s = str_at m (si + 1) s"
  proof (rule str_at_cong)
    fix i assume "i \<le> length s"
    then have "si + of_nat (Suc i) \<noteq> di + of_nat 0" by (intro apartD [OF Cons.prems(4)]) auto
    then show "(m(di := c)) (si + 1 + of_nat i) = m (si + 1 + of_nat i)" by (simp add: add.assoc)
  qed
  then have "strncat_loop (ecx - 1) (si + 1) (di + 1) (m(di := c)) = write_at (di + 1) (s @ [0, 0]) (m(di := c))"
    using c u Cons.prems(2-4) apart_Suc by (intro Cons.IH) (simp_all del: fun_upd_apply)
  then show ?case using nb c
    by (subst strncat_loop.simps) (simp add: Let_def del: fun_upd_apply)
qed

text \<open>
  strncat of a text that is shorter than the count writes a second NUL, one byte behind
  the end of the result.
\<close>

theorem strncat_second_nul:
  assumes "str_at m dest s" and "str_at m src t" and "int (length t) < n" and "n < 2 ^ 31"
    and "apart src (Suc (length t)) (dest + of_nat (length s)) (Suc (length t))"
    and "length s < 2 ^ 32 - 1"
  shows "snd (strncat dest src n m) =
    (write_at (dest + of_nat (length s)) (t @ [0]) m)(dest + of_nat (length s + length t + 1) := 0)"
proof -
  have u: "unat (word_of_int n :: u32) = nat n" using assms(3,4) by (simp add: unat_of_int_small)
  have w: "write_at a (t @ [0, 0]) m = (write_at a (t @ [0]) m)(a + of_nat (length t + 1) := 0)" for a m
    by (induction t arbitrary: a m) (simp_all add: add.assoc)
  have "strncat_loop (word_of_int n) src (dest + of_nat (length s)) m =
      write_at (dest + of_nat (length s)) (t @ [0, 0]) m"
    using assms(3,4) u by (intro strncat_loop_str [OF assms(2) _ _ assms(5)]) auto
  then show ?thesis
    using end_of_str [OF assms(1,6)] by (simp add: strncat_def w ac_simps)
qed



section \<open>Searching a string\<close>

fun find_at :: "'a list \<Rightarrow> 'a list \<Rightarrow> nat option" where
  "find_at t s =
     (if take (length t) s = t then Some 0
      else case s of [] \<Rightarrow> None | _ # s' \<Rightarrow> map_option Suc (find_at t s'))"

declare find_at.simps [simp del]

lemma find_at_Nil: "find_at t [] = (if t = [] then Some 0 else None)"
  by (subst find_at.simps) auto

lemma find_at_Cons:
  "find_at t (c # s) = (if take (length t) (c # s) = t then Some 0 else map_option Suc (find_at t s))"
  by (subst find_at.simps) simp

lemma find_at_short: "length s < length t \<Longrightarrow> find_at t s = None"
proof (induction s)
  case Nil
  then show ?case by (auto simp: find_at_Nil)
next
  case (Cons c s)
  have "take (length t) (c # s) \<noteq> t"
  proof
    assume "take (length t) (c # s) = t"
    then have "length (take (length t) (c # s)) = length t" by (rule arg_cong)
    then show False using Cons.prems by simp
  qed
  then show ?case using Cons by (simp add: find_at_Cons)
qed

text \<open>What the search finds: the first place where \<open>t\<close> stands.\<close>

lemma find_at_Some: "find_at t s = Some i \<Longrightarrow> i \<le> length s \<and> take (length t) (drop i s) = t \<and>
    (\<forall>j < i. take (length t) (drop j s) \<noteq> t)"
proof (induction s arbitrary: i)
  case Nil
  then show ?case by (simp add: find_at_Nil split: if_split_asm)
next
  case (Cons c s)
  show ?case
  proof (cases "take (length t) (c # s) = t")
    case True
    then have "i = 0" using Cons.prems by (simp add: find_at_Cons)
    then show ?thesis using True by simp
  next
    case False
    then obtain k where k: "find_at t s = Some k" "i = Suc k"
      using Cons.prems by (auto simp: find_at_Cons)
    have "take (length t) (drop j (c # s)) \<noteq> t" if "j < i" for j
      using that Cons.IH [OF k(1)] False k(2) by (cases j) auto
    then show ?thesis using Cons.IH [OF k(1)] k(2) by simp
  qed
qed

lemma find_at_None: "find_at t s = None \<Longrightarrow> i \<le> length s \<Longrightarrow> take (length t) (drop i s) \<noteq> t"
proof (induction s arbitrary: i)
  case Nil
  then show ?case by (simp add: find_at_Nil split: if_split_asm)
next
  case (Cons c s)
  then have n: "take (length t) (c # s) \<noteq> t" "find_at t s = None"
    by (simp_all add: find_at_Cons split: if_split_asm)
  show ?case using n Cons.IH [OF n(2)] Cons.prems(2) by (cases i) auto
qed

lemma repe_cmpsb_str:
  "str_at m si s \<Longrightarrow> str_at m di t \<Longrightarrow> t = [] \<longrightarrow> z \<Longrightarrow>
     repe_cmpsb z (length t) si di m = (si', di', zf) \<Longrightarrow>
     zf = (take (length t) s = t) \<and> (\<not> zf \<and> m (si' - 1) = 0 \<longrightarrow> length s < length t)"
proof (induction t arbitrary: s si di z)
  case Nil
  then show ?case by (subst (asm) repe_cmpsb.simps) simp
next
  case (Cons c t)
  have c: "m di = c" "c \<noteq> 0" "str_at m (di + 1) t" using Cons.prems by auto
  have run: "(if m si = c then repe_cmpsb True (length t) (si + 1) (di + 1) m else (si + 1, di + 1, False)) =
      (si', di', zf)"
    using Cons.prems(4) c(1) by (subst (asm) repe_cmpsb.simps) (simp split: if_split_asm)
  show ?case
  proof (cases s)
    case Nil
    then have "m si \<noteq> c" using Cons.prems(1) c(2) by auto
    then show ?thesis using run Nil by simp
  next
    case (Cons a s')
    then have a: "m si = a" "a \<noteq> 0" "str_at m (si + 1) s'" using Cons.prems(1) by auto
    show ?thesis
    proof (cases "a = c")
      case True
      then have r: "repe_cmpsb True (length t) (si + 1) (di + 1) m = (si', di', zf)" using run a by simp
      have "zf = (take (length t) s' = t) \<and> (\<not> zf \<and> m (si' - 1) = 0 \<longrightarrow> length s' < length t)"
        by (rule Cons.IH [OF a(3) c(3) _ r]) simp
      then show ?thesis using Cons True by simp
    next
      case False
      then show ?thesis using run a Cons by auto
    qed
  qed
qed

lemma strstr_loop_str:
  assumes "str_at m ct t" and "length t < 2 ^ 32"
  shows "str_at m a s \<Longrightarrow> strstr_loop ct (of_nat (length t)) a m =
    Some (case find_at t s of None \<Rightarrow> 0 | Some i \<Rightarrow> a + of_nat i)"
proof (induction s arbitrary: a)
  case Nil
  obtain si di zf where r: "repe_cmpsb True (length t) a ct m = (si, di, zf)" by (metis prod_cases3)
  note p = repe_cmpsb_str [OF Nil assms(1) _ r]
  have u: "unat (of_nat (length t) :: u32) = length t" using assms(2) by (rule unat_of_nat_small)
  show ?case
  proof (cases "t = []")
    case True
    then show ?thesis using p r u by (subst strstr_loop.simps) (simp add: find_at_Nil find_at_Cons)
  next
    case False
    have "zf = False" using p False by simp
    moreover have "m (si - 1) = 0"
      using r Nil assms(1) False by (cases t) (auto simp: repe_cmpsb.simps split: if_split_asm)
    ultimately show ?thesis using r u False by (subst strstr_loop.simps) (simp add: find_at_Nil find_at_Cons)
  qed
next
  case (Cons c s)
  obtain si di zf where r: "repe_cmpsb True (length t) a ct m = (si, di, zf)" by (metis prod_cases3)
  have p: "zf = (take (length t) (c # s) = t)"
      "\<not> zf \<and> m (si - 1) = 0 \<longrightarrow> length (c # s) < length t"
    using repe_cmpsb_str [OF Cons.prems assms(1) _ r] by simp_all
  have u: "unat (of_nat (length t) :: u32) = length t" using assms(2) by (rule unat_of_nat_small)
  have IH: "strstr_loop ct (of_nat (length t)) (a + 1) m =
      Some (case find_at t s of None \<Rightarrow> 0 | Some i \<Rightarrow> a + 1 + of_nat i)"
    using Cons.prems by (intro Cons.IH) simp
  show ?case
  proof (cases zf)
    case True
    then show ?thesis using p(1) r u by (subst strstr_loop.simps) (simp add: find_at_Nil find_at_Cons)
  next
    case False
    show ?thesis
    proof (cases "m (si - 1) = 0")
      case True
      then have "find_at t (c # s) = None" using p(2) False by (intro find_at_short) simp
      then show ?thesis using True False r u by (subst strstr_loop.simps) simp
    next
      case nz: False
      have "find_at t (c # s) = map_option Suc (find_at t s)"
        using False p(1) by (simp add: find_at_Cons)
      then show ?thesis using nz False r u IH
        by (subst strstr_loop.simps) (simp add: add.assoc split: option.split)
    qed
  qed
qed

text \<open>\<open>strstr\<close>.\<close>

theorem strstr_first:
  assumes "str_at m cs s" and "str_at m ct t" and "length t < 2 ^ 32 - 1"
  shows "\<exists>p. strstr cs ct m = Some p \<and>
    ((\<exists>i \<le> length s. p = cs + of_nat i \<and> take (length t) (drop i s) = t \<and>
        (\<forall>j < i. take (length t) (drop j s) \<noteq> t)) \<or>
     p = 0 \<and> (\<forall>i \<le> length s. take (length t) (drop i s) \<noteq> t))"
proof -
  have run: "strstr cs ct m = Some (case find_at t s of None \<Rightarrow> 0 | Some i \<Rightarrow> cs + of_nat i)"
    using strstr_loop_str [OF assms(2) _ assms(1)] assms(3)
    by (simp add: strstr_def scan_len_str [OF assms(2,3)])
  show ?thesis
  proof (cases "find_at t s")
    case None
    then show ?thesis using run find_at_None by fastforce
  next
    case (Some i)
    then show ?thesis using run find_at_Some [OF Some] by fastforce
  qed
qed



section \<open>Tokens\<close>

text \<open>
  \<open>strtok\<close> returns the next token as a string and remembers where to go on, or returns 0
  when only separators are left.
\<close>

theorem strtok_next:
  assumes "a = (if p = 0 then saved else p)" and "a \<noteq> 0" and str: "str_at m a s" "str_at m ct t"
    and "t \<noteq> []" and len: "length s < 2 ^ 32 - 1" "length t < 2 ^ 32 - 1"
    and k: "k = length (takeWhile (\<lambda>c. c \<in> set t) s)" and rest: "rest = dropWhile (\<lambda>c. c \<in> set t) s"
    and tok: "tok = takeWhile (\<lambda>c. c \<notin> set t) rest" and more: "more = dropWhile (\<lambda>c. c \<notin> set t) rest"
  shows "if rest = [] then strtok saved p ct m = Some (0, 0, m)
    else \<exists>sv m'. strtok saved p ct m = Some (a + of_nat k, sv, m') \<and> str_at m' (a + of_nat k) tok \<and>
      (if more = [] then sv = 0 \<and> m' = m
       else sv = a + of_nat (k + length tok + 1) \<and> str_at m' sv (tl more))"
proof -
  define e where "e = scan_len ct m"
  have e: "e \<noteq> 0"
    using scan_len_str [OF str(2) len(2)] assms(5) len(2) of_nat_inj [of "length t" 0] by (simp add: e_def)
  have nn: "\<not> (p = 0 \<and> saved = 0)" using assms(1,2) by auto
  have start: "strtok saved p ct m = (case span_loop True ct e a m of
      None \<Rightarrow> None
    | Some (si, True) \<Rightarrow> Some (0, 0, m)
    | Some (si, False) \<Rightarrow>
        (if m (si - 1) = 0 then Some (0, 0, m)
         else case span_loop False ct e (si - 1) m of
           None \<Rightarrow> None
         | Some (si', nul) \<Rightarrow>
             (let (sv, m') = (if nul \<or> m (si' - 1) = 0 then (0, m) else (si' - 1 + 1, m(si' - 1 := 0)))
              in if m' (si - 1) \<noteq> 0 then Some (si - 1, sv, m') else Some (0, 0, m'))))"
    unfolding strtok_def e_def [symmetric] assms(1) if_not_P [OF nn] if_not_P [OF e] Let_def ..
  have skip: "span_loop True ct e a m = Some (a + of_nat k + 1, rest = [])"
  proof -
    have "takeWhile (\<lambda>c. c \<in> set t) s = s \<longleftrightarrow> rest = []"
      unfolding rest by (metis append_Nil2 append_same_eq self_append_conv takeWhile_dropWhile_id)
    then show ?thesis
      using span_loop_str [OF str(1), of True ct e] by (simp add: e_def in_set_str [OF str(2) len(2)] k)
  qed
  show ?thesis
  proof (cases "rest = []")
    case True
    then show ?thesis unfolding start skip by simp
  next
    case False
    have s: "s = takeWhile (\<lambda>c. c \<in> set t) s @ rest" unfolding rest by simp
    have sr: "str_at m (a + of_nat k) rest"
      using str(1) unfolding k by (subst (asm) s, subst (asm) str_at_append) blast
    have lr: "k + length rest < 2 ^ 32 - 1"
      using len(1) unfolding k by (subst (asm) s) (simp only: length_append)
    obtain c cs where rc: "rest = c # cs" using False by (cases rest) auto
    have c: "c \<notin> set t" using hd_dropWhile [of "\<lambda>c. c \<in> set t" s] False rc unfolding rest by simp
    have mc: "m (a + of_nat k) \<noteq> 0" using sr rc by simp
    have r: "rest = tok @ more" unfolding tok more by simp
    have tc: "tok \<noteq> []" unfolding tok rc using c by simp
    have run: "span_loop False ct e (a + of_nat k) m = Some (a + of_nat k + of_nat (length tok) + 1, more = [])"
    proof -
      have "tok = rest \<longleftrightarrow> more = []" using r by auto
      then show ?thesis
        using span_loop_str [OF sr, of False ct e] by (simp add: e_def in_set_str [OF str(2) len(2)] tok)
    qed
    let ?x = "a + of_nat k + of_nat (length tok)"
    have str_tok: "(\<forall>i < length tok. m (a + of_nat k + of_nat i) = tok ! i \<and> tok ! i \<noteq> 0)" "str_at m ?x more"
      using sr unfolding r str_at_append by blast+
    show ?thesis
    proof (cases "more = []")
      case True
      then have "tok = rest" using r by simp
      then show ?thesis
        using False True skip run mc sr unfolding start by simp
    next
      case more: False
      then obtain d ds where d: "more = d # ds" by (cases more) auto
      have md: "m ?x \<noteq> 0" using str_tok(2) d by simp
      have ne: "a + of_nat k + of_nat i \<noteq> ?x" if "i < length tok" for i
      proof -
        have "length tok < 2 ^ 32" using lr unfolding r by simp
        then show ?thesis using that of_nat_inj [of i "length tok"] by simp
      qed
      have ne0: "a + of_nat k \<noteq> ?x" using ne [of 0] tc by simp
      let ?m = "m(?x := 0)"
      have "str_at ?m (a + of_nat k) tok"
        unfolding str_at_iff using str_tok(1) ne by (auto simp: str_at_iff)
      moreover have "str_at ?m (?x + 1) ds"
      proof -
        have "str_at ?m (?x + 1) ds = str_at m (?x + 1) ds"
        proof (rule str_at_cong)
          fix i assume "i \<le> length ds"
          then have "Suc i < 2 ^ 32" using lr unfolding r d by simp
          then have "?x + of_nat (Suc i) \<noteq> ?x + of_nat 0"
            using of_nat_inj [of "Suc i" 0] by (simp del: of_nat_Suc)
          then show "?m (?x + 1 + of_nat i) = m (?x + 1 + of_nat i)" by (simp add: add.assoc)
        qed
        then show ?thesis using str_tok(2) d by simp
      qed
      moreover have "strtok saved p ct m = Some (a + of_nat k, ?x + 1, ?m)"
        using False more skip run mc md ne0 unfolding start by simp
      moreover have "?x + 1 = a + of_nat (k + length tok + 1)" by simp
      moreover have "tl more = ds" using d by simp
      ultimately show ?thesis
        unfolding if_not_P [OF False] if_not_P [OF more] by metis
    qed
  qed
qed



section \<open>Blocks that overlap\<close>

text \<open>
  A byte written must not be one that is still to be read. \<open>f\<close> and \<open>g\<close> are the addresses
  read and written, in the order of the steps.
\<close>

lemma rep_movsb_spec:
  "n \<le> 2 ^ 32 \<Longrightarrow> (\<And>i j. i < j \<Longrightarrow> j < n \<Longrightarrow> di + of_nat i \<noteq> si + of_nat j) \<Longrightarrow>
     (\<forall>i < n. rep_movsb n si di m (di + of_nat i) = m (si + of_nat i)) \<and>
     (\<forall>a. (\<forall>i < n. a \<noteq> di + of_nat i) \<longrightarrow> rep_movsb n si di m a = m a)"
proof (induction n arbitrary: si di m)
  case (Suc n)
  let ?m = "m(di := m si)"
  have IH: "(\<forall>i < n. rep_movsb n (si + 1) (di + 1) ?m (di + 1 + of_nat i) = ?m (si + 1 + of_nat i)) \<and>
     (\<forall>a. (\<forall>i < n. a \<noteq> di + 1 + of_nat i) \<longrightarrow> rep_movsb n (si + 1) (di + 1) ?m a = ?m a)"
  proof (rule Suc.IH)
    show "n \<le> 2 ^ 32" using Suc.prems(1) by simp
    show "di + 1 + of_nat i \<noteq> si + 1 + of_nat j" if "i < j" "j < n" for i j
      using Suc.prems(2) [of "Suc i" "Suc j"] that by (simp add: add.assoc)
  qed
  have away: "si + 1 + of_nat i \<noteq> di" if "i < n" for i
    using Suc.prems(2) [of 0 "Suc i"] that by (auto simp: add.assoc)
  have self: "di \<noteq> di + 1 + of_nat i" if "i < n" for i
    using of_nat_inj [of "Suc i" 0] that Suc.prems(1) by (simp add: add.assoc)
  show ?case
  proof (intro conjI allI impI)
    fix i assume i: "i < Suc n"
    show "rep_movsb (Suc n) si di m (di + of_nat i) = m (si + of_nat i)"
    proof (cases i)
      case 0
      have "rep_movsb n (si + 1) (di + 1) ?m di = ?m di" using IH self by blast
      then show ?thesis using 0 by simp
    next
      case (Suc j)
      then have "rep_movsb n (si + 1) (di + 1) ?m (di + 1 + of_nat j) = ?m (si + 1 + of_nat j)"
        using IH i by simp
      then show ?thesis using Suc i away [of j] by (simp add: add.assoc)
    qed
  next
    fix a assume a: "\<forall>i < Suc n. a \<noteq> di + of_nat i"
    have "\<forall>i < n. a \<noteq> di + 1 + of_nat i"
      using a by (metis Suc_less_eq add.assoc of_nat_Suc)
    moreover have "a \<noteq> di" using a [rule_format, of 0] by simp
    ultimately show "rep_movsb (Suc n) si di m a = m a" using IH by simp
  qed
qed simp

lemma rep_movsb_std_spec:
  "n \<le> 2 ^ 32 \<Longrightarrow> (\<And>i j. i < j \<Longrightarrow> j < n \<Longrightarrow> di - of_nat i \<noteq> si - of_nat j) \<Longrightarrow>
     (\<forall>i < n. rep_movsb_std n si di m (di - of_nat i) = m (si - of_nat i)) \<and>
     (\<forall>a. (\<forall>i < n. a \<noteq> di - of_nat i) \<longrightarrow> rep_movsb_std n si di m a = m a)"
proof (induction n arbitrary: si di m)
  case (Suc n)
  let ?m = "m(di := m si)"
  have IH: "(\<forall>i < n. rep_movsb_std n (si - 1) (di - 1) ?m (di - 1 - of_nat i) = ?m (si - 1 - of_nat i)) \<and>
     (\<forall>a. (\<forall>i < n. a \<noteq> di - 1 - of_nat i) \<longrightarrow> rep_movsb_std n (si - 1) (di - 1) ?m a = ?m a)"
  proof (rule Suc.IH)
    show "n \<le> 2 ^ 32" using Suc.prems(1) by simp
    show "di - 1 - of_nat i \<noteq> si - 1 - of_nat j" if "i < j" "j < n" for i j
      using Suc.prems(2) [of "Suc i" "Suc j"] that by (simp add: diff_diff_eq)
  qed
  have away: "si - 1 - of_nat i \<noteq> di" if "i < n" for i
    using Suc.prems(2) [of 0 "Suc i"] that by (auto simp: diff_diff_eq)
  have self: "di \<noteq> di - 1 - of_nat i" if "i < n" for i
  proof -
    have "(of_nat (Suc i) :: u32) \<noteq> 0"
      using of_nat_inj [of "Suc i" 0] that Suc.prems(1) by (simp del: of_nat_Suc)
    then show ?thesis unfolding diff_diff_eq of_nat_Suc by (simp add: eq_diff_eq)
  qed
  show ?case
  proof (intro conjI allI impI)
    fix i assume i: "i < Suc n"
    show "rep_movsb_std (Suc n) si di m (di - of_nat i) = m (si - of_nat i)"
    proof (cases i)
      case 0
      have "rep_movsb_std n (si - 1) (di - 1) ?m di = ?m di" using IH self by blast
      then show ?thesis using 0 by simp
    next
      case (Suc j)
      then have "rep_movsb_std n (si - 1) (di - 1) ?m (di - 1 - of_nat j) = ?m (si - 1 - of_nat j)"
        using IH i by simp
      then show ?thesis using Suc i away [of j] by (simp add: diff_diff_eq)
    qed
  next
    fix a assume a: "\<forall>i < Suc n. a \<noteq> di - of_nat i"
    have "\<forall>i < n. a \<noteq> di - 1 - of_nat i"
      using a by (metis Suc_less_eq diff_diff_eq of_nat_Suc)
    moreover have "a \<noteq> di" using a [rule_format, of 0] by simp
    ultimately show "rep_movsb_std (Suc n) si di m a = m a" using IH by simp
  qed
qed simp

lemma unat_add_of_nat: "unat (a :: u32) + i < 2 ^ 32 \<Longrightarrow> unat (a + of_nat i) = unat a + i"
  by (subst unat_add_no_overflow) (simp_all add: unat_of_nat_small)

lemma top_address: "i < N \<Longrightarrow> a + of_nat N - 1 - of_nat i = (a :: u32) + of_nat (N - Suc i)"
proof -
  assume "i < N"
  then obtain k where "N = Suc (i + k)" using less_imp_Suc_add by blast
  then show ?thesis by simp
qed

text \<open>\<open>memmove\<close> moves also when the blocks overlap.\<close>

theorem memmove_overlap:
  assumes "0 \<le> n" and "n < 2 ^ 31" and "unat src + nat n \<le> 2 ^ 32" and "unat dest + nat n \<le> 2 ^ 32"
  shows "\<exists>m'. memmove dest src n m = (dest, m') \<and>
    (\<forall>i < nat n. m' (dest + of_nat i) = m (src + of_nat i)) \<and>
    (\<forall>a. (\<forall>i < nat n. a \<noteq> dest + of_nat i) \<longrightarrow> m' a = m a)"
proof -
  have u: "unat (word_of_int n :: u32) = nat n" using assms(1,2) by (simp add: unat_of_int_small)
  have w: "(word_of_int n :: u32) = of_nat (nat n)" using assms(1) by simp
  have le: "nat n \<le> 2 ^ 32" using assms(3) by linarith
  have ua: "unat (src + of_nat i) = unat src + i" "unat (dest + of_nat i) = unat dest + i" if "i < nat n" for i
    using that assms(3,4) by (auto intro: unat_add_of_nat)
  show ?thesis
  proof (cases "dest < src")
    case True
    have "dest + of_nat i \<noteq> src + of_nat j" if "i < j" "j < nat n" for i j
    proof
      assume "dest + of_nat i = src + of_nat j"
      then have "unat dest + i = unat src + j" using ua [of i] ua [of j] that by simp
      then show False using True that(1) by (simp add: word_less_nat_alt)
    qed
    from rep_movsb_spec [OF le this] show ?thesis
      using True by (simp add: memmove_def u Let_def)
  next
    case False
    let ?s = "src + of_nat (nat n) - 1" and ?d = "dest + of_nat (nat n) - 1"
    note top = top_address [where N = "nat n"]
    have ne: "?d - of_nat i \<noteq> ?s - of_nat j" if "i < j" "j < nat n" for i j
    proof
      assume eq: "?d - of_nat i = ?s - of_nat j"
      have l: "i < nat n" "nat n - Suc i < nat n" "nat n - Suc j < nat n" using that by auto
      have "dest + of_nat (nat n - Suc i) = src + of_nat (nat n - Suc j)"
        using eq unfolding top [OF l(1)] top [OF that(2)] .
      then have "unat dest + (nat n - Suc i) = unat src + (nat n - Suc j)"
        by (metis ua l(2,3))
      then show False using False that by (simp add: word_less_nat_alt)
    qed
    let ?m = "rep_movsb_std (nat n) ?s ?d m"
    have sp: "(\<forall>i < nat n. ?m (?d - of_nat i) = m (?s - of_nat i)) \<and>
        (\<forall>a. (\<forall>i < nat n. a \<noteq> ?d - of_nat i) \<longrightarrow> ?m a = m a)"
      by (rule rep_movsb_std_spec [OF le]) (rule ne)
    have "?m (dest + of_nat i) = m (src + of_nat i)" if "i < nat n" for i
    proof -
      have j: "nat n - Suc i < nat n" "nat n - Suc (nat n - Suc i) = i" using that by auto
      show ?thesis using sp [THEN conjunct1, rule_format, OF j(1)] unfolding top [OF j(1)] j(2) .
    qed
    moreover have "?m a = m a" if a: "\<forall>i < nat n. a \<noteq> dest + of_nat i" for a
    proof (rule sp [THEN conjunct2, rule_format])
      fix i assume i: "i < nat n"
      then have "nat n - Suc i < nat n" by simp
      then show "a \<noteq> ?d - of_nat i" unfolding top [OF i] using a by blast
    qed
    moreover have "memmove dest src n m = (dest, ?m)"
      unfolding memmove_def Let_def u if_not_P [OF False] unfolding w ..
    ultimately show ?thesis by blast
  qed
qed


section \<open>The properties at concrete strings\<close>

text \<open>The strings \<open>a,b\<close> at 16, \<open>,\<close> at 32 and \<open>ab\<close> at 48.\<close>

definition demo :: memory where
  "demo = (\<lambda>_. 0)(16 := 97, 17 := 44, 18 := 98, 32 := 44, 48 := 97, 49 := 98)"

lemma demo_strings: "str_at demo 16 [97, 44, 98]" "str_at demo 32 [44]" "str_at demo 48 [97, 98]"
  "str_at demo 64 []"
  by (simp_all add: demo_def)

lemma less_3: "i < Suc (Suc (Suc 0)) \<longleftrightarrow> i = 0 \<or> i = 1 \<or> i = (2 :: nat)" by auto

theorem strlen_length_witness: "strlen 16 demo = 3"
  using strlen_length [OF demo_strings(1)] by simp

theorem strspn_takeWhile_witness: "strspn 16 48 demo = Some 1 \<and> strcspn 16 32 demo = Some 1"
  using strspn_takeWhile [OF demo_strings(1,3)] strspn_takeWhile [OF demo_strings(1,2)] by simp

theorem strcpy_copies_witness: "\<exists>m. strcpy 80 48 demo = Some (80, m) \<and> str_at m 80 [97, 98]"
  using strcpy_copies [OF demo_strings(3), of 80] by (auto simp: apart_def less_3)

theorem strcat_appends_witness: "\<exists>m. strcat 48 32 demo = Some (48, m) \<and> str_at m 48 [97, 98, 44]"
  using strcat_appends [OF demo_strings(3,2)] by (auto simp: apart_def less_Suc_eq)

theorem strcmp_order_witness: "strcmp 16 48 demo = Some (- 1) \<and> strcmp 48 16 demo = Some 1"
  using strcmp_order [OF demo_strings(1,3)] strcmp_order [OF demo_strings(3,1)]
  by (simp add: str_less_def)

theorem strncpy_pads_witness: "\<exists>m. strncpy 80 32 3 demo = (80, m) \<and> m 80 = 44 \<and> m 81 = 0 \<and> m 82 = 0"
proof -
  have "apart 32 (Suc (length [44 :: u8])) 80 (nat 3)" by (auto simp: apart_def less_Suc_eq numeral_3_eq_3)
  from strncpy_pads [OF demo_strings(2) _ _ this] obtain m where
    "strncpy 80 32 3 demo = (80, m)" and m: "\<forall>i < nat 3. m (80 + of_nat i) = (if i < 1 then [44] ! i else 0)"
    by auto
  then show ?thesis using m [rule_format, of 0] m [rule_format, of 1] m [rule_format, of 2] by auto
qed

theorem strncat_second_nul_witness:
  "snd (strncat 48 32 2 demo) = (write_at 50 [44, 0] demo)(52 := 0)"
  using strncat_second_nul [OF demo_strings(3,2), of 2] by (simp add: apart_def less_Suc_eq)

theorem strstr_first_witness: "\<exists>p. strstr 16 32 demo = Some p \<and> (p = 17 \<or> p = 0)"
  using strstr_first [OF demo_strings(1,2)] by (auto simp: le_Suc_eq)

theorem strtok_next_witness: "\<exists>m. strtok 0 16 32 demo = Some (16, 18, m) \<and> str_at m 16 [97] \<and> str_at m 18 [98]"
  using strtok_next [OF _ _ demo_strings(1,2) _ _ _ refl refl refl refl, of 16 0] by auto

theorem memmove_overlap_witness:
  "\<exists>m. memmove 17 16 3 demo = (17, m) \<and> m 17 = 97 \<and> m 18 = 44 \<and> m 19 = 98 \<and> m 16 = 97"
proof -
  obtain m where m: "memmove 17 16 3 demo = (17, m)" "\<forall>i < nat 3. m (17 + of_nat i) = demo (16 + of_nat i)"
    "\<forall>a. (\<forall>i < nat 3. a \<noteq> 17 + of_nat i) \<longrightarrow> m a = demo a"
    using memmove_overlap [of 3 16 17 demo] by auto
  have "m 16 = demo 16" using m(3) by (auto simp: less_Suc_eq numeral_3_eq_3)
  then show ?thesis
    using m(1) m(2) [rule_format, of 0] m(2) [rule_format, of 1] m(2) [rule_format, of 2]
    by (simp add: demo_def)
qed

end
