(* ===== verification/Fs_State.thy ===== *)
theory Fs_State
  imports Hd Tty Segment
begin

unbundle bit_operations_syntax

text \<open>
  The tables of the file system (include/linux/fs.h) and the state that its parts share:
  the buffer cache with its hash queues and free list, the inode table, the table of super
  blocks and the file table. The routines are run for one process; what would make it wait
  for another one is the result \<open>Sleeps\<close>.
\<close>

section \<open>Records\<close>

text \<open>\<open>m_inode\<close>: the first seven fields are the inode on the disk.\<close>

record m_inode =
  i_mode :: u16
  i_uid :: u16
  i_size :: u32
  i_mtime :: u32
  i_gid :: u8
  i_nlinks :: u8
  i_zone :: "u16 list"
  i_atime :: u32
  i_ctime :: u32
  i_dev :: u16
  i_num :: u16
  i_count :: u16
  i_lock :: u8
  i_dirt :: u8
  i_pipe :: u8
  i_mount :: u8
  i_seek :: u8
  i_update :: u8

definition no_inode :: m_inode where
  "no_inode = \<lparr>i_mode = 0, i_uid = 0, i_size = 0, i_mtime = 0, i_gid = 0, i_nlinks = 0,
     i_zone = replicate 9 0, i_atime = 0, i_ctime = 0, i_dev = 0, i_num = 0, i_count = 0,
     i_lock = 0, i_dirt = 0, i_pipe = 0, i_mount = 0, i_seek = 0, i_update = 0\<rparr>"

record open_file =
  f_mode :: u16
  f_flags :: u16
  f_count :: u16
  f_inode :: "nat option"
  f_pos :: int

record super_block =
  s_ninodes :: u16
  s_nzones :: u16
  s_imap_blocks :: u16
  s_zmap_blocks :: u16
  s_firstdatazone :: u16
  s_log_zone_size :: u16
  s_max_size :: u32
  s_magic :: u16
  s_imap :: "nat option list"
  s_zmap :: "nat option list"
  s_dev :: u16
  s_isup :: "nat option"
  s_imount :: "nat option"
  s_time :: u32
  s_rd_only :: u8
  s_dirt :: u8

text \<open>
  \<open>start_buffer\<close> is the address of the first buffer head. \<open>disk dev block\<close> is what the disk
  holds in a block of a device, \<open>None\<close> when it can not be read or written: this is the view
  that the disk driver (theory \<open>Hd\<close>) gives of the sectors. \<open>tty_cr\<close> is the static variable of
  \<open>tty_write\<close>, \<open>task_page\<close> the address of the page of a process descriptor, \<open>gdt\<close> the global
  descriptor table, \<open>callable\<close> the static variable of \<open>sys_setup\<close>.
\<close>

record fs =
  ker :: kern
  start_buffer :: u32
  nr_buffers :: nat
  buf :: "nat \<Rightarrow> buffer_head"
  hash_table :: "nat \<Rightarrow> nat option"
  free_list :: nat
  inode :: "nat \<Rightarrow> m_inode"
  last_allocated_inode :: nat
  super :: "nat \<Rightarrow> super_block"
  file_table :: "nat \<Rightarrow> open_file"
  ttys :: "tty_struct list"
  disk :: "u16 \<Rightarrow> u16 \<Rightarrow> u8 list option"
  parts :: "nat \<Rightarrow> hd_struct"
  tty_cr :: bool
  task_page :: "nat \<Rightarrow> u32"
  gdt :: "nat \<Rightarrow> desc_struct"
  callable :: bool

definition upd_buf :: "nat \<Rightarrow> (buffer_head \<Rightarrow> buffer_head) \<Rightarrow> fs \<Rightarrow> fs" where
  "upd_buf b f s = s\<lparr>buf := (buf s)(b := f (buf s b))\<rparr>"

definition upd_inode :: "nat \<Rightarrow> (m_inode \<Rightarrow> m_inode) \<Rightarrow> fs \<Rightarrow> fs" where
  "upd_inode i f s = s\<lparr>inode := (inode s)(i := f (inode s i))\<rparr>"

definition upd_super :: "nat \<Rightarrow> (super_block \<Rightarrow> super_block) \<Rightarrow> fs \<Rightarrow> fs" where
  "upd_super i f s = s\<lparr>super := (super s)(i := f (super s i))\<rparr>"

definition upd_file :: "nat \<Rightarrow> (open_file \<Rightarrow> open_file) \<Rightarrow> fs \<Rightarrow> fs" where
  "upd_file i f s = s\<lparr>file_table := (file_table s)(i := f (file_table s i))\<rparr>"

definition upd_ker :: "(kern \<Rightarrow> kern) \<Rightarrow> fs \<Rightarrow> fs" where
  "upd_ker f s = s\<lparr>ker := f (ker s)\<rparr>"

abbreviation me :: "fs \<Rightarrow> task_struct" where "me s \<equiv> cur (ker s)"

definition now :: "fs \<Rightarrow> u32" where
  "now s = word_of_int (CURRENT_TIME (ker s))"

text \<open>\<open>get_super\<close>: the first entry of the table for a device.\<close>

definition get_super :: "int \<Rightarrow> fs \<Rightarrow> nat option" where
  "get_super dev s = find (\<lambda>i. uint (s_dev (super s i)) = dev) [0..<NR_SUPER]"


section \<open>Modes of files\<close>

abbreviation S_IFMT :: u16 where "S_IFMT \<equiv> 0xf000"
abbreviation S_IFREG :: u16 where "S_IFREG \<equiv> 0x8000"
abbreviation S_IFBLK :: u16 where "S_IFBLK \<equiv> 0x6000"
abbreviation S_IFDIR :: u16 where "S_IFDIR \<equiv> 0x4000"
abbreviation S_IFCHR :: u16 where "S_IFCHR \<equiv> 0x2000"

definition S_ISREG :: "u16 \<Rightarrow> bool" where "S_ISREG m \<longleftrightarrow> m AND S_IFMT = S_IFREG"
definition S_ISDIR :: "u16 \<Rightarrow> bool" where "S_ISDIR m \<longleftrightarrow> m AND S_IFMT = S_IFDIR"
definition S_ISCHR :: "u16 \<Rightarrow> bool" where "S_ISCHR m \<longleftrightarrow> m AND S_IFMT = S_IFCHR"
definition S_ISBLK :: "u16 \<Rightarrow> bool" where "S_ISBLK m \<longleftrightarrow> m AND S_IFMT = S_IFBLK"


section \<open>The field updates\<close>

lemma buf_upd_buf [simp]: "buf (upd_buf b f s) c = (if c = b then f (buf s b) else buf s c)"
  by (simp add: upd_buf_def)

lemma upd_buf_other [simp]:
  "ker (upd_buf b f s) = ker s" "start_buffer (upd_buf b f s) = start_buffer s"
  "nr_buffers (upd_buf b f s) = nr_buffers s" "hash_table (upd_buf b f s) = hash_table s"
  "free_list (upd_buf b f s) = free_list s" "inode (upd_buf b f s) = inode s"
  "last_allocated_inode (upd_buf b f s) = last_allocated_inode s" "super (upd_buf b f s) = super s"
  "file_table (upd_buf b f s) = file_table s" "ttys (upd_buf b f s) = ttys s"
  "disk (upd_buf b f s) = disk s" "parts (upd_buf b f s) = parts s"
  "tty_cr (upd_buf b f s) = tty_cr s" "task_page (upd_buf b f s) = task_page s" "gdt (upd_buf b f s) = gdt s"
  "callable (upd_buf b f s) = callable s"
  by (simp_all add: upd_buf_def)

end
