(* ===== verification/Buffer.thy ===== *)
theory Buffer
  imports Fs_State
begin

unbundle bit_operations_syntax

text \<open>
  The buffer cache, fs/buffer.c, with \<open>ll_rw_block\<close> of fs/block_dev.c: the hash queues, the
  free list, finding and reusing a buffer, reading and writing back.
\<close>

section \<open>Transfers\<close>

text \<open>
  \<open>ll_rw_block\<close> calls \<open>rw_hd\<close>, which gives up silently on a block outside of the partition
  and otherwise returns when the buffer is unlocked again.
\<close>

definition rw_disk :: "int \<Rightarrow> nat \<Rightarrow> fs \<Rightarrow> fs" where
  "rw_disk rw b s =
     (let h = buf s b; dev = b_dev h; block = b_blocknr h
      in case disk s dev block of
           None \<Rightarrow> upd_buf b (\<lambda>h. h\<lparr>b_uptodate := 0\<rparr>) s
         | Some d \<Rightarrow>
             if rw = READ then upd_buf b (\<lambda>h. h\<lparr>b_data := d, b_uptodate := 1, b_dirt := 0\<rparr>) s
             else (upd_buf b (\<lambda>h. h\<lparr>b_uptodate := 1, b_dirt := 0\<rparr>) s)
                    \<lparr>disk := (disk s)(dev := (disk s dev)(block := Some (b_data h)))\<rparr>)"

definition ll_rw_block :: "int \<Rightarrow> nat \<Rightarrow> fs \<Rightarrow> fs result" where
  "ll_rw_block rw b s =
     (if MAJOR (ucast (b_dev (buf s b))) \<noteq> 3
      then Inl (Panic ''Trying to read nonexistent block-device'')
      else case hd_address (parts s) (buf s b) of
             None \<Rightarrow> Inr s
           | Some _ \<Rightarrow>
               if rw \<noteq> READ \<and> rw \<noteq> WRITE then Inl (Panic ''Bad hd command, must be R/W'')
               else if b_lock (buf s b) \<noteq> 0 then Inl Sleeps
               else Inr (rw_disk rw b s))"

definition wait_on_buffer :: "nat \<Rightarrow> fs \<Rightarrow> fs result" where
  "wait_on_buffer b s = (if b_lock (buf s b) \<noteq> 0 then Inl Sleeps else Inr s)"

text \<open>The loop of \<open>sync_dev\<close> over the buffers.\<close>

fun sync_bufs :: "int option \<Rightarrow> nat list \<Rightarrow> fs \<Rightarrow> fs result" where
  "sync_bufs dev [] s = Inr s"
| "sync_bufs dev (b # bs) s =
     (if dev \<noteq> None \<and> dev \<noteq> Some (uint (b_dev (buf s b))) then sync_bufs dev bs s
      else
        andthen (wait_on_buffer b s) (\<lambda>s.
        andthen (if b_dirt (buf s b) \<noteq> 0 then ll_rw_block WRITE b s else Inr s) (\<lambda>s.
        sync_bufs dev bs s)))"

definition sync_dev :: "int \<Rightarrow> fs \<Rightarrow> fs result" where
  "sync_dev dev s = sync_bufs (Some dev) [0..<nr_buffers s] s"


section \<open>The queues\<close>

definition hashfn :: "int \<Rightarrow> int \<Rightarrow> nat" where
  "hashfn dev block = unat (word_of_int (dev XOR block) :: u32) mod NR_HASH"

definition hash_of :: "buffer_head \<Rightarrow> nat" where
  "hash_of h = hashfn (uint (b_dev h)) (uint (b_blocknr h))"

definition unhash :: "nat \<Rightarrow> fs \<Rightarrow> fs" where
  "unhash b s =
     (let s = (case b_next (buf s b) of
                 None \<Rightarrow> s
               | Some n \<Rightarrow> upd_buf n (\<lambda>h. h\<lparr>b_prev := b_prev (buf s b)\<rparr>) s);
          s = (case b_prev (buf s b) of
                 None \<Rightarrow> s
               | Some p \<Rightarrow> upd_buf p (\<lambda>h. h\<lparr>b_next := b_next (buf s b)\<rparr>) s);
          q = hash_of (buf s b)
      in if hash_table s q = Some b
         then s\<lparr>hash_table := (hash_table s)(q := b_next (buf s b))\<rparr> else s)"

definition unlink_free :: "nat \<Rightarrow> fs \<Rightarrow> fs result" where
  "unlink_free b s =
     (case (b_prev_free (buf s b), b_next_free (buf s b)) of
        (Some p, Some n) \<Rightarrow>
          let s = upd_buf p (\<lambda>h. h\<lparr>b_next_free := Some n\<rparr>) s;
              s = upd_buf n (\<lambda>h. h\<lparr>b_prev_free := Some p\<rparr>) s
          in Inr (if free_list s = b then s\<lparr>free_list := n\<rparr> else s)
      | _ \<Rightarrow> Inl (Panic ''Free block list corrupted''))"

definition remove_from_queues :: "nat \<Rightarrow> fs \<Rightarrow> fs result" where
  "remove_from_queues b s = unlink_free b (unhash b s)"

definition link_free :: "nat \<Rightarrow> fs \<Rightarrow> fs result" where
  "link_free b s =
     (let s = upd_buf b (\<lambda>h. h\<lparr>b_next_free := Some (free_list s)\<rparr>) s
      in case b_prev_free (buf s (free_list s)) of
           None \<Rightarrow> Inl Fault
         | Some p \<Rightarrow>
             let s = upd_buf b (\<lambda>h. h\<lparr>b_prev_free := Some p\<rparr>) s;
                 s = upd_buf p (\<lambda>h. h\<lparr>b_next_free := Some b\<rparr>) s
             in Inr (upd_buf (free_list s) (\<lambda>h. h\<lparr>b_prev_free := Some b\<rparr>) s))"

text \<open>
  The last statement of \<open>insert_into_queues\<close>, \<open>bh->b_next->b_prev = bh\<close>, does not look
  whether the hash queue was empty. \<open>b_prev\<close> is 16 bytes into a buffer head of 32 bytes, so
  through the null pointer it is the word at address 16 that is set: entry 4 of the page
  directory.
\<close>

definition head_address :: "nat \<Rightarrow> fs \<Rightarrow> u32" where
  "head_address b s = start_buffer s + 32 * of_nat b"

definition set_prev :: "nat option \<Rightarrow> nat \<Rightarrow> fs \<Rightarrow> fs" where
  "set_prev n b s =
     (case n of
        Some n \<Rightarrow> upd_buf n (\<lambda>h. h\<lparr>b_prev := Some b\<rparr>) s
      | None \<Rightarrow> upd_ker (\<lambda>k. k\<lparr>mem := (mem k)\<lparr>phys := (phys (mem k))(16 := head_address b s)\<rparr>\<rparr>) s)"

definition enhash :: "nat \<Rightarrow> fs \<Rightarrow> fs" where
  "enhash b s =
     (let s = upd_buf b (\<lambda>h. h\<lparr>b_prev := None\<rparr>) s;
          s = upd_buf b (\<lambda>h. h\<lparr>b_next := None\<rparr>) s
      in if b_dev (buf s b) = 0 then s
         else
           let q = hash_of (buf s b);
               s = upd_buf b (\<lambda>h. h\<lparr>b_next := hash_table s q\<rparr>) s;
               s = s\<lparr>hash_table := (hash_table s)(q := Some b)\<rparr>
           in set_prev (b_next (buf s b)) b s)"

definition insert_into_queues :: "nat \<Rightarrow> fs \<Rightarrow> fs result" where
  "insert_into_queues b s = andthen (link_free b s) (\<lambda>s. Inr (enhash b s))"

partial_function (option) walk :: "(nat \<Rightarrow> buffer_head) \<Rightarrow> int \<Rightarrow> int \<Rightarrow> nat option \<Rightarrow> nat option option" where
  "walk bs dev block tmp =
     (if tmp = None then Some None
      else if uint (b_dev (bs (the tmp))) = dev \<and> uint (b_blocknr (bs (the tmp))) = block then Some tmp
      else walk bs dev block (b_next (bs (the tmp))))"

definition find_buffer :: "int \<Rightarrow> int \<Rightarrow> fs \<Rightarrow> nat option result" where
  "find_buffer dev block s = returns (walk (buf s) dev block (hash_table s (hashfn dev block)))"


section \<open>Getting and releasing a buffer\<close>

text \<open>\<open>brelse\<close>; its wake-up of the processes that wait for a free buffer is left out.\<close>

definition brelse :: "nat \<Rightarrow> fs \<Rightarrow> fs result" where
  "brelse b s =
     andthen (wait_on_buffer b s) (\<lambda>s.
     if b_count (buf s b) = 0 then Inl (Panic ''Trying to free free buffer'')
     else Inr (upd_buf b (\<lambda>h. h\<lparr>b_count := b_count h - 1\<rparr>) s))"

partial_function (option) get_hash_loop :: "int \<Rightarrow> int \<Rightarrow> fs \<Rightarrow> (nat option \<times> fs) result option" where
  "get_hash_loop dev block s =
     (case find_buffer dev block s of
        Inl e \<Rightarrow> Some (Inl e)
      | Inr None \<Rightarrow> Some (Inr (None, s))
      | Inr (Some b) \<Rightarrow>
          (case wait_on_buffer b (upd_buf b (\<lambda>h. h\<lparr>b_count := b_count h + 1\<rparr>) s) of
             Inl e \<Rightarrow> Some (Inl e)
           | Inr s \<Rightarrow>
               if uint (b_dev (buf s b)) \<noteq> dev \<or> uint (b_blocknr (buf s b)) \<noteq> block
               then (case brelse b s of Inl e \<Rightarrow> Some (Inl e) | Inr s \<Rightarrow> get_hash_loop dev block s)
               else Some (Inr (Some b, s))))"

definition get_hash_table :: "int \<Rightarrow> int \<Rightarrow> fs \<Rightarrow> (nat option \<times> fs) result" where
  "get_hash_table dev block s = joined (get_hash_loop dev block s)"

text \<open>
  The search for a free buffer: from \<open>free_list\<close> around the ring. \<open>None\<close> in the end means
  that all are in use.
\<close>

partial_function (option) scan_free :: "fs \<Rightarrow> nat \<Rightarrow> nat option result option" where
  "scan_free s tmp =
     (if b_count (buf s tmp) = 0
      then (case wait_on_buffer tmp s of Inl e \<Rightarrow> Some (Inl e) | Inr _ \<Rightarrow> Some (Inr (Some tmp)))
      else (case b_next_free (buf s tmp) of
              None \<Rightarrow> Some (Inl Fault)
            | Some n \<Rightarrow> if n = free_list s then Some (Inr None) else scan_free s n))"

definition claim :: "int \<Rightarrow> int \<Rightarrow> nat \<Rightarrow> fs \<Rightarrow> fs result" where
  "claim dev block b s =
     (let s = upd_buf b (\<lambda>h. h\<lparr>b_count := b_count h + 1\<rparr>) s in
      andthen (remove_from_queues b s) (\<lambda>s.
      andthen (if b_dirt (buf s b) \<noteq> 0 then sync_dev (uint (b_dev (buf s b))) s else Inr s) (\<lambda>s.
      Inr (upd_buf b (\<lambda>h. h\<lparr>b_dev := word_of_int dev, b_blocknr := word_of_int block,
                              b_dirt := 0, b_uptodate := 0\<rparr>) s))))"

partial_function (option) getblk_loop :: "int \<Rightarrow> int \<Rightarrow> fs \<Rightarrow> (nat \<times> fs) result option" where
  "getblk_loop dev block s =
     (case get_hash_table dev block s of
        Inl e \<Rightarrow> Some (Inl e)
      | Inr (Some b, s) \<Rightarrow> Some (Inr (b, s))
      | Inr (None, s) \<Rightarrow>
          (case joined (scan_free s (free_list s)) of
             Inl e \<Rightarrow> Some (Inl e)
           | Inr None \<Rightarrow> Some (Inl Sleeps)
           | Inr (Some b) \<Rightarrow>
               (case claim dev block b s of
                  Inl e \<Rightarrow> Some (Inl e)
                | Inr s \<Rightarrow>
                    (case find_buffer dev block s of
                       Inl e \<Rightarrow> Some (Inl e)
                     | Inr None \<Rightarrow> Some (andthen (insert_into_queues b s) (\<lambda>s. Inr (b, s)))
                     | Inr (Some _) \<Rightarrow>
                         (case insert_into_queues b (upd_buf b (\<lambda>h. h\<lparr>b_dev := 0, b_blocknr := 0, b_count := 0\<rparr>) s) of
                            Inl e \<Rightarrow> Some (Inl e)
                          | Inr s \<Rightarrow> getblk_loop dev block s)))))"

definition getblk :: "int \<Rightarrow> int \<Rightarrow> fs \<Rightarrow> (nat \<times> fs) result" where
  "getblk dev block s = joined (getblk_loop dev block s)"

text \<open>\<open>bread\<close>: \<open>None\<close> for a block that can not be read.\<close>

definition bread :: "int \<Rightarrow> int \<Rightarrow> fs \<Rightarrow> (nat option \<times> fs) result" where
  "bread dev block s =
     andthen (getblk dev block s) (\<lambda>(b, s).
     if b_uptodate (buf s b) \<noteq> 0 then Inr (Some b, s)
     else
       andthen (ll_rw_block READ b s) (\<lambda>s.
       if b_uptodate (buf s b) \<noteq> 0 then Inr (Some b, s)
       else andthen (brelse b s) (\<lambda>s. Inr (None, s))))"



section \<open>Initialisation\<close>

text \<open>
  The blocks of the buffers are taken from \<open>BUFFER_END\<close> down, with a hole for the video
  memory and the ROM from 640k to 1M, while the heads grow up from \<open>start_buffer\<close>, until
  they meet: \<open>data_blocks b h\<close> are the addresses of the blocks from \<open>b\<close> down for the heads
  from \<open>h\<close> on.
\<close>

abbreviation BUFFER_END :: nat where "BUFFER_END \<equiv> 0x200000"

function data_blocks :: "nat \<Rightarrow> nat \<Rightarrow> nat list" where
  "data_blocks b h =
     (if h + 32 \<le> b - BLOCK_SIZE
      then (b - BLOCK_SIZE) # data_blocks (if b - BLOCK_SIZE = 0x100000 then 0xA0000 else b - BLOCK_SIZE) (h + 32)
      else [])"
  by pat_completeness auto
termination by (relation "measure fst") auto

declare data_blocks.simps [simp del]

definition buffer_init :: "fs \<Rightarrow> fs" where
  "buffer_init s =
     (let n = length (data_blocks BUFFER_END (unat (start_buffer s)))
      in s\<lparr>nr_buffers := n,
           buf := (\<lambda>i. if i < n then (buf s i)\<lparr>b_dev := 0, b_dirt := 0, b_count := 0, b_lock := 0,
                            b_uptodate := 0, b_next := None, b_prev := None,
                            b_prev_free := Some (if i = 0 then n - 1 else i - 1),
                            b_next_free := Some (if i = n - 1 then 0 else i + 1)\<rparr>
                       else buf s i),
           free_list := 0, hash_table := (\<lambda>_. None)\<rparr>)"

end
