(* ===== verification/Linked.thy ===== *)
theory Linked
  imports Prelude
begin

text \<open>
  Doubly linked lists through two functions \<open>nx\<close> and \<open>pv\<close> from a node to a pointer. A
  segment runs from the entry \<open>(p, t)\<close> (the pointer back and the pointer to the first node)
  over its nodes to the exit \<open>(p', t')\<close>; a queue is a segment that ends with the null pointer
  and a ring one whose exit is its entry. There is one lemma for every pointer operation.
\<close>

fun dseg :: "('a \<Rightarrow> 'a option) \<Rightarrow> ('a \<Rightarrow> 'a option) \<Rightarrow> 'a option \<Rightarrow> 'a option \<Rightarrow> 'a list \<Rightarrow>
    'a option \<Rightarrow> 'a option \<Rightarrow> bool" where
  "dseg nx pv p t [] p' t' \<longleftrightarrow> p = p' \<and> t = t'"
| "dseg nx pv p t (x # xs) p' t' \<longleftrightarrow> t = Some x \<and> pv x = p \<and> dseg nx pv (Some x) (nx x) xs p' t'"

definition dlist :: "('a \<Rightarrow> 'a option) \<Rightarrow> ('a \<Rightarrow> 'a option) \<Rightarrow> 'a option \<Rightarrow> 'a list \<Rightarrow> bool" where
  "dlist nx pv t xs \<longleftrightarrow> distinct xs \<and> (\<exists>l. dseg nx pv None t xs l None)"

definition ring :: "('a \<Rightarrow> 'a option) \<Rightarrow> ('a \<Rightarrow> 'a option) \<Rightarrow> 'a list \<Rightarrow> bool" where
  "ring nx pv xs \<longleftrightarrow> xs \<noteq> [] \<and> distinct xs \<and>
     dseg nx pv (Some (last xs)) (Some (hd xs)) xs (Some (last xs)) (Some (hd xs))"


section \<open>Segments\<close>

lemma dseg_append:
  "dseg nx pv p t (xs @ ys) p' t' \<longleftrightarrow> (\<exists>a b. dseg nx pv p t xs a b \<and> dseg nx pv a b ys p' t')"
  by (induction xs arbitrary: p t) auto

lemma dseg_cong:
  assumes "\<And>x. x \<in> set xs \<Longrightarrow> nx' x = nx x" "\<And>x. x \<in> set xs \<Longrightarrow> pv' x = pv x"
  shows "dseg nx' pv' p t xs p' t' = dseg nx pv p t xs p' t'"
  using assms by (induction xs arbitrary: p t) auto

lemma dseg_exit_eq: "dseg nx pv p t xs p' t' \<Longrightarrow> p' = (if xs = [] then p else Some (last xs))"
  by (induction xs arbitrary: p t) (auto split: if_splits)

lemma dseg_entry_eq: "dseg nx pv p t xs p' t' \<Longrightarrow> t = (if xs = [] then t' else Some (hd xs))"
  by (cases xs) auto

lemma dseg_outside:
  assumes "n \<notin> set xs"
  shows "dseg (nx(n := c)) pv p t xs p' t' = dseg nx pv p t xs p' t'"
    and "dseg nx (pv(n := c)) p t xs p' t' = dseg nx pv p t xs p' t'"
  using assms by (auto intro!: dseg_cong)

text \<open>The pointer out of the last node, and the pointer back from the first node, are set.\<close>

lemma dseg_set_exit:
  "dseg nx pv p t xs p' t' \<Longrightarrow> distinct xs \<Longrightarrow> xs \<noteq> [] \<Longrightarrow>
     dseg (nx(last xs := c)) pv p t xs p' c"
proof (induction xs arbitrary: p t)
  case (Cons x xs)
  show ?case
  proof (cases "xs = []")
    case False
    then have "x \<noteq> last xs" using Cons.prems(2) by auto
    then show ?thesis using Cons False by simp
  qed (use Cons.prems in auto)
qed simp

lemma dseg_set_entry:
  "dseg nx pv p t xs p' t' \<Longrightarrow> distinct xs \<Longrightarrow> xs \<noteq> [] \<Longrightarrow>
     dseg nx (pv(hd xs := c)) c t xs p' t'"
  by (cases xs) (simp_all add: dseg_outside)

section \<open>Queues\<close>

lemma dlist_Nil [simp]: "dlist nx pv t [] \<longleftrightarrow> t = None"
  by (auto simp: dlist_def)

lemma dlist_cong:
  assumes "\<And>x. x \<in> set xs \<Longrightarrow> nx' x = nx x" "\<And>x. x \<in> set xs \<Longrightarrow> pv' x = pv x"
  shows "dlist nx' pv' t xs = dlist nx pv t xs"
  using dseg_cong [OF assms] by (simp add: dlist_def)

text \<open>The neighbours of a node are in the queue.\<close>

lemma dlist_neighbours:
  assumes "dlist nx pv t xs" "b \<in> set xs"
  shows "nx b = Some n \<Longrightarrow> n \<in> set xs \<and> n \<noteq> b" and "pv b = Some m \<Longrightarrow> m \<in> set xs \<and> m \<noteq> b"
    and "t = Some b \<longleftrightarrow> pv b = None"
proof -
  obtain us vs where xs: "xs = us @ b # vs" using assms(2) by (auto simp: in_set_conv_decomp)
  obtain l a c where s: "dseg nx pv None t us a c" "c = Some b" "pv b = a" "dseg nx pv (Some b) (nx b) vs l None"
    using assms(1) by (auto simp: dlist_def xs dseg_append)
  have d: "distinct (us @ b # vs)" using assms(1) by (simp add: dlist_def xs)
  show "n \<in> set xs \<and> n \<noteq> b" if "nx b = Some n"
    using dseg_entry_eq [OF s(4)] that d xs by (cases vs) auto
  show "m \<in> set xs \<and> m \<noteq> b" if "pv b = Some m"
    using dseg_exit_eq [OF s(1)] that d xs s(3) by (cases us rule: rev_cases) auto
  show "t = Some b \<longleftrightarrow> pv b = None"
    using dseg_exit_eq [OF s(1)] dseg_entry_eq [OF s(1)] d s(2,3) by (cases us) auto
qed

lemma dlist_remove:
  assumes "dlist nx pv t (us @ b # vs)"
  defines "pv' \<equiv> (case nx b of None \<Rightarrow> pv | Some n \<Rightarrow> pv(n := pv b))"
  defines "nx' \<equiv> (case pv b of None \<Rightarrow> nx | Some p \<Rightarrow> nx(p := nx b))"
  shows "dlist nx' pv' (if t = Some b then nx b else t) (us @ vs)"
proof -
  obtain l a c where s: "dseg nx pv None t us a c" "c = Some b" "pv b = a" "dseg nx pv (Some b) (nx b) vs l None"
    using assms(1) by (auto simp: dlist_def dseg_append)
  have d: "distinct us" "distinct vs" "b \<notin> set us" "b \<notin> set vs" "set us \<inter> set vs = {}"
    using assms(1) by (auto simp: dlist_def)
  have vs: "dseg nx pv' a (nx b) vs (if vs = [] then a else l) None"
    using dseg_entry_eq [OF s(4)] s(3,4) dseg_set_entry [OF s(4) d(2), of a]
    by (cases vs) (auto simp: pv'_def)
  have us: "dseg nx' pv None (if us = [] then nx b else t) us a (nx b)"
  proof (cases "us = []")
    case True
    then show ?thesis using s by simp
  next
    case False
    then have "a = Some (last us)" using dseg_exit_eq [OF s(1)] by simp
    then show ?thesis using dseg_set_exit [OF s(1) d(1) False] False s(3) by (simp add: nx'_def)
  qed
  have n: "case nx b of None \<Rightarrow> vs = [] | Some n \<Rightarrow> vs \<noteq> [] \<and> n = hd vs"
    using dseg_entry_eq [OF s(4)] by (auto split: option.splits if_splits)
  have p: "case pv b of None \<Rightarrow> us = [] | Some p \<Rightarrow> us \<noteq> [] \<and> p = last us"
    using dseg_exit_eq [OF s(1)] s(3) by (auto split: option.splits if_splits)
  have "dseg nx' pv' None (if us = [] then nx b else t) us a (nx b)"
    using us n d hd_in_set [of vs] by (subst dseg_cong [of us nx' nx' pv' pv])
      (auto simp: pv'_def split: option.splits)
  moreover have "dseg nx' pv' a (nx b) vs (if vs = [] then a else l) None"
  proof (subst dseg_cong [of vs nx' nx pv' pv'])
    fix x assume x: "x \<in> set vs"
    show "nx' x = nx x"
    proof (cases "pv b")
      case (Some q)
      then have "q \<in> set us" using p last_in_set [of us] by simp
      then show ?thesis using Some x d(5) by (auto simp: nx'_def)
    qed (simp add: nx'_def)
  qed (use vs in simp_all)
  moreover have "us = [] \<longleftrightarrow> t = Some b"
    using dseg_entry_eq [OF s(1)] s(2) d(3) by (cases us) auto
  ultimately show ?thesis
    using d by (auto simp: dlist_def dseg_append)
qed

lemma dlist_push:
  assumes "dlist nx pv t xs" "b \<notin> set xs"
  shows "dlist (nx(b := t)) (case t of None \<Rightarrow> pv(b := None) | Some n \<Rightarrow> pv(b := None, n := Some b)) (Some b) (b # xs)"
proof -
  obtain l where s: "distinct xs" "dseg nx pv None t xs l None" using assms(1) by (auto simp: dlist_def)
  have t: "case t of None \<Rightarrow> xs = [] | Some n \<Rightarrow> xs \<noteq> [] \<and> n = hd xs"
    using dseg_entry_eq [OF s(2)] by (auto split: option.splits if_splits)
  show ?thesis
  proof (cases t)
    case None
    then show ?thesis using t by (simp add: dlist_def)
  next
    case (Some n)
    then have n: "xs \<noteq> []" "n = hd xs" "n \<noteq> b" using t assms(2) by auto
    have "dseg nx (pv(n := Some b)) (Some b) t xs l None"
      using dseg_set_entry [OF s(2,1) n(1)] n(2) by simp
    then have "dseg (nx(b := t)) (pv(b := None, n := Some b)) (Some b) t xs l None"
      using assms(2) n(3) by (subst dseg_cong [of xs _ nx _ "pv(n := Some b)"]) auto
    then show ?thesis using Some s(1) assms(2) n(3) by (auto simp: dlist_def)
  qed
qed


section \<open>Rings\<close>

lemma ring_Cons:
  "ring nx pv (b # G) \<longleftrightarrow> b \<notin> set G \<and> distinct G \<and> pv b = Some (last (b # G)) \<and>
     dseg nx pv (Some b) (nx b) G (Some (last (b # G))) (Some b)"
  by (auto simp: ring_def)

lemma ring_rotate:
  assumes "ring nx pv (us @ vs)"
  shows "ring nx pv (vs @ us)"
proof (cases "us = [] \<or> vs = []")
  case False
  obtain a b where s: "dseg nx pv (Some (last vs)) (Some (hd us)) us a b" "dseg nx pv a b vs (Some (last vs)) (Some (hd us))"
    using assms False by (auto simp: ring_def dseg_append)
  have a: "a = Some (last us)" "b = Some (hd vs)"
    using dseg_exit_eq [OF s(1)] dseg_entry_eq [OF s(2)] False by auto
  then have "dseg nx pv (Some (last us)) (Some (hd vs)) (vs @ us) (Some (last us)) (Some (hd vs))"
    unfolding dseg_append using s by blast
  moreover have "distinct (vs @ us)" using assms by (auto simp: ring_def)
  ultimately show ?thesis using False by (simp add: ring_def)
qed (use assms in auto)

lemma ring_cong:
  assumes "\<And>x. x \<in> set xs \<Longrightarrow> nx' x = nx x" "\<And>x. x \<in> set xs \<Longrightarrow> pv' x = pv x"
  shows "ring nx' pv' xs = ring nx pv xs"
  using dseg_cong [OF assms] by (simp add: ring_def)

lemma ring_neighbours:
  assumes "ring nx pv xs" "b \<in> set xs"
  shows "\<exists>n \<in> set xs. nx b = Some n" and "\<exists>p \<in> set xs. pv b = Some p"
proof -
  obtain us vs where xs: "xs = us @ b # vs" using assms(2) by (auto simp: in_set_conv_decomp)
  have r: "ring nx pv (b # (vs @ us))" using ring_rotate [of nx pv us "b # vs"] assms(1) xs by simp
  then show "\<exists>n \<in> set xs. nx b = Some n"
  proof (cases "vs @ us = []")
    case False
    then have "nx b = Some (hd (vs @ us))"
      using dseg_entry_eq [of nx pv "Some b" "nx b" "vs @ us"] r by (auto simp: ring_Cons)
    then show ?thesis using hd_in_set [OF False] xs by auto
  qed (simp add: ring_Cons xs)
  have "pv b = Some (last (b # (vs @ us)))" using r by (simp add: ring_Cons)
  moreover have "last (b # (vs @ us)) \<in> set xs" using last_in_set [of "b # (vs @ us)"] xs by auto
  ultimately show "\<exists>p \<in> set xs. pv b = Some p" by blast
qed

lemma ring_unlink_first:
  assumes "ring nx pv (b # G)" "G \<noteq> []"
  shows "nx b = Some (hd G)" "pv b = Some (last G)"
    and "ring (nx(last G := Some (hd G))) (pv(hd G := Some (last G))) G"
proof -
  have r: "b \<notin> set G" "distinct G" "pv b = Some (last G)" "dseg nx pv (Some b) (nx b) G (Some (last G)) (Some b)"
    using assms by (auto simp: ring_Cons)
  show n: "nx b = Some (hd G)" using dseg_entry_eq [OF r(4)] assms(2) by simp
  show "pv b = Some (last G)" by (rule r(3))
  have "dseg nx (pv(hd G := Some (last G))) (Some (last G)) (nx b) G (Some (last G)) (Some b)"
    by (rule dseg_set_entry [OF r(4) r(2) assms(2)])
  then have "dseg (nx(last G := Some (hd G))) (pv(hd G := Some (last G))) (Some (last G)) (nx b) G
      (Some (last G)) (Some (hd G))"
    by (rule dseg_set_exit [OF _ r(2) assms(2)])
  then show "ring (nx(last G := Some (hd G))) (pv(hd G := Some (last G))) G"
    using n r(2) assms(2) by (simp add: ring_def)
qed

text \<open>A node is unlinked from anywhere in a ring.\<close>

lemma ring_unlink:
  assumes "ring nx pv (us @ b # vs)" "us @ vs \<noteq> []" "nx b = Some n" "pv b = Some p"
  shows "ring (nx(p := Some n)) (pv(n := Some p)) (us @ vs)"
    and "us = [] \<Longrightarrow> n = hd vs" and "n \<in> set (us @ vs)" and "p \<in> set (us @ vs)"
proof -
  have r: "ring nx pv (b # (vs @ us))" using ring_rotate [of nx pv us "b # vs"] assms(1) by simp
  have g: "vs @ us \<noteq> []" using assms(2) by auto
  note u = ring_unlink_first [OF r g]
  have np: "n = hd (vs @ us)" "p = last (vs @ us)" using u(1,2) assms(3,4) by auto
  show "ring (nx(p := Some n)) (pv(n := Some p)) (us @ vs)"
    using ring_rotate [of _ _ vs us] u(3) np by simp
  show "us = [] \<Longrightarrow> n = hd vs" using np by simp
  show "n \<in> set (us @ vs)" using hd_in_set [OF g] np(1) by auto
  show "p \<in> set (us @ vs)" using last_in_set [OF g] np(2) by auto
qed

text \<open>A node is linked in before the first one.\<close>

lemma ring_link:
  assumes "ring nx pv F" "b \<notin> set F"
  shows "pv (hd F) = Some (last F)"
    and "ring (nx(b := Some (hd F), last F := Some b)) (pv(b := Some (last F), hd F := Some b)) (F @ [b])"
proof -
  have F: "F \<noteq> []" "distinct F" and s: "dseg nx pv (Some (last F)) (Some (hd F)) F (Some (last F)) (Some (hd F))"
    using assms(1) by (auto simp: ring_def)
  show "pv (hd F) = Some (last F)" using s F(1) by (cases F) auto
  have l: "last F \<noteq> b" "hd F \<noteq> b" using assms(2) F(1) by (auto simp: in_set_conv_nth hd_conv_nth last_conv_nth)
  have "dseg (nx(last F := Some b)) (pv(hd F := Some b)) (Some b) (Some (hd F)) F (Some (last F)) (Some b)"
    using dseg_set_exit [OF dseg_set_entry [OF s F(2,1)] F(2,1)] by simp
  then have "dseg (nx(b := Some (hd F), last F := Some b)) (pv(b := Some (last F), hd F := Some b))
      (Some b) (Some (hd F)) F (Some (last F)) (Some b)"
    using assms(2) l by (subst dseg_cong [of F _ "nx(last F := Some b)" _ "pv(hd F := Some b)"]) auto
  then show "ring (nx(b := Some (hd F), last F := Some b)) (pv(b := Some (last F), hd F := Some b)) (F @ [b])"
    using F assms(2) l by (auto simp: ring_def dseg_append)
qed

end
