(* ===== verification/Buffer_Queues.thy ===== *)
theory Buffer_Queues
  imports Buffer Linked
begin

text \<open>
  The queues of the buffer cache as lists: the hash queues are doubly linked lists and the
  free list is a ring. Taking a buffer out and putting it in keep them well formed and
  change nothing but pointers (and the word at address 16 that \<open>set_prev\<close> may write).
\<close>

abbreviation nh :: "fs \<Rightarrow> nat \<Rightarrow> nat option" where "nh s b \<equiv> b_next (buf s b)"
abbreviation ph :: "fs \<Rightarrow> nat \<Rightarrow> nat option" where "ph s b \<equiv> b_prev (buf s b)"
abbreviation nf :: "fs \<Rightarrow> nat \<Rightarrow> nat option" where "nf s b \<equiv> b_next_free (buf s b)"
abbreviation pf :: "fs \<Rightarrow> nat \<Rightarrow> nat option" where "pf s b \<equiv> b_prev_free (buf s b)"

text \<open>A buffer head without its pointers.\<close>

definition unlinked :: "buffer_head \<Rightarrow> buffer_head" where
  "unlinked h = h\<lparr>b_prev := None, b_next := None, b_prev_free := None, b_next_free := None\<rparr>"

lemma unlinked_simps [simp]:
  "b_data (unlinked h) = b_data h" "b_dev (unlinked h) = b_dev h" "b_blocknr (unlinked h) = b_blocknr h"
  "b_uptodate (unlinked h) = b_uptodate h" "b_dirt (unlinked h) = b_dirt h" "b_count (unlinked h) = b_count h"
  "b_lock (unlinked h) = b_lock h"
  by (simp_all add: unlinked_def)

lemma unlinked_updates [simp]:
  "unlinked (h\<lparr>b_prev := p\<rparr>) = unlinked h" "unlinked (h\<lparr>b_next := p\<rparr>) = unlinked h"
  "unlinked (h\<lparr>b_prev_free := p\<rparr>) = unlinked h" "unlinked (h\<lparr>b_next_free := p\<rparr>) = unlinked h"
  by (simp_all add: unlinked_def)

lemma unlinkedD:
  assumes "unlinked h = unlinked g"
  shows "b_data h = b_data g" "b_dev h = b_dev g" "b_blocknr h = b_blocknr g" "b_uptodate h = b_uptodate g"
    "b_dirt h = b_dirt g" "b_count h = b_count g" "b_lock h = b_lock g" "hash_of h = hash_of g"
  using arg_cong [OF assms, of b_data] arg_cong [OF assms, of b_dev] arg_cong [OF assms, of b_blocknr]
    arg_cong [OF assms, of b_uptodate] arg_cong [OF assms, of b_dirt] arg_cong [OF assms, of b_count]
    arg_cong [OF assms, of b_lock]
  by (simp_all add: hash_of_def)

text \<open>What an operation on the queues leaves alone.\<close>

definition low_write :: "kern \<Rightarrow> kern \<Rightarrow> bool" where
  "low_write k k' \<longleftrightarrow> (\<exists>w. k' = k\<lparr>mem := (mem k)\<lparr>phys := (phys (mem k))(16 := w)\<rparr>\<rparr>)"

definition links_only :: "fs \<Rightarrow> fs \<Rightarrow> bool" where
  "links_only s s' \<longleftrightarrow> (\<forall>b. unlinked (buf s' b) = unlinked (buf s b)) \<and>
     (ker s' = ker s \<or> low_write (ker s) (ker s')) \<and>
     start_buffer s' = start_buffer s \<and> nr_buffers s' = nr_buffers s \<and> inode s' = inode s \<and>
     last_allocated_inode s' = last_allocated_inode s \<and> super s' = super s \<and>
     file_table s' = file_table s \<and> ttys s' = ttys s \<and> disk s' = disk s \<and> parts s' = parts s \<and>
     tty_cr s' = tty_cr s \<and> task_page s' = task_page s \<and> gdt s' = gdt s \<and> callable s' = callable s"

lemma low_write_trans: "low_write k k1 \<Longrightarrow> low_write k1 k2 \<Longrightarrow> low_write k k2"
  unfolding low_write_def by (elim exE, rule exI) simp

lemma links_only_refl [simp]: "links_only s s"
  by (simp add: links_only_def)

lemma links_only_trans [trans]:
  assumes "links_only s s1" "links_only s1 s2"
  shows "links_only s s2"
proof -
  have "ker s2 = ker s \<or> low_write (ker s) (ker s2)"
    using assms low_write_trans [of "ker s" "ker s1" "ker s2"] unfolding links_only_def by auto
  then show ?thesis using assms by (simp add: links_only_def)
qed

lemma links_only_upd:
  "(\<And>h. unlinked (f h) = unlinked h) \<Longrightarrow> links_only s (upd_buf b f s)"
  by (simp add: links_only_def)

lemma links_only_hash: "links_only s (s\<lparr>hash_table := t\<rparr>)" "links_only s (s\<lparr>free_list := l\<rparr>)"
  by (simp_all add: links_only_def)

lemma links_onlyD:
  assumes "links_only s s'"
  shows "b_data (buf s' b) = b_data (buf s b)" "b_dev (buf s' b) = b_dev (buf s b)"
    "b_blocknr (buf s' b) = b_blocknr (buf s b)" "b_uptodate (buf s' b) = b_uptodate (buf s b)"
    "b_dirt (buf s' b) = b_dirt (buf s b)" "b_count (buf s' b) = b_count (buf s b)"
    "b_lock (buf s' b) = b_lock (buf s b)" "hash_of (buf s' b) = hash_of (buf s b)"
    "nr_buffers s' = nr_buffers s" "disk s' = disk s" "parts s' = parts s"
  using assms unlinkedD [of "buf s' b" "buf s b"] by (simp_all add: links_only_def)


section \<open>The hash queues\<close>

definition queued :: "nat set \<Rightarrow> fs \<Rightarrow> nat \<Rightarrow> nat set" where
  "queued Q s q = {b \<in> Q. b_dev (buf s b) \<noteq> 0 \<and> hash_of (buf s b) = q}"

definition hash_ok :: "nat set \<Rightarrow> fs \<Rightarrow> bool" where
  "hash_ok Q s \<longleftrightarrow>
     (\<forall>q. \<exists>xs. dlist (nh s) (ph s) (hash_table s q) xs \<and> set xs = queued Q s q) \<and>
     (\<forall>b \<in> Q. b_dev (buf s b) = 0 \<longrightarrow> nh s b = None \<and> ph s b = None)"

lemma hash_okD:
  assumes "hash_ok Q s"
  obtains xs where "dlist (nh s) (ph s) (hash_table s q) xs" "set xs = queued Q s q"
  using assms unfolding hash_ok_def by blast

lemma hash_ok_null:
  "hash_ok Q s \<Longrightarrow> b \<in> Q \<Longrightarrow> b_dev (buf s b) = 0 \<Longrightarrow> nh s b = None \<and> ph s b = None"
  unfolding hash_ok_def by blast

text \<open>The first node of a queue, and the neighbours of a node, are in the queue.\<close>

lemma hash_ok_head: "hash_ok Q s \<Longrightarrow> hash_table s q = Some n \<Longrightarrow> n \<in> queued Q s q"
  by (erule hash_okD [of _ _ q]; rename_tac xs; case_tac xs) (auto simp: dlist_def)

lemma hash_ok_neighbours:
  assumes h: "hash_ok Q s" and b: "b \<in> Q" and n: "nh s b = Some n \<or> ph s b = Some n"
  shows "n \<in> queued Q s (hash_of (buf s b))" and "n \<noteq> b"
proof -
  have d: "b_dev (buf s b) \<noteq> 0" using hash_ok_null [OF h b] n by auto
  obtain xs where xs: "dlist (nh s) (ph s) (hash_table s (hash_of (buf s b))) xs"
      "set xs = queued Q s (hash_of (buf s b))"
    using hash_okD [OF h] .
  have "b \<in> set xs" using b d xs(2) by (simp add: queued_def)
  then have "n \<in> set xs \<and> n \<noteq> b" using dlist_neighbours(1,2) [OF xs(1)] n by blast
  then show "n \<in> queued Q s (hash_of (buf s b))" "n \<noteq> b" using xs(2) by auto
qed

lemma hash_ok_cong:
  assumes "hash_ok Q s" "\<And>b. b \<in> Q \<Longrightarrow> nh s' b = nh s b" "\<And>b. b \<in> Q \<Longrightarrow> ph s' b = ph s b"
    and "\<And>b. b \<in> Q \<Longrightarrow> b_dev (buf s' b) = b_dev (buf s b)" "\<And>b. b \<in> Q \<Longrightarrow> hash_of (buf s' b) = hash_of (buf s b)"
    and "hash_table s' = hash_table s"
  shows "hash_ok Q s'"
  unfolding hash_ok_def
proof (intro conjI allI)
  fix q
  obtain xs where xs: "dlist (nh s) (ph s) (hash_table s q) xs" "set xs = queued Q s q"
    using hash_okD [OF assms(1)] .
  have "dlist (nh s') (ph s') (hash_table s' q) xs"
    using xs assms(2,3,6) by (subst dlist_cong [of xs _ "nh s" _ "ph s"]) (auto simp: queued_def)
  moreover have "queued Q s' q = queued Q s q" using assms(4,5) by (auto simp: queued_def)
  ultimately show "\<exists>xs. dlist (nh s') (ph s') (hash_table s' q) xs \<and> set xs = queued Q s' q"
    using xs(2) by blast
qed (use assms hash_ok_null [OF assms(1)] in simp_all)

lemma unhash_eq:
  assumes "nh s b \<noteq> Some b"
  shows "nh (unhash b s) x = (if ph s b = Some x then nh s b else nh s x)"
    and "ph (unhash b s) x = (if nh s b = Some x then ph s b else ph s x)"
    and "ph s b \<noteq> Some b \<Longrightarrow> hash_table (unhash b s) =
      (if hash_table s (hash_of (buf s b)) = Some b
       then (hash_table s)(hash_of (buf s b) := nh s b) else hash_table s)"
    and "links_only s (unhash b s)" and "free_list (unhash b s) = free_list s"
    and "nf (unhash b s) x = nf s x" and "pf (unhash b s) x = pf s x"
  using assms
  by (auto simp: unhash_def Let_def links_only_def hash_of_def split: option.splits)

lemma hash_ok_unhash:
  assumes h: "hash_ok Q s" and b: "b \<in> Q"
  shows "hash_ok (Q - {b}) (unhash b s)" and "links_only s (unhash b s)"
    and "free_list (unhash b s) = free_list s" "nf (unhash b s) x = nf s x" "pf (unhash b s) x = pf s x"
proof -
  let ?q = "hash_of (buf s b)"
  have nb: "nh s b \<noteq> Some b" "ph s b \<noteq> Some b"
    and nbrs: "\<And>n. nh s b = Some n \<or> ph s b = Some n \<Longrightarrow> n \<in> queued Q s ?q"
    and none: "b_dev (buf s b) = 0 \<Longrightarrow> hash_table s q \<noteq> Some b" for q
    using hash_ok_neighbours [OF h b] hash_ok_head [OF h, of q b] by (auto simp: queued_def)
  note u = unhash_eq [OF nb(1)]
  show l: "links_only s (unhash b s)" by (rule u(4))
  show "free_list (unhash b s) = free_list s" "nf (unhash b s) x = nf s x" "pf (unhash b s) x = pf s x"
    by (simp_all add: u)
  have qd: "queued (Q - {b}) (unhash b s) q = queued Q s q - {b}" for q
    using links_onlyD(2,8) [OF l] by (auto simp: queued_def)
  show "hash_ok (Q - {b}) (unhash b s)"
    unfolding hash_ok_def
  proof (intro conjI allI ballI impI)
    fix q
    obtain xs where xs: "dlist (nh s) (ph s) (hash_table s q) xs" "set xs = queued Q s q"
      using hash_okD [OF h] .
    show "\<exists>xs. dlist (nh (unhash b s)) (ph (unhash b s)) (hash_table (unhash b s) q) xs \<and>
      set xs = queued (Q - {b}) (unhash b s) q"
    proof (cases "b \<in> set xs")
      case True
      then have q: "q = ?q" using xs(2) by (simp add: queued_def)
      obtain us vs where split: "xs = us @ b # vs" using True by (auto simp: in_set_conv_decomp)
      have "dlist (nh (unhash b s)) (ph (unhash b s)) (if hash_table s q = Some b then nh s b else hash_table s q) (us @ vs)"
        by (rule iffD2 [OF dlist_cong dlist_remove [OF xs(1) [unfolded split]]])
           (simp_all add: u(1,2) split: option.split)
      moreover have "hash_table (unhash b s) q = (if hash_table s q = Some b then nh s b else hash_table s q)"
        using u(3) [OF nb(2)] q by simp
      moreover have "b \<notin> set (us @ vs)" using xs(1) split by (auto simp: dlist_def)
      ultimately show ?thesis
        using xs(2) split by (intro exI [of _ "us @ vs"]) (auto simp: qd)
    next
      case False
      have other: "hash_table (unhash b s) q = hash_table s q"
        using u(3) [OF nb(2)] none False xs b
        by (cases xs) (auto simp: queued_def dlist_def split: if_splits)
      have "dlist (nh (unhash b s)) (ph (unhash b s)) (hash_table s q) xs"
      proof (subst dlist_cong [of xs _ "nh s" _ "ph s"])
        fix x assume x: "x \<in> set xs"
        have "q \<noteq> ?q \<or> nh s b = None \<and> ph s b = None"
          using False xs(2) b hash_ok_null [OF h b] by (auto simp: queued_def)
        moreover have "hash_of (buf s x) = q" using x unfolding xs(2) queued_def by simp
        moreover have "hash_of (buf s x) = ?q" if "nh s b = Some x \<or> ph s b = Some x"
          using nbrs [OF that] unfolding queued_def by simp
        ultimately have "nh s b \<noteq> Some x \<and> ph s b \<noteq> Some x" by fastforce
        then show "nh (unhash b s) x = nh s x" "ph (unhash b s) x = ph s x"
          by (simp_all add: u(1,2))
      qed (use xs in auto)
      then show ?thesis using xs(2) False by (intro exI [of _ xs]) (simp add: other qd)
    qed
  next
    fix x assume x: "x \<in> Q - {b}" "b_dev (buf (unhash b s) x) = 0"
    then have d: "b_dev (buf s x) = 0" using links_onlyD(2) [OF l] by simp
    then have "nh s b \<noteq> Some x \<and> ph s b \<noteq> Some x" using nbrs by (auto simp: queued_def)
    then show "nh (unhash b s) x = None" "ph (unhash b s) x = None"
      using hash_ok_null [OF h _ d] x(1) by (simp_all add: u(1,2))
  qed
qed

text \<open>Putting a buffer into its queue.\<close>

lemma set_prev_eq [simp]:
  "nh (set_prev n b s) x = nh s x" "ph (set_prev n b s) x = (if n = Some x then Some b else ph s x)"
  "hash_table (set_prev n b s) = hash_table s" "free_list (set_prev n b s) = free_list s"
  "nf (set_prev n b s) x = nf s x" "pf (set_prev n b s) x = pf s x" "links_only s (set_prev n b s)"
  by (auto simp: set_prev_def links_only_def upd_ker_def low_write_def split: option.splits)

lemma enhash_links [simp]:
  "links_only s (enhash b s)" "free_list (enhash b s) = free_list s" "nf (enhash b s) x = nf s x" "pf (enhash b s) x = pf s x"
proof -
  let ?s1 = "upd_buf b (\<lambda>h. h\<lparr>b_next := None\<rparr>) (upd_buf b (\<lambda>h. h\<lparr>b_prev := None\<rparr>) s)"
  have l1: "links_only s ?s1" by (rule links_only_trans; rule links_only_upd) simp_all
  show "links_only s (enhash b s)"
    unfolding enhash_def Let_def
    by (auto intro!: links_only_trans [OF l1] links_only_trans [OF _ set_prev_eq(7)]
        links_only_trans [OF _ links_only_hash(1)] links_only_upd)
  show "free_list (enhash b s) = free_list s" "nf (enhash b s) x = nf s x" "pf (enhash b s) x = pf s x"
    by (auto simp: enhash_def Let_def)
qed

lemma hash_ok_enhash:
  assumes h: "hash_ok Q s" and b: "b \<notin> Q"
  shows "hash_ok (insert b Q) (enhash b s)"
proof (cases "b_dev (buf s b) = 0")
  case True
  have "hash_ok Q (enhash b s)"
    by (rule hash_ok_cong [OF h]) (use b True in \<open>auto simp: enhash_def Let_def\<close>)
  moreover have "queued (insert b Q) (enhash b s) q = queued Q (enhash b s) q" for q
    using True by (auto simp: queued_def enhash_def Let_def)
  moreover have "nh (enhash b s) b = None" "ph (enhash b s) b = None"
    using True by (simp_all add: enhash_def Let_def)
  ultimately show ?thesis
    unfolding hash_ok_def by simp
next
  case False
  let ?q = "hash_of (buf s b)" and ?e = "enhash b s"
  have fields: "nh ?e x = (if x = b then hash_table s ?q else nh s x)"
    "ph ?e x = (if hash_table s ?q = Some x then Some b else if x = b then None else ph s x)"
    "hash_table ?e = (hash_table s)(?q := Some b)" for x
    using False by (auto simp: enhash_def Let_def hash_of_def)
  note same = links_onlyD(2,8) [OF enhash_links(1) [of s b]]
  have qd: "queued (insert b Q) ?e q = (if q = ?q then insert b (queued Q s q) else queued Q s q)" for q
    using same False by (auto simp: queued_def)
  show ?thesis
    unfolding hash_ok_def
  proof (intro conjI allI ballI impI)
    fix q
    obtain xs where xs: "dlist (nh s) (ph s) (hash_table s q) xs" "set xs = queued Q s q"
      using hash_okD [OF h] .
    have nb: "b \<notin> set xs" using xs(2) b by (simp add: queued_def)
    show "\<exists>xs. dlist (nh ?e) (ph ?e) (hash_table ?e q) xs \<and> set xs = queued (insert b Q) ?e q"
    proof (cases "q = ?q")
      case True
      have "dlist (nh ?e) (ph ?e) (Some b) (b # xs)"
        by (rule iffD2 [OF dlist_cong dlist_push [OF xs(1) nb]])
           (auto simp: fields True split: option.splits)
      then show ?thesis using True xs(2) by (intro exI [of _ "b # xs"]) (simp add: fields(3) qd)
    next
      case False
      note hash_ok_head [OF h, of ?q]
      then have "dlist (nh ?e) (ph ?e) (hash_table s q) xs"
        using xs False nb by (subst dlist_cong [of xs _ "nh s" _ "ph s"]) (auto simp: fields queued_def)
      then show ?thesis using False xs(2) by (intro exI [of _ xs]) (simp add: fields(3) qd)
    qed
  next
    fix x assume x: "x \<in> insert b Q" "b_dev (buf ?e x) = 0"
    then have xq: "x \<in> Q" "x \<noteq> b" "b_dev (buf s x) = 0" using same False by auto
    have "hash_table s ?q \<noteq> Some x" using hash_ok_head [OF h, of ?q x] xq(3) by (auto simp: queued_def)
    then show "nh ?e x = None" "ph ?e x = None"
      using hash_ok_null [OF h xq(1,3)] xq(2) by (simp_all add: fields)
  qed
qed


section \<open>The free list\<close>

definition free_ok :: "nat list \<Rightarrow> fs \<Rightarrow> bool" where
  "free_ok F s \<longleftrightarrow> ring (nf s) (pf s) F \<and> free_list s = hd F"

definition queues_ok :: "nat list \<Rightarrow> fs \<Rightarrow> bool" where
  "queues_ok F s \<longleftrightarrow> free_ok F s \<and> hash_ok (set F) s"

lemma free_ok_cong:
  assumes "free_ok F s" "\<And>b. b \<in> set F \<Longrightarrow> nf s' b = nf s b" "\<And>b. b \<in> set F \<Longrightarrow> pf s' b = pf s b"
    and "free_list s' = free_list s"
  shows "free_ok F s'"
  using assms(1,4) ring_cong [of F "nf s'" "nf s" "pf s'" "pf s"] assms(2,3) by (simp add: free_ok_def)

text \<open>The state with another list, pointer by pointer.\<close>

definition same_hash :: "fs \<Rightarrow> fs \<Rightarrow> bool" where
  "same_hash s s' \<longleftrightarrow> links_only s s' \<and> hash_table s' = hash_table s \<and>
     (\<forall>b. nh s' b = nh s b) \<and> (\<forall>b. ph s' b = ph s b)"

lemma hash_ok_same: "hash_ok Q s \<Longrightarrow> same_hash s s' \<Longrightarrow> hash_ok Q s'"
  by (rule hash_ok_cong) (auto simp: same_hash_def dest: links_onlyD)

lemma unlink_free_ok:
  assumes f: "free_ok F s" and b: "b \<in> set F" and n: "2 \<le> length F"
  shows "\<exists>s'. unlink_free b s = Inr s' \<and> free_ok (remove1 b F) s' \<and> same_hash s s'"
proof -
  have r: "ring (nf s) (pf s) F" using f by (simp add: free_ok_def)
  obtain us vs where F: "F = us @ b # vs" "b \<notin> set us" using split_list_first [OF b] by blast
  have ne: "us @ vs \<noteq> []" using n F by auto
  obtain m p where mp: "nf s b = Some m" "pf s b = Some p" using ring_neighbours [OF r b] by blast
  note u = ring_unlink [OF r [unfolded F] ne mp]
  have d: "distinct F" using r by (simp add: ring_def)
  let ?s1 = "upd_buf m (\<lambda>h. h\<lparr>b_prev_free := Some p\<rparr>) (upd_buf p (\<lambda>h. h\<lparr>b_next_free := Some m\<rparr>) s)"
  let ?s' = "if free_list s = b then ?s1\<lparr>free_list := m\<rparr> else ?s1"
  have run: "unlink_free b s = Inr ?s'" using mp by (simp add: unlink_free_def)
  have "ring (nf ?s') (pf ?s') (us @ vs)"
    by (rule iffD2 [OF ring_cong u(1)]) auto
  moreover have "free_list ?s' = hd (us @ vs)"
    using f d F u(2) ne by (cases us) (auto simp: free_ok_def)
  moreover have "remove1 b F = us @ vs" using F by (simp add: remove1_append)
  ultimately have "free_ok (remove1 b F) ?s'" by (simp add: free_ok_def)
  moreover have "same_hash s ?s'"
    by (auto simp: same_hash_def links_only_def)
  ultimately show ?thesis using run by blast
qed

lemma link_free_ok:
  assumes f: "free_ok F s" and b: "b \<notin> set F"
  shows "\<exists>s'. link_free b s = Inr s' \<and> free_ok (F @ [b]) s' \<and> same_hash s s'"
proof -
  have r: "ring (nf s) (pf s) F" and h: "free_list s = hd F" using f by (auto simp: free_ok_def)
  have ne: "F \<noteq> []" using r by (simp add: ring_def)
  have l: "hd F \<noteq> b" using b hd_in_set [OF ne] by auto
  note k = ring_link [OF r b]
  let ?s' = "upd_buf (hd F) (\<lambda>h. h\<lparr>b_prev_free := Some b\<rparr>) (upd_buf (last F) (\<lambda>h. h\<lparr>b_next_free := Some b\<rparr>)
    (upd_buf b (\<lambda>h. h\<lparr>b_prev_free := Some (last F)\<rparr>) (upd_buf b (\<lambda>h. h\<lparr>b_next_free := Some (hd F)\<rparr>) s)))"
  have run: "link_free b s = Inr ?s'" using k(1) l h by (simp add: link_free_def Let_def)
  have "ring (nf ?s') (pf ?s') (F @ [b])"
    by (rule iffD2 [OF ring_cong k(2)]) auto
  then have "free_ok (F @ [b]) ?s'" using h ne by (simp add: free_ok_def)
  moreover have "same_hash s ?s'"
    by (auto simp: same_hash_def links_only_def)
  ultimately show ?thesis using run by blast
qed


section \<open>Out of the queues and back\<close>

lemma remove_from_queues_ok:
  assumes q: "queues_ok F s" and b: "b \<in> set F" and n: "2 \<le> length F"
  shows "\<exists>s'. remove_from_queues b s = Inr s' \<and> queues_ok (remove1 b F) s' \<and> links_only s s'"
proof -
  have f: "free_ok F s" and h: "hash_ok (set F) s" using q by (auto simp: queues_ok_def)
  note u = hash_ok_unhash [OF h b]
  have "free_ok F (unhash b s)" by (rule free_ok_cong [OF f]) (simp_all add: u(3-5))
  then obtain s' where s': "unlink_free b (unhash b s) = Inr s'" "free_ok (remove1 b F) s'" "same_hash (unhash b s) s'"
    using unlink_free_ok [OF _ b n] by blast
  have "distinct F" using f by (simp add: free_ok_def ring_def)
  then have "set (remove1 b F) = set F - {b}" by simp
  then have "hash_ok (set (remove1 b F)) s'" using hash_ok_same [OF u(1) s'(3)] by simp
  moreover have "links_only s s'" using links_only_trans [OF u(2)] s'(3) by (simp add: same_hash_def)
  ultimately show ?thesis using s' by (simp add: remove_from_queues_def queues_ok_def)
qed

lemma insert_into_queues_ok:
  assumes q: "queues_ok F s" and b: "b \<notin> set F"
  shows "\<exists>s'. insert_into_queues b s = Inr s' \<and> queues_ok (F @ [b]) s' \<and> links_only s s'"
proof -
  have f: "free_ok F s" and h: "hash_ok (set F) s" using q by (auto simp: queues_ok_def)
  obtain s1 where s1: "link_free b s = Inr s1" "free_ok (F @ [b]) s1" "same_hash s s1"
    using link_free_ok [OF f b] by blast
  have "hash_ok (insert b (set F)) (enhash b s1)"
    by (rule hash_ok_enhash [OF hash_ok_same [OF h s1(3)] b])
  moreover have "free_ok (F @ [b]) (enhash b s1)"
    by (rule free_ok_cong [OF s1(2)]) simp_all
  moreover have "links_only s (enhash b s1)"
    using links_only_trans [OF _ enhash_links(1)] s1(3) by (simp add: same_hash_def)
  ultimately show ?thesis using s1(1) by (simp add: insert_into_queues_def queues_ok_def)
qed


section \<open>Finding a buffer\<close>

lemma walk_dlist:
  assumes "dseg (\<lambda>b. b_next (bs b)) (\<lambda>b. b_prev (bs b)) p t xs l None"
  shows "walk bs dev block t =
    Some (find (\<lambda>b. uint (b_dev (bs b)) = dev \<and> uint (b_blocknr (bs b)) = block) xs)"
  using assms
proof (induction xs arbitrary: p t)
  case Nil
  then show ?case by (simp add: walk.simps)
next
  case (Cons x xs)
  then show ?case by (subst walk.simps) auto
qed

text \<open>A search ends, and finds a queued buffer of the block when there is one.\<close>

lemma find_buffer_spec:
  assumes "hash_ok Q s"
  obtains r where "find_buffer dev block s = Inr r"
    and "\<And>b. r = Some b \<Longrightarrow> b \<in> Q \<and> uint (b_dev (buf s b)) = dev \<and> uint (b_blocknr (buf s b)) = block \<and>
      b_dev (buf s b) \<noteq> 0"
    and "\<And>b. r = None \<Longrightarrow> dev \<noteq> 0 \<Longrightarrow> b \<in> Q \<Longrightarrow>
      \<not> (uint (b_dev (buf s b)) = dev \<and> uint (b_blocknr (buf s b)) = block)"
proof -
  let ?q = "hashfn dev block"
  let ?P = "\<lambda>b. uint (b_dev (buf s b)) = dev \<and> uint (b_blocknr (buf s b)) = block"
  obtain xs where xs: "dlist (nh s) (ph s) (hash_table s ?q) xs" "set xs = queued Q s ?q"
    using hash_okD [OF assms] .
  then obtain l where "dseg (nh s) (ph s) None (hash_table s ?q) xs l None" by (auto simp: dlist_def)
  then have r: "find_buffer dev block s = Inr (find ?P xs)"
    unfolding find_buffer_def by (simp add: walk_dlist)
  show thesis
  proof (rule that [OF r])
    fix b assume "find ?P xs = Some b"
    then have "b \<in> set xs \<and> ?P b" by (auto simp: find_Some_iff)
    then show "b \<in> Q \<and> uint (b_dev (buf s b)) = dev \<and> uint (b_blocknr (buf s b)) = block \<and> b_dev (buf s b) \<noteq> 0"
      unfolding xs(2) queued_def by simp
  next
    fix b assume a: "find ?P xs = None" "dev \<noteq> 0" "b \<in> Q"
    show "\<not> ?P b"
    proof
      assume p: "?P b"
      then have "hash_of (buf s b) = ?q" "b_dev (buf s b) \<noteq> 0" using a(2) by (auto simp: hash_of_def)
      then have "b \<in> set xs" unfolding xs(2) queued_def using a(3) by simp
      then show False using a(1) p by (auto simp: find_None_iff)
    qed
  qed
qed

end
