(* ===== verification/Buffer_Cache.thy ===== *)
theory Buffer_Cache
  imports Buffer_Queues
begin

text \<open>
  What the buffer cache promises: the blocks of the devices as a client sees them, \<open>view\<close>,
  are those of the disk or, where a buffer holds newer data, those of the buffer. Finding,
  reading, reusing and writing back of buffers leave the view as it is.
\<close>

section \<open>The invariant\<close>

definition on_disk :: "fs \<Rightarrow> buffer_head \<Rightarrow> bool" where
  "on_disk s h \<longleftrightarrow> MAJOR (ucast (b_dev h)) = 3 \<and> hd_address (parts s) h \<noteq> None \<and>
     disk s (b_dev h) (b_blocknr h) \<noteq> None"

definition buf_ok :: "fs \<Rightarrow> buffer_head \<Rightarrow> bool" where
  "buf_ok s h \<longleftrightarrow> b_lock h = 0 \<and> length (b_data h) = BLOCK_SIZE \<and>
     (if b_dev h = 0 then b_dirt h = 0
      else MAJOR (ucast (b_dev h)) = 3 \<and>
        (b_dirt h \<noteq> 0 \<longrightarrow> b_uptodate h \<noteq> 0) \<and> (b_uptodate h \<noteq> 0 \<longrightarrow> on_disk s h) \<and>
        (b_uptodate h \<noteq> 0 \<and> b_dirt h = 0 \<longrightarrow> disk s (b_dev h) (b_blocknr h) = Some (b_data h)))"

definition same_block :: "buffer_head \<Rightarrow> buffer_head \<Rightarrow> bool" where
  "same_block h g \<longleftrightarrow> b_dev h = b_dev g \<and> b_blocknr h = b_blocknr g"

definition bufs_ok :: "fs \<Rightarrow> bool" where
  "bufs_ok s \<longleftrightarrow> 2 \<le> nr_buffers s \<and>
     (\<forall>d k x. disk s d k = Some x \<longrightarrow> length x = BLOCK_SIZE) \<and>
     (\<forall>b < nr_buffers s. buf_ok s (buf s b)) \<and>
     (\<forall>a < nr_buffers s. \<forall>b < nr_buffers s.
        b_dev (buf s a) \<noteq> 0 \<and> same_block (buf s a) (buf s b) \<longrightarrow> a = b)"

definition cache_ok :: "fs \<Rightarrow> bool" where
  "cache_ok s \<longleftrightarrow> bufs_ok s \<and> (\<exists>F. queues_ok F s \<and> set F = {..<nr_buffers s})"

lemma bufs_okD:
  assumes "bufs_ok s"
  shows "2 \<le> nr_buffers s" and "\<And>d k x. disk s d k = Some x \<Longrightarrow> length x = BLOCK_SIZE"
    and "\<And>b. b < nr_buffers s \<Longrightarrow> buf_ok s (buf s b)"
    and "\<And>a b. a < nr_buffers s \<Longrightarrow> b < nr_buffers s \<Longrightarrow> b_dev (buf s a) \<noteq> 0 \<Longrightarrow>
      same_block (buf s a) (buf s b) \<Longrightarrow> a = b"
  using assms unfolding bufs_ok_def by blast+


section \<open>The view\<close>

definition holds :: "fs \<Rightarrow> u16 \<Rightarrow> u16 \<Rightarrow> nat \<Rightarrow> bool" where
  "holds s d k b \<longleftrightarrow> b_dev (buf s b) = d \<and> b_blocknr (buf s b) = k \<and> b_uptodate (buf s b) \<noteq> 0"

definition view :: "fs \<Rightarrow> u16 \<Rightarrow> u16 \<Rightarrow> u8 list option" where
  "view s d k =
     (case find (holds s d k) [0..<nr_buffers s] of
        None \<Rightarrow> disk s d k
      | Some b \<Rightarrow> Some (b_data (buf s b)))"

lemma view_cases:
  obtains (cached) b where "b < nr_buffers s" "holds s d k b" "view s d k = Some (b_data (buf s b))"
  | (plain) "\<And>b. b < nr_buffers s \<Longrightarrow> \<not> holds s d k b" "view s d k = disk s d k"
proof (cases "find (holds s d k) [0..<nr_buffers s]")
  case None
  show thesis
  proof (rule plain)
    show "\<And>b. b < nr_buffers s \<Longrightarrow> \<not> holds s d k b" using None by (auto simp: find_None_iff)
    show "view s d k = disk s d k" using None by (simp add: view_def)
  qed
next
  case (Some b)
  have "b \<in> set [0..<nr_buffers s] \<and> holds s d k b" using Some by (metis find_Some_iff nth_mem)
  then show thesis using cached [of b] Some by (simp add: view_def)
qed

lemma view_cached:
  assumes "bufs_ok s" "b < nr_buffers s" "holds s d k b" "d \<noteq> 0"
  shows "view s d k = Some (b_data (buf s b))"
proof (cases rule: view_cases [of s d k])
  case (cached c)
  have "c = b" using bufs_okD(4) [OF assms(1) cached(1) assms(2)] cached(2) assms(3,4)
    by (auto simp: holds_def same_block_def)
  then show ?thesis using cached by simp
qed (use assms in blast)

lemma view_plain:
  "(\<And>b. b < nr_buffers s \<Longrightarrow> \<not> holds s d k b) \<Longrightarrow> view s d k = disk s d k"
  by (cases rule: view_cases [of s d k]) auto

text \<open>Views agree when the buffers that hold data agree up to clean ones.\<close>

lemma view_eqI:
  assumes ok: "bufs_ok s" "bufs_ok s'" and d: "d \<noteq> 0"
    and n: "nr_buffers s' = nr_buffers s"
    and h: "\<And>b. b < nr_buffers s \<Longrightarrow> holds s d k b \<Longrightarrow>
      holds s' d k b \<and> b_data (buf s' b) = b_data (buf s b) \<or>
      (\<forall>c < nr_buffers s. \<not> holds s' d k c) \<and> disk s' d k = Some (b_data (buf s b))"
    and p: "(\<And>b. b < nr_buffers s \<Longrightarrow> \<not> holds s d k b) \<Longrightarrow>
      (\<exists>b < nr_buffers s. holds s' d k b \<and> Some (b_data (buf s' b)) = disk s d k) \<or>
      (\<forall>b < nr_buffers s. \<not> holds s' d k b) \<and> disk s' d k = disk s d k"
  shows "view s' d k = view s d k"
proof (cases rule: view_cases [of s d k])
  case (cached b)
  from h [OF cached(1,2)] show ?thesis
  proof
    assume a: "holds s' d k b \<and> b_data (buf s' b) = b_data (buf s b)"
    have "b < nr_buffers s'" using cached(1) n by simp
    from view_cached [OF ok(2) this _ d] a cached(3) show ?thesis by simp
  next
    assume a: "(\<forall>c < nr_buffers s. \<not> holds s' d k c) \<and> disk s' d k = Some (b_data (buf s b))"
    then have "view s' d k = disk s' d k" using n by (intro view_plain) auto
    then show ?thesis using a cached(3) by simp
  qed
next
  case plain
  from p [OF plain(1)] show ?thesis
  proof
    assume "\<exists>b < nr_buffers s. holds s' d k b \<and> Some (b_data (buf s' b)) = disk s d k"
    then obtain b where b: "b < nr_buffers s'" "holds s' d k b" "Some (b_data (buf s' b)) = disk s d k"
      using n by auto
    show ?thesis using view_cached [OF ok(2) b(1,2) d] b(3) plain(2) by simp
  next
    assume a: "(\<forall>b < nr_buffers s. \<not> holds s' d k b) \<and> disk s' d k = disk s d k"
    then have "view s' d k = disk s' d k" using n by (intro view_plain) auto
    then show ?thesis using a plain(2) by simp
  qed
qed



section \<open>What operations keep\<close>

text \<open>
  \<open>outside s s'\<close>: nothing outside of the cache has changed but for the word at address 16, and
  the disk has the same bad blocks.
\<close>

definition outside :: "fs \<Rightarrow> fs \<Rightarrow> bool" where
  "outside s s' \<longleftrightarrow> (ker s' = ker s \<or> low_write (ker s) (ker s')) \<and> start_buffer s' = start_buffer s \<and>
     nr_buffers s' = nr_buffers s \<and> inode s' = inode s \<and>
     last_allocated_inode s' = last_allocated_inode s \<and> super s' = super s \<and>
     file_table s' = file_table s \<and> ttys s' = ttys s \<and> parts s' = parts s \<and>
     tty_cr s' = tty_cr s \<and> task_page s' = task_page s \<and> gdt s' = gdt s \<and> callable s' = callable s \<and>
     (\<forall>d k. (disk s' d k = None) = (disk s d k = None))"

lemma outside_refl [simp]: "outside s s"
  by (simp add: outside_def)

lemma outside_trans [trans]:
  assumes "outside s s1" "outside s1 s2"
  shows "outside s s2"
proof -
  have "ker s2 = ker s \<or> low_write (ker s) (ker s2)"
    using assms low_write_trans unfolding outside_def by metis
  then show ?thesis using assms by (simp add: outside_def)
qed

lemma links_only_outside: "links_only s s' \<Longrightarrow> outside s s'"
  by (simp add: links_only_def outside_def)

lemma outsideD:
  assumes "outside s s'"
  shows "nr_buffers s' = nr_buffers s" "inode s' = inode s" "super s' = super s" "parts s' = parts s"
    "file_table s' = file_table s"
  using assms by (simp_all add: outside_def)

lemma on_disk_cong:
  assumes "b_dev h' = b_dev h" "b_blocknr h' = b_blocknr h" "parts s' = parts s"
    and "(disk s' (b_dev h) (b_blocknr h) = None) = (disk s (b_dev h) (b_blocknr h) = None)"
  shows "on_disk s' h' = on_disk s h"
  using assms by (simp add: on_disk_def hd_address_def Let_def)

lemma queues_ok_cong:
  assumes "queues_ok F s" "free_list s' = free_list s" "hash_table s' = hash_table s"
    and "\<And>b. b \<in> set F \<Longrightarrow> nf s' b = nf s b \<and> pf s' b = pf s b \<and> nh s' b = nh s b \<and> ph s' b = ph s b \<and>
      b_dev (buf s' b) = b_dev (buf s b) \<and> b_blocknr (buf s' b) = b_blocknr (buf s b)"
  shows "queues_ok F s'"
  unfolding queues_ok_def
proof
  show "free_ok F s'"
    by (rule free_ok_cong [of F s]) (use assms in \<open>auto simp: queues_ok_def\<close>)
  show "hash_ok (set F) s'"
    by (rule hash_ok_cong [of "set F" s]) (use assms in \<open>auto simp: queues_ok_def hash_of_def\<close>)
qed

text \<open>A change of the pointers alone changes nothing that is seen.\<close>

lemma links_only_bufs_ok:
  assumes "links_only s s'"
  shows "bufs_ok s' = bufs_ok s" and "view s' = view s" and "holds s' d k b = holds s d k b"
proof -
  note l = links_onlyD [OF assms]
  have "on_disk s' (buf s' b) = on_disk s (buf s b)" for b
    by (rule on_disk_cong) (simp_all add: l)
  then have "buf_ok s' (buf s' b) = buf_ok s (buf s b)" for b
    by (simp add: buf_ok_def l)
  then show "bufs_ok s' = bufs_ok s" by (simp add: bufs_ok_def same_block_def l)
  have h: "holds s' d k = holds s d k" for d k by (simp add: holds_def fun_eq_iff l)
  then show "holds s' d k b = holds s d k b" by simp
  show "view s' = view s" by (auto simp: fun_eq_iff view_def h l split: option.splits)
qed


section \<open>Writing back\<close>

text \<open>\<open>synced s s'\<close>: some dirty buffers have been written to the disk.\<close>

definition synced :: "fs \<Rightarrow> fs \<Rightarrow> bool" where
  "synced s s' \<longleftrightarrow> outside s s' \<and> hash_table s' = hash_table s \<and> free_list s' = free_list s \<and>
     (\<forall>b. nf s' b = nf s b \<and> pf s' b = pf s b \<and> nh s' b = nh s b \<and> ph s' b = ph s b) \<and>
     (\<forall>b. b_dev (buf s' b) = b_dev (buf s b) \<and> b_blocknr (buf s' b) = b_blocknr (buf s b) \<and>
        b_data (buf s' b) = b_data (buf s b) \<and> b_count (buf s' b) = b_count (buf s b) \<and>
        b_lock (buf s' b) = b_lock (buf s b) \<and>
        (b_uptodate (buf s' b) = 0) = (b_uptodate (buf s b) = 0) \<and>
        (b_dirt (buf s b) = 0 \<longrightarrow> b_dirt (buf s' b) = 0))"

lemma synced_refl [simp]: "synced s s"
  by (simp add: synced_def)

lemma synced_trans [trans]:
  assumes "synced s s1" "synced s1 s2"
  shows "synced s s2"
  using assms outside_trans [of s s1 s2] unfolding synced_def by simp

lemma synced_queues: "synced s s' \<Longrightarrow> queues_ok F s \<Longrightarrow> queues_ok F s'"
  by (rule queues_ok_cong) (auto simp: synced_def)

lemma synced_holds: "synced s s' \<Longrightarrow> holds s' d k b = holds s d k b"
  by (simp add: synced_def holds_def)

lemma write_buffer:
  assumes ok: "bufs_ok s" and b: "b < nr_buffers s" "b_dirt (buf s b) \<noteq> 0"
  shows "\<exists>s'. ll_rw_block WRITE b s = Inr s' \<and> bufs_ok s' \<and> synced s s' \<and> b_dirt (buf s' b) = 0 \<and>
    (\<forall>d k. d \<noteq> 0 \<longrightarrow> view s' d k = view s d k)"
proof -
  let ?h = "buf s b"
  have bo: "buf_ok s ?h" by (rule bufs_okD(3) [OF ok b(1)])
  then have h: "b_dev ?h \<noteq> 0" "MAJOR (ucast (b_dev ?h)) = 3" "b_lock ?h = 0" "b_uptodate ?h \<noteq> 0"
      "length (b_data ?h) = BLOCK_SIZE" and od: "on_disk s ?h"
    using b(2) by (auto simp: buf_ok_def split: if_splits)
  define s' where "s' = rw_disk WRITE b s"
  obtain x where x: "disk s (b_dev ?h) (b_blocknr ?h) = Some x" using od by (auto simp: on_disk_def)
  have buf': "buf s' c = (if c = b then ?h\<lparr>b_uptodate := 1, b_dirt := 0\<rparr> else buf s c)" for c
    by (simp add: s'_def rw_disk_def Let_def x upd_buf_def)
  have disk': "disk s' d k = (if d = b_dev ?h \<and> k = b_blocknr ?h then Some (b_data ?h) else disk s d k)" for d k
    by (simp add: s'_def rw_disk_def Let_def x)
  have rest: "outside s s'" "hash_table s' = hash_table s" "free_list s' = free_list s"
    using x by (auto simp: s'_def rw_disk_def Let_def outside_def)
  have n: "nr_buffers s' = nr_buffers s" "parts s' = parts s" using outsideD [OF rest(1)] by auto
  have run: "ll_rw_block WRITE b s = Inr s'"
    using h od by (auto simp: ll_rw_block_def on_disk_def s'_def split: option.splits)
  have sy: "synced s s'"
    using rest h(4) x by (auto simp: synced_def buf' disk')
  have od': "on_disk s' (buf s' c) = on_disk s (buf s c)" for c
    by (rule on_disk_cong) (use x in \<open>auto simp: buf' disk' n\<close>)
  have bok: "buf_ok s' (buf s' c)" if c: "c < nr_buffers s" for c
  proof (cases "c = b")
    case True
    then show ?thesis using h od od' [of b] by (simp add: buf_ok_def buf' disk')
  next
    case False
    have "\<not> same_block (buf s c) ?h" if "b_dev (buf s c) \<noteq> 0"
      using bufs_okD(4) [OF ok c b(1) that] False by blast
    then show ?thesis
      using bufs_okD(3) [OF ok c] False od' [of c] by (auto simp: buf_ok_def buf' disk' same_block_def)
  qed
  have ok': "bufs_ok s'"
    unfolding bufs_ok_def
  proof (intro conjI allI impI)
    show "length y = BLOCK_SIZE" if "disk s' d k = Some y" for d k y
      using that h(5) bufs_okD(2) [OF ok] by (auto simp: disk' split: if_splits)
    show "a = c" if "a < nr_buffers s'" "c < nr_buffers s'" "b_dev (buf s' a) \<noteq> 0 \<and> same_block (buf s' a) (buf s' c)" for a c
      by (rule bufs_okD(4) [OF ok]) (use that in \<open>auto simp: n buf' same_block_def split: if_splits\<close>)
  qed (use bok bufs_okD(1) [OF ok] in \<open>auto simp: n\<close>)
  have "view s' d k = view s d k" if d: "d \<noteq> 0" for d k
  proof (rule view_eqI [OF ok ok' d n(1)])
    fix c assume "c < nr_buffers s" "holds s d k c"
    then show "holds s' d k c \<and> b_data (buf s' c) = b_data (buf s c) \<or>
      (\<forall>c < nr_buffers s. \<not> holds s' d k c) \<and> disk s' d k = Some (b_data (buf s c))"
      using synced_holds [OF sy] sy by (simp add: synced_def)
  next
    assume a: "\<And>c. c < nr_buffers s \<Longrightarrow> \<not> holds s d k c"
    have "\<not> (d = b_dev ?h \<and> k = b_blocknr ?h)" using a [OF b(1)] h(4) by (auto simp: holds_def)
    then show "(\<exists>c < nr_buffers s. holds s' d k c \<and> Some (b_data (buf s' c)) = disk s d k) \<or>
      (\<forall>c < nr_buffers s. \<not> holds s' d k c) \<and> disk s' d k = disk s d k"
      using a synced_holds [OF sy] by (auto simp: disk')
  qed
  then show ?thesis using run ok' sy by (auto simp: buf')
qed

lemma wait_on_buffer_ok: "buf_ok s (buf s b) \<Longrightarrow> wait_on_buffer b s = Inr s"
  by (simp add: wait_on_buffer_def buf_ok_def)

lemma sync_bufs_ok:
  assumes "bufs_ok s" "set bs \<subseteq> {..<nr_buffers s}"
  shows "\<exists>s'. sync_bufs dev bs s = Inr s' \<and> bufs_ok s' \<and> synced s s' \<and>
    (\<forall>b \<in> set bs. dev = None \<or> dev = Some (uint (b_dev (buf s b))) \<longrightarrow> b_dirt (buf s' b) = 0) \<and>
    (\<forall>d k. d \<noteq> 0 \<longrightarrow> view s' d k = view s d k)"
  using assms
proof (induction bs arbitrary: s)
  case (Cons b bs)
  have b: "b < nr_buffers s" using Cons.prems(2) by simp
  show ?case
  proof (cases "dev \<noteq> None \<and> dev \<noteq> Some (uint (b_dev (buf s b)))")
    case True
    obtain s' where "sync_bufs dev bs s = Inr s'" "bufs_ok s'" "synced s s'"
        "\<forall>b \<in> set bs. dev = None \<or> dev = Some (uint (b_dev (buf s b))) \<longrightarrow> b_dirt (buf s' b) = 0"
        "\<forall>d k. d \<noteq> 0 \<longrightarrow> view s' d k = view s d k"
      using Cons.IH [OF Cons.prems(1)] Cons.prems(2) by auto
    then show ?thesis using True by auto
  next
    case False
    have w: "wait_on_buffer b s = Inr s"
      by (rule wait_on_buffer_ok [OF bufs_okD(3) [OF Cons.prems(1) b]])
    obtain s1 where s1: "(if b_dirt (buf s b) \<noteq> 0 then ll_rw_block WRITE b s else Inr s) = Inr s1"
        "bufs_ok s1" "synced s s1" "b_dirt (buf s1 b) = 0" "\<forall>d k. d \<noteq> 0 \<longrightarrow> view s1 d k = view s d k"
      using write_buffer [OF Cons.prems(1) b] Cons.prems(1) by (cases "b_dirt (buf s b) = 0") auto
    have "set bs \<subseteq> {..<nr_buffers s1}" using Cons.prems(2) s1(3) by (auto simp: synced_def outside_def)
    from Cons.IH [OF s1(2) this] obtain s2 where s2: "sync_bufs dev bs s1 = Inr s2" "bufs_ok s2" "synced s1 s2"
        "\<forall>b \<in> set bs. dev = None \<or> dev = Some (uint (b_dev (buf s1 b))) \<longrightarrow> b_dirt (buf s2 b) = 0"
        "\<forall>d k. d \<noteq> 0 \<longrightarrow> view s2 d k = view s1 d k" by blast
    have run: "sync_bufs dev (b # bs) s = Inr s2"
      unfolding sync_bufs.simps if_not_P [OF False] by (simp only: w s1(1) s2(1) andthen_Inr)
    have "b_dirt (buf s2 b) = 0" using s1(4) s2(3) by (simp add: synced_def)
    moreover have "b_dev (buf s1 c) = b_dev (buf s c)" for c using s1(3) by (simp add: synced_def)
    ultimately have "\<forall>c \<in> set (b # bs). dev = None \<or> dev = Some (uint (b_dev (buf s c))) \<longrightarrow> b_dirt (buf s2 c) = 0"
      using s2(4) by simp
    then show ?thesis
      using run s2(2,5) s1(5) synced_trans [OF s1(3) s2(3)] by auto
  qed
qed simp



section \<open>A free buffer\<close>

lemma ring_nx:
  assumes "ring nx pv (us @ x # vs)"
  shows "nx x = Some (if vs = [] then hd (us @ [x]) else hd vs)"
proof -
  obtain a b where "dseg nx pv (Some x) (nx x) vs a b" "b = Some (hd (us @ x # vs))"
    using assms by (auto simp: ring_def dseg_append)
  then show ?thesis using dseg_entry_eq [of nx pv "Some x" "nx x" vs a b] by (cases us) auto
qed

text \<open>The scan ends with the first buffer that is not in use.\<close>

lemma scan_free_spec:
  assumes "free_ok (us @ vs) s" "vs \<noteq> []" "\<forall>b \<in> set vs. b_lock (buf s b) = 0"
  shows "scan_free s (hd vs) = Some (Inr (find (\<lambda>b. b_count (buf s b) = 0) vs))"
  using assms
proof (induction vs arbitrary: us)
  case (Cons x vs)
  have r: "ring (nf s) (pf s) (us @ x # vs)" and f: "free_list s = hd (us @ x # vs)"
    using Cons.prems(1) by (auto simp: free_ok_def)
  note nx = ring_nx [OF r]
  show ?case
  proof (cases "b_count (buf s x) = 0")
    case True
    then show ?thesis using Cons.prems(3) by (simp add: scan_free.simps wait_on_buffer_def)
  next
    case False
    show ?thesis
    proof (cases "vs = []")
      case True
      have "nf s x = Some (free_list s)" using nx f True by (cases us) auto
      then show ?thesis using False True by (simp add: scan_free.simps)
    next
      case ne: False
      have "distinct (us @ x # vs)" using r by (simp add: ring_def)
      then have "hd vs \<noteq> free_list s" using f hd_in_set [OF ne] by (cases us) auto
      then have "scan_free s x = scan_free s (hd vs)"
        using nx ne False by (subst scan_free.simps) simp
      also have "\<dots> = Some (Inr (find (\<lambda>b. b_count (buf s b) = 0) vs))"
        using Cons.IH [of "us @ [x]"] Cons.prems(1,3) ne by simp
      finally show ?thesis using False by simp
    qed
  qed
qed simp


section \<open>Taking over a buffer\<close>

text \<open>
  What a client that holds buffers relies on: they stay with their blocks, keep their data,
  and only the use count of the buffer it gets has changed.
\<close>

definition kept :: "nat option \<Rightarrow> fs \<Rightarrow> fs \<Rightarrow> bool" where
  "kept r s s' \<longleftrightarrow> outside s s' \<and> (\<forall>d k. d \<noteq> 0 \<longrightarrow> view s' d k = view s d k) \<and>
     (\<forall>c < nr_buffers s. b_count (buf s' c) = b_count (buf s c) + (if r = Some c then 1 else 0) \<and>
        (b_count (buf s c) \<noteq> 0 \<longrightarrow>
           b_dev (buf s' c) = b_dev (buf s c) \<and> b_blocknr (buf s' c) = b_blocknr (buf s c) \<and>
           (b_uptodate (buf s c) \<noteq> 0 \<longrightarrow>
              b_uptodate (buf s' c) \<noteq> 0 \<and> b_data (buf s' c) = b_data (buf s c))))"

lemma bufs_ok_count:
  assumes "bufs_ok s"
  shows "bufs_ok (upd_buf b (\<lambda>h. h\<lparr>b_count := n\<rparr>) s)"
    and "view (upd_buf b (\<lambda>h. h\<lparr>b_count := n\<rparr>) s) = view s"
    and "queues_ok F s \<Longrightarrow> queues_ok F (upd_buf b (\<lambda>h. h\<lparr>b_count := n\<rparr>) s)"
proof -
  let ?s = "upd_buf b (\<lambda>h. h\<lparr>b_count := n\<rparr>) s"
  have "on_disk ?s (buf ?s c) = on_disk s (buf s c)" for c
    by (rule on_disk_cong) simp_all
  then have "buf_ok ?s (buf ?s c) = buf_ok s (buf s c)" for c
    by (simp add: buf_ok_def)
  moreover have "same_block (buf ?s a) (buf ?s c) = same_block (buf s a) (buf s c)" for a c
    by (simp add: same_block_def)
  moreover have "b_dev (buf ?s a) = b_dev (buf s a)" for a by simp
  ultimately show "bufs_ok ?s"
    using assms unfolding bufs_ok_def by (metis upd_buf_other(11) upd_buf_other(3))
  have h: "holds ?s d k = holds s d k" for d k by (auto simp: holds_def fun_eq_iff)
  show "view ?s = view s" by (auto simp: fun_eq_iff view_def h split: option.splits)
  show "queues_ok F ?s" if "queues_ok F s"
    by (rule queues_ok_cong [OF that]) auto
qed

lemma claim_spec:
  assumes ok: "bufs_ok s" and q: "queues_ok F s" and F: "set F = {..<nr_buffers s}"
    and b: "b \<in> set F" "b_count (buf s b) = 0"
    and none: "\<And>c. c < nr_buffers s \<Longrightarrow> \<not> (b_dev (buf s c) = d \<and> b_blocknr (buf s c) = k)"
    and d: "MAJOR (ucast d) = 3"
  shows "\<exists>s'. claim (uint d) (uint k) b s = Inr s' \<and> bufs_ok s' \<and> queues_ok (remove1 b F) s' \<and>
    kept (Some b) s s' \<and> b_dev (buf s' b) = d \<and> b_blocknr (buf s' b) = k \<and>
    (\<forall>c < nr_buffers s. c \<noteq> b \<longrightarrow> \<not> (b_dev (buf s' c) = d \<and> b_blocknr (buf s' c) = k))"
proof -
  let ?s1 = "upd_buf b (\<lambda>h. h\<lparr>b_count := b_count h + 1\<rparr>) s"
  have s1: "?s1 = upd_buf b (\<lambda>h. h\<lparr>b_count := 1\<rparr>) s" using b(2) by (simp add: upd_buf_def)
  note c1 = bufs_ok_count [OF ok, where b = b and n = 1]
  have dF: "distinct F" using q by (simp add: queues_ok_def free_ok_def ring_def)
  have "length F = nr_buffers s" using distinct_card [OF dF] F by simp
  then have l: "2 \<le> length F" using bufs_okD(1) [OF ok] by simp
  obtain s2 where s2: "remove_from_queues b ?s1 = Inr s2" "queues_ok (remove1 b F) s2" "links_only ?s1 s2"
    using remove_from_queues_ok [OF c1(3) [OF q] b(1) l] unfolding s1 by blast
  note l2 = links_onlyD [OF s2(3)] and b2 = links_only_bufs_ok [OF s2(3)]
  have ok2: "bufs_ok s2" using b2(1) c1(1) unfolding s1 by simp
  have bn: "b < nr_buffers s" using b(1) F by auto
  obtain s3 where s3: "(if b_dirt (buf s2 b) \<noteq> 0 then sync_dev (uint (b_dev (buf s2 b))) s2 else Inr s2) = Inr s3"
      "bufs_ok s3" "synced s2 s3" "b_dirt (buf s3 b) = 0" "\<forall>d k. d \<noteq> 0 \<longrightarrow> view s3 d k = view s2 d k"
  proof (cases "b_dirt (buf s2 b) = 0")
    case True
    then show thesis using that [of s2] ok2 by simp
  next
    case False
    have "set [0..<nr_buffers s2] \<subseteq> {..<nr_buffers s2}" by auto
    from sync_bufs_ok [OF ok2 this, of "Some (uint (b_dev (buf s2 b)))"] bn l2(9) False
    show thesis using that by (auto simp: sync_dev_def)
  qed
  have same3: "b_dev (buf s3 c) = b_dev (buf s c)" "b_blocknr (buf s3 c) = b_blocknr (buf s c)"
      "b_data (buf s3 c) = b_data (buf s c)" "b_count (buf s3 c) = (if c = b then 1 else b_count (buf s c))"
      "(b_uptodate (buf s3 c) = 0) = (b_uptodate (buf s c) = 0)" for c
    using s3(3) l2 b(2) by (auto simp: synced_def)
  have "outside s ?s1" by (simp add: outside_def)
  then have out3: "outside s s3"
    using outside_trans [OF outside_trans [OF _ links_only_outside [OF s2(3)]]] s3(3) by (simp add: synced_def)
  let ?f = "\<lambda>h. h\<lparr>b_dev := d, b_blocknr := k, b_dirt := 0, b_uptodate := 0\<rparr>"
  let ?s' = "upd_buf b ?f s3"
  have wi: "word_of_int (uint d) = d" "word_of_int (uint k) = k" by simp_all
  have run: "claim (uint d) (uint k) b s = Inr ?s'"
    by (simp add: claim_def Let_def s2(1) s3(1) wi del: if_split)
  have n: "nr_buffers s3 = nr_buffers s" using out3 by (simp add: outside_def)
  have d0: "d \<noteq> 0" using d by (auto simp: MAJOR_def)
  have none': "\<not> (b_dev (buf s3 c) = d \<and> b_blocknr (buf s3 c) = k)" if "c < nr_buffers s" for c
    using none [OF that] same3 by simp
  have ok': "bufs_ok ?s'"
    unfolding bufs_ok_def
  proof (intro conjI allI impI)
    show "buf_ok ?s' (buf ?s' c)" if c: "c < nr_buffers ?s'" for c
    proof (cases "c = b")
      case True
      have "buf_ok s3 (buf s3 b)" using bufs_okD(3) [OF s3(2)] bn n by simp
      then show ?thesis using True d d0 by (auto simp: buf_ok_def)
    next
      case False
      have "on_disk ?s' (buf s3 c) = on_disk s3 (buf s3 c)" by (rule on_disk_cong) simp_all
      then show ?thesis using bufs_okD(3) [OF s3(2), of c] c False by (simp add: buf_ok_def)
    qed
    show "a = c" if "a < nr_buffers ?s'" "c < nr_buffers ?s'" "b_dev (buf ?s' a) \<noteq> 0 \<and> same_block (buf ?s' a) (buf ?s' c)" for a c
      using that bufs_okD(4) [OF s3(2), of a c] none' [of a] none' [of c]
      by (auto simp: same_block_def n split: if_splits)
  qed (use bufs_okD(1,2) [OF s3(2)] in auto)
  have nb: "b \<notin> set (remove1 b F)" using dF by simp
  have q': "queues_ok (remove1 b F) ?s'"
    by (rule queues_ok_cong [OF synced_queues [OF s3(3) s2(2)]]) (use nb in auto)
  have v: "view ?s' e j = view s e j" if e: "e \<noteq> 0" for e j
  proof -
    have "view ?s' e j = view s3 e j"
    proof (rule view_eqI [OF s3(2) ok' e])
      fix c assume c: "c < nr_buffers s3" "holds s3 e j c"
      show "holds ?s' e j c \<and> b_data (buf ?s' c) = b_data (buf s3 c) \<or>
        (\<forall>c < nr_buffers s3. \<not> holds ?s' e j c) \<and> disk ?s' e j = Some (b_data (buf s3 c))"
      proof (cases "c = b")
        case True
        have "buf_ok s3 (buf s3 b)" using bufs_okD(3) [OF s3(2)] bn n by simp
        then have "disk s3 e j = Some (b_data (buf s3 b))"
          using c True e s3(4) by (auto simp: buf_ok_def holds_def)
        moreover have "\<not> holds ?s' e j a" if a: "a < nr_buffers s3" for a
        proof
          assume h: "holds ?s' e j a"
          then have "a \<noteq> b" by (auto simp: holds_def)
          moreover from this h have "holds s3 e j a" by (simp add: holds_def)
          ultimately show False
            using bufs_okD(4) [OF s3(2) a c(1)] c(2) True e by (simp add: holds_def same_block_def)
        qed
        ultimately show ?thesis using True by simp
      qed (use c in \<open>simp add: holds_def\<close>)
    next
      assume "\<And>c. c < nr_buffers s3 \<Longrightarrow> \<not> holds s3 e j c"
      then show "(\<exists>c < nr_buffers s3. holds ?s' e j c \<and> Some (b_data (buf ?s' c)) = disk s3 e j) \<or>
        (\<forall>c < nr_buffers s3. \<not> holds ?s' e j c) \<and> disk ?s' e j = disk s3 e j"
        by (auto simp: holds_def)
    qed simp
    then show ?thesis using s3(5) e b2(2) c1(2) unfolding s1 by simp
  qed
  have "outside s ?s'" using out3 by (simp add: outside_def)
  then have "kept (Some b) s ?s'"
    using v b(2) same3 by (auto simp: kept_def)
  then show ?thesis using run ok' q' none' n by auto
qed


definition is_block :: "fs \<Rightarrow> nat \<Rightarrow> u16 \<Rightarrow> u16 \<Rightarrow> bool" where
  "is_block s b d k \<longleftrightarrow> b < nr_buffers s \<and> b_dev (buf s b) = d \<and> b_blocknr (buf s b) = k"

lemma kept_refl [simp]: "kept None s s"
  by (simp add: kept_def)

lemma getblk_spec:
  assumes ok: "cache_ok s" and d: "MAJOR (ucast d) = 3"
  obtains (got) b s' where "getblk (uint d) (uint k) s = Inr (b, s')" "cache_ok s'" "is_block s' b d k"
      "kept (Some b) s s'"
  | (full) "getblk (uint d) (uint k) s = Inl Sleeps"
      "\<And>b. b < nr_buffers s \<Longrightarrow> b_count (buf s b) \<noteq> 0 \<and> \<not> is_block s b d k"
proof -
  obtain F where b: "bufs_ok s" and q: "queues_ok F s" and F: "set F = {..<nr_buffers s}"
    using ok by (auto simp: cache_ok_def)
  have d0: "d \<noteq> 0" using d by (auto simp: MAJOR_def)
  have h: "hash_ok (set F) s" using q by (simp add: queues_ok_def)
  obtain r where r: "find_buffer (uint d) (uint k) s = Inr r"
    and some: "\<And>b. r = Some b \<Longrightarrow> b \<in> set F \<and> uint (b_dev (buf s b)) = uint d \<and> uint (b_blocknr (buf s b)) = uint k \<and>
      b_dev (buf s b) \<noteq> 0"
    and none: "\<And>b. r = None \<Longrightarrow> uint d \<noteq> 0 \<Longrightarrow> b \<in> set F \<Longrightarrow>
      \<not> (uint (b_dev (buf s b)) = uint d \<and> uint (b_blocknr (buf s b)) = uint k)"
    by (rule find_buffer_spec [OF h, where dev = "uint d" and block = "uint k"]) (rule that)
  show thesis
  proof (cases r)
    case (Some c)
    let ?s' = "upd_buf c (\<lambda>h. h\<lparr>b_count := b_count h + 1\<rparr>) s"
    have s': "?s' = upd_buf c (\<lambda>h. h\<lparr>b_count := b_count (buf s c) + 1\<rparr>) s" by (simp add: upd_buf_def)
    have c: "c < nr_buffers s" using some [OF Some] unfolding F by simp
    have ck: "b_dev (buf s c) = d" "b_blocknr (buf s c) = k"
      using some [OF Some] by (simp_all add: word_uint_eq_iff)
    have "wait_on_buffer c ?s' = Inr ?s'"
      using bufs_okD(3) [OF b c] by (simp add: wait_on_buffer_def buf_ok_def)
    then have "get_hash_table (uint d) (uint k) s = Inr (Some c, ?s')"
      by (simp add: get_hash_table_def get_hash_loop.simps r Some ck)
    then have run: "getblk (uint d) (uint k) s = Inr (c, ?s')"
      by (simp add: getblk_def getblk_loop.simps)
    note cb = bufs_ok_count [OF b, where b = c and n = "b_count (buf s c) + 1", folded s']
    have "cache_ok ?s'" using cb(1) cb(3) [OF q] F by (auto simp: cache_ok_def)
    moreover have "kept (Some c) s ?s'"
      using cb(2) by (auto simp: kept_def outside_def)
    moreover have "is_block ?s' c d k" using c ck by (simp add: is_block_def)
    ultimately show thesis using got run by blast
  next
    case None
    have nm: "\<not> (b_dev (buf s c) = d \<and> b_blocknr (buf s c) = k)" if "c < nr_buffers s" for c
    proof -
      have "c \<in> set F" "uint d \<noteq> 0" using that d0 unfolding F by (auto simp: unsigned_eq_0_iff)
      from none [OF None this(2,1)] show ?thesis by auto
    qed
    have gh: "get_hash_table (uint d) (uint k) s = Inr (None, s)"
      by (simp add: get_hash_table_def get_hash_loop.simps r None)
    have ring: "free_ok ([] @ F) s" "F \<noteq> []" using q by (auto simp: queues_ok_def free_ok_def ring_def)
    have "\<forall>b \<in> set F. b_lock (buf s b) = 0" using bufs_okD(3) [OF b] F by (auto simp: buf_ok_def)
    from scan_free_spec [OF ring this] have sf: "joined (scan_free s (free_list s)) = Inr (find (\<lambda>b. b_count (buf s b) = 0) F)"
      using q by (simp add: queues_ok_def free_ok_def)
    show thesis
    proof (cases "find (\<lambda>b. b_count (buf s b) = 0) F")
      case None
      have "getblk (uint d) (uint k) s = Inl Sleeps"
        by (simp add: getblk_def getblk_loop.simps gh sf None)
      moreover have "b_count (buf s c) \<noteq> 0 \<and> \<not> is_block s c d k" if "c < nr_buffers s" for c
        using None nm [OF that] that F by (auto simp: find_None_iff is_block_def)
      ultimately show thesis using full by blast
    next
      case (Some c)
      then have c: "c \<in> set F" "b_count (buf s c) = 0" by (auto simp: find_Some_iff)
      obtain s1 where s1: "claim (uint d) (uint k) c s = Inr s1" "bufs_ok s1" "queues_ok (remove1 c F) s1"
          "kept (Some c) s s1" "b_dev (buf s1 c) = d" "b_blocknr (buf s1 c) = k"
          "\<forall>e < nr_buffers s. e \<noteq> c \<longrightarrow> \<not> (b_dev (buf s1 e) = d \<and> b_blocknr (buf s1 e) = k)"
        using claim_spec [OF b q F c nm d] by blast
      have dF: "distinct F" using ring by (simp add: free_ok_def ring_def)
      have n1: "nr_buffers s1 = nr_buffers s" using s1(4) by (simp add: kept_def outside_def)
      have h1: "hash_ok (set (remove1 c F)) s1" using s1(3) by (simp add: queues_ok_def)
      obtain r1 where r1: "find_buffer (uint d) (uint k) s1 = Inr r1"
        and some1: "\<And>b. r1 = Some b \<Longrightarrow> b \<in> set (remove1 c F) \<and> uint (b_dev (buf s1 b)) = uint d \<and>
          uint (b_blocknr (buf s1 b)) = uint k \<and> b_dev (buf s1 b) \<noteq> 0"
        by (rule find_buffer_spec [OF h1, where dev = "uint d" and block = "uint k"]) (rule that)
      have "r1 = None"
      proof (rule ccontr)
        assume "r1 \<noteq> None"
        then obtain e where e: "r1 = Some e" by blast
        from some1 [OF e] s1(7) F dF show False by (auto simp: word_uint_eq_iff)
      qed
      obtain s2 where s2: "insert_into_queues c s1 = Inr s2" "queues_ok (remove1 c F @ [c]) s2" "links_only s1 s2"
        using insert_into_queues_ok [OF s1(3), of c] dF by auto
      have run: "getblk (uint d) (uint k) s = Inr (c, s2)"
        using s1(1) r1 s2(1) \<open>r1 = None\<close> by (simp add: getblk_def getblk_loop.simps gh sf Some)
      note l = links_onlyD [OF s2(3)] and lb = links_only_bufs_ok [OF s2(3)]
      have "set (remove1 c F @ [c]) = {..<nr_buffers s2}" using F c(1) dF l(9) n1 by auto
      then have "cache_ok s2" using s2(2) lb(1) s1(2) by (auto simp: cache_ok_def)
      moreover have "kept (Some c) s s2"
        using s1(4) links_only_outside [OF s2(3)] lb(2) n1 by (auto simp: kept_def l intro: outside_trans)
      moreover have "is_block s2 c d k" using c(1) F s1(5,6) l n1 by (auto simp: is_block_def)
      ultimately show thesis using got run by blast
    qed
  qed
qed


section \<open>Releasing, reading and writing\<close>

lemma brelse_spec:
  assumes ok: "cache_ok s" and b: "b < nr_buffers s" "b_count (buf s b) \<noteq> 0"
  shows "\<exists>s'. brelse b s = Inr s' \<and> cache_ok s' \<and> s' = upd_buf b (\<lambda>h. h\<lparr>b_count := b_count h - 1\<rparr>) s \<and>
    view s' = view s"
proof -
  obtain F where o: "bufs_ok s" and q: "queues_ok F s" and F: "set F = {..<nr_buffers s}"
    using ok by (auto simp: cache_ok_def)
  let ?s' = "upd_buf b (\<lambda>h. h\<lparr>b_count := b_count h - 1\<rparr>) s"
  have s': "?s' = upd_buf b (\<lambda>h. h\<lparr>b_count := b_count (buf s b) - 1\<rparr>) s" by (simp add: upd_buf_def)
  note cb = bufs_ok_count [OF o, where b = b and n = "b_count (buf s b) - 1", folded s']
  have "brelse b s = Inr ?s'"
    using wait_on_buffer_ok [OF bufs_okD(3) [OF o b(1)]] b(2) by (simp add: brelse_def)
  moreover have "cache_ok ?s'" using cb(1) cb(3) [OF q] F by (auto simp: cache_ok_def)
  ultimately show ?thesis using cb(2) by blast
qed


text \<open>A buffer gets other data: this is the one block whose view changes.\<close>

definition fill :: "nat \<Rightarrow> u8 list \<Rightarrow> u8 \<Rightarrow> u8 \<Rightarrow> fs \<Rightarrow> fs" where
  "fill b x u t = upd_buf b (\<lambda>h. h\<lparr>b_data := x, b_uptodate := u, b_dirt := t\<rparr>)"

lemma fill_simps [simp]:
  "buf (fill b x u t s) c = (if c = b then (buf s b)\<lparr>b_data := x, b_uptodate := u, b_dirt := t\<rparr> else buf s c)"
  "nr_buffers (fill b x u t s) = nr_buffers s" "disk (fill b x u t s) = disk s"
  "parts (fill b x u t s) = parts s" "outside s (fill b x u t s)"
  by (simp_all add: fill_def outside_def)

lemma fill_spec:
  assumes ok: "bufs_ok s" and b: "b < nr_buffers s" "on_disk s (buf s b)" and x: "length x = BLOCK_SIZE"
    and u: "u \<noteq> 0" and t: "t = 0 \<Longrightarrow> disk s (b_dev (buf s b)) (b_blocknr (buf s b)) = Some x"
  shows "bufs_ok (fill b x u t s)" and "queues_ok F s \<Longrightarrow> queues_ok F (fill b x u t s)"
    and "e \<noteq> 0 \<Longrightarrow> view (fill b x u t s) e j =
      (if e = b_dev (buf s b) \<and> j = b_blocknr (buf s b) then Some x else view s e j)"
proof -
  let ?s = "fill b x u t s"
  have d0: "b_dev (buf s b) \<noteq> 0" using b(2) by (auto simp: on_disk_def MAJOR_def)
  have od: "on_disk ?s (buf ?s c) = on_disk s (buf s c)" for c by (rule on_disk_cong) simp_all
  have "buf_ok ?s (buf ?s c)" if c: "c < nr_buffers s" for c
  proof (cases "c = b")
    case True
    have "buf_ok s (buf s b)" by (rule bufs_okD(3) [OF ok b(1)])
    then show ?thesis using True b(2) x u t od [of b] d0 by (auto simp: buf_ok_def)
  next
    case False
    then show ?thesis using bufs_okD(3) [OF ok c] od [of c] by (simp add: buf_ok_def)
  qed
  moreover have "same_block (buf ?s a) (buf ?s c) = same_block (buf s a) (buf s c)"
      "b_dev (buf ?s a) = b_dev (buf s a)" for a c
    by (simp_all add: same_block_def)
  ultimately show ok': "bufs_ok ?s"
    using ok unfolding bufs_ok_def by (metis fill_simps(2) fill_simps(3))
  show "queues_ok F ?s" if "queues_ok F s"
    by (rule queues_ok_cong [OF that]) (auto simp: fill_def)
  assume e: "e \<noteq> 0"
  show "view ?s e j = (if e = b_dev (buf s b) \<and> j = b_blocknr (buf s b) then Some x else view s e j)"
  proof (cases "e = b_dev (buf s b) \<and> j = b_blocknr (buf s b)")
    case True
    then have "holds ?s e j b" using u by (simp add: holds_def)
    from view_cached [OF ok' _ this e] show ?thesis using True b(1) by simp
  next
    case False
    then have "holds ?s e j c = holds s e j c" for c by (auto simp: holds_def)
    moreover have "\<not> holds s e j b" using False by (auto simp: holds_def)
    ultimately have "view ?s e j = view s e j"
      by (intro view_eqI [OF ok ok' e]) auto
    then show ?thesis unfolding if_not_P [OF False] .
  qed
qed

definition readable :: "fs \<Rightarrow> u16 \<Rightarrow> u16 \<Rightarrow> bool" where
  "readable s d k \<longleftrightarrow> on_disk s (buf s 0\<lparr>b_dev := d, b_blocknr := k\<rparr>)"

lemma readable_buf: "b_dev h = d \<Longrightarrow> b_blocknr h = k \<Longrightarrow> on_disk s h = readable s d k"
  unfolding readable_def by (rule on_disk_cong) simp_all

lemma readable_outside: "outside s s' \<Longrightarrow> readable s' d k = readable s d k"
  unfolding readable_def by (rule on_disk_cong) (simp_all add: outside_def)

lemma kept_trans_same:
  assumes "kept r s s1" "bufs_ok s1" and b: "b < nr_buffers s" "b_uptodate (buf s1 b) = 0"
    and s': "outside s1 s'" "\<And>c. c \<noteq> b \<Longrightarrow> buf s' c = buf s1 c" "b_dev (buf s' b) = b_dev (buf s1 b)"
      "b_blocknr (buf s' b) = b_blocknr (buf s1 b)" "b_count (buf s' b) = b_count (buf s1 b)"
      "\<And>d k. d \<noteq> 0 \<Longrightarrow> view s' d k = view s1 d k"
  shows "kept r s s'"
  unfolding kept_def
proof (intro conjI allI impI)
  show "outside s s'" using assms(1) s'(1) outside_trans by (auto simp: kept_def)
  show "view s' d k = view s d k" if "d \<noteq> 0" for d k
    using assms(1) s'(6) [OF that] that by (simp add: kept_def)
  fix c assume c: "c < nr_buffers s"
  have e: "b_dev (buf s' c) = b_dev (buf s1 c)" "b_blocknr (buf s' c) = b_blocknr (buf s1 c)"
      "b_count (buf s' c) = b_count (buf s1 c)"
    using s'(2) [of c] s'(3-5) by (cases "c = b"; simp)+
  show "b_count (buf s' c) = b_count (buf s c) + (if r = Some c then 1 else 0)"
    using assms(1) c e(3) by (simp add: kept_def)
  assume n: "b_count (buf s c) \<noteq> 0"
  show "b_dev (buf s' c) = b_dev (buf s c)" "b_blocknr (buf s' c) = b_blocknr (buf s c)"
    using assms(1) c n e by (simp_all add: kept_def)
  assume u: "b_uptodate (buf s c) \<noteq> 0"
  have "c \<noteq> b" using assms(1) c n u b(2) by (auto simp: kept_def)
  then show "b_uptodate (buf s' c) \<noteq> 0" "b_data (buf s' c) = b_data (buf s c)"
    using assms(1) c n u s'(2) by (simp_all add: kept_def)
qed

lemma bread_spec:
  assumes ok: "cache_ok s" and d: "MAJOR (ucast d) = 3"
    and cnt: "\<And>b. b < nr_buffers s \<Longrightarrow> b_count (buf s b) \<noteq> 255"
  obtains (block) b s' where "bread (uint d) (uint k) s = Inr (Some b, s')" "cache_ok s'" "is_block s' b d k"
      "b_uptodate (buf s' b) \<noteq> 0" "view s d k = Some (b_data (buf s' b))" "kept (Some b) s s'"
  | (bad) s' where "bread (uint d) (uint k) s = Inr (None, s')" "cache_ok s'" "kept None s s'"
      "\<not> readable s' d k"
  | (full) "bread (uint d) (uint k) s = Inl Sleeps"
      "\<And>b. b < nr_buffers s \<Longrightarrow> b_count (buf s b) \<noteq> 0 \<and> \<not> is_block s b d k"
proof (cases rule: getblk_spec [OF ok d, of k])
  case 1: (1 b s1)
  have d0: "d \<noteq> 0" using d by (auto simp: MAJOR_def)
  obtain F where o: "bufs_ok s1" and q: "queues_ok F s1" and F: "set F = {..<nr_buffers s1}"
    using 1(2) by (auto simp: cache_ok_def)
  have b: "b < nr_buffers s1" "b_dev (buf s1 b) = d" "b_blocknr (buf s1 b) = k" using 1(3) by (auto simp: is_block_def)
  have n: "nr_buffers s1 = nr_buffers s" using 1(4) by (simp add: kept_def outside_def)
  have vs: "view s1 d k = view s d k" using 1(4) d0 by (simp add: kept_def)
  show thesis
  proof (cases "b_uptodate (buf s1 b) = 0")
    case False
    have "holds s1 d k b" using b False by (simp add: holds_def)
    from view_cached [OF o b(1) this d0] have "view s d k = Some (b_data (buf s1 b))" using vs by simp
    moreover have "bread (uint d) (uint k) s = Inr (Some b, s1)" using 1(1) False by (simp add: bread_def)
    ultimately show thesis using block 1 False by blast
  next
    case up: True
    have bo: "buf_ok s1 (buf s1 b)" by (rule bufs_okD(3) [OF o b(1)])
    have nv: "view s1 d k = disk s1 d k"
    proof (rule view_plain)
      fix c assume c: "c < nr_buffers s1"
      show "\<not> holds s1 d k c"
      proof
        assume "holds s1 d k c"
        then have "same_block (buf s1 c) (buf s1 b)" "b_uptodate (buf s1 c) \<noteq> 0" "b_dev (buf s1 c) \<noteq> 0"
          using b d0 by (auto simp: holds_def same_block_def)
        then show False using bufs_okD(4) [OF o c b(1)] up by auto
      qed
    qed
    show thesis
    proof (cases "readable s1 d k")
      case True
      then have od: "on_disk s1 (buf s1 b)" using readable_buf [of "buf s1 b"] b by simp
      then obtain x where x: "disk s1 d k = Some x" using b by (auto simp: on_disk_def)
      let ?s = "fill b x 1 0 s1"
      have rd: "ll_rw_block READ b s1 = Inr ?s"
        using od b bo x by (auto simp: ll_rw_block_def on_disk_def buf_ok_def rw_disk_def Let_def fill_def
            split: option.splits)
      have l: "length x = BLOCK_SIZE" by (rule bufs_okD(2) [OF o x])
      note f = fill_spec [OF o b(1) od l, of 1 0]
      have v: "view ?s e j = view s1 e j" if "e \<noteq> 0" for e j
        using f(3) [OF _ _ that] x b nv by auto
      have "kept (Some b) s ?s"
        by (rule kept_trans_same [OF 1(4) o, of b]) (use b up n v in auto)
      moreover have "cache_ok ?s" using f(1) f(2) [OF _ _ q] F x b by (auto simp: cache_ok_def)
      moreover have "bread (uint d) (uint k) s = Inr (Some b, ?s)" using 1(1) up rd by (simp add: bread_def)
      moreover have "is_block ?s b d k" using b by (simp add: is_block_def)
      moreover have "view s d k = Some (b_data (buf ?s b))" using vs nv x by simp
      moreover have "b_uptodate (buf ?s b) \<noteq> 0" by simp
      ultimately show thesis using block by blast
    next
      case False
      then have od: "\<not> on_disk s1 (buf s1 b)" using readable_buf [of "buf s1 b"] b by simp
      have "buf s1 b\<lparr>b_uptodate := 0\<rparr> = buf s1 b" using up by (cases "buf s1 b") simp
      then have same: "upd_buf b (\<lambda>h. h\<lparr>b_uptodate := 0\<rparr>) s1 = s1"
        by (simp add: upd_buf_def)
      have rd: "ll_rw_block READ b s1 = Inr s1"
        using od b d bo by (auto simp: ll_rw_block_def on_disk_def buf_ok_def rw_disk_def Let_def same
            split: option.splits)
      have "b < nr_buffers s" using b n by simp
      with 1(4) have "b_count (buf s1 b) = b_count (buf s b) + 1" by (simp add: kept_def)
      then have "b_count (buf s1 b) \<noteq> 0"
        using cnt [OF \<open>b < nr_buffers s\<close>] eq_neg_iff_add_eq_0 [of "b_count (buf s b)" 1] by auto
      from brelse_spec [OF 1(2) b(1) this] obtain s' where s': "brelse b s1 = Inr s'" "cache_ok s'"
          "s' = upd_buf b (\<lambda>h. h\<lparr>b_count := b_count h - 1\<rparr>) s1" "view s' = view s1" by blast
      have "kept None s s'"
        using 1(4) s'(4) unfolding s'(3) by (auto simp: kept_def outside_def)
      moreover have "\<not> readable s' d k"
        using False readable_outside [of s1 s' d k] unfolding s'(3) by (simp add: outside_def)
      moreover have "bread (uint d) (uint k) s = Inr (None, s')" using 1(1) up rd s'(1) by (simp add: bread_def)
      ultimately show thesis using bad s'(2) by blast
    qed
  qed
next
  case 2
  then show thesis using full by (simp add: bread_def)
qed

end
