(* ===== verification/Buffer_Props.thy ===== *)
theory Buffer_Props
  imports Buffer_Cache Tty_Ioctl
begin

text \<open>
  The properties of the buffer cache: a store of blocks is a locale, the cache with its disk
  an instance of it.
\<close>

section \<open>A store of blocks\<close>

datatype ('k, 'v) store_op = Read_op 'k | Write_op 'k 'v | Flush_op

text \<open>Running operations on a store, and on the map that a store stands for.\<close>

fun exec_ops :: "('k \<Rightarrow> 's \<Rightarrow> ('v option \<times> 's) result) \<Rightarrow> ('k \<Rightarrow> 'v \<Rightarrow> 's \<Rightarrow> 's result) \<Rightarrow>
    ('s \<Rightarrow> 's result) \<Rightarrow> ('k, 'v) store_op list \<Rightarrow> 's \<Rightarrow> ('v option list \<times> 's) result" where
  "exec_ops rd wr sync [] s = Inr ([], s)"
| "exec_ops rd wr sync (Read_op k # ops) s =
     andthen (rd k s) (\<lambda>(v, s). andthen (exec_ops rd wr sync ops s) (\<lambda>(vs, s). Inr (v # vs, s)))"
| "exec_ops rd wr sync (Write_op k v # ops) s =
     andthen (wr k v s) (\<lambda>s. exec_ops rd wr sync ops s)"
| "exec_ops rd wr sync (Flush_op # ops) s = andthen (sync s) (\<lambda>s. exec_ops rd wr sync ops s)"

fun map_ops :: "('k, 'v) store_op list \<Rightarrow> ('k \<Rightarrow> 'v option) \<Rightarrow> 'v option list \<times> ('k \<Rightarrow> 'v option)" where
  "map_ops [] m = ([], m)"
| "map_ops (Read_op k # ops) m = (case map_ops ops m of (vs, m') \<Rightarrow> (m k # vs, m'))"
| "map_ops (Write_op k v # ops) m = map_ops ops (m(k \<mapsto> v))"
| "map_ops (Flush_op # ops) m = map_ops ops m"

fun op_ok :: "('k \<Rightarrow> bool) \<Rightarrow> ('v \<Rightarrow> bool) \<Rightarrow> ('k, 'v) store_op \<Rightarrow> bool" where
  "op_ok usable good (Read_op k) = usable k"
| "op_ok usable good (Write_op k v) = (usable k \<and> good v)"
| "op_ok usable good Flush_op = True"

locale block_store =
  fixes inv :: "'s \<Rightarrow> bool"
    and content :: "'s \<Rightarrow> 'k \<Rightarrow> 'v option"
    and usable :: "'s \<Rightarrow> 'k \<Rightarrow> bool"
    and good :: "'v \<Rightarrow> bool"
    and rd :: "'k \<Rightarrow> 's \<Rightarrow> ('v option \<times> 's) result"
    and wr :: "'k \<Rightarrow> 'v \<Rightarrow> 's \<Rightarrow> 's result"
    and sync :: "'s \<Rightarrow> 's result"
  assumes read_law: "inv s \<Longrightarrow> usable s k \<Longrightarrow>
      \<exists>s'. rd k s = Inr (content s k, s') \<and> inv s' \<and> content s' = content s \<and> usable s' = usable s"
    and write_law: "inv s \<Longrightarrow> usable s k \<Longrightarrow> good v \<Longrightarrow>
      \<exists>s'. wr k v s = Inr s' \<and> inv s' \<and> content s' = (content s)(k \<mapsto> v) \<and> usable s' = usable s"
    and sync_law: "inv s \<Longrightarrow> \<exists>s'. sync s = Inr s' \<and> inv s' \<and> content s' = content s \<and> usable s' = usable s"
begin

lemma exec_map_ops:
  assumes "inv s" and "\<forall>x \<in> set ops. op_ok (usable s) good x"
  shows "\<exists>s'. exec_ops rd wr sync ops s = Inr (fst (map_ops ops (content s)), s') \<and> inv s' \<and>
    content s' = snd (map_ops ops (content s))"
  using assms
proof (induction ops arbitrary: s)
  case (Cons x ops)
  show ?case
  proof (cases x)
    case (Read_op k)
    then obtain s1 where s1: "rd k s = Inr (content s k, s1)" "inv s1" "content s1 = content s" "usable s1 = usable s"
      using read_law [OF Cons.prems(1), of k] Cons.prems(2) by auto
    obtain s2 where "exec_ops rd wr sync ops s1 = Inr (fst (map_ops ops (content s)), s2)" "inv s2"
        "content s2 = snd (map_ops ops (content s))"
      using Cons.IH [OF s1(2)] Cons.prems(2) s1(3,4) by auto
    then show ?thesis using Read_op s1(1) by (auto split: prod.splits)
  next
    case (Write_op k v)
    then obtain s1 where s1: "wr k v s = Inr s1" "inv s1" "content s1 = (content s)(k \<mapsto> v)" "usable s1 = usable s"
      using write_law [OF Cons.prems(1), of k v] Cons.prems(2) by auto
    have "\<exists>s'. exec_ops rd wr sync ops s1 = Inr (fst (map_ops ops (content s1)), s') \<and> inv s' \<and>
        content s' = snd (map_ops ops (content s1))"
      by (rule Cons.IH [OF s1(2)]) (use Cons.prems(2) s1(4) in simp)
    then show ?thesis unfolding s1(3) by (simp add: Write_op s1(1))
  next
    case Flush_op
    then obtain s1 where s1: "sync s = Inr s1" "inv s1" "content s1 = content s" "usable s1 = usable s"
      using sync_law [OF Cons.prems(1)] by auto
    then show ?thesis using Cons.IH [OF s1(2)] Cons.prems(2) Flush_op by simp
  qed
qed simp

end


section \<open>The cache is a store\<close>

text \<open>The way a block is read and written as a whole, as fs/block_dev.c does it.\<close>

definition read_block :: "u16 \<times> u16 \<Rightarrow> fs \<Rightarrow> (u8 list option \<times> fs) result" where
  "read_block dk s =
     andthen (bread (uint (fst dk)) (uint (snd dk)) s) (\<lambda>(r, s).
     case r of
       None \<Rightarrow> Inr (None, s)
     | Some b \<Rightarrow> andthen (brelse b s) (\<lambda>s. Inr (Some (b_data (buf s b)), s)))"

definition write_block :: "u16 \<times> u16 \<Rightarrow> u8 list \<Rightarrow> fs \<Rightarrow> fs result" where
  "write_block dk x s =
     andthen (bread (uint (fst dk)) (uint (snd dk)) s) (\<lambda>(r, s).
     case r of
       None \<Rightarrow> Inr s
     | Some b \<Rightarrow> brelse b (upd_buf b (\<lambda>h. h\<lparr>b_data := x, b_dirt := 1\<rparr>) s))"

definition sync_buffers :: "fs \<Rightarrow> fs result" where
  "sync_buffers s = sync_bufs None [0..<nr_buffers s] s"

definition block_content :: "fs \<Rightarrow> u16 \<times> u16 \<Rightarrow> u8 list option" where
  "block_content s dk = (if fst dk = 0 then None else view s (fst dk) (snd dk))"

definition block_usable :: "fs \<Rightarrow> u16 \<times> u16 \<Rightarrow> bool" where
  "block_usable s dk \<longleftrightarrow> MAJOR (ucast (fst dk)) = 3 \<and> readable s (fst dk) (snd dk)"

definition cache_idle :: "fs \<Rightarrow> bool" where
  "cache_idle s \<longleftrightarrow> cache_ok s \<and> (\<forall>b < nr_buffers s. b_count (buf s b) = 0)"

lemma block_content_eqI:
  "(\<And>d k. d \<noteq> 0 \<Longrightarrow> view s' d k = view s d k) \<Longrightarrow> block_content s' = block_content s"
  by (auto simp: block_content_def fun_eq_iff)

lemma block_usable_outside: "outside s s' \<Longrightarrow> block_usable s' = block_usable s"
  by (auto simp: block_usable_def fun_eq_iff readable_outside)

lemma idle_bread:
  assumes i: "cache_idle s" and u: "block_usable s (d, k)"
  obtains b s' where "bread (uint d) (uint k) s = Inr (Some b, s')" "cache_ok s'" "is_block s' b d k"
    "b_uptodate (buf s' b) \<noteq> 0" "view s d k = Some (b_data (buf s' b))" "kept (Some b) s s'" "b_count (buf s' b) = 1"
proof -
  have ok: "cache_ok s" and m: "MAJOR (ucast d) = 3" and r: "readable s d k"
    using i u by (auto simp: cache_idle_def block_usable_def)
  have n0: "b_count (buf s b) = 0" if "b < nr_buffers s" for b using i that by (simp add: cache_idle_def)
  have "0 < nr_buffers s" using ok by (auto simp: cache_ok_def bufs_ok_def)
  show thesis
  proof (cases rule: bread_spec [OF ok m, of k])
    case 1 then show ?case using n0 by simp
  next
    case 2: (2 b s')
    have "b_count (buf s' b) = 1"
      using 2(3,6) n0 by (auto simp: kept_def is_block_def outside_def)
    then show thesis using that 2 by blast
  next
    case 3: (3 s')
    have "outside s s'" using 3(3) by (simp add: kept_def)
    then show thesis using 3(4) r readable_outside by blast
  next
    case 4
    then show thesis using n0 \<open>0 < nr_buffers s\<close> by blast
  qed
qed

lemma count_back:
  assumes i: "cache_idle s" and k: "kept (Some b) s s1" and c: "c < nr_buffers s"
    and "buf s' = (buf s1)(b := (buf s1 b)\<lparr>b_data := x, b_dirt := t\<rparr>)"
  shows "b_count (buf (upd_buf b (\<lambda>h. h\<lparr>b_count := b_count h - 1\<rparr>) s') c) = 0"
  using assms by (auto simp: cache_idle_def kept_def)

interpretation cache: block_store cache_idle block_content block_usable "\<lambda>x. length x = BLOCK_SIZE"
  read_block write_block sync_buffers
proof
  fix s :: fs and dk :: "u16 \<times> u16"
  assume i: "cache_idle s" and u: "block_usable s dk"
  obtain d k where dk: "dk = (d, k)" by fastforce
  obtain b s1 where b: "bread (uint d) (uint k) s = Inr (Some b, s1)" "cache_ok s1" "is_block s1 b d k"
      "b_uptodate (buf s1 b) \<noteq> 0" "view s d k = Some (b_data (buf s1 b))" "kept (Some b) s s1" "b_count (buf s1 b) = 1"
    using idle_bread [OF i u [unfolded dk]] .
  have n: "nr_buffers s1 = nr_buffers s" and out: "outside s s1" using b(6) by (auto simp: kept_def outside_def)
  have bn: "b < nr_buffers s1" using b(3) by (simp add: is_block_def)
  have d0: "d \<noteq> 0" using u by (auto simp: dk block_usable_def MAJOR_def)
  obtain s2 where s2: "brelse b s1 = Inr s2" "cache_ok s2" "s2 = upd_buf b (\<lambda>h. h\<lparr>b_count := b_count h - 1\<rparr>) s1"
      "view s2 = view s1"
    using brelse_spec [OF b(2) bn] b(7) by auto
  have "cache_idle s2"
    using s2(2) count_back [where s' = s1 and x = "b_data (buf s1 b)" and t = "b_dirt (buf s1 b)", OF i b(6)] s2(3) n
    by (auto simp: cache_idle_def)
  moreover have "block_content s2 = block_content s"
    by (rule block_content_eqI) (use s2(4) b(6) in \<open>simp add: kept_def\<close>)
  moreover have "block_usable s2 = block_usable s"
    by (rule block_usable_outside) (use out s2(3) in \<open>simp add: outside_def\<close>)
  moreover have "read_block dk s = Inr (block_content s dk, s2)"
    using b(1,5) s2(1,3) d0 by (simp add: read_block_def dk block_content_def)
  ultimately show "\<exists>s'. read_block dk s = Inr (block_content s dk, s') \<and> cache_idle s' \<and>
      block_content s' = block_content s \<and> block_usable s' = block_usable s" by blast
  fix x :: "u8 list" assume x: "length x = BLOCK_SIZE"
  obtain F where o: "bufs_ok s1" and q: "queues_ok F s1" and F: "set F = {..<nr_buffers s1}"
    using b(2) by (auto simp: cache_ok_def)
  have bd: "b_dev (buf s1 b) = d" "b_blocknr (buf s1 b) = k" using b(3) by (auto simp: is_block_def)
  have od: "on_disk s1 (buf s1 b)"
    using readable_buf [OF bd] readable_outside [OF out] u by (simp add: dk block_usable_def)
  let ?s = "fill b x (b_uptodate (buf s1 b)) 1 s1"
  have fl: "upd_buf b (\<lambda>h. h\<lparr>b_data := x, b_dirt := 1\<rparr>) s1 = ?s"
    by (simp add: fill_def upd_buf_def)
  note f = fill_spec [OF o bn od x b(4), of 1]
  have okf: "cache_ok ?s" using f(1,2) q F by (auto simp: cache_ok_def)
  obtain s3 where s3: "brelse b ?s = Inr s3" "cache_ok s3" "s3 = upd_buf b (\<lambda>h. h\<lparr>b_count := b_count h - 1\<rparr>) ?s"
      "view s3 = view ?s"
    using brelse_spec [OF okf, of b] bn b(7) by auto
  have "cache_idle s3"
    using s3(2) count_back [where s' = ?s and x = x and t = 1, OF i b(6)] s3(3) n
    by (auto simp: cache_idle_def fill_def upd_buf_def)
  moreover have "block_content s3 = (block_content s)(dk \<mapsto> x)"
  proof
    fix y :: "u16 \<times> u16"
    show "block_content s3 y = ((block_content s)(dk \<mapsto> x)) y"
      using s3(4) f(3) [of "fst y" "snd y"] b(6) bd d0
      by (cases y) (auto simp: block_content_def kept_def dk)
  qed
  moreover have "block_usable s3 = block_usable s"
    by (rule block_usable_outside) (use out s3(3) in \<open>simp add: outside_def fill_def\<close>)
  moreover have "write_block dk x s = Inr s3"
    using b(1) s3(1) fl by (simp add: write_block_def dk)
  ultimately show "\<exists>s'. write_block dk x s = Inr s' \<and> cache_idle s' \<and>
      block_content s' = (block_content s)(dk \<mapsto> x) \<and> block_usable s' = block_usable s" by blast
next
  fix s :: fs assume i: "cache_idle s"
  then obtain F where o: "bufs_ok s" and q: "queues_ok F s" and F: "set F = {..<nr_buffers s}"
    by (auto simp: cache_idle_def cache_ok_def)
  obtain s' where s': "sync_buffers s = Inr s'" "bufs_ok s'" "synced s s'" "\<forall>d k. d \<noteq> 0 \<longrightarrow> view s' d k = view s d k"
    using sync_bufs_ok [OF o, of "[0..<nr_buffers s]" None] by (auto simp: sync_buffers_def atLeast0LessThan)
  have "cache_idle s'"
    using s'(2) synced_queues [OF s'(3) q] F s'(3) i
    by (auto simp: cache_idle_def cache_ok_def synced_def outside_def)
  moreover have "block_content s' = block_content s" by (rule block_content_eqI) (use s'(4) in auto)
  moreover have "block_usable s' = block_usable s"
    by (rule block_usable_outside) (use s'(3) in \<open>simp add: synced_def\<close>)
  ultimately show "\<exists>s'. sync_buffers s = Inr s' \<and> cache_idle s' \<and> block_content s' = block_content s \<and>
      block_usable s' = block_usable s" using s'(1) by blast
qed



section \<open>Initialisation\<close>

lemma dseg_upt:
  assumes "m < n" and "\<And>i. m \<le> i \<Longrightarrow> i < n \<Longrightarrow> nx i = (if i = n - 1 then e else Some (Suc i))"
    and "\<And>i. m \<le> i \<Longrightarrow> i < n \<Longrightarrow> pv i = (if i = m then p else Some (i - 1))"
  shows "dseg nx pv p (Some m) [m..<n] (Some (n - 1)) e"
  using assms
proof (induction "n - m" arbitrary: m p)
  case (Suc j)
  show ?case
  proof (cases "Suc m = n")
    case True
    then show ?thesis using Suc.prems(2,3) [of m] by (auto simp: upt_rec [of m])
  next
    case False
    have "dseg nx pv (Some m) (Some (Suc m)) [Suc m..<n] (Some (n - 1)) e"
      by (rule Suc.hyps(1)) (use Suc False in auto)
    then show ?thesis using Suc.prems False by (simp add: upt_rec [of m])
  qed
qed simp

lemma data_blocks_spec:
  assumes "1024 dvd b" and "b \<le> 0xA0000 \<or> 0x100000 < b"
  shows "sorted_wrt (\<lambda>x y. y + BLOCK_SIZE \<le> x) (data_blocks b h) \<and>
    (\<forall>i < length (data_blocks b h). h + 32 * Suc i \<le> data_blocks b h ! i) \<and>
    (\<forall>a \<in> set (data_blocks b h). a + BLOCK_SIZE \<le> b \<and> (a + BLOCK_SIZE \<le> 0xA0000 \<or> 0x100000 \<le> a))"
  using assms
proof (induction b h rule: data_blocks.induct)
  case (1 b h)
  let ?a = "b - BLOCK_SIZE" and ?b = "if b - BLOCK_SIZE = 0x100000 then 0xA0000 else b - BLOCK_SIZE"
  show ?case
  proof (cases "h + 32 \<le> ?a")
    case True
    have dvd: "1024 dvd ?b" using "1.prems"(1) by auto
    have ab: "?a + BLOCK_SIZE = b" "?b \<le> ?a" using True by auto
    have hole: "?b \<le> 0xA0000 \<or> 0x100000 < ?b"
    proof -
      have "0x100000 < b \<Longrightarrow> ?a \<noteq> 0x100000 \<Longrightarrow> 0x100000 < ?a"
        using "1.prems"(1) by (auto elim!: dvdE)
      then show ?thesis using "1.prems"(2) by auto
    qed
    have at: "?a + BLOCK_SIZE \<le> 0xA0000 \<or> 0x100000 \<le> ?a"
      using "1.prems" ab(1) by (auto elim!: dvdE)
    note IH = "1.IH" [OF True dvd hole]
    have eq: "data_blocks b h = ?a # data_blocks ?b (h + 32)"
      using True by (subst data_blocks.simps) simp
    define zs where "zs = data_blocks ?b (h + 32)"
    have zs: "sorted_wrt (\<lambda>x y. y + BLOCK_SIZE \<le> x) zs"
        "\<forall>i < length zs. h + 32 + 32 * Suc i \<le> zs ! i"
        "\<And>a. a \<in> set zs \<Longrightarrow> a + BLOCK_SIZE \<le> ?b \<and> (a + BLOCK_SIZE \<le> 0xA0000 \<or> 0x100000 \<le> a)"
      using IH unfolding zs_def by blast+
    have below: "a + BLOCK_SIZE \<le> ?a" if "a \<in> set zs" for a
      using zs(3) [OF that] ab(2) by linarith
    have "h + 32 * Suc i \<le> (?a # zs) ! i" if "i < Suc (length zs)" for i
      using zs(2) that True by (cases i) auto
    moreover have "a + BLOCK_SIZE \<le> b" if "a \<in> set (?a # zs)" for a
      using below [of a] that ab(1) by (cases "a = ?a") auto
    moreover have "a + BLOCK_SIZE \<le> 0xA0000 \<or> 0x100000 \<le> a" if "a \<in> set (?a # zs)" for a
      using zs(3) [of a] that at by auto
    moreover have "sorted_wrt (\<lambda>x y. y + BLOCK_SIZE \<le> x) (?a # zs)"
      using zs(1) below by simp
    ultimately show ?thesis unfolding eq zs_def [symmetric] by (metis length_Cons)
  next
    case False
    then have "data_blocks b h = []" by (subst data_blocks.simps) simp
    then show ?thesis by simp
  qed
qed



definition initial_links :: "nat \<Rightarrow> fs \<Rightarrow> bool" where
  "initial_links n s \<longleftrightarrow> (\<forall>b < n. b_dev (buf s b) = 0 \<and> nh s b = None \<and> ph s b = None \<and>
     nf s b = Some (if b = n - 1 then 0 else b + 1) \<and> pf s b = Some (if b = 0 then n - 1 else b - 1)) \<and>
     free_list s = 0 \<and> hash_table s = (\<lambda>_. None)"

lemma initial_queues: "initial_links n s \<Longrightarrow> 0 < n \<Longrightarrow> queues_ok [0..<n] s"
proof -
  assume i: "initial_links n s" and n: "0 < n"
  have "dseg (nf s) (pf s) (Some (n - 1)) (Some 0) [0..<n] (Some (n - 1)) (Some 0)"
    by (rule dseg_upt) (use i n in \<open>auto simp: initial_links_def\<close>)
  moreover have "last [0..<n] = n - 1" "hd [0..<n] = 0" using n by (simp_all add: last_conv_nth)
  ultimately have "free_ok [0..<n] s"
    using i n by (simp add: free_ok_def ring_def initial_links_def)
  moreover have "hash_ok (set [0..<n]) s"
    unfolding hash_ok_def
  proof (intro conjI allI ballI impI)
    show "\<exists>xs. dlist (nh s) (ph s) (hash_table s q) xs \<and> set xs = queued (set [0..<n]) s q" for q
      using i by (intro exI [of _ "[]"]) (auto simp: initial_links_def queued_def)
  qed (use i in \<open>auto simp: initial_links_def\<close>)
  ultimately show ?thesis by (simp add: queues_ok_def)
qed

lemma buffer_init_idle:
  assumes "2 \<le> length (data_blocks BUFFER_END (unat (start_buffer s)))"
    and "\<And>b. length (b_data (buf s b)) = BLOCK_SIZE"
    and "\<And>d k x. disk s d k = Some x \<Longrightarrow> length x = BLOCK_SIZE"
  shows "cache_idle (buffer_init s)"
proof -
  let ?s = "buffer_init s"
  define n where "n = length (data_blocks BUFFER_END (unat (start_buffer s)))"
  have n: "nr_buffers ?s = n" "2 \<le> n" using assms(1) by (simp_all add: buffer_init_def n_def Let_def)
  have b: "buf ?s b = (buf s b)\<lparr>b_dev := 0, b_dirt := 0, b_count := 0, b_lock := 0,
      b_uptodate := 0, b_next := None, b_prev := None, b_prev_free := Some (if b = 0 then n - 1 else b - 1),
      b_next_free := Some (if b = n - 1 then 0 else b + 1)\<rparr>" if "b < n" for b
    using that by (simp add: buffer_init_def n_def Let_def)
  have "initial_links n ?s"
    using b by (auto simp: initial_links_def) (simp_all add: buffer_init_def Let_def)
  then have "queues_ok [0..<n] ?s" using n by (intro initial_queues) auto
  moreover have "bufs_ok ?s"
    unfolding bufs_ok_def
  proof (intro conjI allI impI)
    show "length x = BLOCK_SIZE" if "disk ?s d k = Some x" for d k x
      using that assms(3) by (simp add: buffer_init_def Let_def)
  qed (use n b assms(2) in \<open>auto simp: buf_ok_def\<close>)
  ultimately show ?thesis
    using n b by (auto simp: cache_idle_def cache_ok_def intro!: exI [of _ "[0..<n]"])
qed



section \<open>The properties\<close>

text \<open>
  C19. Reads, writes and syncs of blocks of a disk give the same through the cache as on a plain
  map of blocks, whatever the number of buffers.
\<close>

theorem cache_transparent:
  assumes "cache_idle s"
    and "\<forall>x \<in> set ops. op_ok (block_usable s) (\<lambda>x. length x = BLOCK_SIZE) x"
  shows "\<exists>s'. exec_ops read_block write_block sync_buffers ops s =
      Inr (fst (map_ops ops (block_content s)), s') \<and> cache_idle s' \<and>
    block_content s' = snd (map_ops ops (block_content s))"
  using assms by (rule cache.exec_map_ops)

text \<open>
  C20. getblk returns a buffer of the block that was asked for, with the content of every block
  of the disk kept and no other buffer given up that is in use; it sleeps exactly when all
  buffers are in use and none holds the block.
\<close>

theorem getblk_returns:
  assumes "cache_ok s" and "MAJOR (ucast d) = 3"
  shows "(\<exists>b s'. getblk (uint d) (uint k) s = Inr (b, s') \<and> cache_ok s' \<and> is_block s' b d k \<and>
      kept (Some b) s s') \<or>
    getblk (uint d) (uint k) s = Inl Sleeps \<and>
      (\<forall>b < nr_buffers s. b_count (buf s b) \<noteq> 0 \<and> \<not> is_block s b d k)"
proof (cases rule: getblk_spec [OF assms, of k])
  case 1
  then show ?thesis by blast
next
  case 2
  then show ?thesis by blast
qed

text \<open>
  C21. bread returns an up-to-date buffer with the content of the block, or nothing when the
  block can not be read.
\<close>

theorem bread_content:
  assumes "cache_ok s" and "MAJOR (ucast d) = 3" and "\<forall>b < nr_buffers s. b_count (buf s b) \<noteq> 255"
    and "bread (uint d) (uint k) s = Inr (r, s')"
  shows "cache_ok s' \<and> kept r s s' \<and>
    (case r of
       None \<Rightarrow> \<not> readable s' d k
     | Some b \<Rightarrow> is_block s' b d k \<and> b_uptodate (buf s' b) \<noteq> 0 \<and> view s d k = Some (b_data (buf s' b)))"
proof (cases rule: bread_spec [OF assms(1,2), of k])
  case 1
  then show ?case using assms(3) by blast
next
  case 2
  then show ?thesis using assms(4) by auto
next
  case 3
  then show ?thesis using assms(4) by auto
next
  case 4
  then show ?thesis using assms(4) by simp
qed

text \<open>
  C22. After the loop of sys_sync no buffer is dirty and the disk holds what the cache showed
  before.
\<close>

theorem sync_buffers_writes:
  assumes "cache_ok s"
  shows "\<exists>s'. sync_buffers s = Inr s' \<and> cache_ok s' \<and>
    (\<forall>b < nr_buffers s'. b_dirt (buf s' b) = 0) \<and> (\<forall>d k. d \<noteq> 0 \<longrightarrow> disk s' d k = view s d k)"
proof -
  obtain F where o: "bufs_ok s" and q: "queues_ok F s" and F: "set F = {..<nr_buffers s}"
    using assms by (auto simp: cache_ok_def)
  obtain s' where s': "sync_buffers s = Inr s'" "bufs_ok s'" "synced s s'" "\<forall>b < nr_buffers s. b_dirt (buf s' b) = 0"
      "\<forall>d k. d \<noteq> 0 \<longrightarrow> view s' d k = view s d k"
    using sync_bufs_ok [OF o, of "[0..<nr_buffers s]" None] by (auto simp: sync_buffers_def atLeast0LessThan)
  have n: "nr_buffers s' = nr_buffers s" using s'(3) by (simp add: synced_def outside_def)
  have "disk s' d k = view s' d k" if "d \<noteq> 0" for d k
  proof (cases rule: view_cases [of s' d k])
    case (cached b)
    have "buf_ok s' (buf s' b)" by (rule bufs_okD(3) [OF s'(2) cached(1)])
    then show ?thesis using cached s'(4) n that by (auto simp: buf_ok_def holds_def)
  qed simp
  moreover have "cache_ok s'" using s'(2) synced_queues [OF s'(3) q] F n by (auto simp: cache_ok_def)
  ultimately show ?thesis using s'(1,4,5) n by auto
qed

text \<open>
  C39. The blocks that buffer_init gives to the buffers are disjoint, lie above the buffer
  heads and outside of the video memory and the ROM.
\<close>

theorem buffer_init_disjoint:
  "sorted_wrt (\<lambda>x y. y + BLOCK_SIZE \<le> x) (data_blocks BUFFER_END h) \<and>
   (\<forall>i < length (data_blocks BUFFER_END h). h + 32 * Suc i \<le> data_blocks BUFFER_END h ! i) \<and>
   (\<forall>a \<in> set (data_blocks BUFFER_END h).
      a + BLOCK_SIZE \<le> BUFFER_END \<and> (a + BLOCK_SIZE \<le> 0xA0000 \<or> 0x100000 \<le> a))"
  by (rule data_blocks_spec) auto

text \<open>
  The first buffer of a hash queue is linked in with a write through the null pointer: the
  word at address 16, entry 4 of the page directory, is overwritten.
\<close>

theorem insert_first_low_write:
  assumes "b_dev (buf s b) \<noteq> 0" and "hash_table s (hash_of (buf s b)) = None"
  shows "phys (mem (ker (enhash b s))) 16 = head_address b s"
  using assms by (simp add: enhash_def Let_def hash_of_def set_prev_def upd_ker_def head_address_def)


section \<open>At a cache of two buffers\<close>

definition small_disk :: fs where
  "small_disk = buffer_init \<lparr>ker = one_task, start_buffer = 0x1FF7C0, nr_buffers = 0,
     buf = (\<lambda>_. \<lparr>b_data = replicate 1024 0, b_dev = 0, b_blocknr = 0, b_uptodate = 0, b_dirt = 0,
                b_count = 0, b_lock = 0, b_prev = None, b_next = None, b_prev_free = None, b_next_free = None\<rparr>),
     hash_table = (\<lambda>_. None), free_list = 0, inode = (\<lambda>_. no_inode), last_allocated_inode = 0,
     super = (\<lambda>_. \<lparr>s_ninodes = 0, s_nzones = 0, s_imap_blocks = 0, s_zmap_blocks = 0, s_firstdatazone = 0,
       s_log_zone_size = 0, s_max_size = 0, s_magic = 0, s_imap = [], s_zmap = [], s_dev = 0,
       s_isup = None, s_imount = None, s_time = 0, s_rd_only = 0, s_dirt = 0\<rparr>),
     file_table = (\<lambda>_. \<lparr>f_mode = 0, f_flags = 0, f_count = 0, f_inode = None, f_pos = 0\<rparr>),
     ttys = tty_table, disk = (\<lambda>d k. Some (replicate 1024 (ucast k))),
     parts = (\<lambda>_. \<lparr>start_sect = 0, nr_sects = 83300\<rparr>), tty_cr = False, task_page = (\<lambda>_. 0),
     gdt = (\<lambda>_. \<lparr>d_a = 0, d_b = 0\<rparr>), callable = False\<rparr>"

lemma small_disk_blocks: "data_blocks BUFFER_END 0x1FF7C0 = [0x1FFC00, 0x1FF800]"
  by (simp add: data_blocks.simps)

lemma small_disk_idle: "cache_idle small_disk"
  unfolding small_disk_def by (rule buffer_init_idle) (simp_all add: small_disk_blocks split: if_splits)

lemma small_disk_ok: "cache_ok small_disk" "nr_buffers small_disk = 2"
  "b < 2 \<Longrightarrow> b_count (buf small_disk b) = 0" "hash_table small_disk = (\<lambda>_. None)"
  using small_disk_idle by (simp_all add: cache_idle_def small_disk_def buffer_init_def Let_def small_disk_blocks)

lemma small_disk_usable: "unat k < 1000 \<Longrightarrow> block_usable small_disk (0x301, k)"
proof -
  assume k: "unat k < 1000"
  have "unat (push_bit 1 (ucast k) :: u32) = 2 * unat k"
    using k by (simp add: push_bit_eq_mult unat_word_ariths unsigned_ucast_eq take_bit_eq_mod)
  then have "\<not> push_bit 1 (ucast k) + 2 > (83300 :: u32)"
    using k by (simp add: word_less_nat_alt unat_word_ariths)
  then show ?thesis
    by (simp add: block_usable_def readable_def on_disk_def MAJOR_def MINOR_def hd_address_def Let_def
        small_disk_def buffer_init_def small_disk_blocks) (simp add: word_le_nat_alt)
qed

theorem cache_transparent_witness:
  "\<exists>s'. exec_ops read_block write_block sync_buffers
     [Write_op (0x301, 7) (replicate 1024 9), Read_op (0x301, 8), Read_op (0x301, 9), Flush_op, Read_op (0x301, 7)] small_disk =
     Inr ([block_content small_disk (0x301, 8), block_content small_disk (0x301, 9), Some (replicate 1024 9)], s')"
proof -
  let ?ops = "[Write_op (0x301, 7) (replicate 1024 9), Read_op (0x301, 8), Read_op (0x301, 9), Flush_op,
    Read_op (0x301, 7)] :: (u16 \<times> u16, u8 list) store_op list"
  have "\<forall>x \<in> set ?ops. op_ok (block_usable small_disk) (\<lambda>x. length x = BLOCK_SIZE) x"
    using small_disk_usable [of 7] small_disk_usable [of 8] small_disk_usable [of 9] by simp
  from cache_transparent [OF small_disk_idle this] show ?thesis by auto
qed

theorem getblk_returns_witness: "\<exists>b s'. getblk 0x301 7 small_disk = Inr (b, s') \<and> is_block s' b 0x301 7"
proof -
  have "MAJOR (ucast (0x301 :: u16)) = 3" by (simp add: MAJOR_def)
  from getblk_returns [OF small_disk_ok(1) this, of 7] small_disk_ok(3) [of 0] show ?thesis
    by (auto simp: small_disk_ok(2))
qed

theorem bread_content_witness:
  "\<exists>b s'. bread 0x301 7 small_disk = Inr (Some b, s') \<and> view small_disk 0x301 7 = Some (b_data (buf s' b))"
proof -
  have m: "MAJOR (ucast (0x301 :: u16)) = 3" by (simp add: MAJOR_def)
  have u: "block_usable small_disk (0x301, 7)" by (rule small_disk_usable) simp
  obtain b s' where r: "bread (uint (0x301 :: u16)) (uint (7 :: u16)) small_disk = Inr (Some b, s')"
    by (rule idle_bread [OF small_disk_idle u]) (rule that)
  have "\<forall>b < nr_buffers small_disk. b_count (buf small_disk b) \<noteq> 255"
    using small_disk_ok by simp
  from bread_content [OF small_disk_ok(1) m this r] r show ?thesis by auto
qed

theorem sync_buffers_writes_witness: "\<exists>s'. sync_buffers small_disk = Inr s' \<and> disk s' 0x301 7 = view small_disk 0x301 7"
  using sync_buffers_writes [OF small_disk_ok(1)] by auto

theorem buffer_init_disjoint_witness:
  "(0x1FFC00 :: nat) + BLOCK_SIZE \<le> BUFFER_END \<and> (0x1FF800 :: nat) + BLOCK_SIZE \<le> BUFFER_END"
  using buffer_init_disjoint [of "0x1FF7C0"] unfolding small_disk_blocks by simp

theorem insert_first_low_write_witness:
  "phys (mem (ker (enhash 1 (upd_buf 1 (\<lambda>h. h\<lparr>b_dev := 0x301, b_blocknr := 7\<rparr>) small_disk)))) 16 = 0x1FF7E0"
proof -
  let ?s = "upd_buf 1 (\<lambda>h. h\<lparr>b_dev := 0x301, b_blocknr := 7\<rparr>) small_disk"
  have "head_address 1 ?s = 0x1FF7E0" by (simp add: head_address_def small_disk_def buffer_init_def Let_def)
  then show ?thesis using insert_first_low_write [of ?s 1] by (simp add: small_disk_ok)
qed

end
