(* ===== verification/Bitmap.thy ===== *)
theory Bitmap
  imports Buffer
begin

unbundle bit_operations_syntax

text \<open>
  The bitmaps of zones and inodes, fs/bitmap.c: the bit instructions, the search for a free
  bit, and taking and freeing blocks and inodes. (\<open>new_inode\<close> is in theory \<open>Inode\<close>.)
\<close>

section \<open>Bits of a block\<close>

text \<open>\<open>btsl\<close>, \<open>btrl\<close> and \<open>bt\<close> on memory: bit \<open>nr\<close> counts from the lowest bit of the first byte.\<close>

definition map_bit :: "u8 list \<Rightarrow> nat \<Rightarrow> bool" where
  "map_bit d nr = bit (d ! (nr div 8)) (nr mod 8)"

definition set_bit :: "nat \<Rightarrow> u8 list \<Rightarrow> bool \<times> u8 list" where
  "set_bit nr d = (map_bit d nr, d[nr div 8 := d ! (nr div 8) OR push_bit (nr mod 8) 1])"

definition clear_bit :: "nat \<Rightarrow> u8 list \<Rightarrow> bool \<times> u8 list" where
  "clear_bit nr d = (\<not> map_bit d nr, d[nr div 8 := d ! (nr div 8) AND NOT (push_bit (nr mod 8) 1)])"

text \<open>\<open>bsfl\<close> gives the lowest bit that is set; it leaves the zero flag for a zero operand.\<close>

definition bsf :: "u32 \<Rightarrow> nat" where
  "bsf w = length (takeWhile (\<lambda>i. \<not> bit w i) [0..<32])"

text \<open>The loop of \<open>find_first_zero\<close> over the words of the block, \<open>ecx = 32 * i\<close>.\<close>

function first_zero :: "u8 list \<Rightarrow> nat \<Rightarrow> nat" where
  "first_zero d i =
     (let w = NOT (le32 d (4 * i)) in
      if w \<noteq> 0 then 32 * i + bsf w
      else if 32 * (i + 1) < 8192 then first_zero d (i + 1) else 32 * (i + 1))"
  by pat_completeness auto
termination by (relation "measure (\<lambda>(d, i). 256 - i)") auto

declare first_zero.simps [simp del]

definition find_first_zero :: "u8 list \<Rightarrow> nat" where
  "find_first_zero d = first_zero d 0"

definition clear_block :: "u8 list \<Rightarrow> u8 list" where
  "clear_block d = replicate BLOCK_SIZE 0"


section \<open>Blocks\<close>

definition slot :: "nat option list \<Rightarrow> nat \<Rightarrow> nat option" where
  "slot m i = (if i < length m then m ! i else None)"

text \<open>The bit of a block is cleared in the map buffer of the super block.\<close>

definition clear_zone :: "nat \<Rightarrow> int \<Rightarrow> fs \<Rightarrow> fs result" where
  "clear_zone sb block s =
     (let nr = nat (block - (uint (s_firstdatazone (super s sb)) - 1)) in
      case slot (s_zmap (super s sb)) (nr div 8192) of
        None \<Rightarrow> Inl Fault
      | Some m \<Rightarrow>
          let (bad, d) = clear_bit (nr mod 8192) (b_data (buf s m))
          in if bad then Inl (Panic ''free_block: bit already cleared'')
             else Inr (upd_buf m (\<lambda>h. h\<lparr>b_data := d, b_dirt := 1\<rparr>) s))"

definition free_block :: "int \<Rightarrow> int \<Rightarrow> fs \<Rightarrow> fs result" where
  "free_block dev block s =
     (case get_super dev s of
        None \<Rightarrow> Inl (Panic ''trying to free block on nonexistent device'')
      | Some sb \<Rightarrow>
          if block < uint (s_firstdatazone (super s sb)) \<or> uint (s_nzones (super s sb)) \<le> block
          then Inl (Panic ''trying to free block not in datazone'')
          else
            andthen (get_hash_table dev block s) (\<lambda>(bh, s).
            case bh of
              None \<Rightarrow> clear_zone sb block s
            | Some b \<Rightarrow>
                if b_count (buf s b) \<noteq> 1 then Inr s
                else
                  andthen (brelse b (upd_buf b (\<lambda>h. h\<lparr>b_dirt := 0, b_uptodate := 0\<rparr>) s))
                    (clear_zone sb block)))"

text \<open>
  The search for a map with a free bit, as \<open>new_block\<close> and \<open>new_inode\<close> have it: the index, the
  map and the bit where the loop ends.
\<close>

fun scan_maps :: "fs \<Rightarrow> nat option list \<Rightarrow> nat \<Rightarrow> nat option \<Rightarrow> nat \<Rightarrow> nat \<times> nat option \<times> nat" where
  "scan_maps s [] i bh j = (i, bh, j)"
| "scan_maps s (None # ms) i bh j = scan_maps s ms (i + 1) None j"
| "scan_maps s (Some m # ms) i bh j =
     (let j = find_first_zero (b_data (buf s m)) in
      if j < 8192 then (i, Some m, j) else scan_maps s ms (i + 1) (Some m) j)"

definition new_block :: "int \<Rightarrow> fs \<Rightarrow> (int \<times> fs) result" where
  "new_block dev s =
     (case get_super dev s of
        None \<Rightarrow> Inl (Panic ''trying to get new block from nonexistant device'')
      | Some sb \<Rightarrow>
          (case scan_maps s (s_zmap (super s sb)) 0 None 8192 of
             (i, None, j) \<Rightarrow> Inr (0, s)
           | (i, Some m, j) \<Rightarrow>
               if 8 \<le> i \<or> 8192 \<le> j then Inr (0, s)
               else
                 let (old, d) = set_bit j (b_data (buf s m)) in
                 if old then Inl (Panic ''new_block: bit already set'')
                 else
                   let s = upd_buf m (\<lambda>h. h\<lparr>b_data := d, b_dirt := 1\<rparr>) s;
                       z = int j + int i * 8192 + uint (s_firstdatazone (super s sb)) - 1
                   in if uint (s_nzones (super s sb)) \<le> z then Inr (0, s)
                      else
                        andthen (getblk dev z s) (\<lambda>(b, s).
                        if b_count (buf s b) \<noteq> 1 then Inl (Panic ''new block: count is != 1'')
                        else
                          andthen (brelse b (upd_buf b (\<lambda>h. h\<lparr>b_data := clear_block (b_data h),
                                                            b_uptodate := 1, b_dirt := 1\<rparr>) s)) (\<lambda>s.
                          Inr (z, s)))))"


section \<open>Inodes\<close>

text \<open>\<open>memset (inode, 0, sizeof *inode)\<close>.\<close>

definition clear_inode :: "nat \<Rightarrow> fs \<Rightarrow> fs" where
  "clear_inode i = upd_inode i (\<lambda>_. no_inode)"

definition free_inode :: "nat \<Rightarrow> fs \<Rightarrow> fs result" where
  "free_inode i s =
     (let n = inode s i in
      if i_dev n = 0 then Inr (clear_inode i s)
      else if 1 < i_count n then Inl (Panic ''free_inode'')
      else if i_nlinks n \<noteq> 0 then Inl (Panic ''trying to free inode with links'')
      else
        case get_super (uint (i_dev n)) s of
          None \<Rightarrow> Inl (Panic ''trying to free inode on nonexistent device'')
        | Some sb \<Rightarrow>
            if i_num n < 1 \<or> s_ninodes (super s sb) < i_num n
            then Inl (Panic ''trying to free inode 0 or nonexistant inode'')
            else
              case slot (s_imap (super s sb)) (unat (i_num n) div 8192) of
                None \<Rightarrow> Inl (Panic ''nonexistent imap in superblock'')
              | Some m \<Rightarrow>
                  let (bad, d) = clear_bit (unat (i_num n) mod 8192) (b_data (buf s m))
                  in if bad then Inl (Panic ''free_inode: bit already cleared'')
                     else Inr (clear_inode i (upd_buf m (\<lambda>h. h\<lparr>b_data := d, b_dirt := 1\<rparr>) s)))"

end
