(* ===== verification/Truncate.thy ===== *)
theory Truncate
  imports Bitmap
begin

unbundle bit_operations_syntax

text \<open>Freeing the blocks of a file, fs/truncate.c.\<close>

text \<open>The entry of an indirect block with index \<open>i\<close>.\<close>

definition zone_entry :: "fs \<Rightarrow> nat \<Rightarrow> nat \<Rightarrow> int" where
  "zone_entry s b i = uint (le16 (b_data (buf s b)) (2 * i))"

fun free_zones :: "int \<Rightarrow> nat \<Rightarrow> nat list \<Rightarrow> fs \<Rightarrow> fs result" where
  "free_zones dev b [] s = Inr s"
| "free_zones dev b (i # is) s =
     andthen (if zone_entry s b i \<noteq> 0 then free_block dev (zone_entry s b i) s else Inr s)
       (free_zones dev b is)"

definition free_ind :: "int \<Rightarrow> int \<Rightarrow> fs \<Rightarrow> fs result" where
  "free_ind dev block s =
     (if block = 0 then Inr s
      else
        andthen (bread dev block s) (\<lambda>(bh, s).
        andthen (case bh of
                   None \<Rightarrow> Inr s
                 | Some b \<Rightarrow> andthen (free_zones dev b [0..<512] s) (brelse b))
          (free_block dev block)))"

fun free_inds :: "int \<Rightarrow> nat \<Rightarrow> nat list \<Rightarrow> fs \<Rightarrow> fs result" where
  "free_inds dev b [] s = Inr s"
| "free_inds dev b (i # is) s =
     andthen (if zone_entry s b i \<noteq> 0 then free_ind dev (zone_entry s b i) s else Inr s)
       (free_inds dev b is)"

definition free_dind :: "int \<Rightarrow> int \<Rightarrow> fs \<Rightarrow> fs result" where
  "free_dind dev block s =
     (if block = 0 then Inr s
      else
        andthen (bread dev block s) (\<lambda>(bh, s).
        andthen (case bh of
                   None \<Rightarrow> Inr s
                 | Some b \<Rightarrow> andthen (free_inds dev b [0..<512] s) (brelse b))
          (free_block dev block)))"

definition set_zone :: "nat \<Rightarrow> nat \<Rightarrow> u16 \<Rightarrow> fs \<Rightarrow> fs" where
  "set_zone i k z = upd_inode i (\<lambda>n. n\<lparr>i_zone := (i_zone n)[k := z]\<rparr>)"

fun free_direct :: "nat \<Rightarrow> nat list \<Rightarrow> fs \<Rightarrow> fs result" where
  "free_direct i [] s = Inr s"
| "free_direct i (k # ks) s =
     (let z = i_zone (inode s i) ! k in
      if z \<noteq> 0
      then andthen (free_block (uint (i_dev (inode s i))) (uint z) s) (\<lambda>s. free_direct i ks (set_zone i k 0 s))
      else free_direct i ks s)"

definition truncate_inode :: "nat \<Rightarrow> fs \<Rightarrow> fs result" where
  "truncate_inode i s =
     (if \<not> (S_ISREG (i_mode (inode s i)) \<or> S_ISDIR (i_mode (inode s i))) then Inr s
      else
        andthen (free_direct i [0..<7] s) (\<lambda>s.
        andthen (free_ind (uint (i_dev (inode s i))) (uint (i_zone (inode s i) ! 7)) s) (\<lambda>s.
        andthen (free_dind (uint (i_dev (inode s i))) (uint (i_zone (inode s i) ! 8)) s) (\<lambda>s.
        Inr (upd_inode i (\<lambda>n. n\<lparr>i_size := 0, i_dirt := 1, i_mtime := now s, i_ctime := now s\<rparr>)
              (set_zone i 7 0 (set_zone i 8 0 s)))))))"

end
