(* ===== verification/Inode.thy ===== *)
theory Inode
  imports Truncate
begin

unbundle bit_operations_syntax

text \<open>
  Inodes, fs/inode.c with \<open>new_inode\<close> of fs/bitmap.c: reading and writing them, the blocks of
  a file, the table of the inodes in use. An inode is its index in \<open>inode_table\<close>.
\<close>

section \<open>Inodes on the disk\<close>

text \<open>\<open>len\<close> bytes of a block from \<open>off\<close> on, and the block with other bytes there.\<close>

definition slice :: "nat \<Rightarrow> nat \<Rightarrow> 'a list \<Rightarrow> 'a list" where
  "slice off len d = take len (drop off d)"

definition overwrite :: "nat \<Rightarrow> 'a list \<Rightarrow> 'a list \<Rightarrow> 'a list" where
  "overwrite off xs d = take off d @ xs @ drop (off + length xs) d"

text \<open>\<open>struct d_inode\<close>, 32 bytes.\<close>

definition d_inode_bytes :: "m_inode \<Rightarrow> u8 list" where
  "d_inode_bytes n = bytes16 (i_mode n) @ bytes16 (i_uid n) @ bytes32 (i_size n) @ bytes32 (i_mtime n) @
     [i_gid n, i_nlinks n] @ concat (map bytes16 (i_zone n))"

definition d_inode_of :: "u8 list \<Rightarrow> m_inode \<Rightarrow> m_inode" where
  "d_inode_of d n = n\<lparr>i_mode := le16 d 0, i_uid := le16 d 2, i_size := le32 d 4, i_mtime := le32 d 8,
     i_gid := d ! 12, i_nlinks := d ! 13, i_zone := map (\<lambda>k. le16 d (14 + 2 * k)) [0..<9]\<rparr>"

text \<open>\<open>INODES_PER_BLOCK\<close> is unsigned, and so is the number of the inode less one.\<close>

abbreviation INODES_PER_BLOCK :: u32 where "INODES_PER_BLOCK \<equiv> 32"

definition inode_index :: "m_inode \<Rightarrow> u32" where
  "inode_index n = ucast (i_num n) - 1"

definition inode_block :: "super_block \<Rightarrow> m_inode \<Rightarrow> int" where
  "inode_block sb n = uint (2 + ucast (s_imap_blocks sb) + ucast (s_zmap_blocks sb)
     + inode_index n div INODES_PER_BLOCK)"

definition inode_offset :: "m_inode \<Rightarrow> nat" where
  "inode_offset n = 32 * unat (inode_index n mod INODES_PER_BLOCK)"

definition wait_on_inode :: "nat \<Rightarrow> fs \<Rightarrow> fs result" where
  "wait_on_inode i s = (if i_lock (inode s i) \<noteq> 0 then Inl Sleeps else Inr s)"

definition lock_inode :: "nat \<Rightarrow> fs \<Rightarrow> fs result" where
  "lock_inode i s = (if i_lock (inode s i) \<noteq> 0 then Inl Sleeps
     else Inr (upd_inode i (\<lambda>n. n\<lparr>i_lock := 1\<rparr>) s))"

definition unlock_inode :: "nat \<Rightarrow> fs \<Rightarrow> fs" where
  "unlock_inode i = upd_inode i (\<lambda>n. n\<lparr>i_lock := 0\<rparr>)"

text \<open>The super block is not tested: without one the fields are read through the null pointer.\<close>

definition read_inode :: "nat \<Rightarrow> fs \<Rightarrow> fs result" where
  "read_inode i s =
     andthen (lock_inode i s) (\<lambda>s.
     case get_super (uint (i_dev (inode s i))) s of
       None \<Rightarrow> Inl Fault
     | Some sb \<Rightarrow>
         andthen (bread (uint (i_dev (inode s i))) (inode_block (super s sb) (inode s i)) s) (\<lambda>(bh, s).
         case bh of
           None \<Rightarrow> Inl (Panic ''unable to read i-node block'')
         | Some b \<Rightarrow>
             let s = upd_inode i (\<lambda>n. d_inode_of (slice (inode_offset n) 32 (b_data (buf s b))) n) s
             in andthen (brelse b s) (\<lambda>s. Inr (unlock_inode i s))))"

definition write_inode :: "nat \<Rightarrow> fs \<Rightarrow> fs result" where
  "write_inode i s =
     andthen (lock_inode i s) (\<lambda>s.
     case get_super (uint (i_dev (inode s i))) s of
       None \<Rightarrow> Inl Fault
     | Some sb \<Rightarrow>
         andthen (bread (uint (i_dev (inode s i))) (inode_block (super s sb) (inode s i)) s) (\<lambda>(bh, s).
         case bh of
           None \<Rightarrow> Inl (Panic ''unable to read i-node block'')
         | Some b \<Rightarrow>
             let n = inode s i;
                 s = upd_buf b (\<lambda>h. h\<lparr>b_data := overwrite (inode_offset n) (d_inode_bytes n) (b_data h),
                                    b_dirt := 1\<rparr>) s;
                 s = upd_inode i (\<lambda>n. n\<lparr>i_dirt := 0\<rparr>) s
             in andthen (brelse b s) (\<lambda>s. Inr (unlock_inode i s))))"

fun write_inodes :: "nat list \<Rightarrow> fs \<Rightarrow> fs result" where
  "write_inodes [] s = Inr s"
| "write_inodes (i # is) s =
     andthen (wait_on_inode i s) (\<lambda>s.
     andthen (if i_dirt (inode s i) \<noteq> 0 \<and> i_pipe (inode s i) = 0 then write_inode i s else Inr s)
       (write_inodes is))"

definition sync_inodes :: "fs \<Rightarrow> fs result" where
  "sync_inodes s = write_inodes [0..<NR_INODE] s"

text \<open>\<open>sys_sync\<close> of fs/buffer.c.\<close>

definition sys_sync :: "fs \<Rightarrow> (int \<times> fs) result" where
  "sys_sync s =
     andthen (sync_inodes s) (\<lambda>s.
     andthen (sync_bufs None [0..<nr_buffers s] s) (\<lambda>s. Inr (0, s)))"


section \<open>The blocks of a file\<close>

text \<open>
  Three places of \<open>_bmap\<close> take an entry of an indirect block, create a new block for it if it is
  empty and one is wanted, and release the indirect block; \<open>new_zone\<close> is the same for the
  entries in the inode.
\<close>

definition block_entry :: "bool \<Rightarrow> nat \<Rightarrow> nat \<Rightarrow> nat \<Rightarrow> fs \<Rightarrow> (int \<times> fs) result" where
  "block_entry create i b k s =
     andthen
       (if create \<and> zone_entry s b k = 0
        then andthen (new_block (uint (i_dev (inode s i))) s) (\<lambda>(z, s).
             if z \<noteq> 0
             then Inr (z, upd_buf b (\<lambda>h. h\<lparr>b_data := overwrite (2 * k) (bytes16 (word_of_int z)) (b_data h),
                                          b_dirt := 1\<rparr>) s)
             else Inr (z, s))
        else Inr (zone_entry s b k, s))
       (\<lambda>(z, s). andthen (brelse b s) (\<lambda>s. Inr (z, s)))"

definition new_zone :: "bool \<Rightarrow> nat \<Rightarrow> nat \<Rightarrow> fs \<Rightarrow> fs result" where
  "new_zone create i k s =
     (if create \<and> i_zone (inode s i) ! k = 0
      then andthen (new_block (uint (i_dev (inode s i))) s) (\<lambda>(z, s).
           let s = set_zone i k (word_of_int z) s
           in Inr (if i_zone (inode s i) ! k \<noteq> 0
                   then upd_inode i (\<lambda>n. n\<lparr>i_ctime := now s, i_dirt := 1\<rparr>) s else s))
      else Inr s)"

definition bmap_block :: "nat \<Rightarrow> int \<Rightarrow> bool \<Rightarrow> fs \<Rightarrow> (int \<times> fs) result" where
  "bmap_block i block create s =
     (let zone = (\<lambda>s k. uint (i_zone (inode s i) ! k)); dev = (\<lambda>s. uint (i_dev (inode s i))) in
      if block < 0 then Inl (Panic ''_bmap: block<0'')
      else if 7 + 512 + 512 * 512 \<le> block then Inl (Panic ''_bmap: block>big'')
      else if block < 7 then
        andthen (new_zone create i (nat block) s) (\<lambda>s. Inr (zone s (nat block), s))
      else
        let block = block - 7 in
        if block < 512 then
          andthen (new_zone create i 7 s) (\<lambda>s.
          if zone s 7 = 0 then Inr (0, s)
          else andthen (bread (dev s) (zone s 7) s) (\<lambda>(bh, s).
               case bh of
                 None \<Rightarrow> Inr (0, s)
               | Some b \<Rightarrow> block_entry create i b (nat block) s))
        else
          let block = block - 512 in
          andthen (new_zone create i 8 s) (\<lambda>s.
          if zone s 8 = 0 then Inr (0, s)
          else andthen (bread (dev s) (zone s 8) s) (\<lambda>(bh, s).
               case bh of
                 None \<Rightarrow> Inr (0, s)
               | Some b \<Rightarrow>
                   andthen (block_entry create i b (nat (block div 512)) s) (\<lambda>(z, s).
                   if z = 0 then Inr (0, s)
                   else andthen (bread (dev s) z s) (\<lambda>(bh, s).
                        case bh of
                          None \<Rightarrow> Inr (0, s)
                        | Some b \<Rightarrow> block_entry create i b (nat (block mod 512)) s)))))"

definition bmap :: "nat \<Rightarrow> int \<Rightarrow> fs \<Rightarrow> (int \<times> fs) result" where
  "bmap i block = bmap_block i block False"

definition create_block :: "nat \<Rightarrow> int \<Rightarrow> fs \<Rightarrow> (int \<times> fs) result" where
  "create_block i block = bmap_block i block True"


section \<open>The inode table\<close>

text \<open>The loop of \<open>iput\<close> from \<open>repeat\<close> on, for the last user of an inode.\<close>

partial_function (option) iput_loop :: "nat \<Rightarrow> fs \<Rightarrow> fs result option" where
  "iput_loop i s =
     (if i_nlinks (inode s i) = 0 then Some (andthen (truncate_inode i s) (free_inode i))
      else if i_dirt (inode s i) \<noteq> 0 then
        (case andthen (write_inode i s) (wait_on_inode i) of
           Inl e \<Rightarrow> Some (Inl e)
         | Inr s \<Rightarrow> iput_loop i s)
      else Some (Inr (upd_inode i (\<lambda>n. n\<lparr>i_count := i_count n - 1\<rparr>) s)))"

definition iput_pipe :: "nat \<Rightarrow> fs \<Rightarrow> fs result" where
  "iput_pipe i s =
     (let s = upd_inode i (\<lambda>n. n\<lparr>i_count := i_count n - 1\<rparr>) s in
      if i_count (inode s i) \<noteq> 0 then Inr s
      else andthen (free_page (i_size (inode s i)) (mem (ker s))) (\<lambda>m.
           Inr (upd_inode i (\<lambda>n. n\<lparr>i_count := 0, i_dirt := 0, i_pipe := 0\<rparr>) (upd_ker (\<lambda>k. k\<lparr>mem := m\<rparr>) s))))"

definition iput_some :: "nat \<Rightarrow> fs \<Rightarrow> fs result" where
  "iput_some i s =
     andthen (wait_on_inode i s) (\<lambda>s.
     let n = inode s i in
     if i_count n = 0 then Inl (Panic ''iput: trying to free free inode'')
     else if i_pipe n \<noteq> 0 then iput_pipe i s
     else if i_dev n = 0 \<or> 1 < i_count n
     then Inr (upd_inode i (\<lambda>n. n\<lparr>i_count := i_count n - 1\<rparr>) s)
     else joined (iput_loop i s))"

definition iput :: "nat option \<Rightarrow> fs \<Rightarrow> fs result" where
  "iput i s = (case i of None \<Rightarrow> Inr s | Some i \<Rightarrow> iput_some i s)"

text \<open>The search of \<open>get_empty_inode\<close> starts at \<open>last_allocated_inode\<close> and goes round once.\<close>

definition scan_inodes :: "fs \<Rightarrow> nat option" where
  "scan_inodes s = find (\<lambda>i. i_count (inode s i) = 0)
     ([last_allocated_inode s..<NR_INODE] @ [0..<last_allocated_inode s])"

partial_function (option) clean_inode :: "nat \<Rightarrow> fs \<Rightarrow> fs result option" where
  "clean_inode i s =
     (if i_dirt (inode s i) \<noteq> 0 then
        (case andthen (write_inode i s) (wait_on_inode i) of
           Inl e \<Rightarrow> Some (Inl e)
         | Inr s \<Rightarrow> clean_inode i s)
      else Some (Inr s))"

partial_function (option) empty_loop :: "fs \<Rightarrow> (nat \<times> fs) result option" where
  "empty_loop s =
     (case scan_inodes s of
        None \<Rightarrow> Some (Inl (Panic ''No free inodes in mem''))
      | Some i \<Rightarrow>
          (case andthen (wait_on_inode i (s\<lparr>last_allocated_inode := i\<rparr>)) (\<lambda>s. joined (clean_inode i s)) of
             Inl e \<Rightarrow> Some (Inl e)
           | Inr s \<Rightarrow> if i_count (inode s i) = 0 then Some (Inr (i, s)) else empty_loop s))"

definition get_empty_inode :: "fs \<Rightarrow> (nat \<times> fs) result" where
  "get_empty_inode s =
     andthen (joined (empty_loop s)) (\<lambda>(i, s).
     Inr (i, upd_inode i (\<lambda>n. n\<lparr>i_count := 1\<rparr>) (clear_inode i s)))"

text \<open>\<open>PIPE_HEAD\<close> and \<open>PIPE_TAIL\<close> are the first two longs of \<open>i_zone\<close>.\<close>

definition pipe_long :: "nat \<Rightarrow> m_inode \<Rightarrow> u32" where
  "pipe_long k n = ucast (i_zone n ! (2 * k)) OR push_bit 16 (ucast (i_zone n ! (2 * k + 1)))"

definition set_pipe_long :: "nat \<Rightarrow> u32 \<Rightarrow> m_inode \<Rightarrow> m_inode" where
  "set_pipe_long k v n =
     n\<lparr>i_zone := (i_zone n)[2 * k := ucast v, 2 * k + 1 := ucast (drop_bit 16 v)]\<rparr>"

definition get_pipe_inode :: "fs \<Rightarrow> (nat option \<times> fs) result" where
  "get_pipe_inode s =
     andthen (get_empty_inode s) (\<lambda>(i, s).
     let (page, m) = get_free_page (mem (ker s));
         s = upd_inode i (\<lambda>n. n\<lparr>i_size := page\<rparr>) (upd_ker (\<lambda>k. k\<lparr>mem := m\<rparr>) s)
     in if page = 0 then Inr (None, upd_inode i (\<lambda>n. n\<lparr>i_count := 0\<rparr>) s)
        else Inr (Some i,
               upd_inode i (\<lambda>n. set_pipe_long 0 0 (set_pipe_long 1 0 n)\<lparr>i_count := 2, i_pipe := 1\<rparr>) s))"

definition iget :: "int \<Rightarrow> int \<Rightarrow> fs \<Rightarrow> (nat \<times> fs) result" where
  "iget dev nr s =
     (if dev = 0 then Inl (Panic ''iget with dev==0'')
      else
        andthen (get_empty_inode s) (\<lambda>(e, s).
        case find (\<lambda>i. uint (i_dev (inode s i)) = dev \<and> uint (i_num (inode s i)) = nr) [0..<NR_INODE] of
          Some i \<Rightarrow>
            andthen (wait_on_inode i s) (\<lambda>s.
            andthen (iput (Some e) (upd_inode i (\<lambda>n. n\<lparr>i_count := i_count n + 1\<rparr>) s)) (\<lambda>s. Inr (i, s)))
        | None \<Rightarrow>
            andthen (read_inode e (upd_inode e (\<lambda>n. n\<lparr>i_dev := word_of_int dev, i_num := word_of_int nr\<rparr>) s))
              (\<lambda>s. Inr (e, s))))"

text \<open>The fields that are not set here are 0: the new file belongs to user 0 until the caller
  sets another mode and owner.\<close>

definition new_inode :: "int \<Rightarrow> fs \<Rightarrow> (nat option \<times> fs) result" where
  "new_inode dev s =
     andthen (get_empty_inode s) (\<lambda>(e, s).
     case get_super dev s of
       None \<Rightarrow> Inl (Panic ''new_inode with unknown device'')
     | Some sb \<Rightarrow>
         (let (i, bh, j) = scan_maps s (s_imap (super s sb)) 0 None 8192 in
          case bh of
            None \<Rightarrow> andthen (iput (Some e) s) (\<lambda>s. Inr (None, s))
          | Some m \<Rightarrow>
              if 8192 \<le> j \<or> unat (s_ninodes (super s sb)) < j + i * 8192
              then andthen (iput (Some e) s) (\<lambda>s. Inr (None, s))
              else
                let (old, d) = set_bit j (b_data (buf s m)) in
                if old then Inl (Panic ''new_inode: bit already set'')
                else Inr (Some e,
                       upd_inode e (\<lambda>n. n\<lparr>i_count := 1, i_nlinks := 1, i_dev := word_of_int dev, i_dirt := 1,
                           i_num := of_nat (j + i * 8192), i_mtime := now s, i_atime := now s, i_ctime := now s\<rparr>)
                         (upd_buf m (\<lambda>h. h\<lparr>b_data := d, b_dirt := 1\<rparr>) s))))"

end
