(* ===== verification/Super.thy ===== *)
theory Super
  imports Inode
begin

unbundle bit_operations_syntax

text \<open>Reading the super block and mounting the root, fs/super.c.\<close>

abbreviation ROOT_DEV :: int where "ROOT_DEV \<equiv> 0x306"

text \<open>
  The structure in memory is copied from the block, with the fields that only exist in memory:
  they are set again before \<open>do_mount\<close> returns a super block. A pointer that comes from the
  disk points to nothing here. \<open>s_dev\<close> is at offset 84, behind the sixteen map pointers.
\<close>

definition super_of :: "u8 list \<Rightarrow> super_block" where
  "super_of d = \<lparr>s_ninodes = le16 d 0, s_nzones = le16 d 2, s_imap_blocks = le16 d 4,
     s_zmap_blocks = le16 d 6, s_firstdatazone = le16 d 8, s_log_zone_size = le16 d 10,
     s_max_size = le32 d 12, s_magic = le16 d 16, s_imap = replicate I_MAP_SLOTS None,
     s_zmap = replicate Z_MAP_SLOTS None, s_dev = le16 d 84, s_isup = None, s_imount = None,
     s_time = le32 d 96, s_rd_only = d ! 100, s_dirt = d ! 101\<rparr>"

text \<open>
  The loops that read the map blocks into the slots from \<open>i\<close> on, \<open>n\<close> blocks from \<open>block\<close>;
  \<open>set\<close> stores a slot. There are eight slots, which is not tested.
\<close>

fun read_maps :: "(nat \<Rightarrow> nat option \<Rightarrow> fs \<Rightarrow> fs) \<Rightarrow> int \<Rightarrow> nat \<Rightarrow> nat \<Rightarrow> int \<Rightarrow> fs \<Rightarrow> (int \<times> fs) result" where
  "read_maps put dev 0 i block s = Inr (block, s)"
| "read_maps put dev (Suc n) i block s =
     andthen (bread dev block s) (\<lambda>(bh, s).
     if 8 \<le> i then Inl Fault
     else
       let s = put i bh s in
       if bh = None then Inr (block, s) else read_maps put dev n (i + 1) (block + 1) s)"

definition put_imap :: "nat \<Rightarrow> nat \<Rightarrow> nat option \<Rightarrow> fs \<Rightarrow> fs" where
  "put_imap p i bh = upd_super p (\<lambda>sb. sb\<lparr>s_imap := (s_imap sb)[i := bh]\<rparr>)"

definition put_zmap :: "nat \<Rightarrow> nat \<Rightarrow> nat option \<Rightarrow> fs \<Rightarrow> fs" where
  "put_zmap p i bh = upd_super p (\<lambda>sb. sb\<lparr>s_zmap := (s_zmap sb)[i := bh]\<rparr>)"

fun release_bufs :: "nat option list \<Rightarrow> fs \<Rightarrow> fs result" where
  "release_bufs [] s = Inr s"
| "release_bufs (None # bs) s = release_bufs bs s"
| "release_bufs (Some b # bs) s = andthen (brelse b s) (release_bufs bs)"

text \<open>\<open>b_data[0] |= 1\<close> through a map slot.\<close>

definition mark_first :: "nat option \<Rightarrow> fs \<Rightarrow> fs result" where
  "mark_first m s =
     (case m of
        None \<Rightarrow> Inl Fault
      | Some b \<Rightarrow> Inr (upd_buf b (\<lambda>h. h\<lparr>b_data := (b_data h)[0 := b_data h ! 0 OR 1]\<rparr>) s))"

definition free_super :: "nat \<Rightarrow> fs \<Rightarrow> fs" where
  "free_super p = upd_super p (\<lambda>sb. sb\<lparr>s_dev := 0\<rparr>)"

text \<open>
  When no entry of the table is free the entry behind its end is marked before the test. A
  block that can not be read leaves the entry marked.
\<close>

definition do_mount :: "int \<Rightarrow> fs \<Rightarrow> (nat option \<times> fs) result" where
  "do_mount dev s =
     (case find (\<lambda>p. s_dev (super s p) = 0) [0..<NR_SUPER] of
        None \<Rightarrow> Inl Fault
      | Some p \<Rightarrow>
          andthen (bread dev 1 (upd_super p (\<lambda>sb. sb\<lparr>s_dev := -1\<rparr>) s)) (\<lambda>(bh, s).
          case bh of
            None \<Rightarrow> Inr (None, s)
          | Some b \<Rightarrow>
              andthen (brelse b (upd_super p (\<lambda>_. super_of (b_data (buf s b))) s)) (\<lambda>s.
              if s_magic (super s p) \<noteq> SUPER_MAGIC then Inr (None, free_super p s)
              else
                andthen (read_maps (put_imap p) dev (unat (s_imap_blocks (super s p))) 0 2 s) (\<lambda>(block, s).
                andthen (read_maps (put_zmap p) dev (unat (s_zmap_blocks (super s p))) 0 block s) (\<lambda>(block, s).
                let sb = super s p in
                if block \<noteq> 2 + uint (s_imap_blocks sb) + uint (s_zmap_blocks sb)
                then andthen (release_bufs (s_imap sb) s) (\<lambda>s.
                     andthen (release_bufs (s_zmap sb) s) (\<lambda>s. Inr (None, free_super p s)))
                else
                  andthen (mark_first (s_imap sb ! 0) s) (\<lambda>s.
                  andthen (mark_first (s_zmap sb ! 0) s) (\<lambda>s.
                  Inr (Some p, upd_super p (\<lambda>sb. sb\<lparr>s_dev := word_of_int dev, s_isup := None,
                                  s_imount := None, s_time := 0, s_rd_only := 0, s_dirt := 0\<rparr>) s))))))))"

text \<open>The free bits below \<open>n\<close> of the maps, counted from above; the first map is read at the end.\<close>

fun count_zero_bits :: "nat option list \<Rightarrow> nat \<Rightarrow> fs \<Rightarrow> nat result" where
  "count_zero_bits maps 0 s = Inr 0"
| "count_zero_bits maps (Suc i) s =
     (case slot maps (i div 8192) of
        None \<Rightarrow> Inl Fault
      | Some b \<Rightarrow>
          andthen (count_zero_bits maps i s) (\<lambda>n.
          Inr (if map_bit (b_data (buf s b)) (i mod 8192) then n else n + 1)))"

definition mount_root :: "fs \<Rightarrow> (nat \<times> nat \<times> fs) result" where
  "mount_root s =
     (let s = s\<lparr>file_table := (\<lambda>i. if i < NR_FILE then (file_table s i)\<lparr>f_count := 0\<rparr> else file_table s i)\<rparr>;
          s = s\<lparr>super := (\<lambda>p. if p < NR_SUPER then (super s p)\<lparr>s_dev := 0\<rparr> else super s p)\<rparr>
      in andthen (do_mount ROOT_DEV s) (\<lambda>(p, s).
         case p of
           None \<Rightarrow> Inl (Panic ''Unable to mount root'')
         | Some p \<Rightarrow>
             andthen (iget ROOT_DEV 1 s) (\<lambda>(mi, s).
             let s = upd_inode mi (\<lambda>n. n\<lparr>i_count := i_count n + 3\<rparr>) s;
                 s = upd_super p (\<lambda>sb. sb\<lparr>s_isup := Some mi, s_imount := Some mi\<rparr>) s;
                 s = upd_ker (set_cur (\<lambda>t. t\<lparr>pwd := Some mi, root := Some mi\<rparr>)) s;
                 sb = super s p
             in andthen (count_zero_bits (s_zmap sb) (unat (s_nzones sb)) s) (\<lambda>blocks.
                andthen (count_zero_bits (s_imap sb) (unat (s_ninodes sb) + 1) s) (\<lambda>inodes.
                Inr (blocks, inodes, s))))))"

end
