(* ===== verification/Pipe.thy ===== *)
theory Pipe
  imports Inode Ring
begin

unbundle bit_operations_syntax

text \<open>
  Pipes, fs/pipe.c: an inode whose \<open>i_size\<close> is the address of a page and whose first two
  longs of \<open>i_zone\<close> are the head and the tail in that page; a pipe of the user is two entries
  of the file table for it.
\<close>

section \<open>The queue\<close>

text \<open>A byte of the physical memory, which is kept as longs at aligned addresses.\<close>

definition phys_byte :: "memory \<Rightarrow> u32 \<Rightarrow> u8" where
  "phys_byte m a = ucast (drop_bit (8 * unat (a AND 3)) (m (a AND NOT 3)))"

definition set_phys_byte :: "u32 \<Rightarrow> u8 \<Rightarrow> memory \<Rightarrow> memory" where
  "set_phys_byte a v m =
     (let w = a AND NOT 3; sh = 8 * unat (a AND 3)
      in m(w := (m w AND NOT (push_bit sh 0xff)) OR push_bit sh (ucast v)))"

definition PIPE_HEAD :: "m_inode \<Rightarrow> u32" where "PIPE_HEAD n = pipe_long 0 n"
definition PIPE_TAIL :: "m_inode \<Rightarrow> u32" where "PIPE_TAIL n = pipe_long 1 n"

definition PIPE_SIZE :: "m_inode \<Rightarrow> u32" where
  "PIPE_SIZE n = (PIPE_HEAD n - PIPE_TAIL n) AND 4095"

definition PIPE_EMPTY :: "m_inode \<Rightarrow> bool" where
  "PIPE_EMPTY n \<longleftrightarrow> PIPE_HEAD n = PIPE_TAIL n"

definition PIPE_FULL :: "m_inode \<Rightarrow> bool" where
  "PIPE_FULL n \<longleftrightarrow> PIPE_SIZE n = 4095"

definition INC_PIPE :: "u32 \<Rightarrow> u32" where
  "INC_PIPE p = (p + 1) AND 4095"

text \<open>The bodies of the two loops, on the inode and the memory: a byte into the pipe and out of it.\<close>

definition pipe_put :: "u8 \<Rightarrow> m_inode \<times> memory \<Rightarrow> m_inode \<times> memory" where
  "pipe_put c q =
     (case q of (n, m) \<Rightarrow>
        (set_pipe_long 0 (INC_PIPE (PIPE_HEAD n)) n, set_phys_byte (i_size n + PIPE_HEAD n) c m))"

definition pipe_get :: "m_inode \<times> memory \<Rightarrow> u8 \<times> m_inode \<times> memory" where
  "pipe_get q =
     (case q of (n, m) \<Rightarrow>
        (phys_byte m (i_size n + PIPE_TAIL n), set_pipe_long 1 (INC_PIPE (PIPE_TAIL n)) n, m))"


section \<open>Reading and writing\<close>

text \<open>
  A reader sleeps on an empty pipe, a writer on a full one, until the other side wakes it; it
  then goes on with the bytes that are left: \<open>Pipe_waits b left\<close>, with \<open>b\<close> the address in the
  user segment.
\<close>

datatype pipe_result =
    Pipe_done int
  | Pipe_waits u32 nat

definition pipe_of :: "nat \<Rightarrow> fs \<Rightarrow> m_inode \<times> memory" where
  "pipe_of i s = (inode s i, phys (mem (ker s)))"

definition set_pipe :: "nat \<Rightarrow> m_inode \<times> memory \<Rightarrow> fs \<Rightarrow> fs" where
  "set_pipe i q s = upd_inode i (\<lambda>_. fst q) (upd_ker (\<lambda>k. k\<lparr>mem := (mem k)\<lparr>phys := snd q\<rparr>\<rparr>) s)"

fun read_pipe_loop :: "nat \<Rightarrow> u32 \<Rightarrow> nat \<Rightarrow> fs \<Rightarrow> u32 \<times> fs" where
  "read_pipe_loop i b 0 s = (b, s)"
| "read_pipe_loop i b (Suc n) s =
     (if PIPE_EMPTY (inode s i) then (b, s)
      else
        let (c, q) = pipe_get (pipe_of i s)
        in read_pipe_loop i (b + 1) n (upd_ker (put_user (put_fs_byte c b)) (set_pipe i q s)))"

definition read_pipe :: "nat \<Rightarrow> u32 \<Rightarrow> int \<Rightarrow> fs \<Rightarrow> pipe_result \<times> fs" where
  "read_pipe i b count s =
     (if PIPE_EMPTY (inode s i) then
        (if i_count (inode s i) \<noteq> 2 then (Pipe_done 0, s) else (Pipe_waits b (nat count), s))
      else
        let (b', s) = read_pipe_loop i b (nat count) s
        in (Pipe_done (sint (b' - b)), s))"

text \<open>Writing to a pipe without a reader is signalled to the process.\<close>

definition sigpipe :: "fs \<Rightarrow> fs" where
  "sigpipe = upd_ker (set_cur (\<lambda>p. p\<lparr>signal := signal p OR push_bit (nat (SIGPIPE - 1)) 1\<rparr>))"

fun write_pipe_loop :: "nat \<Rightarrow> u32 \<Rightarrow> u32 \<Rightarrow> nat \<Rightarrow> fs \<Rightarrow> pipe_result \<times> fs" where
  "write_pipe_loop i start b 0 s = (Pipe_done (sint (b - start)), s)"
| "write_pipe_loop i start b (Suc n) s =
     (if PIPE_FULL (inode s i) then
        (if i_count (inode s i) \<noteq> 2 then (Pipe_done (sint (b - start)), sigpipe s)
         else (Pipe_waits b (Suc n), s))
      else
        write_pipe_loop i start (b + 1) n
          (set_pipe i (pipe_put (get_fs_byte (fs_mem (ker s)) b) (pipe_of i s)) s))"

definition write_pipe :: "nat \<Rightarrow> u32 \<Rightarrow> int \<Rightarrow> fs \<Rightarrow> pipe_result \<times> fs" where
  "write_pipe i b count s =
     (if i_count (inode s i) \<noteq> 2 then (Pipe_done (-1), sigpipe s)
      else write_pipe_loop i b b (nat count) s)"


section \<open>sys\_pipe\<close>

definition set_filp :: "nat \<Rightarrow> nat option \<Rightarrow> fs \<Rightarrow> fs" where
  "set_filp fd f = upd_ker (set_cur (\<lambda>p. p\<lparr>filp := (filp p)[fd := f]\<rparr>))"

text \<open>
  When there is only one free entry of the file table, or of the process, it is freed again:
  the state is the old one.
\<close>

definition sys_pipe :: "u32 \<Rightarrow> fs \<Rightarrow> (int \<times> fs) result" where
  "sys_pipe fildes s =
     (case take 2 (filter (\<lambda>i. f_count (file_table s i) = 0) [0..<NR_FILE]) of
        [f0, f1] \<Rightarrow>
          let count = (\<lambda>c. upd_file f1 (\<lambda>f. f\<lparr>f_count := c\<rparr>) \<circ> upd_file f0 (\<lambda>f. f\<lparr>f_count := c\<rparr>));
              s = count 1 s
          in (case take 2 (filter (\<lambda>i. filp (me s) ! i = None) [0..<NR_OPEN]) of
                [d0, d1] \<Rightarrow>
                  andthen (get_pipe_inode (set_filp d1 (Some f1) (set_filp d0 (Some f0) s))) (\<lambda>(r, s).
                  case r of
                    None \<Rightarrow> Inr (-1, count 0 (set_filp d1 None (set_filp d0 None s)))
                  | Some i \<Rightarrow>
                      let file = (\<lambda>mode f. f\<lparr>f_inode := Some i, f_pos := 0, f_mode := mode\<rparr>);
                          s = upd_file f1 (file 2) (upd_file f0 (file 1) s);
                          s = upd_ker (put_user (put_fs_long (of_nat d0) fildes)) s
                      in Inr (0, upd_ker (put_user (put_fs_long (of_nat d1) (fildes + 4))) s))
              | _ \<Rightarrow> Inr (-1, count 0 s))
      | _ \<Rightarrow> Inr (-1, s))"

end
