(* ===== verification/File_Dev.thy ===== *)
theory File_Dev
  imports Inode
begin

unbundle bit_operations_syntax

text \<open>
  Reading and writing files, fs/file_dev.c, and block devices, fs/block_dev.c. The loops go
  block by block; \<open>left\<close> is what is still to do, \<open>b\<close> the address in the user segment. A file
  is an index into the file table.
\<close>

abbreviation O_APPEND :: u16 where "O_APPEND \<equiv> 0x400"

definition put_user_bytes :: "u8 list \<Rightarrow> u32 \<Rightarrow> fs \<Rightarrow> fs" where
  "put_user_bytes vs b = upd_ker (put_user (put_fs_bytes vs b))"

definition user_bytes :: "nat \<Rightarrow> u32 \<Rightarrow> fs \<Rightarrow> u8 list" where
  "user_bytes n b s = get_fs_bytes n b (fs_mem (ker s))"

lemma c_mod_1024: "c_mod a 1024 < 1024"
proof (cases "0 \<le> a")
  case True
  then show ?thesis by (simp add: c_mod_nonneg)
next
  case False
  then have "c_mod a 1024 = - (- a mod 1024)"
    unfolding c_mod_def c_div_def minus_mult_div_eq_mod [symmetric] by simp
  then show ?thesis using pos_mod_sign [of 1024 "- a"] by simp
qed

text \<open>
  The bytes of the turn: up to the end of the block, not more than wanted. A negative
  position has a negative rest.
\<close>

definition turn_chars :: "int \<Rightarrow> nat \<Rightarrow> nat" where
  "turn_chars pos left = nat (min (1024 - c_mod pos 1024) (int left))"

lemma turn_chars_pos: "left \<noteq> 0 \<Longrightarrow> 0 < turn_chars pos left"
  using c_mod_1024 [of pos] by (simp add: turn_chars_def)

lemma turn_chars_le: "turn_chars pos left \<le> left"
  by (simp add: turn_chars_def)


section \<open>Files\<close>

text \<open>A block that is not there reads as zeroes. The loop gives what it has not read.\<close>

function file_read_loop :: "nat \<Rightarrow> nat \<Rightarrow> u32 \<Rightarrow> nat \<Rightarrow> fs \<Rightarrow> (nat \<times> fs) result" where
  "file_read_loop i f b left s =
     (if left = 0 then Inr (0, s)
      else
        andthen (bmap i (c_div (f_pos (file_table s f)) 1024) s) (\<lambda>(nr, s).
        andthen (if nr \<noteq> 0 then bread (uint (i_dev (inode s i))) nr s else Inr (None, s)) (\<lambda>(bh, s).
        if nr \<noteq> 0 \<and> bh = None then Inr (left, s)
        else
          let pos = f_pos (file_table s f);
              off = c_mod pos 1024;
              n = turn_chars pos left;
              s = upd_file f (\<lambda>f. f\<lparr>f_pos := s32 (pos + int n)\<rparr>) s
          in case bh of
               None \<Rightarrow> file_read_loop i f (b + of_nat n) (left - n) (put_user_bytes (replicate n 0) b s)
             | Some h \<Rightarrow>
                 if off < 0 then Inl Fault
                 else andthen (brelse h (put_user_bytes (slice (nat off) n (b_data (buf s h))) b s))
                        (file_read_loop i f (b + of_nat n) (left - n)))))"
  by pat_completeness auto
termination
  by (relation "measure (\<lambda>(_, _, _, left, _). left)") (auto simp: turn_chars_pos)

declare file_read_loop.simps [simp del]

definition file_read :: "nat \<Rightarrow> nat \<Rightarrow> u32 \<Rightarrow> int \<Rightarrow> fs \<Rightarrow> (int \<times> fs) result" where
  "file_read i f b count s =
     (if count \<le> 0 then Inr (0, s)
      else
        andthen (file_read_loop i f b (nat count) s) (\<lambda>(left, s).
        let n = count - int left
        in Inr (if n \<noteq> 0 then n else - ERROR, upd_inode i (\<lambda>n. n\<lparr>i_atime := now s\<rparr>) s)))"

text \<open>\<open>i_size\<close> is unsigned, and a position is compared with it as an unsigned long.\<close>

definition grow :: "nat \<Rightarrow> int \<Rightarrow> fs \<Rightarrow> fs" where
  "grow i pos s =
     (if i_size (inode s i) < word_of_int pos
      then upd_inode i (\<lambda>n. n\<lparr>i_size := word_of_int pos, i_dirt := 1\<rparr>) s else s)"

function file_write_loop :: "nat \<Rightarrow> int \<Rightarrow> u32 \<Rightarrow> nat \<Rightarrow> fs \<Rightarrow> (int \<times> nat \<times> fs) result" where
  "file_write_loop i pos b left s =
     (if left = 0 then Inr (pos, 0, s)
      else
        andthen (create_block i (c_div pos 1024) s) (\<lambda>(block, s).
        if block = 0 then Inr (pos, left, s)
        else
          andthen (bread (uint (i_dev (inode s i))) block s) (\<lambda>(bh, s).
          case bh of
            None \<Rightarrow> Inr (pos, left, s)
          | Some h \<Rightarrow>
              let off = c_mod pos 1024;
                  n = turn_chars pos left;
                  pos = s32 (pos + int n);
                  s = grow i pos (upd_buf h (\<lambda>h. h\<lparr>b_dirt := 1\<rparr>) s)
              in if off < 0 then Inl Fault
                 else
                   let s = upd_buf h (\<lambda>h. h\<lparr>b_data := overwrite (nat off) (user_bytes n b s) (b_data h)\<rparr>) s
                   in andthen (brelse h s) (file_write_loop i pos (b + of_nat n) (left - n)))))"
  by pat_completeness auto
termination
  by (relation "measure (\<lambda>(_, _, _, left, _). left)") (auto simp: turn_chars_pos)

declare file_write_loop.simps [simp del]

definition file_write :: "nat \<Rightarrow> nat \<Rightarrow> u32 \<Rightarrow> int \<Rightarrow> fs \<Rightarrow> (int \<times> fs) result" where
  "file_write i f b count s =
     (let append = f_flags (file_table s f) AND O_APPEND \<noteq> 0;
          pos = (if append then sint (i_size (inode s i)) else f_pos (file_table s f))
      in andthen (file_write_loop i pos b (nat count) s) (\<lambda>(pos, left, s).
         let n = int (nat count - left);
             s = upd_inode i (\<lambda>n. n\<lparr>i_mtime := now s\<rparr>) s;
             s = (if append then s
                  else upd_inode i (\<lambda>n. n\<lparr>i_ctime := now s\<rparr>) (upd_file f (\<lambda>f. f\<lparr>f_pos := pos\<rparr>) s))
         in Inr (if n \<noteq> 0 then n else -1, s)))"


section \<open>Block devices\<close>

text \<open>
  The first turn goes from \<open>offset\<close> on for up to a whole block: from an offset that is not 0
  this leads behind the end of the buffer. \<open>block_read\<close> marks the buffer dirty, too. The
  functions give the result and the position.
\<close>

function block_write_loop :: "int \<Rightarrow> int \<Rightarrow> int \<Rightarrow> int \<Rightarrow> u32 \<Rightarrow> nat \<Rightarrow> int \<Rightarrow> fs \<Rightarrow> (int \<times> int \<times> fs) result" where
  "block_write_loop dev block offset pos b left written s =
     (if left = 0 then Inr (written, pos, s)
      else
        andthen (bread dev block s) (\<lambda>(bh, s).
        case bh of
          None \<Rightarrow> Inr (if written \<noteq> 0 then written else - EIO, pos, s)
        | Some h \<Rightarrow>
            let chars = min left BLOCK_SIZE
            in if offset < 0 \<or> int BLOCK_SIZE < offset + int chars then Inl Fault
               else
                 let s = upd_buf h (\<lambda>h. h\<lparr>b_data := overwrite (nat offset) (user_bytes chars b s) (b_data h),
                                       b_dirt := 1\<rparr>) s
                 in andthen (brelse h s)
                      (block_write_loop dev (block + 1) 0 (s32 (pos + int chars)) (b + of_nat chars)
                        (left - chars) (written + int chars))))"
  by pat_completeness auto
termination by (relation "measure (\<lambda>(_, _, _, _, _, left, _, _). left)") auto

declare block_write_loop.simps [simp del]

definition block_write :: "int \<Rightarrow> int \<Rightarrow> u32 \<Rightarrow> int \<Rightarrow> fs \<Rightarrow> (int \<times> int \<times> fs) result" where
  "block_write dev pos b count =
     block_write_loop dev (c_div pos 1024) (c_mod pos 1024) pos b (nat count) 0"

function block_read_loop :: "int \<Rightarrow> int \<Rightarrow> nat \<Rightarrow> int \<Rightarrow> u32 \<Rightarrow> nat \<Rightarrow> int \<Rightarrow> fs \<Rightarrow> (int \<times> int \<times> fs) result" where
  "block_read_loop dev block offset pos b left got s =
     (if left = 0 then Inr (got, pos, s)
      else
        andthen (bread dev block s) (\<lambda>(bh, s).
        case bh of
          None \<Rightarrow> Inr (if got \<noteq> 0 then got else - EIO, pos, s)
        | Some h \<Rightarrow>
            let chars = min left BLOCK_SIZE
            in if BLOCK_SIZE < offset + chars then Inl Fault
               else
                 let s = put_user_bytes (slice offset chars (b_data (buf s h))) b s;
                     s = upd_buf h (\<lambda>h. h\<lparr>b_dirt := 1\<rparr>) s
                 in andthen (brelse h s)
                      (block_read_loop dev (block + 1) 0 (s32 (pos + int chars)) (b + of_nat chars)
                        (left - chars) (got + int chars))))"
  by pat_completeness auto
termination by (relation "measure (\<lambda>(_, _, _, _, _, left, _, _). left)") auto

declare block_read_loop.simps [simp del]

text \<open>The position is unsigned here.\<close>

definition block_read :: "int \<Rightarrow> int \<Rightarrow> u32 \<Rightarrow> int \<Rightarrow> fs \<Rightarrow> (int \<times> int \<times> fs) result" where
  "block_read dev pos b count =
     (let p = word_of_int pos :: u32
      in block_read_loop dev (uint (p div 1024)) (unat (p mod 1024)) pos b (nat count) 0)"

end
