(* ===== verification/Namei.thy ===== *)
theory Namei
  imports File_Dev
begin

unbundle bit_operations_syntax

text \<open>
  Names of files, fs/namei.c up to \<open>open_namei\<close>: permissions, the entries of a directory, the
  way from a path to an inode. A path is an address in the user segment; an entry of a
  directory is a buffer and an offset in its block.
\<close>

abbreviation NAME_LEN :: nat where "NAME_LEN \<equiv> 14"
abbreviation DIR_ENTRIES_PER_BLOCK :: nat where "DIR_ENTRIES_PER_BLOCK \<equiv> 64"

abbreviation MAY_EXEC :: int where "MAY_EXEC \<equiv> 1"
abbreviation MAY_WRITE :: int where "MAY_WRITE \<equiv> 2"
abbreviation MAY_READ :: int where "MAY_READ \<equiv> 4"

abbreviation O_ACCMODE :: u32 where "O_ACCMODE \<equiv> 3"
abbreviation O_WRONLY :: u32 where "O_WRONLY \<equiv> 1"
abbreviation O_CREAT :: u32 where "O_CREAT \<equiv> 0x40"
abbreviation O_EXCL :: u32 where "O_EXCL \<equiv> 0x80"
abbreviation O_TRUNC :: u32 where "O_TRUNC \<equiv> 0x200"

text \<open>The last character of the string is \<open>-1\<close>, a \<open>char\<close> being signed.\<close>

definition ACC_MODE :: "u32 \<Rightarrow> int" where
  "ACC_MODE x = [4, 2, 6, -1] ! unat (x AND O_ACCMODE)"

definition permission :: "nat \<Rightarrow> int \<Rightarrow> fs \<Rightarrow> int" where
  "permission i want s =
     (let n = inode s i; c = me s; mode = uint (i_mode n) in
      if i_dev n \<noteq> 0 \<and> i_nlinks n = 0 then 0
      else
        let mode = (if \<not> (uid c \<noteq> 0 \<and> euid c \<noteq> 0) then 0x1ff
                    else if uid c = i_uid n \<or> euid c = i_uid n then drop_bit 6 mode
                    else if gid c = ucast (i_gid n) \<or> egid c = ucast (i_gid n) then drop_bit 3 mode
                    else mode)
        in mode AND want AND 7)"


section \<open>Entries of a directory\<close>

definition de_inode :: "nat \<Rightarrow> nat \<Rightarrow> fs \<Rightarrow> u16" where
  "de_inode b off s = le16 (b_data (buf s b)) off"

definition set_bytes :: "nat \<Rightarrow> nat \<Rightarrow> u8 list \<Rightarrow> fs \<Rightarrow> fs" where
  "set_bytes b off xs = upd_buf b (\<lambda>h. h\<lparr>b_data := overwrite off xs (b_data h)\<rparr>)"

definition set_de_inode :: "nat \<Rightarrow> nat \<Rightarrow> u16 \<Rightarrow> fs \<Rightarrow> fs" where
  "set_de_inode b off v = set_bytes b off (bytes16 v)"

definition dirty :: "nat \<Rightarrow> fs \<Rightarrow> fs" where
  "dirty b = upd_buf b (\<lambda>h. h\<lparr>b_dirt := 1\<rparr>)"

definition match :: "nat \<Rightarrow> u32 \<Rightarrow> nat \<Rightarrow> nat \<Rightarrow> fs \<Rightarrow> bool" where
  "match len name b off s =
     (if de_inode b off s = 0 \<or> NAME_LEN < len then False
      else if len < NAME_LEN \<and> b_data (buf s b) ! (off + 2 + len) \<noteq> 0 then False
      else user_bytes len name s = slice (off + 2) len (b_data (buf s b)))"

text \<open>
  The loop over the entries: \<open>i\<close> counts them, \<open>b\<close> and \<open>off\<close> are the current one. A block that is
  missing leaves \<open>bh\<close> null, and the next turn looks at \<open>bh->b_data\<close>.
\<close>

function find_loop :: "nat \<Rightarrow> u32 \<Rightarrow> nat \<Rightarrow> nat \<Rightarrow> nat \<Rightarrow> nat \<Rightarrow> nat \<Rightarrow> fs \<Rightarrow> ((nat \<times> nat) option \<times> fs) result" where
  "find_loop dir name len entries i b off s =
     (if entries \<le> i then andthen (brelse b s) (\<lambda>s. Inr (None, s))
      else if BLOCK_SIZE \<le> off then
        andthen (brelse b s) (\<lambda>s.
        andthen (bmap dir (int (i div DIR_ENTRIES_PER_BLOCK)) s) (\<lambda>(block, s).
        andthen (if block \<noteq> 0 then bread (uint (i_dev (inode s dir))) block s else Inr (None, s)) (\<lambda>(bh, s).
        case bh of
          None \<Rightarrow> if i + DIR_ENTRIES_PER_BLOCK < entries then Inl Fault else Inr (None, s)
        | Some b \<Rightarrow> find_loop dir name len entries i b 0 s)))
      else if match len name b off s then Inr (Some (b, off), s)
      else find_loop dir name len entries (i + 1) b (off + 16) s)"
  by pat_completeness auto
termination
  by (relation "measure (\<lambda>(_, _, _, entries, i, _, off, _). 2 * (entries - i) + (if BLOCK_SIZE \<le> off then 1 else 0))")
    auto

declare find_loop.simps [simp del]

definition find_entry :: "nat \<Rightarrow> u32 \<Rightarrow> nat \<Rightarrow> fs \<Rightarrow> ((nat \<times> nat) option \<times> fs) result" where
  "find_entry dir name len s =
     (let len = (if NAME_LEN < len then NAME_LEN else len);
          entries = unat (i_size (inode s dir) div 16);
          block = uint (i_zone (inode s dir) ! 0)
      in if len = 0 then Inr (None, s)
         else if block = 0 then Inr (None, s)
         else
           andthen (bread (uint (i_dev (inode s dir))) block s) (\<lambda>(bh, s).
           case bh of
             None \<Rightarrow> Inr (None, s)
           | Some b \<Rightarrow> find_loop dir name len entries 0 b 0 s))"

text \<open>
  \<open>add_entry\<close>: at the end of the directory a new entry is cleared, and the first entry
  without an inode gets the name.
\<close>

definition next_block :: "nat \<Rightarrow> nat \<Rightarrow> nat \<Rightarrow> fs \<Rightarrow> (int \<times> nat option \<times> fs) result" where
  "next_block dir i b s =
     andthen (brelse b s) (\<lambda>s.
     andthen (create_block dir (int (i div DIR_ENTRIES_PER_BLOCK)) s) (\<lambda>(block, s).
     if block = 0 then Inr (0, None, s)
     else andthen (bread (uint (i_dev (inode s dir))) block s) (\<lambda>(bh, s). Inr (block, bh, s))))"

definition extend :: "nat \<Rightarrow> nat \<Rightarrow> nat \<Rightarrow> nat \<Rightarrow> fs \<Rightarrow> fs" where
  "extend dir i b off s =
     (if i_size (inode s dir) \<le> of_nat (16 * i)
      then upd_inode dir (\<lambda>n. n\<lparr>i_size := of_nat (16 * (i + 1)), i_dirt := 1, i_ctime := now s\<rparr>)
             (set_de_inode b off 0 s)
      else s)"

definition entry_name :: "u32 \<Rightarrow> nat \<Rightarrow> fs \<Rightarrow> u8 list" where
  "entry_name name len s = user_bytes len name s @ replicate (NAME_LEN - len) 0"

partial_function (option) add_loop :: "nat \<Rightarrow> u32 \<Rightarrow> nat \<Rightarrow> nat \<Rightarrow> nat \<Rightarrow> nat \<Rightarrow> fs \<Rightarrow> ((nat \<times> nat) option \<times> fs) result option" where
  "add_loop dir name len i b off s =
     (if BLOCK_SIZE \<le> off then
        (case next_block dir i b s of
           Inl e \<Rightarrow> Some (Inl e)
         | Inr (block, None, s) \<Rightarrow> Some (if block = 0 then Inr (None, s) else Inl Fault)
         | Inr (block, Some b, s) \<Rightarrow> add_loop dir name len i b 0 s)
      else if de_inode b off (extend dir i b off s) = 0 then
        Some (Inr (Some (b, off),
          dirty b (set_bytes b (off + 2) (entry_name name len s)
            (upd_inode dir (\<lambda>n. n\<lparr>i_mtime := now s\<rparr>) (extend dir i b off s)))))
      else add_loop dir name len (i + 1) b (off + 16) (extend dir i b off s))"

definition add_entry :: "nat \<Rightarrow> u32 \<Rightarrow> nat \<Rightarrow> fs \<Rightarrow> ((nat \<times> nat) option \<times> fs) result" where
  "add_entry dir name len s =
     (let len = (if NAME_LEN < len then NAME_LEN else len);
          block = uint (i_zone (inode s dir) ! 0)
      in if len = 0 then Inr (None, s)
         else if block = 0 then Inr (None, s)
         else
           andthen (bread (uint (i_dev (inode s dir))) block s) (\<lambda>(bh, s).
           case bh of
             None \<Rightarrow> Inr (None, s)
           | Some b \<Rightarrow> joined (add_loop dir name len 0 b 0 s)))"


section \<open>Paths\<close>

abbreviation slash :: u8 where "slash \<equiv> 47"

text \<open>The length of the name from \<open>a\<close> on, and the character that ends it.\<close>

partial_function (option) name_end :: "user_mem \<Rightarrow> u32 \<Rightarrow> nat \<Rightarrow> (nat \<times> u8) option" where
  "name_end m a n =
     (if get_fs_byte m a \<noteq> 0 \<and> get_fs_byte m a \<noteq> slash then name_end m (a + 1) (n + 1)
      else Some (n, get_fs_byte m a))"

text \<open>From the entry that was found to its inode; the directory is given back.\<close>

definition enter :: "nat \<Rightarrow> nat \<Rightarrow> nat \<Rightarrow> fs \<Rightarrow> (nat \<times> fs) result" where
  "enter dir b off s =
     (let inr = uint (de_inode b off s); dev = uint (i_dev (inode s dir))
      in andthen (brelse b s) (\<lambda>s. andthen (iput (Some dir) s) (iget dev inr)))"

partial_function (option) get_dir_loop :: "u32 \<Rightarrow> nat \<Rightarrow> fs \<Rightarrow> (nat option \<times> fs) result option" where
  "get_dir_loop path i s =
     (if \<not> S_ISDIR (i_mode (inode s i)) \<or> permission i MAY_EXEC s = 0
      then Some (andthen (iput (Some i) s) (\<lambda>s. Inr (None, s)))
      else
        (case returns (name_end (fs_mem (ker s)) path 0) of
           Inl e \<Rightarrow> Some (Inl e)
         | Inr (n, c) \<Rightarrow>
             if c = 0 then Some (Inr (Some i, s))
             else
               (case find_entry i path n s of
                  Inl e \<Rightarrow> Some (Inl e)
                | Inr (None, s) \<Rightarrow> Some (andthen (iput (Some i) s) (\<lambda>s. Inr (None, s)))
                | Inr (Some (b, off), s) \<Rightarrow>
                    (case enter i b off s of
                       Inl e \<Rightarrow> Some (Inl e)
                     | Inr (j, s) \<Rightarrow> get_dir_loop (path + of_nat n + 1) j s))))"

definition in_use :: "nat option \<Rightarrow> fs \<Rightarrow> bool" where
  "in_use i s = (case i of None \<Rightarrow> False | Some i \<Rightarrow> i_count (inode s i) \<noteq> 0)"

definition get_dir :: "u32 \<Rightarrow> fs \<Rightarrow> (nat option \<times> fs) result" where
  "get_dir path s =
     (if \<not> in_use (root (me s)) s then Inl (Panic ''No root inode'')
      else if \<not> in_use (pwd (me s)) s then Inl (Panic ''No cwd inode'')
      else
        let c = get_fs_byte (fs_mem (ker s)) path;
            start = (\<lambda>p i. joined (get_dir_loop p i (upd_inode i (\<lambda>n. n\<lparr>i_count := i_count n + 1\<rparr>) s)))
        in if c = slash then start (path + 1) (the (root (me s)))
           else if c \<noteq> 0 then start path (the (pwd (me s)))
           else Inr (None, s))"

text \<open>The last name of a path: where it starts, and where the path ends.\<close>

partial_function (option) base_name :: "user_mem \<Rightarrow> u32 \<Rightarrow> u32 \<Rightarrow> (u32 \<times> u32) option" where
  "base_name m a base =
     (if get_fs_byte m a = 0 then Some (base, a)
      else base_name m (a + 1) (if get_fs_byte m a = slash then a + 1 else base))"

definition dir_namei :: "u32 \<Rightarrow> fs \<Rightarrow> ((nat \<times> nat \<times> u32) option \<times> fs) result" where
  "dir_namei path s =
     andthen (get_dir path s) (\<lambda>(dir, s).
     case dir of
       None \<Rightarrow> Inr (None, s)
     | Some d \<Rightarrow>
         andthen (returns (base_name (fs_mem (ker s)) path path)) (\<lambda>(base, e).
         Inr (Some (d, unat (e - base), base), s)))"

definition namei :: "u32 \<Rightarrow> fs \<Rightarrow> (nat option \<times> fs) result" where
  "namei path s =
     andthen (dir_namei path s) (\<lambda>(r, s).
     case r of
       None \<Rightarrow> Inr (None, s)
     | Some (dir, len, base) \<Rightarrow>
         if len = 0 then Inr (Some dir, s)
         else
           andthen (find_entry dir base len s) (\<lambda>(e, s).
           case e of
             None \<Rightarrow> andthen (iput (Some dir) s) (\<lambda>s. Inr (None, s))
           | Some (b, off) \<Rightarrow>
               andthen (enter dir b off s) (\<lambda>(i, s).
               Inr (Some i, upd_inode i (\<lambda>n. n\<lparr>i_atime := now s, i_dirt := 1\<rparr>) s))))"


section \<open>open\_namei\<close>

abbreviation I_REGULAR :: u32 where "I_REGULAR \<equiv> 0x8000"
abbreviation I_DIRECTORY :: u32 where "I_DIRECTORY \<equiv> 0x4000"

text \<open>Giving back inodes and a buffer, in this order, on the way out.\<close>

fun leave :: "nat list \<Rightarrow> nat option \<Rightarrow> 'a \<Rightarrow> fs \<Rightarrow> ('a \<times> fs) result" where
  "leave [] None r s = Inr (r, s)"
| "leave [] (Some b) r s = andthen (brelse b s) (\<lambda>s. Inr (r, s))"
| "leave (i # is) bh r s = andthen (iput (Some i) s) (leave is bh r)"

definition unlink_inode :: "nat \<Rightarrow> fs \<Rightarrow> fs" where
  "unlink_inode i = upd_inode i (\<lambda>n. n\<lparr>i_nlinks := i_nlinks n - 1\<rparr>)"

definition create_file :: "nat \<Rightarrow> u32 \<Rightarrow> nat \<Rightarrow> u32 \<Rightarrow> u32 \<Rightarrow> fs \<Rightarrow> ((int \<times> nat option) \<times> fs) result" where
  "create_file dir base len flag mode s =
     (if flag AND O_CREAT = 0 then leave [dir] None (- ENOENT, None) s
      else if permission dir MAY_WRITE s = 0 then leave [dir] None (- EACCES, None) s
      else
        andthen (new_inode (uint (i_dev (inode s dir))) s) (\<lambda>(r, s).
        case r of
          None \<Rightarrow> leave [dir] None (- ENOSPC, None) s
        | Some i \<Rightarrow>
            andthen (add_entry dir base len (upd_inode i (\<lambda>n. n\<lparr>i_mode := ucast mode, i_dirt := 1\<rparr>) s)) (\<lambda>(e, s).
            case e of
              None \<Rightarrow> leave [i, dir] None (- ENOSPC, None) (unlink_inode i s)
            | Some (b, off) \<Rightarrow>
                andthen (brelse b (dirty b (set_de_inode b off (i_num (inode s i)) s)))
                  (leave [dir] None (0, Some i)))))"

definition open_file_at :: "nat \<Rightarrow> nat \<Rightarrow> nat \<Rightarrow> u32 \<Rightarrow> fs \<Rightarrow> ((int \<times> nat option) \<times> fs) result" where
  "open_file_at dir b off flag s =
     (let inr = uint (de_inode b off s); dev = uint (i_dev (inode s dir)) in
      andthen (brelse b s) (\<lambda>s.
      andthen (iput (Some dir) s) (\<lambda>s.
      if flag AND O_EXCL \<noteq> 0 then Inr ((- EEXIST, None), s)
      else
        andthen (iget dev inr s) (\<lambda>(i, s).
        if S_ISDIR (i_mode (inode s i)) \<and> flag AND O_ACCMODE \<noteq> 0 \<or> permission i (ACC_MODE flag) s \<noteq> ACC_MODE flag
        then leave [i] None (- EPERM, None) s
        else
          let s = upd_inode i (\<lambda>n. n\<lparr>i_atime := now s\<rparr>) s
          in andthen (if flag AND O_TRUNC \<noteq> 0 then truncate_inode i s else Inr s) (\<lambda>s.
             Inr ((0, Some i), s))))))"

text \<open>\<open>flag\<close> and \<open>mode\<close> are the bits of an \<open>int\<close>.\<close>

definition open_namei :: "u32 \<Rightarrow> u32 \<Rightarrow> u32 \<Rightarrow> fs \<Rightarrow> ((int \<times> nat option) \<times> fs) result" where
  "open_namei path flag mode s =
     (let flag = (if flag AND O_TRUNC \<noteq> 0 \<and> flag AND O_ACCMODE = 0 then flag OR O_WRONLY else flag);
          mode = (mode AND (0x1ff AND NOT (ucast (umask (me s))))) OR I_REGULAR
      in andthen (dir_namei path s) (\<lambda>(r, s).
         case r of
           None \<Rightarrow> Inr ((- ENOENT, None), s)
         | Some (dir, len, base) \<Rightarrow>
             if len = 0 then
               (if flag AND (O_ACCMODE OR O_CREAT OR O_TRUNC) = 0 then Inr ((0, Some dir), s)
                else leave [dir] None (- EISDIR, None) s)
             else
               andthen (find_entry dir base len s) (\<lambda>(e, s).
               case e of
                 None \<Rightarrow> create_file dir base len flag mode s
               | Some (b, off) \<Rightarrow> open_file_at dir b off flag s)))"

end
