(* ===== verification/Dirs.thy ===== *)
theory Dirs
  imports Namei
begin

unbundle bit_operations_syntax

text \<open>
  Making and removing directories and links, the calls of fs/namei.c: \<open>sys_mkdir\<close>,
  \<open>sys_rmdir\<close>, \<open>sys_unlink\<close>, \<open>sys_link\<close>.
\<close>

text \<open>Each call starts with the directory of the name and wants a name behind it.\<close>

definition with_dir :: "u32 \<Rightarrow> int \<Rightarrow> int \<Rightarrow> (nat \<Rightarrow> nat \<Rightarrow> u32 \<Rightarrow> fs \<Rightarrow> (int \<times> fs) result) \<Rightarrow> fs \<Rightarrow> (int \<times> fs) result" where
  "with_dir path no_dir no_name body s =
     andthen (dir_namei path s) (\<lambda>(r, s).
     case r of
       None \<Rightarrow> Inr (no_dir, s)
     | Some (dir, len, base) \<Rightarrow> if len = 0 then leave [dir] None no_name s else body dir len base s)"


section \<open>mkdir\<close>

text \<open>The two entries of the new directory; \<open>strcpy\<close> writes the names with their NUL.\<close>

definition init_dir :: "nat \<Rightarrow> u16 \<Rightarrow> u16 \<Rightarrow> fs \<Rightarrow> fs" where
  "init_dir b own parent s =
     set_bytes b 18 [46, 46, 0] (set_de_inode b 16 parent (set_bytes b 2 [46, 0] (set_de_inode b 0 own s)))"

text \<open>The new directory goes into its parent.\<close>

definition enter_new_dir :: "nat \<Rightarrow> nat \<Rightarrow> u32 \<Rightarrow> nat \<Rightarrow> fs \<Rightarrow> (int \<times> fs) result" where
  "enter_new_dir dir len base i s =
     andthen (add_entry dir base len s) (\<lambda>(e, s).
     case e of
       None \<Rightarrow>
         andthen (iput (Some dir) s) (\<lambda>s.
         andthen (free_block (uint (i_dev (inode s i))) (uint (i_zone (inode s i) ! 0)) s) (\<lambda>s.
         leave [i] None (- ENOSPC) (upd_inode i (\<lambda>n. n\<lparr>i_nlinks := 0\<rparr>) s)))
     | Some (b, off) \<Rightarrow>
         let s = dirty b (set_de_inode b off (i_num (inode s i)) s);
             s = upd_inode dir (\<lambda>n. n\<lparr>i_nlinks := i_nlinks n + 1, i_dirt := 1\<rparr>) s
         in leave [dir, i] (Some b) 0 s)"

definition make_dir :: "nat \<Rightarrow> nat \<Rightarrow> u32 \<Rightarrow> u32 \<Rightarrow> nat \<Rightarrow> fs \<Rightarrow> (int \<times> fs) result" where
  "make_dir dir len base mode i s =
     (let s = upd_inode i (\<lambda>n. n\<lparr>i_size := 32, i_dirt := 1, i_mtime := now s, i_atime := now s\<rparr>) s in
      andthen (new_block (uint (i_dev (inode s i))) s) (\<lambda>(z, s).
      let s = set_zone i 0 (word_of_int z) s in
      if i_zone (inode s i) ! 0 = 0 then
        andthen (iput (Some dir) s) (\<lambda>s. leave [i] None (- ENOSPC) (unlink_inode i s))
      else
        let s = upd_inode i (\<lambda>n. n\<lparr>i_dirt := 1\<rparr>) s in
        andthen (bread (uint (i_dev (inode s i))) (uint (i_zone (inode s i) ! 0)) s) (\<lambda>(bh, s).
        case bh of
          None \<Rightarrow>
            andthen (iput (Some dir) s) (\<lambda>s.
            andthen (free_block (uint (i_dev (inode s i))) (uint (i_zone (inode s i) ! 0)) s) (\<lambda>s.
            leave [i] None (- ERROR) (unlink_inode i s)))
        | Some b \<Rightarrow>
            let s = init_dir b (i_num (inode s i)) (i_num (inode s dir)) s;
                s = dirty b (upd_inode i (\<lambda>n. n\<lparr>i_nlinks := 2\<rparr>) s)
            in andthen (brelse b s) (\<lambda>s.
               let mode = I_DIRECTORY OR (mode AND (0x1ff AND NOT (ucast (umask (me s)))));
                   s = upd_inode i (\<lambda>n. n\<lparr>i_mode := ucast mode, i_dirt := 1\<rparr>) s
               in enter_new_dir dir len base i s))))"

definition sys_mkdir :: "u32 \<Rightarrow> u32 \<Rightarrow> fs \<Rightarrow> (int \<times> fs) result" where
  "sys_mkdir path mode s =
     (if euid (me s) \<noteq> 0 \<and> uid (me s) \<noteq> 0 then Inr (- EPERM, s)
      else
        with_dir path (- ENOENT) (- ENOENT) (\<lambda>dir len base s.
          if permission dir MAY_WRITE s = 0 then leave [dir] None (- EPERM) s
          else
            andthen (find_entry dir base len s) (\<lambda>(e, s).
            case e of
              Some (b, _) \<Rightarrow> andthen (brelse b s) (leave [dir] None (- EEXIST))
            | None \<Rightarrow>
                andthen (new_inode (uint (i_dev (inode s dir))) s) (\<lambda>(r, s).
                case r of
                  None \<Rightarrow> leave [dir] None (- ENOSPC) s
                | Some i \<Rightarrow> make_dir dir len base mode i s))) s)"


section \<open>rmdir\<close>

text \<open>
  A block that is missing is stepped over with \<open>bh\<close> unchanged: it is released again in the
  next turn. \<open>empty_dir\<close> keeps the buffer when the first two entries are bad.
\<close>

function empty_loop_dir :: "nat \<Rightarrow> nat \<Rightarrow> nat \<Rightarrow> nat \<Rightarrow> nat \<Rightarrow> fs \<Rightarrow> (bool \<times> fs) result" where
  "empty_loop_dir i len nr b off s =
     (if len \<le> nr then andthen (brelse b s) (\<lambda>s. Inr (True, s))
      else if BLOCK_SIZE \<le> off then
        andthen (brelse b s) (\<lambda>s.
        andthen (bmap i (int (nr div DIR_ENTRIES_PER_BLOCK)) s) (\<lambda>(block, s).
        if block = 0 then empty_loop_dir i len (nr + DIR_ENTRIES_PER_BLOCK) b off s
        else
          andthen (bread (uint (i_dev (inode s i))) block s) (\<lambda>(bh, s).
          case bh of
            None \<Rightarrow> Inr (False, s)
          | Some b \<Rightarrow> empty_loop_dir i len nr b 0 s)))
      else if de_inode b off s \<noteq> 0 then andthen (brelse b s) (\<lambda>s. Inr (False, s))
      else empty_loop_dir i len (nr + 1) b (off + 16) s)"
  by pat_completeness auto
termination
  by (relation "measure (\<lambda>(_, len, nr, _, off, _). 2 * (len - nr) + (if BLOCK_SIZE \<le> off then 1 else 0))") auto

declare empty_loop_dir.simps [simp del]

definition empty_dir :: "nat \<Rightarrow> fs \<Rightarrow> (bool \<times> fs) result" where
  "empty_dir i s =
     (let len = unat (i_size (inode s i) div 16); block = uint (i_zone (inode s i) ! 0) in
      if len < 2 \<or> block = 0 then Inr (False, s)
      else
        andthen (bread (uint (i_dev (inode s i))) block s) (\<lambda>(bh, s).
        case bh of
          None \<Rightarrow> Inr (False, s)
        | Some b \<Rightarrow>
            let d = b_data (buf s b) in
            if de_inode b 0 s \<noteq> i_num (inode s i) \<or> de_inode b 16 s = 0
               \<or> slice 2 2 d \<noteq> [46, 0] \<or> slice 18 3 d \<noteq> [46, 46, 0]
            then Inr (False, s)
            else empty_loop_dir i len 2 b 32 s))"

definition sys_rmdir :: "u32 \<Rightarrow> fs \<Rightarrow> (int \<times> fs) result" where
  "sys_rmdir path s =
     (if euid (me s) \<noteq> 0 \<and> uid (me s) \<noteq> 0 then Inr (- EPERM, s)
      else
        with_dir path (- ENOENT) (- ENOENT) (\<lambda>dir len base s.
          andthen (find_entry dir base len s) (\<lambda>(e, s).
          case e of
            None \<Rightarrow> leave [dir] None (- ENOENT) s
          | Some (b, off) \<Rightarrow>
              if permission dir MAY_WRITE s = 0 then leave [dir] (Some b) (- EPERM) s
              else
                andthen (iget (uint (i_dev (inode s dir))) (uint (de_inode b off s)) s) (\<lambda>(i, s).
                if i = dir then leave [i, dir] (Some b) (- EPERM) s
                else if \<not> S_ISDIR (i_mode (inode s i)) then leave [i, dir] (Some b) (- ENOTDIR) s
                else
                  andthen (empty_dir i s) (\<lambda>(empty, s).
                  if \<not> empty then leave [i, dir] (Some b) (- ENOTEMPTY) s
                  else
                    andthen (brelse b (dirty b (set_de_inode b off 0 s))) (\<lambda>s.
                    let s = upd_inode i (\<lambda>n. n\<lparr>i_nlinks := 0, i_dirt := 1\<rparr>) s;
                        s = upd_inode dir (\<lambda>n. n\<lparr>i_nlinks := i_nlinks n - 1, i_ctime := now s,
                                                 i_mtime := now s, i_dirt := 1\<rparr>) s
                    in leave [dir, i] None 0 s))))) s)"


section \<open>unlink and link\<close>

definition sys_unlink :: "u32 \<Rightarrow> fs \<Rightarrow> (int \<times> fs) result" where
  "sys_unlink path =
     with_dir path (- ENOENT) (- ENOENT) (\<lambda>dir len base s.
       if permission dir MAY_WRITE s = 0 then leave [dir] None (- EPERM) s
       else
         andthen (find_entry dir base len s) (\<lambda>(e, s).
         case e of
           None \<Rightarrow> leave [dir] None (- ENOENT) s
         | Some (b, off) \<Rightarrow>
             andthen (iget (uint (i_dev (inode s dir))) (uint (de_inode b off s)) s) (\<lambda>(i, s).
             if \<not> S_ISREG (i_mode (inode s i)) then leave [i, dir] (Some b) (- EPERM) s
             else
               let s = (if i_nlinks (inode s i) = 0 then upd_inode i (\<lambda>n. n\<lparr>i_nlinks := 1\<rparr>) s else s)
               in andthen (brelse b (dirty b (set_de_inode b off 0 s))) (\<lambda>s.
                  let s = upd_inode i (\<lambda>n. n\<lparr>i_nlinks := i_nlinks n - 1, i_dirt := 1, i_ctime := now s\<rparr>) s
                  in leave [i, dir] None 0 s))))"

definition sys_link :: "u32 \<Rightarrow> u32 \<Rightarrow> fs \<Rightarrow> (int \<times> fs) result" where
  "sys_link old new s =
     andthen (namei old s) (\<lambda>(r, s).
     case r of
       None \<Rightarrow> Inr (- ENOENT, s)
     | Some i \<Rightarrow>
         if \<not> S_ISREG (i_mode (inode s i)) then leave [i] None (- EPERM) s
         else
           andthen (dir_namei new s) (\<lambda>(r, s).
           case r of
             None \<Rightarrow> leave [i] None (- EACCES) s
           | Some (dir, len, base) \<Rightarrow>
               if len = 0 then leave [i, dir] None (- EPERM) s
               else if i_dev (inode s dir) \<noteq> i_dev (inode s i) then leave [dir, i] None (- EXDEV) s
               else if permission dir MAY_WRITE s = 0 then leave [dir, i] None (- EACCES) s
               else
                 andthen (find_entry dir base len s) (\<lambda>(e, s).
                 case e of
                   Some (b, _) \<Rightarrow> andthen (brelse b s) (leave [dir, i] None (- EEXIST))
                 | None \<Rightarrow>
                     andthen (add_entry dir base len s) (\<lambda>(e, s).
                     case e of
                       None \<Rightarrow> leave [dir, i] None (- ENOSPC) s
                     | Some (b, off) \<Rightarrow>
                         andthen (brelse b (dirty b (set_de_inode b off (i_num (inode s i)) s))) (\<lambda>s.
                         andthen (iput (Some dir) s) (\<lambda>s.
                         leave [i] None 0
                           (upd_inode i (\<lambda>n. n\<lparr>i_nlinks := i_nlinks n + 1, i_ctime := now s, i_dirt := 1\<rparr>) s)))))))"

end
