(* ===== verification/Open.thy ===== *)
theory Open
  imports Dirs Pipe
begin

unbundle bit_operations_syntax

text \<open>
  Opening and closing files and the calls that change a file by its name, fs/open.c, and the
  descriptors of a process, fs/fcntl.c. A descriptor is an unsigned number, an index into
  \<open>filp\<close> of the process.
\<close>

section \<open>Calls on a name\<close>

definition on_name :: "u32 \<Rightarrow> int \<Rightarrow> (nat \<Rightarrow> fs \<Rightarrow> (int \<times> fs) result) \<Rightarrow> fs \<Rightarrow> (int \<times> fs) result" where
  "on_name path err body s =
     andthen (namei path s) (\<lambda>(r, s). case r of None \<Rightarrow> Inr (err, s) | Some i \<Rightarrow> body i s)"

definition sys_utime :: "u32 \<Rightarrow> u32 \<Rightarrow> fs \<Rightarrow> (int \<times> fs) result" where
  "sys_utime path tms =
     on_name path (- ENOENT) (\<lambda>i s.
       let m = fs_mem (ker s);
           (actime, modtime) =
             (if tms \<noteq> 0 then (get_fs_long m tms, get_fs_long m (tms + 4)) else (now s, now s))
       in leave [i] None 0 (upd_inode i (\<lambda>n. n\<lparr>i_atime := actime, i_mtime := modtime, i_dirt := 1\<rparr>) s))"

text \<open>\<open>sys_access\<close> reads the owner and the group of the inode after it has released it.\<close>

definition sys_access :: "u32 \<Rightarrow> int \<Rightarrow> fs \<Rightarrow> (int \<times> fs) result" where
  "sys_access path mode =
     (let mode = mode AND 7 in
      on_name path (- EACCES) (\<lambda>i s.
        let res = uint (i_mode (inode s i)) AND 0x1ff in
        andthen (iput (Some i) s) (\<lambda>s.
        let c = me s; n = inode s i;
            res = (if \<not> (euid c \<noteq> 0 \<and> uid c \<noteq> 0) then (if res AND 0x49 \<noteq> 0 then 0x1ff else 0x1b6) else res);
            res = (if euid c = i_uid n then drop_bit 6 res
                   else if egid c = ucast (i_gid n) then drop_bit 6 res
                   else res)
        in Inr (if res AND 7 AND mode = mode then 0 else - EACCES, s))))"

definition sys_chdir :: "u32 \<Rightarrow> fs \<Rightarrow> (int \<times> fs) result" where
  "sys_chdir path =
     on_name path (- ENOENT) (\<lambda>i s.
       if \<not> S_ISDIR (i_mode (inode s i)) then leave [i] None (- ENOTDIR) s
       else andthen (iput (pwd (me s)) s) (\<lambda>s.
            Inr (0, upd_ker (set_cur (\<lambda>p. p\<lparr>pwd := Some i\<rparr>)) s)))"

definition sys_chroot :: "u32 \<Rightarrow> fs \<Rightarrow> (int \<times> fs) result" where
  "sys_chroot path =
     on_name path (- ENOENT) (\<lambda>i s.
       if \<not> S_ISDIR (i_mode (inode s i)) then leave [i] None (- ENOTDIR) s
       else andthen (iput (root (me s)) s) (\<lambda>s.
            Inr (0, upd_ker (set_cur (\<lambda>p. p\<lparr>root := Some i\<rparr>)) s)))"

definition sys_chmod :: "u32 \<Rightarrow> u32 \<Rightarrow> fs \<Rightarrow> (int \<times> fs) result" where
  "sys_chmod path mode =
     on_name path (- ENOENT) (\<lambda>i s.
       let c = me s; n = inode s i in
       if uid c \<noteq> 0 \<and> euid c \<noteq> 0 \<and> uid c \<noteq> i_uid n \<and> euid c \<noteq> i_uid n then leave [i] None (- EACCES) s
       else
         let mode = (if uid c \<noteq> 0 \<and> euid c \<noteq> 0 then (mode AND 0x1ff) OR (ucast (i_mode n) AND 0xe00) else mode)
         in leave [i] None 0
              (upd_inode i (\<lambda>n. n\<lparr>i_mode := (ucast mode AND 0xfff) OR (i_mode n AND NOT 0xfff), i_dirt := 1\<rparr>) s))"

definition sys_chown :: "u32 \<Rightarrow> int \<Rightarrow> int \<Rightarrow> fs \<Rightarrow> (int \<times> fs) result" where
  "sys_chown path u g =
     on_name path (- ENOENT) (\<lambda>i s.
       if uid (me s) \<noteq> 0 \<and> euid (me s) \<noteq> 0 then leave [i] None (- EACCES) s
       else leave [i] None 0
              (upd_inode i (\<lambda>n. n\<lparr>i_uid := word_of_int u, i_gid := word_of_int g, i_dirt := 1\<rparr>) s))"


section \<open>open and close\<close>

definition clear_cloexec :: "nat \<Rightarrow> fs \<Rightarrow> fs" where
  "clear_cloexec fd = upd_ker (set_cur (\<lambda>p. p\<lparr>close_on_exec := close_on_exec p AND NOT (push_bit fd 1)\<rparr>))"

definition free_fd :: "nat \<Rightarrow> fs \<Rightarrow> nat option" where
  "free_fd start s = find (\<lambda>fd. filp (me s) ! fd = None) [start..<NR_OPEN]"

definition drop_file :: "nat \<Rightarrow> nat \<Rightarrow> int \<Rightarrow> fs \<Rightarrow> int \<times> fs" where
  "drop_file fd f r s = (r, upd_file f (\<lambda>f. f\<lparr>f_count := 0\<rparr>) (set_filp fd None s))"

text \<open>
  A terminal becomes the one of the process when a leader without one opens it. The minor
  number is not checked against the table.
\<close>

definition open_tty :: "nat \<Rightarrow> fs \<Rightarrow> fs result" where
  "open_tty i s =
     (let minor = unat (MINOR (ucast (i_zone (inode s i) ! 0))) in
      if leader (me s) \<noteq> 0 \<and> task_tty (me s) < 0 then
        (if length (ttys s) \<le> minor then Inl Fault
         else
           let s = upd_ker (set_cur (\<lambda>p. p\<lparr>task_tty := int minor\<rparr>)) s
           in Inr (s\<lparr>ttys := (ttys s)[minor := (ttys s ! minor)\<lparr>tty_pgrp := pgrp (me s)\<rparr>]\<rparr>))
      else Inr s)"

definition finish_open :: "nat \<Rightarrow> nat \<Rightarrow> nat \<Rightarrow> u32 \<Rightarrow> fs \<Rightarrow> int \<times> fs" where
  "finish_open fd f i flag s =
     (int fd, upd_file f (\<lambda>_. \<lparr>f_mode = i_mode (inode s i), f_flags = ucast flag, f_count = 1,
                            f_inode = Some i, f_pos = 0\<rparr>) s)"

definition sys_open :: "u32 \<Rightarrow> u32 \<Rightarrow> u32 \<Rightarrow> fs \<Rightarrow> (int \<times> fs) result" where
  "sys_open path flag mode s =
     (let mode = mode AND (0x1ff AND NOT (ucast (umask (me s)))) in
      case free_fd 0 s of
        None \<Rightarrow> Inr (- EINVAL, s)
      | Some fd \<Rightarrow>
          let s = clear_cloexec fd s in
          (case find (\<lambda>f. f_count (file_table s f) = 0) [0..<NR_FILE] of
             None \<Rightarrow> Inr (- EINVAL, s)
           | Some f \<Rightarrow>
               let s = upd_file f (\<lambda>f. f\<lparr>f_count := f_count f + 1\<rparr>) (set_filp fd (Some f) s) in
               andthen (open_namei path flag mode s) (\<lambda>((r, inode'), s).
               case inode' of
                 None \<Rightarrow> Inr (drop_file fd f r s)
               | Some i \<Rightarrow>
                   let major = MAJOR (ucast (i_zone (inode s i) ! 0)) in
                   if S_ISCHR (i_mode (inode s i)) \<and> major = 4
                   then andthen (open_tty i s) (\<lambda>s. Inr (finish_open fd f i flag s))
                   else if S_ISCHR (i_mode (inode s i)) \<and> major = 5 \<and> task_tty (me s) < 0
                   then andthen (iput (Some i) s) (\<lambda>s. Inr (drop_file fd f (- EPERM) s))
                   else Inr (finish_open fd f i flag s))))"

definition sys_creat :: "u32 \<Rightarrow> u32 \<Rightarrow> fs \<Rightarrow> (int \<times> fs) result" where
  "sys_creat path = sys_open path (O_CREAT OR O_TRUNC)"

definition sys_close :: "nat \<Rightarrow> fs \<Rightarrow> (int \<times> fs) result" where
  "sys_close fd s =
     (if NR_OPEN \<le> fd then Inr (- EINVAL, s)
      else
        let s = clear_cloexec fd s in
        case filp (me s) ! fd of
          None \<Rightarrow> Inr (- EINVAL, s)
        | Some f \<Rightarrow>
            let s = set_filp fd None s in
            if f_count (file_table s f) = 0 then Inl (Panic ''Close: file count is 0'')
            else
              let s = upd_file f (\<lambda>f. f\<lparr>f_count := f_count f - 1\<rparr>) s in
              if f_count (file_table s f) \<noteq> 0 then Inr (0, s)
              else andthen (iput (f_inode (file_table s f)) s) (\<lambda>s. Inr (0, s)))"


section \<open>Descriptors\<close>

definition file_of :: "nat \<Rightarrow> fs \<Rightarrow> nat option" where
  "file_of fd s = (if NR_OPEN \<le> fd then None else filp (me s) ! fd)"

definition dupfd :: "nat \<Rightarrow> nat \<Rightarrow> fs \<Rightarrow> int \<times> fs" where
  "dupfd fd arg s =
     (case file_of fd s of
        None \<Rightarrow> (- EBADF, s)
      | Some f \<Rightarrow>
          if NR_OPEN \<le> arg then (- EINVAL, s)
          else
            (case free_fd arg s of
               None \<Rightarrow> (- EMFILE, s)
             | Some new \<Rightarrow>
                 (int new, upd_file f (\<lambda>f. f\<lparr>f_count := f_count f + 1\<rparr>)
                             (set_filp new (Some f) (clear_cloexec new s)))))"

definition sys_dup2 :: "nat \<Rightarrow> nat \<Rightarrow> fs \<Rightarrow> (int \<times> fs) result" where
  "sys_dup2 oldfd newfd s = andthen (sys_close newfd s) (\<lambda>(_, s). Inr (dupfd oldfd newfd s))"

definition sys_dup :: "nat \<Rightarrow> fs \<Rightarrow> int \<times> fs" where
  "sys_dup fd = dupfd fd 0"

abbreviation O_NONBLOCK :: u16 where "O_NONBLOCK \<equiv> 0x800"

definition sys_fcntl :: "nat \<Rightarrow> nat \<Rightarrow> u32 \<Rightarrow> fs \<Rightarrow> int \<times> fs" where
  "sys_fcntl fd cmd arg s =
     (case file_of fd s of
        None \<Rightarrow> (- EBADF, s)
      | Some f \<Rightarrow>
          if cmd = 0 then dupfd fd (unat arg) s
          else if cmd = 1 then (uint (drop_bit fd (close_on_exec (me s)) AND 1), s)
          else if cmd = 2 then
            (0, if arg AND 1 \<noteq> 0
                then upd_ker (set_cur (\<lambda>p. p\<lparr>close_on_exec := close_on_exec p OR push_bit fd 1\<rparr>)) s
                else clear_cloexec fd s)
          else if cmd = 3 then (uint (f_flags (file_table s f)), s)
          else if cmd = 4 then
            (0, upd_file f (\<lambda>f. f\<lparr>f_flags := (f_flags f AND NOT (O_APPEND OR O_NONBLOCK))
                                  OR (ucast arg AND (O_APPEND OR O_NONBLOCK))\<rparr>) s)
          else (-1, s))"

end
