(* ===== verification/Rw.thy ===== *)
theory Rw
  imports Open Tty_Ioctl
begin

unbundle bit_operations_syntax

text \<open>
  The calls that read, write and look at open files: fs/read_write.c, the switch to the
  character devices (fs/char_dev.c), fs/stat.c and fs/ioctl.c. A call on a pipe or a terminal
  may have to wait; its result is then the one of the pipe or the terminal.
\<close>

datatype call_result =
    Finished int
  | Pipe_call pipe_result
  | Tty_reads read_result
  | Tty_writes write_result


section \<open>Character devices\<close>

text \<open>\<open>wr\<close> is what the driver of the terminal does with the write queue.\<close>

definition rw_ttyx :: "tty_writer \<Rightarrow> int \<Rightarrow> nat \<Rightarrow> u32 \<Rightarrow> int \<Rightarrow> fs \<Rightarrow> call_result \<times> fs" where
  "rw_ttyx wr rw minor b count s =
     (if rw = READ then
        (case tty_read minor b count (ttys s) (ker s) of (r, ts, k) \<Rightarrow> (Tty_reads r, s\<lparr>ttys := ts, ker := k\<rparr>))
      else
        (case tty_write wr minor b count (tty_cr s) (ttys s) (ker s) of
           (r, cr, ts) \<Rightarrow> (Tty_writes r, s\<lparr>ttys := ts, tty_cr := cr\<rparr>)))"

definition rw_tty :: "tty_writer \<Rightarrow> int \<Rightarrow> nat \<Rightarrow> u32 \<Rightarrow> int \<Rightarrow> fs \<Rightarrow> call_result \<times> fs" where
  "rw_tty wr rw minor b count s =
     (if task_tty (me s) < 0 then (Finished (- EPERM), s)
      else rw_ttyx wr rw (nat (task_tty (me s))) b count s)"

definition rw_char :: "tty_writer \<Rightarrow> int \<Rightarrow> u16 \<Rightarrow> u32 \<Rightarrow> int \<Rightarrow> fs \<Rightarrow> (call_result \<times> fs) result" where
  "rw_char wr rw dev b count s =
     (let major = MAJOR (ucast dev); minor = unat (MINOR (ucast dev)) in
      if 8 \<le> major then Inl (Panic ''rw_char: dev>NRDEV'')
      else if major = 4 then Inr (rw_ttyx wr rw minor b count s)
      else if major = 5 then Inr (rw_tty wr rw minor b count s)
      else Inl (Panic ''Trying to r/w from/to nonexistent character device''))"


section \<open>lseek, read and write\<close>

definition IS_BLOCKDEV :: "u32 \<Rightarrow> bool" where
  "IS_BLOCKDEV x \<longleftrightarrow> x = 2 \<or> x = 3"

definition sys_lseek :: "nat \<Rightarrow> int \<Rightarrow> int \<Rightarrow> fs \<Rightarrow> int \<times> fs" where
  "sys_lseek fd offset origin s =
     (let bad = (- EBADF, s); seek = (\<lambda>f pos. (pos, upd_file f (\<lambda>f. f\<lparr>f_pos := pos\<rparr>) s)) in
      case file_of fd s of
        None \<Rightarrow> bad
      | Some f \<Rightarrow>
          (case f_inode (file_table s f) of
             None \<Rightarrow> bad
           | Some i \<Rightarrow>
               if \<not> IS_BLOCKDEV (MAJOR (ucast (i_dev (inode s i)))) then bad
               else if i_pipe (inode s i) \<noteq> 0 then (- ESPIPE, s)
               else if origin = 0 then
                 (if offset < 0 then (- EINVAL, s) else seek f offset)
               else if origin = 1 then
                 (let pos = s32 (f_pos (file_table s f) + offset)
                  in if pos < 0 then (- EINVAL, s) else seek f pos)
               else if origin = 2 then
                 (let pos = sint (i_size (inode s i) + word_of_int offset)
                  in if pos < 0 then (- EINVAL, s) else seek f pos)
               else (- EINVAL, s)))"

definition finished :: "(int \<times> fs) result \<Rightarrow> (call_result \<times> fs) result" where
  "finished r = andthen r (\<lambda>(n, s). Inr (Finished n, s))"

definition on_pipe :: "pipe_result \<times> fs \<Rightarrow> (call_result \<times> fs) result" where
  "on_pipe r = Inr (Pipe_call (fst r), snd r)"

text \<open>The functions for block devices change the position of the file.\<close>

definition moving :: "nat \<Rightarrow> (int \<times> int \<times> fs) result \<Rightarrow> (call_result \<times> fs) result" where
  "moving f r = andthen r (\<lambda>(n, pos, s). Inr (Finished n, upd_file f (\<lambda>f. f\<lparr>f_pos := pos\<rparr>) s))"

text \<open>
  A read of a file goes up to its size. \<open>count + f_pos\<close> is compared as an unsigned number,
  what is left is an \<open>int\<close>.
\<close>

definition clip :: "nat \<Rightarrow> nat \<Rightarrow> int \<Rightarrow> fs \<Rightarrow> int" where
  "clip i f count s =
     (let pos = word_of_int (f_pos (file_table s f)) :: u32; size = i_size (inode s i)
      in if size < word_of_int count + pos then sint (size - pos) else count)"

definition sys_read :: "tty_writer \<Rightarrow> nat \<Rightarrow> u32 \<Rightarrow> int \<Rightarrow> fs \<Rightarrow> (call_result \<times> fs) result" where
  "sys_read wr fd b count s =
     (case (if count < 0 then None else file_of fd s) of
        None \<Rightarrow> Inr (Finished (- EINVAL), s)
      | Some f \<Rightarrow>
          if count = 0 then Inr (Finished 0, s)
          else
            andthen (verify_area b count (ker s)) (\<lambda>k.
            let s = s\<lparr>ker := k\<rparr> in
            case f_inode (file_table s f) of
              None \<Rightarrow> Inl Fault
            | Some i \<Rightarrow>
                let n = inode s i; zone = i_zone n ! 0 in
                if i_pipe n \<noteq> 0 then
                  (if f_mode (file_table s f) AND 1 \<noteq> 0 then on_pipe (read_pipe i b count s)
                   else Inr (Finished (-1), s))
                else if S_ISCHR (i_mode n) then rw_char wr READ zone b count s
                else if S_ISBLK (i_mode n) then
                  moving f (block_read (uint zone) (f_pos (file_table s f)) b count s)
                else if S_ISDIR (i_mode n) \<or> S_ISREG (i_mode n) then
                  (let count = clip i f count s
                   in if count \<le> 0 then Inr (Finished 0, s) else finished (file_read i f b count s))
                else Inr (Finished (- EINVAL), s)))"

definition sys_write :: "tty_writer \<Rightarrow> nat \<Rightarrow> u32 \<Rightarrow> int \<Rightarrow> fs \<Rightarrow> (call_result \<times> fs) result" where
  "sys_write wr fd b count s =
     (case (if count < 0 then None else file_of fd s) of
        None \<Rightarrow> Inr (Finished (- EINVAL), s)
      | Some f \<Rightarrow>
          if count = 0 then Inr (Finished 0, s)
          else
            (case f_inode (file_table s f) of
               None \<Rightarrow> Inl Fault
             | Some i \<Rightarrow>
                 let n = inode s i; zone = i_zone n ! 0 in
                 if i_pipe n \<noteq> 0 then
                   (if f_mode (file_table s f) AND 2 \<noteq> 0 then on_pipe (write_pipe i b count s)
                    else Inr (Finished (-1), s))
                 else if S_ISCHR (i_mode n) then rw_char wr WRITE zone b count s
                 else if S_ISBLK (i_mode n) then
                   moving f (block_write (uint zone) (f_pos (file_table s f)) b count s)
                 else if S_ISREG (i_mode n) then finished (file_write i f b count s)
                 else Inr (Finished (- EINVAL), s)))"


section \<open>stat and ioctl\<close>

text \<open>
  \<open>struct stat\<close> has 32 bytes; the four that the compiler leaves between the fields are what was
  on the stack, the argument \<open>junk\<close>.
\<close>

definition stat_bytes :: "u8 list \<Rightarrow> m_inode \<Rightarrow> u8 list" where
  "stat_bytes junk n =
     bytes16 (i_dev n) @ bytes16 (i_num n) @ bytes16 (i_mode n) @ [i_nlinks n, junk ! 0] @
     bytes16 (i_uid n) @ [i_gid n, junk ! 1] @ bytes16 (i_zone n ! 0) @ [junk ! 2, junk ! 3] @
     bytes32 (i_size n) @ bytes32 (i_atime n) @ bytes32 (i_mtime n) @ bytes32 (i_ctime n)"

definition cp_stat :: "u8 list \<Rightarrow> nat \<Rightarrow> u32 \<Rightarrow> fs \<Rightarrow> (int \<times> fs) result" where
  "cp_stat junk i b s =
     andthen (verify_area b 32 (ker s)) (\<lambda>k.
     Inr (0, put_user_bytes (stat_bytes junk (inode s i)) b (s\<lparr>ker := k\<rparr>)))"

definition sys_stat :: "u8 list \<Rightarrow> u32 \<Rightarrow> u32 \<Rightarrow> fs \<Rightarrow> (int \<times> fs) result" where
  "sys_stat junk path b =
     on_name path (- ENOENT) (\<lambda>i s. andthen (cp_stat junk i b s) (\<lambda>(r, s). leave [i] None r s))"

definition sys_fstat :: "u8 list \<Rightarrow> nat \<Rightarrow> u32 \<Rightarrow> fs \<Rightarrow> (int \<times> fs) result" where
  "sys_fstat junk fd b s =
     (case Option.bind (file_of fd s) (\<lambda>f. f_inode (file_table s f)) of
        None \<Rightarrow> Inr (- ENOENT, s)
      | Some i \<Rightarrow> cp_stat junk i b s)"

definition sys_ioctl :: "u8 \<Rightarrow> nat \<Rightarrow> int \<Rightarrow> int \<Rightarrow> fs \<Rightarrow> (int \<times> fs) result" where
  "sys_ioctl junk fd cmd arg s =
     (case file_of fd s of
        None \<Rightarrow> Inr (- EBADF, s)
      | Some f \<Rightarrow>
          (case f_inode (file_table s f) of
             None \<Rightarrow> Inl Fault
           | Some i \<Rightarrow>
               let n = inode s i; dev = ucast (i_zone n ! 0) :: u32 in
               if \<not> S_ISCHR (i_mode n) \<and> \<not> S_ISBLK (i_mode n) then Inr (- EINVAL, s)
               else if 8 \<le> MAJOR dev then Inl (Panic ''unknown device for ioctl'')
               else if MAJOR dev \<noteq> 4 \<and> MAJOR dev \<noteq> 5 then Inr (- ENOTTY, s)
               else
                 andthen (tty_ioctl junk dev cmd arg (ttys s) (ker s)) (\<lambda>(r, ts, k).
                 Inr (r, s\<lparr>ttys := ts, ker := k\<rparr>))))"

end
