(* ===== verification/Fork.thy ===== *)
theory Fork
  imports Inode Sys
begin

unbundle bit_operations_syntax

text \<open>Making a process, kernel/fork.c, with the descriptors of include/asm/system.h.\<close>

section \<open>Descriptors in the GDT\<close>

text \<open>\<open>_set_tssldt_desc\<close>: a system segment of 104 bytes at \<open>addr\<close>.\<close>

definition set_tssldt_desc :: "u32 \<Rightarrow> u32 \<Rightarrow> desc_struct" where
  "set_tssldt_desc addr typ =
     \<lparr>d_a = 104 OR push_bit 16 (addr AND 0xffff),
      d_b = (drop_bit 16 addr AND 0xff) OR push_bit 8 typ OR (addr AND 0xff000000)\<rparr>"

definition set_tss_desc :: "nat \<Rightarrow> u32 \<Rightarrow> fs \<Rightarrow> fs" where
  "set_tss_desc n addr s = s\<lparr>gdt := (gdt s)(n := set_tssldt_desc addr 0x89)\<rparr>"

definition set_ldt_desc :: "nat \<Rightarrow> u32 \<Rightarrow> fs \<Rightarrow> fs" where
  "set_ldt_desc n addr s = s\<lparr>gdt := (gdt s)(n := set_tssldt_desc addr 0x82)\<rparr>"

abbreviation FIRST_TSS_ENTRY :: nat where "FIRST_TSS_ENTRY \<equiv> 4"
abbreviation FIRST_LDT_ENTRY :: nat where "FIRST_LDT_ENTRY \<equiv> FIRST_TSS_ENTRY + 1"

text \<open>Where \<open>ldt\<close> and \<open>tss\<close> are in \<open>task_struct\<close>, in bytes.\<close>

abbreviation ldt_offset :: u32 where "ldt_offset \<equiv> 328"
abbreviation tss_offset :: u32 where "tss_offset \<equiv> 352"


section \<open>The number of a new process\<close>

text \<open>
  \<open>last_pid\<close> goes on until no process has it, then the first free slot of the task table is
  taken. \<open>pid_used\<close> is the inner loop, which starts again with the next number.
\<close>

definition next_pid :: "int \<Rightarrow> int" where
  "next_pid p = (if s32 (p + 1) < 0 then 1 else s32 (p + 1))"

definition pid_used :: "kern \<Rightarrow> int \<Rightarrow> bool" where
  "pid_used s p = list_ex (\<lambda>i. case task s i of None \<Rightarrow> False | Some t \<Rightarrow> pid t = p) [0..<NR_TASKS]"

partial_function (option) fresh_pid :: "kern \<Rightarrow> int \<Rightarrow> int option" where
  "fresh_pid s p =
     (if pid_used s (next_pid p) then fresh_pid s (next_pid p) else Some (next_pid p))"

definition find_empty_process :: "kern \<Rightarrow> (int \<times> kern) result" where
  "find_empty_process s =
     andthen (returns (fresh_pid s (last_pid s))) (\<lambda>p.
     Inr (case find (\<lambda>i. task s i = None) [1..<NR_TASKS] of None \<Rightarrow> - EAGAIN | Some i \<Rightarrow> int i,
          s\<lparr>last_pid := p\<rparr>))"


section \<open>Copying a process\<close>

text \<open>The limits are the ones of the segments of the current process.\<close>

definition copy_mem :: "nat \<Rightarrow> task_struct \<Rightarrow> kern \<Rightarrow> (int \<times> task_struct \<times> kern) result" where
  "copy_mem nr p s =
     (let code = ldt (cur s) ! 1; data = ldt (cur s) ! 2;
          new_base = of_nat nr * 0x4000000
      in if get_base data \<noteq> get_base code then Inl (Panic ''We don't support separate I&D'')
         else if get_limit data < get_limit code then Inl (Panic ''Bad data_limit'')
         else
           let p = p\<lparr>ldt := (ldt p)[1 := set_base (ldt p ! 1) new_base, 2 := set_base (ldt p ! 2) new_base]\<rparr>
           in andthen (copy_page_tables (get_base data) new_base (get_limit data) (mem s)) (\<lambda>(r, m).
              if r \<noteq> 0
              then andthen (free_page_tables new_base (get_limit data) m) (\<lambda>m. Inr (- ENOMEM, p, s\<lparr>mem := m\<rparr>))
              else Inr (0, p, s\<lparr>mem := m\<rparr>)))"

text \<open>The registers that the entry code pushed, the arguments of \<open>copy_process\<close>.\<close>

record frame =
  a_ebp :: u32
  a_edi :: u32
  a_esi :: u32
  a_gs :: u32
  a_ebx :: u32
  a_ecx :: u32
  a_edx :: u32
  a_fs :: u32
  a_es :: u32
  a_ds :: u32
  a_eip :: u32
  a_cs :: u32
  a_eflags :: u32
  a_esp :: u32
  a_ss :: u32

definition child_tss :: "nat \<Rightarrow> u32 \<Rightarrow> frame \<Rightarrow> tss_struct \<Rightarrow> tss_struct" where
  "child_tss nr page a t = t\<lparr>back_link := 0, esp0 := 4096 + page, ss0 := 0x10, r_eip := a_eip a,
     r_eflags := a_eflags a, r_eax := 0, r_ecx := a_ecx a, r_edx := a_edx a, r_ebx := a_ebx a,
     r_esp := a_esp a, r_ebp := a_ebp a, r_esi := a_esi a, r_edi := a_edi a,
     r_es := a_es a AND 0xffff, r_cs := a_cs a AND 0xffff, r_ss := a_ss a AND 0xffff,
     r_ds := a_ds a AND 0xffff, r_fs := a_fs a AND 0xffff, r_gs := a_gs a AND 0xffff,
     tss_ldt := LDT nr, trace_bitmap := 0x80000000\<rparr>"

definition child :: "nat \<Rightarrow> u32 \<Rightarrow> frame \<Rightarrow> kern \<Rightarrow> task_struct" where
  "child nr page a s =
     (let c = cur s in
      c\<lparr>state := TASK_RUNNING, pid := last_pid s, father := pid c, counter := priority c, signal := 0,
        alarm := 0, leader := 0, utime := 0, stime := 0, cutime := 0, cstime := 0,
        start_time := jiffies s, tss := child_tss nr page a (tss c)\<rparr>)"

text \<open>\<open>fnsave\<close> stores the state of the coprocessor and resets it.\<close>

definition save_math :: "task_struct \<Rightarrow> kern \<Rightarrow> task_struct \<times> kern" where
  "save_math p s =
     (if last_task_used_math s = Some (current s)
      then (p\<lparr>tss := (tss p)\<lparr>i387 := fpu s\<rparr>\<rparr>, s\<lparr>fpu := fpu0 s\<rparr>)
      else (p, s))"

text \<open>The files and the directories of the process have one more user.\<close>

definition use_file :: "nat option \<Rightarrow> fs \<Rightarrow> fs" where
  "use_file f s = (case f of None \<Rightarrow> s | Some f \<Rightarrow> upd_file f (\<lambda>f. f\<lparr>f_count := f_count f + 1\<rparr>) s)"

definition use_inode :: "nat option \<Rightarrow> fs \<Rightarrow> fs" where
  "use_inode i s = (case i of None \<Rightarrow> s | Some i \<Rightarrow> upd_inode i (\<lambda>n. n\<lparr>i_count := i_count n + 1\<rparr>) s)"

definition share_files :: "task_struct \<Rightarrow> fs \<Rightarrow> fs" where
  "share_files p s = use_inode (root (me s)) (use_inode (pwd (me s)) (fold use_file (filp p) s))"

definition copy_process :: "nat \<Rightarrow> frame \<Rightarrow> fs \<Rightarrow> (int \<times> fs) result" where
  "copy_process nr a s =
     (let k = ker s; (page, m) = get_free_page (mem k); k = k\<lparr>mem := m\<rparr> in
      if page = 0 then Inr (- EAGAIN, s\<lparr>ker := k\<rparr>)
      else
        let (p, k) = save_math (child nr page a k) k in
        andthen (copy_mem nr p k) (\<lambda>(r, p, k).
        if r \<noteq> 0
        then andthen (free_page page (mem k)) (\<lambda>m. Inr (- EAGAIN, s\<lparr>ker := k\<lparr>mem := m\<rparr>\<rparr>))
        else
          let s = share_files p (s\<lparr>ker := k\<rparr>);
              s = set_ldt_desc (2 * nr + FIRST_LDT_ENTRY) (page + ldt_offset)
                    (set_tss_desc (2 * nr + FIRST_TSS_ENTRY) (page + tss_offset) s);
              s = s\<lparr>task_page := (task_page s)(nr := page)\<rparr>;
              s = upd_ker (\<lambda>k. k\<lparr>task := (task k)(nr := Some p)\<rparr>) s
          in Inr (last_pid (ker s), s)))"

text \<open>The system call, in kernel/system\_call.s.\<close>

definition sys_fork :: "frame \<Rightarrow> fs \<Rightarrow> (int \<times> fs) result" where
  "sys_fork a s =
     andthen (find_empty_process (ker s)) (\<lambda>(nr, k).
     let s = s\<lparr>ker := k\<rparr> in if nr < 0 then Inr (nr, s) else copy_process (nat nr) a s)"

end
