(* ===== verification/Exit.thy ===== *)
theory Exit
  imports Open Fork
begin

unbundle bit_operations_syntax

text \<open>
  The end of a process, \<open>do_exit\<close> of kernel/exit.c. It does not return: the result is the state
  when another process runs.
\<close>

definition limit_of :: "nat \<Rightarrow> kern \<Rightarrow> u32" where
  "limit_of i k = get_limit (ldt (cur k) ! i)"

text \<open>The pages of the code and of the data segment.\<close>

definition free_segments :: "kern \<Rightarrow> kern result" where
  "free_segments k =
     andthen (free_page_tables (get_base (ldt (cur k) ! 1)) (limit_of 1 k) (mem k)) (\<lambda>m.
     andthen (free_page_tables (get_base (ldt (cur k) ! 2)) (limit_of 2 k) m) (\<lambda>m. Inr (k\<lparr>mem := m\<rparr>)))"

text \<open>Its children are left to process 0.\<close>

definition orphan :: "kern \<Rightarrow> kern" where
  "orphan k = fold (\<lambda>i. set_task i (\<lambda>t. if father t = pid (cur k) then t\<lparr>father := 0\<rparr> else t)) [0..<NR_TASKS] k"

text \<open>The loops over the descriptors: \<open>P\<close> says which ones are closed.\<close>

fun close_files :: "(nat \<Rightarrow> fs \<Rightarrow> bool) \<Rightarrow> nat list \<Rightarrow> fs \<Rightarrow> fs result" where
  "close_files P [] s = Inr s"
| "close_files P (fd # fds) s =
     andthen (if P fd s then andthen (sys_close fd s) (\<lambda>(_, s). Inr s) else Inr s) (close_files P fds)"

definition is_open :: "nat \<Rightarrow> fs \<Rightarrow> bool" where
  "is_open fd s \<longleftrightarrow> filp (me s) ! fd \<noteq> None"

definition leave_dirs :: "fs \<Rightarrow> fs result" where
  "leave_dirs s =
     andthen (iput (pwd (me s)) s) (\<lambda>s.
     let s = upd_ker (set_cur (\<lambda>p. p\<lparr>pwd := None\<rparr>)) s in
     andthen (iput (root (me s)) s) (\<lambda>s. Inr (upd_ker (set_cur (\<lambda>p. p\<lparr>root := None\<rparr>)) s)))"

definition leave_tty :: "fs \<Rightarrow> fs result" where
  "leave_tty s =
     (let t = nat (task_tty (me s)) in
      if leader (me s) \<noteq> 0 \<and> 0 \<le> task_tty (me s) then
        (if length (ttys s) \<le> t then Inl Fault
         else Inr (s\<lparr>ttys := (ttys s)[t := (ttys s ! t)\<lparr>tty_pgrp := 0\<rparr>]\<rparr>))
      else Inr s)"

text \<open>
  A process with a father becomes a zombie and tells it; one that was left to process 0 is
  released at once, with the page it still runs on.
\<close>

definition bury :: "int \<Rightarrow> (nat \<Rightarrow> u32) \<Rightarrow> kern \<Rightarrow> kern result" where
  "bury code page k =
     (let k = (if last_task_used_math k = Some (current k) then k\<lparr>last_task_used_math := None\<rparr> else k) in
      andthen
        (if father (cur k) \<noteq> 0 then
           Inr (set_cur (\<lambda>p. p\<lparr>exit_code := code\<rparr>)
             (do_kill (father (cur k)) SIGCHLD True (set_cur (\<lambda>p. p\<lparr>state := TASK_ZOMBIE\<rparr>) k)))
         else release page (current k) k)
        schedule_result)"

definition do_exit :: "int \<Rightarrow> fs \<Rightarrow> fs result" where
  "do_exit code s =
     andthen (free_segments (ker s)) (\<lambda>k.
     andthen (close_files is_open [0..<NR_OPEN] (s\<lparr>ker := orphan k\<rparr>)) (\<lambda>s.
     andthen (leave_dirs s) (\<lambda>s.
     andthen (leave_tty s) (\<lambda>s.
     andthen (bury code (task_page s) (ker s)) (\<lambda>k. Inr (s\<lparr>ker := k\<rparr>))))))"

definition sys_exit :: "int \<Rightarrow> fs \<Rightarrow> fs result" where
  "sys_exit error_code = do_exit (push_bit 8 (error_code AND 0xff))"

end
