(* ===== verification/Exec.thy ===== *)
theory Exec
  imports Exit
begin

unbundle bit_operations_syntax

text \<open>
  Starting a program, fs/exec.c, with the header of include/a.out.h. The strings of the
  arguments and of the environment are copied into pages of the kernel, \<open>pages\<close> (0 for no
  page), which become the top of the new user segment.
\<close>

section \<open>The header\<close>

record exec_header =
  a_magic :: u32
  a_text :: u32
  a_data :: u32
  a_bss :: u32
  a_syms :: u32
  a_entry :: u32
  a_trsize :: u32
  a_drsize :: u32

definition exec_of :: "u8 list \<Rightarrow> exec_header" where
  "exec_of d = \<lparr>a_magic = le32 d 0, a_text = le32 d 4, a_data = le32 d 8, a_bss = le32 d 12,
     a_syms = le32 d 16, a_entry = le32 d 20, a_trsize = le32 d 24, a_drsize = le32 d 28\<rparr>"

abbreviation ZMAGIC :: u32 where "ZMAGIC \<equiv> 0x10B"
abbreviation SEGMENT_SIZE :: u32 where "SEGMENT_SIZE \<equiv> 1024"
abbreviation MAX_ARG_PAGES :: nat where "MAX_ARG_PAGES \<equiv> 32"

definition N_TXTOFF :: "exec_header \<Rightarrow> u32" where
  "N_TXTOFF ex = (if a_magic ex = ZMAGIC then (SEGMENT_SIZE - 32) + 32 else 32)"


section \<open>Loading\<close>

text \<open>\<open>cp_block\<close> copies a block into the user segment.\<close>

definition cp_block :: "nat \<Rightarrow> u32 \<Rightarrow> fs \<Rightarrow> fs" where
  "cp_block b a s = put_user_bytes (b_data (buf s b)) a s"

fun head_loop :: "nat \<Rightarrow> nat list \<Rightarrow> fs \<Rightarrow> (int \<times> fs) result" where
  "head_loop i [] s = Inr (0, s)"
| "head_loop i (c # cs) s =
     (if i_zone (inode s i) ! (c + 1) = 0 then head_loop i cs s
      else
        andthen (bread (uint (i_dev (inode s i))) (uint (i_zone (inode s i) ! (c + 1))) s) (\<lambda>(bh, s).
        case bh of
          None \<Rightarrow> Inr (-1, s)
        | Some b \<Rightarrow> andthen (brelse b (cp_block b (of_nat (c * BLOCK_SIZE)) s)) (head_loop i cs)))"

definition read_head :: "nat \<Rightarrow> int \<Rightarrow> fs \<Rightarrow> (int \<times> fs) result" where
  "read_head i blocks = head_loop i [0..<nat (if 6 < blocks then 6 else blocks)]"

fun ind_loop :: "int \<Rightarrow> nat \<Rightarrow> nat list \<Rightarrow> u32 \<Rightarrow> fs \<Rightarrow> (int \<times> fs) result" where
  "ind_loop dev ih [] a s = andthen (brelse ih s) (\<lambda>s. Inr (0, s))"
| "ind_loop dev ih (k # ks) a s =
     (let block = zone_entry s ih k in
      if block = 0 then ind_loop dev ih ks (a + 1024) s
      else
        andthen (bread dev block s) (\<lambda>(bh, s).
        case bh of
          None \<Rightarrow> andthen (brelse ih s) (\<lambda>s. Inr (-1, s))
        | Some b \<Rightarrow> andthen (brelse b (cp_block b a s)) (ind_loop dev ih ks (a + 1024))))"

definition read_ind :: "int \<Rightarrow> int \<Rightarrow> int \<Rightarrow> u32 \<Rightarrow> fs \<Rightarrow> (int \<times> fs) result" where
  "read_ind dev ind sz a s =
     (if sz \<le> 0 then Inl (Panic ''size<=0 in read_ind'')
      else
        let sz = min sz (512 * 1024) in
        if ind = 0 then Inr (0, s)
        else
          andthen (bread dev ind s) (\<lambda>(bh, s).
          case bh of
            None \<Rightarrow> Inr (-1, s)
          | Some ih \<Rightarrow> ind_loop dev ih [0..<nat ((sz + 1023) div 1024)] a s))"

text \<open>The blocks of the double indirect block \<open>d\<close>, which is not released.\<close>

fun dind_loop :: "nat \<Rightarrow> nat \<Rightarrow> nat list \<Rightarrow> int \<Rightarrow> fs \<Rightarrow> (int \<times> fs) result" where
  "dind_loop i d [] sz s = Inl (Panic ''Impossibly long executable'')"
| "dind_loop i d (c # cs) sz s =
     andthen (read_ind (uint (i_dev (inode s i))) (zone_entry s d c) sz (of_nat (BLOCK_SIZE * (518 + c))) s) (\<lambda>(r, s).
     if r \<noteq> 0 \<or> sz - 512 * 1024 \<le> 0 then Inr (r, s) else dind_loop i d cs (sz - 512 * 1024) s)"

definition read_area :: "nat \<Rightarrow> int \<Rightarrow> fs \<Rightarrow> (int \<times> fs) result" where
  "read_area i sz s =
     andthen (read_head i (c_div (s32 (sz + 1023)) 1024) s) (\<lambda>(r, s).
     let sz = s32 (sz - 6 * 1024) in
     if r \<noteq> 0 \<or> sz \<le> 0 then Inr (r, s)
     else
       andthen (read_ind (uint (i_dev (inode s i))) (uint (i_zone (inode s i) ! 7)) sz (6 * 1024) s) (\<lambda>(r, s).
       let sz = sz - 512 * 1024; z = i_zone (inode s i) ! 8 in
       if r \<noteq> 0 \<or> sz \<le> 0 then Inr (r, s)
       else if z = 0 then Inr (0, s)
       else
         andthen (bread (uint (i_dev (inode s i))) (uint z) s) (\<lambda>(bh, s).
         case bh of
           None \<Rightarrow> Inr (-1, s)
         | Some d \<Rightarrow> dind_loop i d [0..<512] sz s)))"


section \<open>Arguments\<close>

text \<open>The number of pointers before the null pointer; the length of a string with its NUL.\<close>

partial_function (option) count_loop :: "user_mem \<Rightarrow> u32 \<Rightarrow> nat \<Rightarrow> nat option" where
  "count_loop m a n = (if get_fs_long m a \<noteq> 0 then count_loop m (a + 4) (n + 1) else Some n)"

definition count_ptrs :: "u32 \<Rightarrow> user_mem \<Rightarrow> nat result" where
  "count_ptrs argv m = (if argv = 0 then Inr 0 else returns (count_loop m argv 0))"

partial_function (option) string_size :: "user_mem \<Rightarrow> u32 \<Rightarrow> nat \<Rightarrow> nat option" where
  "string_size m a n = (if get_fs_byte m a \<noteq> 0 then string_size m (a + 1) (n + 1) else Some (n + 1))"

text \<open>Pages for the string, upwards from the first one until one is there: \<open>False\<close> without memory.\<close>

fun string_pages :: "nat list \<Rightarrow> u32 list \<Rightarrow> mm \<Rightarrow> bool \<times> u32 list \<times> mm" where
  "string_pages [] pages m = (True, pages, m)"
| "string_pages (i # is) pages m =
     (if pages ! i \<noteq> 0 then (True, pages, m)
      else
        let (page, m) = get_free_page m
        in if page = 0 then (False, pages, m) else string_pages is (pages[i := page]) m)"

text \<open>The copy of \<open>n\<close> bytes, from the last one down, to below \<open>p\<close>.\<close>

fun copy_down :: "nat \<Rightarrow> u32 \<Rightarrow> u32 \<Rightarrow> u32 list \<Rightarrow> user_mem \<Rightarrow> memory \<Rightarrow> (u32 \<times> memory) result" where
  "copy_down 0 tmp p pages um m = Inr (p, m)"
| "copy_down (Suc n) tmp p pages um m =
     (let p = p - 1; i = unat (p div 4096) in
      if MAX_ARG_PAGES \<le> i then Inl Fault
      else if pages ! i = 0 then Inl (Panic ''nonexistent page in exec.c'')
      else copy_down n (tmp - 1) p pages um
             (set_phys_byte (pages ! i + p mod 4096) (get_fs_byte um (tmp - 1)) m))"

text \<open>\<open>p - len < 0\<close> is never true, \<open>p\<close> being unsigned.\<close>

fun copy_strings :: "nat \<Rightarrow> u32 \<Rightarrow> u32 list \<Rightarrow> u32 \<Rightarrow> user_mem \<Rightarrow> mm \<Rightarrow> (u32 \<times> u32 list \<times> mm) result" where
  "copy_strings 0 argv pages p um m = Inr (p, pages, m)"
| "copy_strings (Suc n) argv pages p um m =
     (let tmp = get_fs_long um (argv + 4 * of_nat n) in
      if tmp = 0 then Inl (Panic ''argc is wrong'')
      else
        andthen (returns (string_size um tmp 0)) (\<lambda>len.
        let (ok, pages, m) = string_pages [unat ((p - of_nat len) div 4096)..<MAX_ARG_PAGES] pages m in
        if \<not> ok then Inr (0, pages, m)
        else
          andthen (copy_down len (tmp + of_nat len) p pages um (phys m)) (\<lambda>(p, ph).
          copy_strings n argv pages p um (m\<lparr>phys := ph\<rparr>))))"

text \<open>The tables of pointers: one pointer after the other, each to the next string.\<close>

fun put_pointers :: "nat \<Rightarrow> u32 \<Rightarrow> u32 \<Rightarrow> user_mem \<Rightarrow> (u32 \<times> user_mem) result" where
  "put_pointers 0 p table m = Inr (p, put_fs_long 0 table m)"
| "put_pointers (Suc n) p table m =
     (let m = put_fs_long p table m
      in andthen (returns (string_size m p 0)) (\<lambda>len. put_pointers n (p + of_nat len) (table + 4) m))"

definition create_tables :: "u32 \<Rightarrow> nat \<Rightarrow> nat \<Rightarrow> user_mem \<Rightarrow> (u32 \<times> user_mem) result" where
  "create_tables p argc envc m =
     (let sp = p AND 0xfffffffc;
          envp = sp - 4 * of_nat (envc + 1);
          argv = envp - 4 * of_nat (argc + 1);
          m = put_fs_long (of_nat argc) (argv - 12) (put_fs_long argv (argv - 8) (put_fs_long envp (argv - 4) m))
      in andthen (put_pointers argc p argv m) (\<lambda>(p, m).
         andthen (put_pointers envc p envp m) (\<lambda>(_, m). Inr (argv - 12, m))))"

text \<open>
  After the old pages are gone the user segment has the pages of the strings at its top, and
  an access to any other page finds it cleared.
\<close>

definition new_user_mem :: "u32 list \<Rightarrow> memory \<Rightarrow> user_mem" where
  "new_user_mem pages m a =
     (let base = 0x4000000 - 4096 * of_nat MAX_ARG_PAGES; i = unat ((a - base) div 4096)
      in if base \<le> a \<and> i < MAX_ARG_PAGES \<and> pages ! i \<noteq> 0
         then phys_byte m (pages ! i + (a - base) mod 4096) else 0)"

fun put_pages :: "u32 list \<Rightarrow> u32 \<Rightarrow> mm \<Rightarrow> mm" where
  "put_pages [] a m = m"
| "put_pages (page # pages) a m =
     put_pages pages (a - 4096) (if page \<noteq> 0 then snd (put_page page (a - 4096) m) else m)"

definition change_ldt :: "u32 \<Rightarrow> u32 list \<Rightarrow> kern \<Rightarrow> u32 \<times> kern" where
  "change_ldt text_size pages k =
     (let code_limit = (text_size + 4096 - 1) AND 0xfffff000;
          data_limit = 0x4000000;
          base = get_base (ldt (cur k) ! 1);
          k = set_cur (\<lambda>p. p\<lparr>ldt := (ldt p)[1 := set_limit (set_base (ldt p ! 1) base) code_limit,
                                           2 := set_limit (set_base (ldt p ! 2) base) data_limit]\<rparr>) k
      in (data_limit, k\<lparr>mem := put_pages (rev pages) (base + data_limit) (mem k),
                       fs_mem := new_user_mem pages (phys (mem k))\<rparr>))"


section \<open>do\_execve\<close>

text \<open>It returns a value and the frame of the caller, whose words are \<open>eip\<close>, or the process is gone.\<close>

datatype exec_result =
    Exec_returns int "u32 list"
  | Exec_gone

definition may_execute :: "nat \<Rightarrow> fs \<Rightarrow> bool" where
  "may_execute i s =
     (let n = inode s i; c = me s; m = uint (i_mode n);
          m = (if uid c \<noteq> 0 \<and> euid c \<noteq> 0 then
                 (if euid c = i_uid n then drop_bit 6 m else if egid c = ucast (i_gid n) then drop_bit 3 m else m)
               else if m AND 0x49 \<noteq> 0 then 1 else m)
      in m AND 1 \<noteq> 0)"

definition good_header :: "exec_header \<Rightarrow> m_inode \<Rightarrow> bool" where
  "good_header ex n \<longleftrightarrow> \<not> (a_magic ex \<noteq> ZMAGIC \<or> a_trsize ex \<noteq> 0 \<or> a_drsize ex \<noteq> 0 \<or>
     0x3000000 < a_text ex + a_data ex + a_bss ex \<or>
     i_size n < a_text ex + a_data ex + a_syms ex + N_TXTOFF ex)"

fun free_pages :: "u32 list \<Rightarrow> mm \<Rightarrow> mm result" where
  "free_pages [] m = Inr m"
| "free_pages (p # ps) m = andthen (free_page p m) (free_pages ps)"

text \<open>The bytes up to the end of the page are cleared.\<close>

function clear_rest :: "u32 \<Rightarrow> user_mem \<Rightarrow> user_mem" where
  "clear_rest i m = (if i AND 0xfff = 0 then m else clear_rest (i + 1) (put_fs_byte 0 i m))"
  by pat_completeness auto
termination
proof (relation "measure (\<lambda>(i, _). (4096 - unat i mod 4096) mod 4096)")
  fix i :: u32 and m :: user_mem
  assume nz: "i AND 0xfff \<noteq> 0"
  have "unat (i AND 0xfff) = unat i mod 4096"
    using unat_and_mask [of i 12] by (simp add: mask_eq_exp_minus_1)
  then have a: "0 < unat i mod 4096" using nz by (metis gr0I unat_eq_zero)
  have "unat (i + 1) mod 4096 = (unat i + 1) mod 4096"
    by (simp add: unat_word_ariths mod_mod_cancel)
  then show "((i + 1, put_fs_byte 0 i m), i, m) \<in> measure (\<lambda>(i, _). (4096 - unat i mod 4096) mod 4096)"
    using a mod_less_divisor [of 4096 "unat i"] by (simp add: mod_Suc) linarith
qed simp

declare clear_rest.simps [simp del]

text \<open>From the point of no return on.\<close>

definition exec_load :: "nat \<Rightarrow> exec_header \<Rightarrow> u32 list \<Rightarrow> nat \<Rightarrow> nat \<Rightarrow> u32 \<Rightarrow> u32 list \<Rightarrow> fs \<Rightarrow> (exec_result \<times> fs) result" where
  "exec_load i ex pages argc envc p eip s =
     (let s = upd_ker (set_cur (\<lambda>p. p\<lparr>sig_fn := replicate 32 0\<rparr>)) s in
      andthen (close_files (\<lambda>fd s. bit (close_on_exec (me s)) fd) [0..<NR_OPEN] s) (\<lambda>s.
      andthen (free_segments (set_cur (\<lambda>p. p\<lparr>close_on_exec := 0\<rparr>) (ker s))) (\<lambda>k.
      let k = (if last_task_used_math k = Some (current k) then k\<lparr>last_task_used_math := None\<rparr> else k);
          k = set_cur (\<lambda>p. p\<lparr>used_math := 0\<rparr>) k;
          (limit, k) = change_ldt (a_text ex) pages k;
          p = p + (limit - of_nat MAX_ARG_PAGES * 4096)
      in andthen (create_tables p argc envc (fs_mem k)) (\<lambda>(p, um).
         let k = set_cur (\<lambda>t. t\<lparr>end_code := a_text ex, end_data := a_data ex + a_text ex,
                     brk := a_bss ex + (a_data ex + a_text ex), start_stack := p AND 0xfffff000\<rparr>) (k\<lparr>fs_mem := um\<rparr>);
             size = a_text ex + a_data ex
         in andthen (read_area i (sint size) (s\<lparr>ker := k\<rparr>)) (\<lambda>(r, s).
            andthen (iput (Some i) s) (\<lambda>s.
            if r < 0 then andthen (sys_exit (-1) s) (\<lambda>s. Inr (Exec_gone, s))
            else Inr (Exec_returns 0 (eip[0 := a_entry ex, 3 := p]), upd_ker (put_user (clear_rest size)) s)))))))"

definition exec_args :: "nat \<Rightarrow> exec_header \<Rightarrow> u32 \<Rightarrow> u32 \<Rightarrow> u32 list \<Rightarrow> fs \<Rightarrow> (exec_result \<times> fs) result" where
  "exec_args i ex argv envp eip s =
     (let um = fs_mem (ker s); pages = replicate MAX_ARG_PAGES 0 in
      andthen (count_ptrs argv um) (\<lambda>argc.
      andthen (count_ptrs envp um) (\<lambda>envc.
      andthen (copy_strings envc envp pages (4096 * of_nat MAX_ARG_PAGES - 4) um (mem (ker s))) (\<lambda>(p, pages, m).
      andthen (copy_strings argc argv pages p um m) (\<lambda>(p, pages, m).
      if p = 0
      then andthen (free_pages pages m) (\<lambda>m.
           andthen (iput (Some i) (upd_ker (\<lambda>k. k\<lparr>mem := m\<rparr>) s)) (\<lambda>s. Inr (Exec_returns (-1) eip, s)))
      else exec_load i ex pages argc envc p eip (upd_ker (\<lambda>k. k\<lparr>mem := m\<rparr>) s))))))"

definition do_execve :: "u32 list \<Rightarrow> u32 \<Rightarrow> u32 \<Rightarrow> u32 \<Rightarrow> fs \<Rightarrow> (exec_result \<times> fs) result" where
  "do_execve eip path argv envp s =
     (let fails = (\<lambda>i e. leave [i] None (Exec_returns (- e) eip)) in
      if eip ! 1 AND 0xffff \<noteq> 0x000f then Inl (Panic ''execve called from supervisor mode'')
      else
        andthen (namei path s) (\<lambda>(r, s).
        case r of
          None \<Rightarrow> Inr (Exec_returns (- ENOENT) eip, s)
        | Some i \<Rightarrow>
            if \<not> S_ISREG (i_mode (inode s i)) then fails i EACCES s
            else if \<not> may_execute i s then fails i ENOEXEC s
            else
              andthen (bread (uint (i_dev (inode s i))) (uint (i_zone (inode s i) ! 0)) s) (\<lambda>(bh, s).
              case bh of
                None \<Rightarrow> fails i EACCES s
              | Some b \<Rightarrow>
                  let ex = exec_of (b_data (buf s b)) in
                  andthen (brelse b s) (\<lambda>s.
                  if \<not> good_header ex (inode s i) then fails i ENOEXEC s
                  else if N_TXTOFF ex \<noteq> 1024 then Inl (Panic ''N_TXTOFF != BLOCK_SIZE. See a.out.h.'')
                  else exec_args i ex argv envp eip s))))"

end
