(* ===== verification/File_Blocks.thy ===== *)
theory File_Blocks
  imports Buffer_Props File_Dev
begin

unbundle bit_operations_syntax

text \<open>
  The cache as the file system sees it: \<open>cache_at C s\<close> says that the cache is in order and
  that buffer \<open>b\<close> is held \<open>C b\<close> times. Taking, changing and giving back a buffer are three rules
  on \<open>C\<close> and on \<open>block_content\<close>. On top of them is the map from the blocks of a file to the blocks
  of the disk, and that \<open>bmap\<close> computes it.
\<close>

section \<open>Changes outside of the cache\<close>

definition same_cache :: "fs \<Rightarrow> fs \<Rightarrow> bool" where
  "same_cache s s' \<longleftrightarrow> nr_buffers s' = nr_buffers s \<and> buf s' = buf s \<and> hash_table s' = hash_table s \<and>
     free_list s' = free_list s \<and> disk s' = disk s \<and> parts s' = parts s"

definition cache_at :: "(nat \<Rightarrow> u8) \<Rightarrow> fs \<Rightarrow> bool" where
  "cache_at C s \<longleftrightarrow> cache_ok s \<and> (\<forall>b < nr_buffers s. b_count (buf s b) = C b)"

text \<open>There is a buffer to take, and no count is at its limit.\<close>

definition room :: "(nat \<Rightarrow> u8) \<Rightarrow> fs \<Rightarrow> bool" where
  "room C s \<longleftrightarrow> (\<forall>b < nr_buffers s. C b \<noteq> 255) \<and> (\<exists>b < nr_buffers s. C b = 0)"

lemma same_cache_ok:
  assumes "same_cache s s'"
  shows "cache_ok s \<Longrightarrow> cache_ok s'" and "view s' = view s"
proof -
  have e: "nr_buffers s' = nr_buffers s" "buf s' = buf s" "disk s' = disk s" "parts s' = parts s"
    "free_list s' = free_list s" "hash_table s' = hash_table s"
    using assms by (simp_all add: same_cache_def)
  have od: "on_disk s' h = on_disk s h" for h by (rule on_disk_cong) (simp_all add: e)
  have b: "bufs_ok s' = bufs_ok s" by (simp add: bufs_ok_def buf_ok_def e od)
  have h: "holds s' = holds s" by (intro ext) (simp add: holds_def e)
  show "view s' = view s" by (intro ext) (simp add: view_def h e cong: option.case_cong)
  assume "cache_ok s"
  then obtain F where F: "bufs_ok s" "queues_ok F s" "set F = {..<nr_buffers s}" by (auto simp: cache_ok_def)
  have "queues_ok F s'" by (rule queues_ok_cong [OF F(2)]) (simp_all add: e)
  then show "cache_ok s'" using F b e by (auto simp: cache_ok_def)
qed

lemma same_cache_sym: "same_cache s s' \<Longrightarrow> same_cache s' s"
  by (simp add: same_cache_def)

lemma same_cache_rules:
  assumes "same_cache s s'"
  shows "cache_at C s' = cache_at C s" and "room C s' = room C s"
    and "block_content s' = block_content s" and "block_usable s' = block_usable s"
proof -
  have n: "nr_buffers s' = nr_buffers s" "buf s' = buf s" using assms by (simp_all add: same_cache_def)
  show "cache_at C s' = cache_at C s"
    using same_cache_ok(1) [OF assms] same_cache_ok(1) [OF same_cache_sym [OF assms]] n by (auto simp: cache_at_def)
  show "room C s' = room C s" by (simp add: room_def n)
  show "block_content s' = block_content s"
    by (intro ext) (simp add: block_content_def same_cache_ok(2) [OF assms])
  show "block_usable s' = block_usable s"
  proof
    fix dk
    have "readable s' d k = readable s d k" for d k
      unfolding readable_def by (rule on_disk_cong) (use assms in \<open>simp_all add: same_cache_def\<close>)
    then show "block_usable s' dk = block_usable s dk" by (simp add: block_usable_def)
  qed
qed

lemma same_cache_updates:
  "same_cache s (upd_inode i f s)" "same_cache s (upd_file j g s)" "same_cache s (upd_ker h s)"
  "same_cache s (upd_super p q s)" "same_cache s (put_user_bytes vs b s)"
  by (simp_all add: same_cache_def upd_inode_def upd_file_def upd_ker_def upd_super_def put_user_bytes_def)

lemmas cache_updates [simp] = same_cache_updates [THEN same_cache_rules(1)]
  same_cache_updates [THEN same_cache_rules(2)] same_cache_updates [THEN same_cache_rules(3)]
  same_cache_updates [THEN same_cache_rules(4)]

lemma room_outside: "outside s s' \<Longrightarrow> room C s' = room C s"
  by (simp add: room_def outside_def)

lemma field_updates [simp]:
  "buf (upd_inode i f s) = buf s" "buf (upd_file j g s) = buf s" "buf (upd_ker h s) = buf s"
  "inode (upd_file j g s) = inode s" "inode (upd_ker h s) = inode s"
  "inode (upd_inode i f s) k = (if k = i then f (inode s i) else inode s k)"
  "file_table (upd_inode i f s) = file_table s" "file_table (upd_ker h s) = file_table s"
  "file_table (upd_file j g s) k = (if k = j then g (file_table s j) else file_table s k)"
  "ker (upd_inode i f s) = ker s" "ker (upd_file j g s) = ker s" "ker (upd_ker h s) = h (ker s)"
  "nr_buffers (upd_inode i f s) = nr_buffers s" "nr_buffers (upd_file j g s) = nr_buffers s"
  "nr_buffers (upd_ker h s) = nr_buffers s"
  "super (upd_inode i f s) = super s" "super (upd_file j g s) = super s" "super (upd_ker h s) = super s"
  by (simp_all add: upd_inode_def upd_file_def upd_ker_def)


section \<open>Taking, changing and giving back a buffer\<close>

lemma fs_mem_outside: "outside s s' \<Longrightarrow> fs_mem (ker s') = fs_mem (ker s)"
  by (auto simp: outside_def low_write_def)

lemma at_bread:
  assumes at: "cache_at C s" and r: "room C s" and u: "block_usable s (d, k)"
  obtains b s1 where "bread (uint d) (uint k) s = Inr (Some b, s1)" "cache_at (C(b := C b + 1)) s1" "outside s s1"
    "block_content s1 = block_content s" "block_usable s1 = block_usable s" "is_block s1 b d k"
    "b_uptodate (buf s1 b) \<noteq> 0" "block_content s (d, k) = Some (b_data (buf s1 b))" "kept (Some b) s s1"
proof -
  have ok: "cache_ok s" and c: "\<And>b. b < nr_buffers s \<Longrightarrow> b_count (buf s b) = C b"
    using at by (auto simp: cache_at_def)
  have m: "MAJOR (ucast d) = 3" and rd: "readable s d k" using u by (auto simp: block_usable_def)
  have d0: "d \<noteq> 0" using m by (auto simp: MAJOR_def)
  show thesis
  proof (cases rule: bread_spec [OF ok m, of k])
    case 1
    then show ?case using r c by (simp add: room_def)
  next
    case 2: (2 b s1)
    have out: "outside s s1" using 2(6) by (simp add: kept_def)
    have "cache_at (C(b := C b + 1)) s1"
      using 2(2,6) c out by (auto simp: cache_at_def kept_def outside_def)
    moreover have "block_content s1 = block_content s"
      by (rule block_content_eqI) (use 2(6) in \<open>simp add: kept_def\<close>)
    moreover have "block_content s (d, k) = Some (b_data (buf s1 b))"
      using 2(5) d0 by (simp add: block_content_def)
    ultimately show thesis using that 2 out block_usable_outside [OF out] by blast
  next
    case 3: (3 s')
    have "outside s s'" using 3(3) by (simp add: kept_def)
    then show thesis using 3(4) rd readable_outside by blast
  next
    case 4
    then show thesis using r c by (auto simp: room_def)
  qed
qed

text \<open>\<open>held\<close> gives the state after a buffer was given back.\<close>

definition given_back :: "nat \<Rightarrow> fs \<Rightarrow> fs" where
  "given_back b = upd_buf b (\<lambda>h. h\<lparr>b_count := b_count h - 1\<rparr>)"

lemma at_brelse:
  assumes at: "cache_at C s" and b: "b < nr_buffers s" "C b \<noteq> 0"
  shows "brelse b s = Inr (given_back b s)" and "cache_at (C(b := C b - 1)) (given_back b s)"
    and "block_content (given_back b s) = block_content s" and "block_usable (given_back b s) = block_usable s"
    and "outside s (given_back b s)"
proof -
  have ok: "cache_ok s" and c: "\<And>b. b < nr_buffers s \<Longrightarrow> b_count (buf s b) = C b"
    using at by (auto simp: cache_at_def)
  obtain s' where s': "brelse b s = Inr s'" "cache_ok s'" "s' = given_back b s" "view s' = view s"
    using brelse_spec [OF ok b(1)] c b unfolding given_back_def by auto
  have out: "outside s (given_back b s)" by (simp add: outside_def given_back_def)
  show "brelse b s = Inr (given_back b s)" using s' by simp
  show "cache_at (C(b := C b - 1)) (given_back b s)"
    using s' c b by (auto simp: cache_at_def given_back_def)
  show "block_content (given_back b s) = block_content s"
    by (rule block_content_eqI) (use s' in simp)
  show "outside s (given_back b s)" by (rule out)
  show "block_usable (given_back b s) = block_usable s" by (rule block_usable_outside [OF out])
qed

text \<open>The way back from a count that was raised by one.\<close>

lemma at_release:
  assumes at: "cache_at (C(b := C b + 1)) s" and b: "b < nr_buffers s" and r: "room C s"
  shows "brelse b s = Inr (given_back b s)" and "cache_at C (given_back b s)"
    and "block_content (given_back b s) = block_content s" and "block_usable (given_back b s) = block_usable s"
    and "outside s (given_back b s)"
proof -
  have "C b + 1 \<noteq> 0"
  proof
    assume "C b + 1 = 0"
    then have "C b = - 1" by (rule eq_neg_iff_add_eq_0 [THEN iffD2])
    then have "C b = 255" by simp
    then show False using r b by (simp add: room_def)
  qed
  then have c: "(C(b := C b + 1)) b \<noteq> 0" by simp
  have e: "(C(b := C b + 1))(b := (C(b := C b + 1)) b - 1) = C" by auto
  note g = at_brelse [OF at b c, unfolded e]
  show "brelse b s = Inr (given_back b s)" "cache_at C (given_back b s)"
    "block_content (given_back b s) = block_content s" "block_usable (given_back b s) = block_usable s"
    "outside s (given_back b s)" by (fact g)+
qed

definition changed :: "nat \<Rightarrow> u8 list \<Rightarrow> fs \<Rightarrow> fs" where
  "changed b x = upd_buf b (\<lambda>h. h\<lparr>b_data := x, b_dirt := 1\<rparr>)"

lemma at_change:
  assumes at: "cache_at C s" and b: "is_block s b d k" "b_uptodate (buf s b) \<noteq> 0"
    and u: "block_usable s (d, k)" and x: "length x = BLOCK_SIZE"
  shows "cache_at C (changed b x s)" and "block_content (changed b x s) = (block_content s)((d, k) \<mapsto> x)"
    and "block_usable (changed b x s) = block_usable s" and "outside s (changed b x s)"
proof -
  have ok: "cache_ok s" and c: "\<And>b. b < nr_buffers s \<Longrightarrow> b_count (buf s b) = C b"
    using at by (auto simp: cache_at_def)
  obtain F where F: "bufs_ok s" "queues_ok F s" "set F = {..<nr_buffers s}" using ok by (auto simp: cache_ok_def)
  have bn: "b < nr_buffers s" "b_dev (buf s b) = d" "b_blocknr (buf s b) = k" using b(1) by (auto simp: is_block_def)
  have m: "MAJOR (ucast d) = 3" and rd: "readable s d k" using u by (auto simp: block_usable_def)
  have d0: "d \<noteq> 0" using m by (auto simp: MAJOR_def)
  have od: "on_disk s (buf s b)" using readable_buf [OF bn(2,3)] rd by simp
  have e: "changed b x s = fill b x (b_uptodate (buf s b)) 1 s"
    by (simp add: changed_def fill_def upd_buf_def)
  note f = fill_spec [OF F(1) bn(1) od x b(2), of 1]
  show "cache_at C (changed b x s)"
    using f(1,2) F c unfolding e by (auto simp: cache_at_def cache_ok_def)
  show "block_content (changed b x s) = (block_content s)((d, k) \<mapsto> x)"
  proof
    fix y
    show "block_content (changed b x s) y = ((block_content s)((d, k) \<mapsto> x)) y"
      using f(3) [of "fst y" "snd y"] bn d0 unfolding e by (cases y) (auto simp: block_content_def)
  qed
  show out: "outside s (changed b x s)" unfolding e by simp
  show "block_usable (changed b x s) = block_usable s" by (rule block_usable_outside [OF out])
qed

lemma content_length:
  assumes "cache_at C s" and "block_content s (d, k) = Some x"
  shows "length x = BLOCK_SIZE"
proof -
  have o: "bufs_ok s" using assms(1) by (auto simp: cache_at_def cache_ok_def)
  have v: "view s d k = Some x" using assms(2) by (auto simp: block_content_def split: if_splits)
  show ?thesis
  proof (cases rule: view_cases [of s d k])
    case (cached b)
    then show ?thesis using bufs_okD(3) [OF o cached(1)] v by (simp add: buf_ok_def)
  next
    case plain
    then show ?thesis using bufs_okD(2) [OF o] v by simp
  qed
qed


section \<open>Operations that show nothing\<close>

text \<open>
  \<open>quiet C s s'\<close>: from \<open>s\<close> to \<open>s'\<close> only the cache has worked; no content is changed, and a buffer
  that is held holds the same block.
\<close>

definition still :: "(nat \<Rightarrow> u8) \<Rightarrow> fs \<Rightarrow> fs \<Rightarrow> bool" where
  "still C s s' \<longleftrightarrow> (\<forall>c < nr_buffers s. C c \<noteq> 0 \<longrightarrow> b_dev (buf s' c) = b_dev (buf s c) \<and>
     b_blocknr (buf s' c) = b_blocknr (buf s c) \<and> (b_uptodate (buf s c) \<noteq> 0 \<longrightarrow> b_uptodate (buf s' c) \<noteq> 0))"

definition quiet :: "(nat \<Rightarrow> u8) \<Rightarrow> fs \<Rightarrow> fs \<Rightarrow> bool" where
  "quiet C s s' \<longleftrightarrow> cache_at C s' \<and> outside s s' \<and> block_content s' = block_content s \<and>
     block_usable s' = block_usable s \<and> still C s s'"

lemma quietD:
  assumes "quiet C s s'"
  shows "cache_at C s'" "outside s s'" "block_content s' = block_content s" "block_usable s' = block_usable s"
    "room D s' = room D s" "inode s' = inode s" "file_table s' = file_table s" "super s' = super s"
    "nr_buffers s' = nr_buffers s" "fs_mem (ker s') = fs_mem (ker s)" "still C s s'"
  using assms room_outside [of s s'] fs_mem_outside [of s s'] by (simp_all add: quiet_def outside_def)

lemma quiet_refl: "cache_at C s \<Longrightarrow> quiet C s s"
  by (simp add: quiet_def still_def)

lemma quiet_trans: "quiet C s s1 \<Longrightarrow> quiet C s1 s2 \<Longrightarrow> quiet C s s2"
  using outside_trans [of s s1 s2] by (auto simp: quiet_def still_def outside_def)

text \<open>A block is read, used and given back.\<close>

lemma at_use:
  assumes at: "cache_at C s" and r: "room C s" and u: "block_usable s (d, k)"
  obtains b s1 where "bread (uint d) (uint k) s = Inr (Some b, s1)" "cache_at (C(b := C b + 1)) s1" "outside s s1"
    "block_content s1 = block_content s" "block_content s (d, k) = Some (b_data (buf s1 b))"
    "is_block s1 b d k" "b_uptodate (buf s1 b) \<noteq> 0"
    "block_usable s1 = block_usable s" "brelse b s1 = Inr (given_back b s1)" "quiet C s (given_back b s1)"
proof -
  obtain b s1 where b: "bread (uint d) (uint k) s = Inr (Some b, s1)" "cache_at (C(b := C b + 1)) s1" "outside s s1"
    "block_content s1 = block_content s" "block_usable s1 = block_usable s" "is_block s1 b d k"
    "b_uptodate (buf s1 b) \<noteq> 0" "block_content s (d, k) = Some (b_data (buf s1 b))" "kept (Some b) s s1"
    by (rule at_bread [OF at r u]) (rule that)
  have n: "nr_buffers s1 = nr_buffers s" using b(3) by (simp add: outside_def)
  have bn: "b < nr_buffers s1" using b(6) by (simp add: is_block_def)
  have "room C s1" using r by (simp add: room_def n)
  note g = at_release [OF b(2) bn this]
  have cc: "b_count (buf s c) = C c" if "c < nr_buffers s" for c using at that by (simp add: cache_at_def)
  have "still C s (given_back b s1)"
    using b(9) cc by (auto simp: still_def kept_def given_back_def)
  then have "quiet C s (given_back b s1)"
    using g(2-4) b(4,5) outside_trans [OF b(3) g(5)] by (simp add: quiet_def)
  then show thesis using that b g(1) by blast
qed


section \<open>The blocks of a file\<close>

text \<open>An entry of an indirect block; the block of the disk for a block of the file, 0 for none.\<close>

definition entry_at :: "fs \<Rightarrow> u16 \<Rightarrow> u16 \<Rightarrow> nat \<Rightarrow> u16" where
  "entry_at s d z k = (case block_content s (d, z) of None \<Rightarrow> 0 | Some x \<Rightarrow> le16 x (2 * k))"

definition ind_entry :: "fs \<Rightarrow> u16 \<Rightarrow> u16 \<Rightarrow> nat \<Rightarrow> u16" where
  "ind_entry s d z k = (if z = 0 then 0 else entry_at s d z k)"

definition file_block :: "fs \<Rightarrow> nat \<Rightarrow> nat \<Rightarrow> u16" where
  "file_block s i n =
     (let z = i_zone (inode s i); d = i_dev (inode s i) in
      if n < 7 then z ! n
      else if n < 519 then ind_entry s d (z ! 7) (n - 7)
      else ind_entry s d (ind_entry s d (z ! 8) ((n - 519) div 512)) ((n - 519) mod 512))"

text \<open>The indirect blocks on the way.\<close>

definition on_way :: "fs \<Rightarrow> nat \<Rightarrow> nat \<Rightarrow> u16 list" where
  "on_way s i n =
     (let z = i_zone (inode s i); d = i_dev (inode s i) in
      if n < 7 then [] else if n < 519 then [z ! 7]
      else [z ! 8, ind_entry s d (z ! 8) ((n - 519) div 512)])"

definition way_usable :: "fs \<Rightarrow> nat \<Rightarrow> nat \<Rightarrow> bool" where
  "way_usable s i n \<longleftrightarrow>
     (\<forall>z \<in> set (file_block s i n # on_way s i n). z \<noteq> 0 \<longrightarrow> block_usable s (i_dev (inode s i), z))"

abbreviation file_blocks :: nat where "file_blocks \<equiv> 7 + 512 + 512 * 512"

lemma zone_entry_at:
  "block_content s (d, z) = Some (b_data (buf s1 b)) \<Longrightarrow> zone_entry s1 b k = uint (entry_at s d z k)"
  by (simp add: zone_entry_def entry_at_def)

lemma block_entry_there:
  "create \<longrightarrow> zone_entry s b k \<noteq> 0 \<Longrightarrow>
   block_entry create i b k s = andthen (brelse b s) (\<lambda>s'. Inr (zone_entry s b k, s'))"
  by (auto simp: block_entry_def)

text \<open>One indirect block.\<close>

definition through :: "bool \<Rightarrow> nat \<Rightarrow> int \<Rightarrow> nat \<Rightarrow> fs \<Rightarrow> (int \<times> fs) result" where
  "through create i z k s =
     andthen (bread (uint (i_dev (inode s i))) z s) (\<lambda>(bh, s).
     case bh of None \<Rightarrow> Inr (0, s) | Some b \<Rightarrow> block_entry create i b k s)"

lemma at_through:
  assumes "cache_at C s" "room C s" and d: "i_dev (inode s i) = d" and u: "block_usable s (d, z)"
    and e: "create \<longrightarrow> entry_at s d z k \<noteq> 0"
  obtains s' where "through create i (uint z) k s = Inr (uint (entry_at s d z k), s')" "quiet C s s'"
proof -
  obtain b s1 where b: "bread (uint d) (uint z) s = Inr (Some b, s1)"
    "block_content s (d, z) = Some (b_data (buf s1 b))" "brelse b s1 = Inr (given_back b s1)"
    "quiet C s (given_back b s1)"
    by (rule at_use [OF assms(1,2) u]) (rule that)
  have z: "zone_entry s1 b k = uint (entry_at s d z k)" by (rule zone_entry_at [OF b(2)])
  have "create \<longrightarrow> zone_entry s1 b k \<noteq> 0"
    using e unfolding z by (simp add: unsigned_eq_0_iff)
  from block_entry_there [OF this, where i = i] have "through create i (uint z) k s =
      Inr (uint (entry_at s d z k), given_back b s1)"
    by (simp add: through_def d b(1,3) z)
  then show thesis using that b(4) by blast
qed

lemma bmap_block_through:
  "bmap_block i block create s =
     (let zone = (\<lambda>s k. uint (i_zone (inode s i) ! k)) in
      if block < 0 then Inl (Panic ''_bmap: block<0'')
      else if int file_blocks \<le> block then Inl (Panic ''_bmap: block>big'')
      else if block < 7 then
        andthen (new_zone create i (nat block) s) (\<lambda>s. Inr (zone s (nat block), s))
      else if block < 519 then
        andthen (new_zone create i 7 s) (\<lambda>s.
        if zone s 7 = 0 then Inr (0, s) else through create i (zone s 7) (nat (block - 7)) s)
      else
        andthen (new_zone create i 8 s) (\<lambda>s.
        if zone s 8 = 0 then Inr (0, s)
        else andthen (bread (uint (i_dev (inode s i))) (zone s 8) s) (\<lambda>(bh, s).
             case bh of
               None \<Rightarrow> Inr (0, s)
             | Some b \<Rightarrow>
                 andthen (block_entry create i b (nat ((block - 519) div 512)) s) (\<lambda>(z, s).
                 if z = 0 then Inr (0, s) else through create i z (nat ((block - 519) mod 512)) s))))"
proof -
  have e: "block - 7 - 512 = block - 519" "(block - 7 < 512) = (block < 519)" by simp_all
  show ?thesis unfolding bmap_block_def through_def Let_def e by simp
qed

lemma bmap_block_there:
  assumes at: "cache_at C s" "room C s" and n: "n < file_blocks" and u: "way_usable s i n"
    and there: "create \<longrightarrow> file_block s i n \<noteq> 0"
  shows "\<exists>s'. bmap_block i (int n) create s = Inr (uint (file_block s i n), s') \<and> quiet C s s'"
proof -
  define z where "z = i_zone (inode s i)"
  define d where "d = i_dev (inode s i)"
  have nz: "new_zone create i k s = Inr s" if "create \<longrightarrow> z ! k \<noteq> 0" for k
    using that by (auto simp: new_zone_def z_def)
  consider (direct) "n < 7" | (ind) "7 \<le> n" "n < 519" | (dind) "519 \<le> n" by linarith
  then show ?thesis
  proof cases
    case direct
    then have "file_block s i n = z ! n" by (simp add: file_block_def z_def)
    then show ?thesis
      using direct n there nz [of n] quiet_refl [OF at(1)]
      by (intro exI [of _ s]) (simp add: bmap_block_through z_def)
  next
    case ind
    have fb: "file_block s i n = ind_entry s d (z ! 7) (n - 7)" using ind by (simp add: file_block_def z_def d_def)
    show ?thesis
    proof (cases "z ! 7 = 0")
      case True
      then have "bmap_block i (int n) create s = Inr (0, s)" "file_block s i n = 0"
        using ind n there nz [of 7] fb by (simp_all add: bmap_block_through z_def ind_entry_def)
      then show ?thesis using quiet_refl [OF at(1)] by auto
    next
      case False
      have "block_usable s (d, z ! 7)"
        using u ind False by (simp add: way_usable_def on_way_def z_def d_def Let_def)
      then obtain s' where "through create i (uint (z ! 7)) (n - 7) s = Inr (uint (entry_at s d (z ! 7) (n - 7)), s')"
          "quiet C s s'"
        using at_through [OF at d_def [symmetric], where z = "z ! 7" and k = "n - 7"] fb there False
        by (auto simp: ind_entry_def)
      moreover have "uint (z ! 7) \<noteq> 0" using False by (simp add: unsigned_eq_0_iff)
      ultimately show ?thesis
        using ind n False fb nz [of 7] by (simp add: bmap_block_through z_def ind_entry_def nat_diff_distrib)
    qed
  next
    case dind
    define k1 where "k1 = (n - 519) div 512"
    define z1 where "z1 = ind_entry s d (z ! 8) k1"
    have fb: "file_block s i n = ind_entry s d z1 ((n - 519) mod 512)"
      using dind by (simp add: file_block_def z_def d_def z1_def k1_def Let_def)
    have us: "w = 0 \<or> block_usable s (d, w)" if "w = z ! 8 \<or> w = z1" for w
      using u dind that by (auto simp: way_usable_def on_way_def z_def d_def z1_def k1_def Let_def)
    have nn: "nat ((int n - 519) div 512) = k1" "nat ((int n - 519) mod 512) = (n - 519) mod 512"
      using dind by (simp_all add: k1_def nat_div_distrib nat_mod_distrib nat_diff_distrib)
    have bm: "bmap_block i (int n) create s =
      andthen (new_zone create i 8 s) (\<lambda>s. if i_zone (inode s i) ! 8 = 0 then Inr (0, s)
        else andthen (through create i (uint (i_zone (inode s i) ! 8)) k1 s) (\<lambda>(z, s).
          if z = 0 then Inr (0, s) else through create i z ((n - 519) mod 512) s))"
      using dind n unfolding bmap_block_through Let_def nn through_def
      by (auto simp: unsigned_eq_0_iff andthen_def split: option.splits sum.splits)
    show ?thesis
    proof (cases "z ! 8 = 0")
      case True
      then have "bmap_block i (int n) create s = Inr (0, s)" "file_block s i n = 0"
        using there nz [of 8] fb unfolding bm by (simp_all add: z_def ind_entry_def z1_def)
      then show ?thesis using quiet_refl [OF at(1)] by auto
    next
      case False
      have e1: "z1 = entry_at s d (z ! 8) k1" using False by (simp add: z1_def ind_entry_def)
      have c1: "create \<longrightarrow> entry_at s d (z ! 8) k1 \<noteq> 0" using there fb e1 by (auto simp: ind_entry_def)
      obtain s1 where s1: "through create i (uint (z ! 8)) k1 s = Inr (uint z1, s1)" "quiet C s s1"
        using at_through [OF at d_def [symmetric] _ c1] us [of "z ! 8"] False e1 by auto
      note q = quietD [OF s1(2)]
      have run: "bmap_block i (int n) create s =
          (if z1 = 0 then Inr (0, s1) else through create i (uint z1) ((n - 519) mod 512) s1)"
        using nz [of 8] False there fb s1(1) unfolding bm
        by (simp add: z_def unsigned_eq_0_iff)
      show ?thesis
      proof (cases "z1 = 0")
        case True
        then show ?thesis using run s1(2) fb by (auto simp: ind_entry_def)
      next
        case z1: False
        have "entry_at s1 d z1 k = entry_at s d z1 k" for k by (simp add: entry_at_def q(3))
        moreover have "block_usable s1 (d, z1)" using us [of z1] z1 q(4) by simp
        moreover have "room C s1" using at(2) q(5) by simp
        moreover have "i_dev (inode s1 i) = d" by (simp add: q(6) d_def)
        ultimately obtain s2 where "through create i (uint z1) ((n - 519) mod 512) s1 =
            Inr (uint (entry_at s d z1 ((n - 519) mod 512)), s2)" "quiet C s1 s2"
          using at_through [OF q(1), where i = i and d = d and z = z1 and k = "(n - 519) mod 512" and create = create]
            there fb z1 by (auto simp: ind_entry_def)
        then show ?thesis using run z1 fb quiet_trans [OF s1(2)] by (auto simp: ind_entry_def)
      qed
    qed
  qed
qed

end
