(* ===== verification/File_Props.thy ===== *)
theory File_Props
  imports File_Blocks
begin

unbundle bit_operations_syntax

text \<open>
  A file as a sequence of bytes: \<open>file_byte s i p\<close> is the byte at position \<open>p\<close> of file \<open>i\<close>, read
  through its blocks and the content of the disk as the cache shows it. \<open>file_read\<close> gives these
  bytes, \<open>file_write\<close> sets them.
\<close>

section \<open>The bytes\<close>

definition file_byte :: "fs \<Rightarrow> nat \<Rightarrow> nat \<Rightarrow> u8" where
  "file_byte s i p =
     (let z = file_block s i (p div 1024) in
      if z = 0 then 0
      else case block_content s (i_dev (inode s i), z) of None \<Rightarrow> 0 | Some x \<Rightarrow> x ! (p mod 1024))"

definition file_bytes :: "fs \<Rightarrow> nat \<Rightarrow> nat \<Rightarrow> nat \<Rightarrow> u8 list" where
  "file_bytes s i p n = map (file_byte s i) [p..<p + n]"

definition range_usable :: "fs \<Rightarrow> nat \<Rightarrow> nat \<Rightarrow> nat \<Rightarrow> bool" where
  "range_usable s i p n \<longleftrightarrow> (\<forall>k. p div 1024 \<le> k \<longrightarrow> 1024 * k < p + n \<longrightarrow> way_usable s i k)"

lemma file_view_cong:
  assumes "inode s' i = inode s i" "block_content s' = block_content s"
  shows "file_block s' i = file_block s i" "file_byte s' i = file_byte s i"
    and "block_usable s' = block_usable s \<Longrightarrow> way_usable s' i = way_usable s i"
proof -
  have e: "ind_entry s' = ind_entry s"
    by (intro ext) (simp add: ind_entry_def entry_at_def assms(2))
  show fb: "file_block s' i = file_block s i"
    by (intro ext) (simp add: file_block_def assms(1) e Let_def)
  show "file_byte s' i = file_byte s i"
    by (intro ext) (simp add: file_byte_def fb assms Let_def)
  show "block_usable s' = block_usable s \<Longrightarrow> way_usable s' i = way_usable s i"
    by (intro ext) (simp add: way_usable_def on_way_def fb assms(1) e Let_def)
qed

lemma quiet_view:
  "quiet C s s' \<Longrightarrow> file_block s' i = file_block s i \<and> file_byte s' i = file_byte s i \<and>
   way_usable s' i = way_usable s i"
  using file_view_cong [of s' i s] quietD [of C s s'] by simp

lemma length_file_bytes [simp]: "length (file_bytes s i p n) = n"
  by (simp add: file_bytes_def)

lemma file_bytes_add: "file_bytes s i p (m + n) = file_bytes s i p m @ file_bytes s i (p + m) n"
proof -
  have "[p..<p + (m + n)] = [p..<p + m] @ [p + m..<p + m + n]"
    using upt_add_eq_append [of p "p + m" n] by (simp add: add.assoc)
  then show ?thesis by (simp add: file_bytes_def)
qed

text \<open>Within one block.\<close>

lemma div_within:
  fixes p :: nat assumes "j < 1024 - p mod 1024"
  shows "(p + j) div 1024 = p div 1024" "(p + j) mod 1024 = p mod 1024 + j"
proof -
  have j: "p mod 1024 + j < 1024" using assms by linarith
  have e: "1024 * (p div 1024) + p mod 1024 = p" by (rule mult_div_mod_eq)
  have "1024 * (p div 1024) \<le> p + j" "p + j < 1024 * Suc (p div 1024)"
    unfolding mult_Suc_right using e j by linarith+
  then show d: "(p + j) div 1024 = p div 1024" by (rule div_nat_eqI)
  have "1024 * ((p + j) div 1024) + (p + j) mod 1024 = p + j" by (rule mult_div_mod_eq)
  then show "(p + j) mod 1024 = p mod 1024 + j" unfolding d using e by linarith
qed

lemma file_bytes_block:
  assumes "n \<le> 1024 - p mod 1024" and "file_block s i (p div 1024) \<noteq> 0"
    and "block_content s (i_dev (inode s i), file_block s i (p div 1024)) = Some x" and "length x = 1024"
  shows "file_bytes s i p n = slice (p mod 1024) n x"
  using assms by (intro nth_equalityI) (auto simp: file_bytes_def slice_def file_byte_def Let_def div_within)

lemma file_bytes_hole:
  "n \<le> 1024 - p mod 1024 \<Longrightarrow> file_block s i (p div 1024) = 0 \<Longrightarrow> file_bytes s i p n = replicate n 0"
  by (intro nth_equalityI) (auto simp: file_bytes_def file_byte_def Let_def div_within)

lemma turn_chars_nat:
  "turn_chars (int p) left = min (1024 - p mod 1024) left"
proof -
  have a: "int (1024 - p mod 1024) = 1024 - int p mod 1024" by (subst of_nat_diff) (simp_all add: zmod_int)
  have "min (1024 - int p mod 1024) (int left) = int (min (1024 - p mod 1024) left)"
    by (simp only: a [symmetric] of_nat_min)
  then show ?thesis by (simp add: turn_chars_def c_mod_nonneg)
qed

lemma position:
  "c_div (int p) 1024 = int (p div 1024)" "c_mod (int p) 1024 = int (p mod 1024)"
  by (simp_all add: c_div_nonneg c_mod_nonneg zdiv_int zmod_int)

lemma put_fs_bytes_append:
  "put_fs_bytes (xs @ ys) a m = put_fs_bytes ys (a + of_nat (length xs)) (put_fs_bytes xs a m)"
  by (induction xs arbitrary: a m) (simp_all add: add.assoc add.commute)


section \<open>Reading\<close>

text \<open>A buffer is given back whatever is done elsewhere.\<close>

lemma brelse_elsewhere:
  assumes "brelse h s = Inr (given_back h s)"
  shows "brelse h (put_user_bytes vs b (upd_file f g s)) = Inr (put_user_bytes vs b (upd_file f g (given_back h s)))"
  using assms unfolding brelse_def wait_on_buffer_def given_back_def
  by (auto simp: put_user_bytes_def upd_file_def upd_ker_def upd_buf_def split: if_splits)

lemma buf_elsewhere [simp]: "buf (put_user_bytes vs b s) = buf s"
  by (simp add: put_user_bytes_def)

lemma file_read_turn:
  assumes at: "cache_at C s" "room C s" and pos: "f_pos (file_table s f) = int p" and left: "left \<noteq> 0"
    and limit: "p + left \<le> 1024 * file_blocks" and u: "way_usable s i (p div 1024)"
    and n: "n = min (1024 - p mod 1024) left"
  obtains s3 where "file_read_loop i f b left s =
      file_read_loop i f (b + of_nat n) (left - n)
        (put_user_bytes (file_bytes s i p n) b (upd_file f (\<lambda>f. f\<lparr>f_pos := int (p + n)\<rparr>) s3))" "quiet C s s3"
proof -
  define z where "z = file_block s i (p div 1024)"
  define d where "d = i_dev (inode s i)"
  have tn: "turn_chars (int p) left = n" by (simp add: turn_chars_nat n)
  have np: "p + n < 2 ^ 31" using limit n by simp
  have k: "p div 1024 < file_blocks" by (rule less_mult_imp_div_less) (use limit left in linarith)
  obtain s1 where s1: "bmap i (int (p div 1024)) s = Inr (uint z, s1)" "quiet C s s1"
    using bmap_block_there [OF at k u, of False] by (auto simp: bmap_def z_def)
  note q = quietD [OF s1(2)]
  have s32: "s32 (int p + int n) = int (p + n)" using np by (subst s32_id) simp_all
  show thesis
  proof (cases "z = 0")
    case True
    have "file_bytes s i p n = replicate n 0"
      by (rule file_bytes_hole) (use n True in \<open>simp_all add: z_def\<close>)
    then have "file_read_loop i f b left s = file_read_loop i f (b + of_nat n) (left - n)
        (put_user_bytes (file_bytes s i p n) b (upd_file f (\<lambda>f. f\<lparr>f_pos := int (p + n)\<rparr>) s1))"
      using left s1(1) True
      by (subst file_read_loop.simps) (simp add: pos position q(7) tn s32 Let_def)
    then show thesis using that s1(2) by blast
  next
    case False
    have us: "block_usable s1 (d, z)" using u False by (simp add: q(4) way_usable_def z_def d_def)
    obtain h s2 where h: "bread (uint d) (uint z) s1 = Inr (Some h, s2)"
      "block_content s1 (d, z) = Some (b_data (buf s2 h))" "outside s1 s2" "brelse h s2 = Inr (given_back h s2)"
      "quiet C s1 (given_back h s2)"
      by (rule at_use [OF q(1) _ us]) (use at(2) q(5) in \<open>auto intro: that\<close>)
    have ft: "file_table s2 = file_table s" using h(3) q(7) by (simp add: outside_def)
    have c: "block_content s (d, z) = Some (b_data (buf s2 h))" using h(2) q(3) by simp
    have fb: "slice (p mod 1024) n (b_data (buf s2 h)) = file_bytes s i p n"
      using file_bytes_block [of n p s i] n False c content_length [OF at(1) c] by (simp add: z_def d_def)
    have "file_read_loop i f b left s = file_read_loop i f (b + of_nat n) (left - n)
        (put_user_bytes (file_bytes s i p n) b (upd_file f (\<lambda>f. f\<lparr>f_pos := int (p + n)\<rparr>) (given_back h s2)))"
      using left s1(1) False h(1) brelse_elsewhere [OF h(4)]
      by (subst file_read_loop.simps)
        (simp add: pos position q(6) ft tn s32 Let_def d_def unsigned_eq_0_iff fb)
    then show thesis using that quiet_trans [OF s1(2) h(5)] by blast
  qed
qed


lemma range_usable_first: "range_usable s i p n \<Longrightarrow> n \<noteq> 0 \<Longrightarrow> way_usable s i (p div 1024)"
  using mult_div_mod_eq [of 1024 p] by (auto simp: range_usable_def)

lemma range_usable_rest:
  "range_usable s i p (m + n) \<Longrightarrow> range_usable s i (p + m) n"
  unfolding range_usable_def by (auto simp: add.assoc dest: order_trans [OF div_le_mono [OF le_add1]])

lemma range_usable_cong: "way_usable s' i = way_usable s i \<Longrightarrow> range_usable s' i = range_usable s i"
  by (intro ext) (simp add: range_usable_def)

text \<open>\<open>outside\<close> up to the file and the user segment.\<close>

definition read_into :: "nat \<Rightarrow> nat \<Rightarrow> u8 list \<Rightarrow> u32 \<Rightarrow> fs \<Rightarrow> fs \<Rightarrow> bool" where
  "read_into f p vs b s s' \<longleftrightarrow> inode s' = inode s \<and> super s' = super s \<and> ttys s' = ttys s \<and>
     file_table s' = (file_table s)(f := (file_table s f)\<lparr>f_pos := int p\<rparr>) \<and>
     block_content s' = block_content s \<and> block_usable s' = block_usable s \<and>
     task (ker s') = task (ker s) \<and> fs_mem (ker s') = put_fs_bytes vs b (fs_mem (ker s))"

lemma quiet_tasks: "quiet C s s' \<Longrightarrow> task (ker s') = task (ker s) \<and> ttys s' = ttys s"
  by (auto simp: quiet_def outside_def low_write_def)

lemma put_user_simps [simp]:
  "inode (put_user_bytes vs b s) = inode s" "file_table (put_user_bytes vs b s) = file_table s"
  "super (put_user_bytes vs b s) = super s" "ttys (put_user_bytes vs b s) = ttys s"
  "task (ker (put_user_bytes vs b s)) = task (ker s)"
  "fs_mem (ker (put_user_bytes vs b s)) = put_fs_bytes vs b (fs_mem (ker s))"
  "ttys (upd_file f g s) = ttys s"
  by (simp_all add: put_user_bytes_def upd_ker_def put_user_def upd_file_def)

lemma file_read_loop_bytes:
  assumes "cache_at C s" "room C s" "f_pos (file_table s f) = int p" "p + left \<le> 1024 * file_blocks"
    and "range_usable s i p left"
  shows "\<exists>s'. file_read_loop i f b left s = Inr (0, s') \<and> cache_at C s' \<and> room C s' \<and>
    read_into f (p + left) (file_bytes s i p left) b s s'"
  using assms
proof (induction left arbitrary: s p b rule: less_induct)
  case (less left)
  show ?case
  proof (cases "left = 0")
    case True
    have "(file_table s)(f := (file_table s f)\<lparr>f_pos := int p\<rparr>) = file_table s"
      by (rule fun_upd_idem) (use less.prems(3) in \<open>cases "file_table s f", simp\<close>)
    then show ?thesis
      using less.prems(1,2) True by (intro exI [of _ s]) (simp add: file_read_loop.simps read_into_def file_bytes_def)
  next
    case False
    define n where "n = min (1024 - p mod 1024) left"
    have n0: "0 < n" "n \<le> left" using False by (simp_all add: n_def)
    obtain s3 where s3: "file_read_loop i f b left s =
      file_read_loop i f (b + of_nat n) (left - n)
        (put_user_bytes (file_bytes s i p n) b (upd_file f (\<lambda>f. f\<lparr>f_pos := int (p + n)\<rparr>) s3))" "quiet C s s3"
      by (rule file_read_turn [OF less.prems(1-3) False less.prems(4)
            range_usable_first [OF less.prems(5) False] n_def]) (rule that)
    let ?s4 = "put_user_bytes (file_bytes s i p n) b (upd_file f (\<lambda>f. f\<lparr>f_pos := int (p + n)\<rparr>) s3)"
    note q = quietD [OF s3(2)]
    have v: "file_byte ?s4 i = file_byte s i" "way_usable ?s4 i = way_usable s i"
      using file_view_cong [of ?s4 i s] q by simp_all
    have u4: "range_usable ?s4 i (p + n) (left - n)"
      using range_usable_rest [of s i p n "left - n"] less.prems(5) n0
        range_usable_cong [OF v(2)] by simp
    have "\<exists>s'. file_read_loop i f (b + of_nat n) (left - n) ?s4 = Inr (0, s') \<and> cache_at C s' \<and> room C s' \<and>
        read_into f (p + n + (left - n)) (file_bytes ?s4 i (p + n) (left - n)) (b + of_nat n) ?s4 s'"
      by (rule less.IH) (use n0 less.prems q u4 in simp_all)
    then obtain s' where s': "file_read_loop i f (b + of_nat n) (left - n) ?s4 = Inr (0, s')" "cache_at C s'"
        "room C s'" "read_into f (p + left) (file_bytes s i (p + n) (left - n)) (b + of_nat n) ?s4 s'"
      using n0 v(1) by (auto simp: file_bytes_def)
    have b: "file_bytes s i p left = file_bytes s i p n @ file_bytes s i (p + n) (left - n)"
      using file_bytes_add [of s i p n "left - n"] n0 by simp
    have "read_into f (p + left) (file_bytes s i p left) b s s'"
      using s'(4) q quiet_tasks [OF s3(2)]
      by (auto simp: read_into_def b put_fs_bytes_append fun_eq_iff)
    then show ?thesis using s3(1) s'(1-3) by auto
  qed
qed


lemma inode_upd_inode: "inode (upd_inode i f s) = (inode s)(i := f (inode s i))"
  by (simp add: upd_inode_def)

lemma file_read_gives:
  assumes "cache_at C s" "room C s" "f_pos (file_table s f) = int p" "0 < n" "p + n \<le> 1024 * file_blocks"
    and "range_usable s i p n"
  obtains s1 where "file_read i f b (int n) s = Inr (int n, upd_inode i (\<lambda>m. m\<lparr>i_atime := now s1\<rparr>) s1)"
    "cache_at C s1" "room C s1" "read_into f (p + n) (file_bytes s i p n) b s s1"
proof -
  obtain s1 where s1: "file_read_loop i f b n s = Inr (0, s1)" "cache_at C s1" "room C s1"
      "read_into f (p + n) (file_bytes s i p n) b s s1"
    using file_read_loop_bytes [OF assms(1-3,5,6)] by blast
  moreover have "file_read i f b (int n) s = Inr (int n, upd_inode i (\<lambda>m. m\<lparr>i_atime := now s1\<rparr>) s1)"
    using s1(1) assms(4) by (simp add: file_read_def)
  ultimately show ?thesis using that by blast
qed



section \<open>Writing\<close>

text \<open>No two blocks of the file are the same block of the disk, and no block is also an indirect one.\<close>

definition own_blocks :: "fs \<Rightarrow> nat \<Rightarrow> bool" where
  "own_blocks s i \<longleftrightarrow> (\<forall>k < file_blocks. \<forall>m < file_blocks. file_block s i k \<noteq> 0 \<longrightarrow>
     (k \<noteq> m \<longrightarrow> file_block s i m \<noteq> file_block s i k) \<and> file_block s i k \<notin> set (on_way s i m))"

definition range_there :: "fs \<Rightarrow> nat \<Rightarrow> nat \<Rightarrow> nat \<Rightarrow> bool" where
  "range_there s i p n \<longleftrightarrow> (\<forall>k. p div 1024 \<le> k \<longrightarrow> 1024 * k < p + n \<longrightarrow> file_block s i k \<noteq> 0 \<and> way_usable s i k)"

text \<open>The same blocks for the file in another state.\<close>

definition same_map :: "nat \<Rightarrow> fs \<Rightarrow> fs \<Rightarrow> bool" where
  "same_map i s s' \<longleftrightarrow> i_dev (inode s' i) = i_dev (inode s i) \<and> i_zone (inode s' i) = i_zone (inode s i) \<and>
     (\<forall>m < file_blocks. file_block s' i m = file_block s i m \<and> on_way s' i m = on_way s i m)"

lemma ind_entry_other:
  assumes "block_content s' = (block_content s)((d, z0) \<mapsto> x)" and "z \<noteq> z0 \<or> z = 0"
  shows "ind_entry s' d z k = ind_entry s d z k"
  using assms by (auto simp: ind_entry_def entry_at_def)

lemma write_same_map:
  assumes own: "own_blocks s i" and k: "k < file_blocks" and z: "file_block s i k = z0" "z0 \<noteq> 0"
    and c: "block_content s' = (block_content s)((i_dev (inode s i), z0) \<mapsto> x)"
    and n: "i_dev (inode s' i) = i_dev (inode s i)" "i_zone (inode s' i) = i_zone (inode s i)"
  shows "same_map i s s'"
proof -
  define d where "d = i_dev (inode s i)"
  define zs where "zs = i_zone (inode s i)"
  have "file_block s' i m = file_block s i m \<and> on_way s' i m = on_way s i m" if m: "m < file_blocks" for m
  proof -
    have w: "z0 \<notin> set (on_way s i m)" using own k m z unfolding own_blocks_def by blast
    note e = ind_entry_other [OF c [folded d_def]]
    show ?thesis
    proof (cases "m < 519")
      case True
      then show ?thesis
        using w e [of "zs ! 7"] by (auto simp: file_block_def on_way_def n Let_def d_def [symmetric] zs_def [symmetric])
    next
      case False
      then have "zs ! 8 \<noteq> z0" "ind_entry s d (zs ! 8) ((m - 519) div 512) \<noteq> z0"
        using w by (auto simp: on_way_def Let_def d_def [symmetric] zs_def [symmetric])
      then show ?thesis
        using False e [of "zs ! 8"] e [of "ind_entry s d (zs ! 8) ((m - 519) div 512)"]
        by (simp add: file_block_def on_way_def n Let_def d_def [symmetric] zs_def [symmetric])
    qed
  qed
  then show ?thesis by (simp add: same_map_def n)
qed

lemma same_map_rules:
  assumes "same_map i s s'"
  shows "own_blocks s' i = own_blocks s i"
    and "block_usable s' = block_usable s \<Longrightarrow> k < file_blocks \<Longrightarrow> way_usable s' i k = way_usable s i k"
  using assms by (auto simp: same_map_def own_blocks_def way_usable_def)

lemma same_map_trans: "same_map i s s1 \<Longrightarrow> same_map i s1 s2 \<Longrightarrow> same_map i s s2"
  by (simp add: same_map_def)

lemma write_bytes:
  assumes own: "own_blocks s i" and k: "k < file_blocks" and z: "file_block s i k = z0" "z0 \<noteq> 0"
    and c: "block_content s' = (block_content s)((i_dev (inode s i), z0) \<mapsto> x)"
    and n: "i_dev (inode s' i) = i_dev (inode s i)" "i_zone (inode s' i) = i_zone (inode s i)"
    and q: "q < 1024 * file_blocks"
  shows "file_byte s' i q = (if q div 1024 = k then x ! (q mod 1024) else file_byte s i q)"
proof -
  have m: "q div 1024 < file_blocks" by (rule less_mult_imp_div_less) (use q in linarith)
  have fb: "file_block s' i (q div 1024) = file_block s i (q div 1024)"
    using write_same_map [OF own k z c n] m by (simp add: same_map_def)
  show ?thesis
  proof (cases "q div 1024 = k")
    case True
    then show ?thesis using z fb by (simp add: file_byte_def n c Let_def)
  next
    case False
    then have "file_block s i (q div 1024) \<noteq> z0" using own k m z unfolding own_blocks_def by blast
    then show ?thesis using False by (simp add: file_byte_def fb n c Let_def)
  qed
qed

lemma nth_overwrite:
  "off + length xs \<le> length d \<Longrightarrow> j < length d \<Longrightarrow>
   overwrite off xs d ! j = (if off \<le> j \<and> j < off + length xs then xs ! (j - off) else d ! j)"
  by (auto simp: overwrite_def nth_append not_less)

lemma length_overwrite: "off + length xs \<le> length d \<Longrightarrow> length (overwrite off xs d) = length d"
  by (simp add: overwrite_def)

text \<open>One turn: the file after the bytes of one block.\<close>

lemma grow_brelse:
  assumes "brelse h (changed h x s) = Inr (given_back h (changed h x s))" and "x = overwrite off vs (b_data (buf s h))"
  shows "brelse h (upd_buf h (\<lambda>b. b\<lparr>b_data := overwrite off vs (b_data b)\<rparr>)
      (grow i pos (upd_buf h (\<lambda>b. b\<lparr>b_dirt := 1\<rparr>) s))) = Inr (grow i pos (given_back h (changed h x s)))"
  using assms(1) unfolding assms(2) brelse_def wait_on_buffer_def given_back_def changed_def
  by (cases "buf s h") (auto simp: grow_def upd_inode_def upd_buf_def split: if_splits)

lemma grow_simps [simp]:
  "file_table (grow i pos s) = file_table s" "super (grow i pos s) = super s" "ker (grow i pos s) = ker s"
  "j \<noteq> i \<Longrightarrow> inode (grow i pos s) j = inode s j" "buf (grow i pos s) = buf s"
  "i_dev (inode (grow i pos s) j) = i_dev (inode s j)" "i_zone (inode (grow i pos s) j) = i_zone (inode s j)"
  "cache_at C (grow i pos s) = cache_at C s" "room C (grow i pos s) = room C s"
  "block_content (grow i pos s) = block_content s" "block_usable (grow i pos s) = block_usable s"
  by (simp_all add: grow_def)


lemma user_bytes_cong: "fs_mem (ker s') = fs_mem (ker s) \<Longrightarrow> user_bytes n b s' = user_bytes n b s"
  by (simp add: user_bytes_def)

lemma length_user_bytes [simp]: "length (user_bytes n b s) = n"
  by (simp add: user_bytes_def get_fs_bytes_def)

lemma file_write_turn:
  assumes at: "cache_at C s" "room C s" and left: "left \<noteq> 0" and limit: "p + left \<le> 1024 * file_blocks"
    and z: "file_block s i (p div 1024) = z" "z \<noteq> 0" and u: "way_usable s i (p div 1024)"
    and n: "n = min (1024 - p mod 1024) left" and d: "i_dev (inode s i) = d"
  obtains s3 old where "file_write_loop i (int p) b left s =
      file_write_loop i (int (p + n)) (b + of_nat n) (left - n) (grow i (int (p + n)) s3)"
    "cache_at C s3" "outside s s3" "block_usable s3 = block_usable s"
    "block_content s (d, z) = Some old" "length old = 1024"
    "block_content s3 = (block_content s)((d, z) \<mapsto> overwrite (p mod 1024) (user_bytes n b s) old)"
proof -
  have tn: "turn_chars (int p) left = n" by (simp add: turn_chars_nat n)
  have np: "p + n < 2 ^ 31" using limit n by simp
  have k: "p div 1024 < file_blocks" by (rule less_mult_imp_div_less) (use limit left in linarith)
  obtain s1 where s1: "create_block i (int (p div 1024)) s = Inr (uint z, s1)" "quiet C s s1"
    using bmap_block_there [OF at k u, of True] z by (auto simp: create_block_def)
  note q = quietD [OF s1(2)]
  have s32: "s32 (int p + int n) = int (p + n)" using np by (subst s32_id) simp_all
  have us: "block_usable s1 (d, z)" using u z by (simp add: q(4) way_usable_def d)
  have r1: "room C s1" using at(2) q(5) by simp
  obtain h s2 where h: "bread (uint d) (uint z) s1 = Inr (Some h, s2)" "cache_at (C(h := C h + 1)) s2" "outside s1 s2"
    "block_content s2 = block_content s1" "block_usable s2 = block_usable s1" "is_block s2 h d z"
    "b_uptodate (buf s2 h) \<noteq> 0" "block_content s1 (d, z) = Some (b_data (buf s2 h))"
    by (rule at_bread [OF q(1) r1 us]) (rule that)
  have old: "block_content s (d, z) = Some (b_data (buf s2 h))" using h(8) q(3) by simp
  have l: "length (b_data (buf s2 h)) = 1024" using content_length [OF at(1) old] by simp
  define x where "x = overwrite (p mod 1024) (user_bytes n b s) (b_data (buf s2 h))"
  have "n \<le> 1024 - p mod 1024" "p mod 1024 < 1024" using n by simp_all
  then have "p mod 1024 + n \<le> 1024" by linarith
  then have lx: "length x = BLOCK_SIZE" by (simp add: x_def length_overwrite l)
  have us2: "block_usable s2 (d, z)" using us h(5) by simp
  note ch = at_change [OF h(2,6,7) us2 lx]
  have hn: "h < nr_buffers (changed h x s2)" using h(6) by (simp add: is_block_def changed_def)
  have o2: "outside s (changed h x s2)" using outside_trans [OF q(2) outside_trans [OF h(3) ch(4)]] .
  have "room C (changed h x s2)" using at(2) room_outside [OF o2] by simp
  note g = at_release [OF ch(1) hn this]
  have i2: "inode s2 = inode s" using h(3) q(6) by (simp add: outside_def)
  have "fs_mem (ker (grow i (int (p + n)) (upd_buf h (\<lambda>b. b\<lparr>b_dirt := 1\<rparr>) s2))) = fs_mem (ker s)"
    using fs_mem_outside [OF h(3)] q(10) by simp
  note ub = user_bytes_cong [OF this, of n b]
  have "file_write_loop i (int p) b left s =
      file_write_loop i (int (p + n)) (b + of_nat n) (left - n) (grow i (int (p + n)) (given_back h (changed h x s2)))"
    using left s1(1) z(2) h(1) grow_brelse [OF g(1) x_def]
    by (subst file_write_loop.simps) (simp add: position q(6) d tn s32 Let_def unsigned_eq_0_iff ub [simplified])
  then show thesis
    by (rule that) (use g ch h(4,5) q(3,4) old l outside_trans [OF o2 g(5)] in \<open>simp_all add: x_def\<close>)
qed


text \<open>What a write leaves: the new bytes, the size, and the old content everywhere else.\<close>

definition in_range :: "fs \<Rightarrow> nat \<Rightarrow> nat \<Rightarrow> nat \<Rightarrow> u16 set" where
  "in_range s i p n = {file_block s i k | k. p div 1024 \<le> k \<and> 1024 * k < p + n}"

definition wrote :: "nat \<Rightarrow> nat \<Rightarrow> u8 list \<Rightarrow> fs \<Rightarrow> fs \<Rightarrow> bool" where
  "wrote i p vs s s' \<longleftrightarrow> same_map i s s' \<and>
     (\<forall>q < 1024 * file_blocks. file_byte s' i q =
        (if p \<le> q \<and> q < p + length vs then vs ! (q - p) else file_byte s i q)) \<and>
     (\<forall>d k. d \<noteq> i_dev (inode s i) \<or> k \<notin> in_range s i p (length vs) \<longrightarrow>
        block_content s' (d, k) = block_content s (d, k)) \<and>
     i_size (inode s' i) = (if vs = [] then i_size (inode s i) else max (i_size (inode s i)) (of_nat (p + length vs))) \<and>
     (\<forall>j. j \<noteq> i \<longrightarrow> inode s' j = inode s j) \<and> file_table s' = file_table s \<and> super s' = super s \<and>
     block_usable s' = block_usable s \<and> fs_mem (ker s') = fs_mem (ker s)"

lemma range_there_first: "range_there s i p n \<Longrightarrow> n \<noteq> 0 \<Longrightarrow> file_block s i (p div 1024) \<noteq> 0 \<and> way_usable s i (p div 1024)"
  using mult_div_mod_eq [of 1024 p] by (auto simp: range_there_def)

lemma range_there_rest:
  assumes "range_there s i p (m + n)" "same_map i s s'" "block_usable s' = block_usable s"
    and "p + (m + n) \<le> 1024 * file_blocks"
  shows "range_there s' i (p + m) n"
  unfolding range_there_def
proof (intro allI impI)
  fix k assume k: "(p + m) div 1024 \<le> k" "1024 * k < p + m + n"
  have "p div 1024 \<le> k" using k(1) div_le_mono [of p "p + m" 1024] by linarith
  then have "file_block s i k \<noteq> 0" "way_usable s i k" using assms(1) k by (simp_all add: range_there_def add.assoc)
  moreover have "1024 * k < 1024 * file_blocks" using k(2) assms(4) by (simp only: add.assoc)
  then have "k < file_blocks" by (simp only: mult_less_cancel1)
  ultimately show "file_block s' i k \<noteq> 0 \<and> way_usable s' i k"
    using assms(2) same_map_rules(2) [OF assms(2,3)] by (simp add: same_map_def)
qed

lemma wrote_turn:
  assumes own: "own_blocks s i" and k: "p div 1024 < file_blocks" and z: "file_block s i (p div 1024) = z" "z \<noteq> 0"
    and n: "0 < n" "n \<le> 1024 - p mod 1024" "p + n < 2 ^ 31" and vs: "length vs = n"
    and o: "outside s s3" "block_usable s3 = block_usable s"
    and old: "block_content s (i_dev (inode s i), z) = Some old" "length old = 1024"
    and c: "block_content s3 = (block_content s)((i_dev (inode s i), z) \<mapsto> overwrite (p mod 1024) vs old)"
  shows "wrote i p vs s (grow i (int (p + n)) s3)" (is "wrote i p vs s ?s")
proof -
  have i3: "inode s3 = inode s" "file_table s3 = file_table s" "super s3 = super s"
    using o(1) by (simp_all add: outside_def)
  have c': "block_content ?s = (block_content s)((i_dev (inode s i), z) \<mapsto> overwrite (p mod 1024) vs old)"
    using c by simp
  have dz: "i_dev (inode ?s i) = i_dev (inode s i)" "i_zone (inode ?s i) = i_zone (inode s i)" by (simp_all add: i3)
  have pm: "p mod 1024 < 1024" by simp
  have e: "1024 * (p div 1024) + p mod 1024 = p" by (rule mult_div_mod_eq)
  have fb: "file_byte ?s i q = (if p \<le> q \<and> q < p + length vs then vs ! (q - p) else file_byte s i q)"
    if q: "q < 1024 * file_blocks" for q
  proof (cases "q div 1024 = p div 1024")
    case True
    have e': "1024 * (q div 1024) + q mod 1024 = q" by (rule mult_div_mod_eq)
    have "p mod 1024 + length vs \<le> length old" using n(2) vs old(2) pm by linarith
    moreover have "q mod 1024 < length old" using old(2) by simp
    ultimately have nth: "overwrite (p mod 1024) vs old ! (q mod 1024) =
        (if p mod 1024 \<le> q mod 1024 \<and> q mod 1024 < p mod 1024 + length vs
         then vs ! (q mod 1024 - p mod 1024) else old ! (q mod 1024))" by (rule nth_overwrite)
    have "q mod 1024 - p mod 1024 = q - p" "(p mod 1024 \<le> q mod 1024) = (p \<le> q)"
      "(q mod 1024 < p mod 1024 + length vs) = (q < p + length vs)" using True e e' by linarith+
    moreover have "file_byte s i q = old ! (q mod 1024)" using z old(1) True by (simp add: file_byte_def Let_def)
    ultimately show ?thesis using write_bytes [OF own k z c' dz q] True nth by simp
  next
    case False
    have "\<not> (p \<le> q \<and> q < p + length vs)"
    proof
      assume a: "p \<le> q \<and> q < p + length vs"
      then have "q - p < 1024 - p mod 1024" using vs n(2) by linarith
      from div_within(1) [OF this] show False using a False by simp
    qed
    then show ?thesis using write_bytes [OF own k z c' dz q] False by auto
  qed
  have "p div 1024 \<le> p div 1024" "1024 * (p div 1024) < p + length vs" using vs n(1) e by linarith+
  then have "z \<in> in_range s i p (length vs)" using z(1) unfolding in_range_def by blast
  then have other: "block_content ?s (d, k) = block_content s (d, k)"
    if "d \<noteq> i_dev (inode s i) \<or> k \<notin> in_range s i p (length vs)" for d k
    using that c' by auto
  have "i_size (inode ?s i) = max (i_size (inode s i)) (of_nat (p + length vs))"
    using less_imp_le by (auto simp: grow_def i3 max_def not_less vs)
  then show ?thesis
    using write_same_map [OF own k z c' dz] fb other o(2) fs_mem_outside [OF o(1)] vs n(1)
    unfolding wrote_def by (auto simp: i3)
qed


lemma wroteD:
  assumes "wrote i p vs s s'"
  shows "same_map i s s'" "block_usable s' = block_usable s" "fs_mem (ker s') = fs_mem (ker s)"
    "file_table s' = file_table s" "super s' = super s" "j \<noteq> i \<Longrightarrow> inode s' j = inode s j"
    and "q < 1024 * file_blocks \<Longrightarrow> file_byte s' i q =
        (if p \<le> q \<and> q < p + length vs then vs ! (q - p) else file_byte s i q)"
    and "d \<noteq> i_dev (inode s i) \<or> k \<notin> in_range s i p (length vs) \<Longrightarrow> block_content s' (d, k) = block_content s (d, k)"
    and "i_size (inode s' i) = (if vs = [] then i_size (inode s i) else max (i_size (inode s i)) (of_nat (p + length vs)))"
  using assms unfolding wrote_def by blast+

lemma in_range_rest:
  assumes "same_map i s s1" "p + (m + n) \<le> 1024 * file_blocks"
  shows "in_range s1 i (p + m) n \<subseteq> in_range s i p (m + n)"
proof
  fix z assume "z \<in> in_range s1 i (p + m) n"
  then obtain k where k: "z = file_block s1 i k" "(p + m) div 1024 \<le> k" "1024 * k < p + m + n"
    by (auto simp: in_range_def)
  have "p div 1024 \<le> k" using k(2) div_le_mono [of p "p + m" 1024] by linarith
  moreover have "1024 * k < 1024 * file_blocks" using k(3) assms(2) by (simp only: add.assoc)
  then have "file_block s1 i k = file_block s i k" using assms(1) by (simp only: mult_less_cancel1 same_map_def)
  ultimately show "z \<in> in_range s i p (m + n)" using k by (auto simp: in_range_def add.assoc)
qed

lemma in_range_mono: "in_range s i p m \<subseteq> in_range s i p (m + n)"
  by (auto simp: in_range_def)

lemma wrote_append:
  assumes 1: "wrote i p xs s s1" and 2: "wrote i (p + length xs) ys s1 s2"
    and l: "p + (length xs + length ys) \<le> 1024 * file_blocks"
  shows "wrote i p (xs @ ys) s s2"
proof -
  note w1 = wroteD [OF 1] and w2 = wroteD [OF 2]
  have dev: "i_dev (inode s1 i) = i_dev (inode s i)" using w1(1) by (simp add: same_map_def)
  have c: "block_content s2 (d, k) = block_content s (d, k)"
    if "d \<noteq> i_dev (inode s i) \<or> k \<notin> in_range s i p (length (xs @ ys))" for d k
  proof -
    have "d \<noteq> i_dev (inode s i) \<or> k \<notin> in_range s i p (length xs)"
      using that in_range_mono [of s i p "length xs" "length ys"] by auto
    moreover have "d \<noteq> i_dev (inode s1 i) \<or> k \<notin> in_range s1 i (p + length xs) (length ys)"
      using that in_range_rest [OF w1(1) l] dev by auto
    ultimately show ?thesis using w1(8) w2(8) by simp
  qed
  have b: "file_byte s2 i q = (if p \<le> q \<and> q < p + length (xs @ ys) then (xs @ ys) ! (q - p) else file_byte s i q)"
    if q: "q < 1024 * file_blocks" for q
    using w1(7) [OF q] w2(7) [OF q] by (auto simp: nth_append)
  have e: "p + length (xs @ ys) = p + length xs + length ys" by simp
  have "(of_nat (p + length xs) :: u32) \<le> of_nat (p + length (xs @ ys))"
    using l by (simp add: word_le_nat_alt unat_of_nat_small del: of_nat_add)
  then have "i_size (inode s2 i) =
      (if xs @ ys = [] then i_size (inode s i) else max (i_size (inode s i)) (of_nat (p + length (xs @ ys))))"
    using w1(9) w2(9) unfolding e by (auto simp: max_def simp del: of_nat_add)
  then show ?thesis
    using w1 w2 c b same_map_trans [OF w1(1) w2(1)] unfolding wrote_def by simp
qed

lemma user_bytes_add:
  "user_bytes (m + n) b s = user_bytes m b s @ user_bytes n (b + of_nat m) s"
proof -
  have "[0..<m + n] = [0..<m] @ map (\<lambda>j. j + m) [0..<n]"
    using upt_add_eq_append [of 0 m n] map_add_upt [of m n] by (simp add: add.commute)
  then show ?thesis by (simp add: user_bytes_def get_fs_bytes_def comp_def ac_simps)
qed

lemma file_write_loop_bytes:
  assumes "cache_at C s" "room C s" "own_blocks s i" "p + left \<le> 1024 * file_blocks" "range_there s i p left"
  shows "\<exists>s'. file_write_loop i (int p) b left s = Inr (int (p + left), 0, s') \<and> cache_at C s' \<and> room C s' \<and>
    wrote i p (user_bytes left b s) s s'"
  using assms
proof (induction left arbitrary: s p b rule: less_induct)
  case (less left)
  show ?case
  proof (cases "left = 0")
    case True
    have "wrote i p [] s s" by (auto simp: wrote_def same_map_def)
    then show ?thesis
      using less.prems(1,2) True
      by (intro exI [of _ s]) (simp add: file_write_loop.simps user_bytes_def get_fs_bytes_def)
  next
    case False
    define n where "n = min (1024 - p mod 1024) left"
    have n0: "0 < n" "n \<le> left" "n \<le> 1024 - p mod 1024" using False by (simp_all add: n_def)
    have k: "p div 1024 < file_blocks" by (rule less_mult_imp_div_less) (use less.prems(4) False in linarith)
    define z where "z = file_block s i (p div 1024)"
    have z: "z \<noteq> 0" "way_usable s i (p div 1024)"
      using range_there_first [OF less.prems(5) False] by (simp_all add: z_def)
    obtain s3 old where s3: "file_write_loop i (int p) b left s =
        file_write_loop i (int (p + n)) (b + of_nat n) (left - n) (grow i (int (p + n)) s3)"
      "cache_at C s3" "outside s s3" "block_usable s3 = block_usable s"
      "block_content s (i_dev (inode s i), z) = Some old" "length old = 1024"
      "block_content s3 = (block_content s)((i_dev (inode s i), z) \<mapsto> overwrite (p mod 1024) (user_bytes n b s) old)"
      by (rule file_write_turn [OF less.prems(1,2) False less.prems(4) z_def [symmetric] z n_def refl]) (rule that)
    let ?s4 = "grow i (int (p + n)) s3"
    have np: "p + n < 2 ^ 31" using less.prems(4) n0(2) by simp
    have w1: "wrote i p (user_bytes n b s) s ?s4"
      by (rule wrote_turn [OF less.prems(3) k z_def [symmetric] z(1) n0(1,3) np length_user_bytes s3(3-7)])
    note w = wroteD [OF w1]
    have r4: "room C ?s4" using less.prems(2) room_outside [OF s3(3)] by simp
    have l4: "p + n + (left - n) \<le> 1024 * file_blocks" using n0 less.prems(4) by simp
    have t4: "range_there ?s4 i (p + n) (left - n)"
      by (rule range_there_rest [OF _ w(1,2)]) (use less.prems(4,5) n0 in simp_all)
    have "\<exists>s'. file_write_loop i (int (p + n)) (b + of_nat n) (left - n) ?s4 = Inr (int (p + n + (left - n)), 0, s') \<and>
        cache_at C s' \<and> room C s' \<and> wrote i (p + n) (user_bytes (left - n) (b + of_nat n) ?s4) ?s4 s'"
      by (rule less.IH) (use n0 r4 l4 t4 s3(2) less.prems(3) same_map_rules(1) [OF w(1)] in simp_all)
    then obtain s' where s': "file_write_loop i (int (p + n)) (b + of_nat n) (left - n) ?s4 = Inr (int (p + left), 0, s')"
        "cache_at C s'" "room C s'" "wrote i (p + n) (user_bytes (left - n) (b + of_nat n) ?s4) ?s4 s'"
      using n0 by auto
    have "user_bytes (left - n) (b + of_nat n) ?s4 = user_bytes (left - n) (b + of_nat n) s"
      by (rule user_bytes_cong [OF w(3)])
    then have "wrote i p (user_bytes left b s) s s'"
      using wrote_append [OF w1, of "user_bytes (left - n) (b + of_nat n) s" s'] s'(4) n0 less.prems(4)
        user_bytes_add [of n "left - n" b s] by simp
    then show ?thesis using s3(1) s'(1-3) by auto
  qed
qed


text \<open>The position a write starts at: the end of the file in append mode.\<close>

definition write_position :: "nat \<Rightarrow> nat \<Rightarrow> fs \<Rightarrow> int" where
  "write_position i f s =
     (if f_flags (file_table s f) AND O_APPEND \<noteq> 0 then sint (i_size (inode s i)) else f_pos (file_table s f))"

lemma file_write_wrote:
  assumes "cache_at C s" "room C s" "own_blocks s i" and p: "write_position i f s = int p" and n: "0 < n"
    and l: "p + n \<le> 1024 * file_blocks" and t: "range_there s i p n"
  obtains s1 s' where "file_write i f b (int n) s = Inr (int n, s')" "wrote i p (user_bytes n b s) s s1"
    "cache_at C s'" "room C s'" "file_byte s' i = file_byte s1 i" "block_content s' = block_content s1"
    "i_size (inode s' i) = i_size (inode s1 i)" "fs_mem (ker s') = fs_mem (ker s1)" "range_usable s' i p n"
    "f_flags (file_table s f) AND O_APPEND = 0 \<longrightarrow> f_pos (file_table s' f) = int (p + n)"
proof -
  obtain s1 where s1: "file_write_loop i (int p) b n s = Inr (int (p + n), 0, s1)" "cache_at C s1" "room C s1"
      "wrote i p (user_bytes n b s) s s1"
    using file_write_loop_bytes [OF assms(1-3) l t] by blast
  note w = wroteD [OF s1(4)]
  define ap where "ap \<longleftrightarrow> f_flags (file_table s f) AND O_APPEND \<noteq> 0"
  define s2 where "s2 = upd_inode i (\<lambda>nd. nd\<lparr>i_mtime := now s1\<rparr>) s1"
  define s' where "s' = (if ap then s2
      else upd_inode i (\<lambda>nd. nd\<lparr>i_ctime := now (upd_file f (\<lambda>f. f\<lparr>f_pos := int (p + n)\<rparr>) s2)\<rparr>)
        (upd_file f (\<lambda>f. f\<lparr>f_pos := int (p + n)\<rparr>) s2))"
  have run: "file_write i f b (int n) s = Inr (int n, s')"
    using s1(1) p n unfolding file_write_def write_position_def
    by (auto simp: s'_def s2_def ap_def Let_def now_def)
  have nm: "i_dev (inode s' i) = i_dev (inode s1 i)" "i_zone (inode s' i) = i_zone (inode s1 i)"
    "i_size (inode s' i) = i_size (inode s1 i)" by (simp_all add: s'_def s2_def)
  have c: "block_content s' = block_content s1" "block_usable s' = block_usable s1" "cache_at C s'" "room C s'"
    "fs_mem (ker s') = fs_mem (ker s1)"
    using s1(2,3) by (simp_all add: s'_def s2_def)
  have ind: "ind_entry s' = ind_entry s1" by (intro ext) (simp add: ind_entry_def entry_at_def c)
  have fb: "file_block s' i = file_block s1 i" by (intro ext) (simp add: file_block_def nm ind Let_def)
  have bytes: "file_byte s' i = file_byte s1 i" by (intro ext) (simp add: file_byte_def nm fb c Let_def)
  have wu: "way_usable s' i = way_usable s1 i"
    by (intro ext) (simp add: way_usable_def on_way_def nm ind fb c Let_def)
  have "range_there s1 i (p + 0) n" by (rule range_there_rest [OF _ w(1,2)]) (use t l in simp_all)
  then have "range_usable s' i p n" by (simp add: range_there_def range_usable_def wu)
  moreover have "\<not> ap \<longrightarrow> f_pos (file_table s' f) = int (p + n)" by (simp add: s'_def s2_def)
  ultimately show ?thesis
    using that [OF run s1(4) c(3,4) bytes c(1) nm(3) c(5)] by (simp add: ap_def)
qed

text \<open>
  C7. \<open>file_write\<close> puts the bytes of the user into the file and into no other block of a disk,
  lets it grow to the end of the write, and moves the position unless it appends.
\<close>

theorem file_write_bytes:
  assumes "cache_at C s" "room C s" "own_blocks s i" and "write_position i f s = int p" and "0 < n"
    and "p + n \<le> 1024 * file_blocks" and "range_there s i p n"
  shows "\<exists>s'. file_write i f b (int n) s = Inr (int n, s') \<and> cache_at C s' \<and>
    (\<forall>q < 1024 * file_blocks. file_byte s' i q =
       (if p \<le> q \<and> q < p + n then user_bytes n b s ! (q - p) else file_byte s i q)) \<and>
    (\<forall>d k. d \<noteq> i_dev (inode s i) \<or> k \<notin> in_range s i p n \<longrightarrow> block_content s' (d, k) = block_content s (d, k)) \<and>
    i_size (inode s' i) = max (i_size (inode s i)) (of_nat (p + n)) \<and>
    (f_flags (file_table s f) AND O_APPEND = 0 \<longrightarrow> f_pos (file_table s' f) = int (p + n))"
proof (rule file_write_wrote [OF assms])
  fix s1 s'
  assume s': "file_write i f b (int n) s = Inr (int n, s')" "wrote i p (user_bytes n b s) s s1" "cache_at C s'"
      "file_byte s' i = file_byte s1 i" "block_content s' = block_content s1" "i_size (inode s' i) = i_size (inode s1 i)"
      "f_flags (file_table s f) AND O_APPEND = 0 \<longrightarrow> f_pos (file_table s' f) = int (p + n)"
  note w = wroteD [OF s'(2)]
  have "i_size (inode s1 i) = max (i_size (inode s i)) (of_nat (p + n))"
    using w(9) assms(5) by (simp add: user_bytes_def get_fs_bytes_def)
  then show ?thesis using s' w by (intro exI [of _ s']) simp
qed



section \<open>At a file of two blocks\<close>

definition small_file :: fs where
  "small_file = small_disk\<lparr>inode := (\<lambda>i. if i = 3 then no_inode\<lparr>i_mode := 0x81ff, i_dev := 0x301, i_num := 5, i_size := 1500,
     i_nlinks := 1, i_count := 1, i_zone := [7, 8, 0, 0, 0, 0, 0, 0, 0]\<rparr> else no_inode)\<rparr>"

lemma small_file_simps [simp]:
  "inode small_file 3 = no_inode\<lparr>i_mode := 0x81ff, i_dev := 0x301, i_num := 5, i_size := 1500,
     i_nlinks := 1, i_count := 1, i_zone := [7, 8, 0, 0, 0, 0, 0, 0, 0]\<rparr>"
  "nr_buffers small_file = 2" "file_table small_file = file_table small_disk" "ker small_file = one_task"
  using small_disk_ok(2) by (simp_all add: small_file_def small_disk_def buffer_init_def Let_def)

lemma small_file_cache: "cache_at (\<lambda>_. 0) small_file" "room (\<lambda>_. 0) small_file"
  "unat k < 1000 \<Longrightarrow> block_usable small_file (0x301, k)"
proof -
  have e: "same_cache small_disk small_file" by (simp add: same_cache_def small_file_def)
  have "cache_at (\<lambda>_. 0) small_disk" using small_disk_ok by (simp add: cache_at_def)
  then show "cache_at (\<lambda>_. 0) small_file" using same_cache_rules(1) [OF e] by simp
  show "room (\<lambda>_. 0) small_file" by (auto simp: room_def intro: exI [of _ 0])
  show "unat k < 1000 \<Longrightarrow> block_usable small_file (0x301, k)"
    using small_disk_usable same_cache_rules(4) [OF e] by simp
qed

lemma small_file_blocks: "file_block small_file 3 k = (if k = 0 then 7 else if k = 1 then 8 else 0)"
proof (cases "k < 7")
  case True
  then have "k \<in> {0, 1, 2, 3, 4, 5, 6}" by auto
  then show ?thesis by (auto simp: file_block_def Let_def)
next
  case False
  then show ?thesis by (simp add: file_block_def Let_def ind_entry_def)
qed

lemma small_file_way: "on_way small_file 3 k = (if k < 7 then [] else if k < 519 then [0] else [0, 0])"
  by (simp add: on_way_def Let_def ind_entry_def)

lemma small_file_own: "own_blocks small_file 3" "range_there small_file 3 0 1500" "range_usable small_file 3 0 1500"
  using small_file_cache(3) [of 7] small_file_cache(3) [of 8]
  by (auto simp: own_blocks_def small_file_blocks small_file_way range_there_def range_usable_def way_usable_def
      split: if_splits)

lemma small_file_table: "f_pos (file_table small_file 0) = 0" "f_flags (file_table small_file 0) = 0"
  by (simp_all add: small_disk_def buffer_init_def Let_def)


theorem file_write_bytes_witness:
  "\<exists>s'. file_write 3 0 64 1500 small_file = Inr (1500, s') \<and> file_byte s' 3 1100 = 1"
proof -
  have "\<exists>s'. file_write 3 0 64 (int 1500) small_file = Inr (int 1500, s') \<and>
      (\<forall>q < 1024 * file_blocks. file_byte s' 3 q =
        (if 0 \<le> q \<and> q < 0 + 1500 then user_bytes 1500 64 small_file ! (q - 0) else file_byte small_file 3 q))"
    using file_write_bytes [OF small_file_cache(1,2) small_file_own(1), of 0 0 1500 64] small_file_own(2) small_file_table
    by (auto simp: write_position_def)
  moreover have "user_bytes 1500 64 small_file ! 1100 = 1"
    by (simp add: user_bytes_def get_fs_bytes_def get_fs_byte_def one_task_def)
  ultimately show ?thesis by auto
qed


end
