(* ===== verification/Frame.thy ===== *)
theory Frame
  imports Open Fork
begin

unbundle bit_operations_syntax

text \<open>
  What the routines on buffers, blocks, inodes and names leave alone: the file table and
  everything of the processes but the memory. \<open>held\<close> is that part of the state, and every lemma
  is an equation on it, so that a chain of calls is a chain of equations.
\<close>

definition held :: "fs \<Rightarrow> (nat \<Rightarrow> open_file) \<times> kern" where
  "held s = (file_table s, (ker s)\<lparr>mem := \<lparr>mem_map = \<lambda>_. 0, phys = \<lambda>_. 0\<rparr>\<rparr>)"

lemma held_updates [simp]:
  "held (upd_buf b f s) = held s" "held (upd_inode i g s) = held s" "held (upd_super j h s) = held s"
  "held (s\<lparr>hash_table := ht\<rparr>) = held s" "held (s\<lparr>free_list := fl\<rparr>) = held s" "held (s\<lparr>disk := d\<rparr>) = held s"
  "held (s\<lparr>last_allocated_inode := l\<rparr>) = held s" "held (upd_ker (\<lambda>k. k\<lparr>mem := m k\<rparr>) s) = held s"
  "held (s\<lparr>ttys := t\<rparr>) = held s" "held (s\<lparr>gdt := gd\<rparr>) = held s" "held (s\<lparr>callable := ca\<rparr>) = held s" "held (s\<lparr>task_page := tp\<rparr>) = held s"
  by (simp_all add: held_def upd_buf_def upd_inode_def upd_super_def upd_ker_def)

lemma heldD:
  assumes "held s' = held s"
  shows "file_table s' = file_table s" "task (ker s') = task (ker s)" "current (ker s') = current (ker s)"
    "me s' = me s" "last_pid (ker s') = last_pid (ker s)" "fs_mem (ker s') = fs_mem (ker s)"
    "jiffies (ker s') = jiffies (ker s)"
  using assms by (cases "ker s", cases "ker s'", simp add: held_def cur_def)+

lemmas split_result = andthen_eq_Inr Let_def

named_theorems held

section \<open>Buffers\<close>

lemma held_rw_disk [simp]: "held (rw_disk rw b s) = held s"
  by (simp add: rw_disk_def Let_def split: option.split)

lemma held_ll_rw_block [held]: "ll_rw_block rw b s = Inr s' \<Longrightarrow> held s' = held s"
  by (auto simp: ll_rw_block_def split: if_splits option.splits)

lemma wait_on_buffer_same [held]: "wait_on_buffer b s = Inr s' \<Longrightarrow> s' = s"
  by (simp add: wait_on_buffer_def split: if_splits)

lemma held_sync_bufs [held]: "sync_bufs dev bs s = Inr s' \<Longrightarrow> held s' = held s"
  by (induction bs arbitrary: s) (auto simp: split_result split: if_splits dest!: held)

lemma held_sync_dev [held]: "sync_dev dev s = Inr s' \<Longrightarrow> held s' = held s"
  by (auto simp: sync_dev_def dest!: held)

lemma held_unhash [simp]: "held (unhash b s) = held s"
  by (simp add: unhash_def Let_def split: option.split)

lemma held_remove_from_queues [held]: "remove_from_queues b s = Inr s' \<Longrightarrow> held s' = held s"
  by (auto simp: remove_from_queues_def unlink_free_def Let_def split: option.splits)

lemma held_enhash [simp]: "held (enhash b s) = held s"
  by (simp add: enhash_def set_prev_def Let_def split: option.split)

lemma held_insert_into_queues [held]: "insert_into_queues b s = Inr s' \<Longrightarrow> held s' = held s"
  by (auto simp: insert_into_queues_def link_free_def split_result split: option.splits)

lemma held_brelse [held]: "brelse b s = Inr s' \<Longrightarrow> held s' = held s"
  by (auto simp: brelse_def split_result split: if_splits dest!: held)

lemma held_claim [held]: "claim dev block b s = Inr s' \<Longrightarrow> held s' = held s"
  by (auto simp: claim_def split_result split: if_splits dest!: held)

lemma joined_Inr: "joined r = Inr x \<longleftrightarrow> r = Some (Inr x)"
  by (cases r) simp_all

lemma returns_Inr: "returns r = Inr x \<longleftrightarrow> r = Some x"
  by (cases r) simp_all

lemma held_get_hash_loop:
  assumes "get_hash_loop dev block s = Some r"
  shows "\<forall>x s'. r = Inr (x, s') \<longrightarrow> held s' = held s"
  using assms
proof (induction rule: get_hash_loop.raw_induct [rotated, consumes 1])
  case (1 loop dev block s r)
  then have "loop d k t = Some (Inr (x, t')) \<Longrightarrow> held t' = held t" for d k t x t' by blast
  with 1(2) show ?case
    by (auto split: sum.splits option.splits if_splits dest!: held)
qed

lemma held_get_hash_table [held]: "get_hash_table dev block s = Inr (x, s') \<Longrightarrow> held s' = held s"
  using held_get_hash_loop by (fastforce simp: get_hash_table_def joined_Inr)

lemma held_getblk_loop:
  assumes "getblk_loop dev block s = Some r"
  shows "\<forall>x s'. r = Inr (x, s') \<longrightarrow> held s' = held s"
  using assms
proof (induction rule: getblk_loop.raw_induct [rotated, consumes 1])
  case (1 loop dev block s r)
  then have "loop d k t = Some (Inr (x, t')) \<Longrightarrow> held t' = held t" for d k t x t' by blast
  with 1(2) show ?case
    by (auto simp: split_result split: sum.splits option.splits if_splits prod.splits dest!: held)
qed

lemma held_getblk [held]: "getblk dev block s = Inr (x, s') \<Longrightarrow> held s' = held s"
  using held_getblk_loop by (fastforce simp: getblk_def joined_Inr)

lemma held_bread [held]: "bread dev block s = Inr (x, s') \<Longrightarrow> held s' = held s"
  by (auto simp: bread_def split_result split: if_splits prod.splits dest!: held)


section \<open>Blocks and inodes\<close>

lemma held_clear_zone [held]: "clear_zone sb block s = Inr s' \<Longrightarrow> held s' = held s"
  by (auto simp: clear_zone_def Let_def split: option.splits prod.splits if_splits)

lemma held_free_block [held]: "free_block dev block s = Inr s' \<Longrightarrow> held s' = held s"
  by (auto simp: free_block_def split_result split: option.splits prod.splits if_splits dest!: held)

lemma held_new_block [held]: "new_block dev s = Inr (z, s') \<Longrightarrow> held s' = held s"
  by (auto simp: new_block_def split_result split: option.splits prod.splits if_splits dest!: held)

lemma held_clear_inode [simp]: "held (clear_inode i s) = held s"
  by (simp add: clear_inode_def)

lemma held_free_inode [held]: "free_inode i s = Inr s' \<Longrightarrow> held s' = held s"
  by (auto simp: free_inode_def Let_def split: option.splits prod.splits if_splits)

lemma held_set_zone [simp]: "held (set_zone i k z s) = held s"
  by (simp add: set_zone_def)

lemma held_free_zones [held]: "free_zones dev b is s = Inr s' \<Longrightarrow> held s' = held s"
  by (induction "is" arbitrary: s) (auto simp: split_result split: if_splits dest!: held)

lemma held_free_ind [held]: "free_ind dev block s = Inr s' \<Longrightarrow> held s' = held s"
  by (auto simp: free_ind_def split_result split: option.splits if_splits dest!: held)

lemma held_free_inds [held]: "free_inds dev b is s = Inr s' \<Longrightarrow> held s' = held s"
  by (induction "is" arbitrary: s) (auto simp: split_result split: if_splits dest!: held)

lemma held_free_dind [held]: "free_dind dev block s = Inr s' \<Longrightarrow> held s' = held s"
  by (auto simp: free_dind_def split_result split: option.splits if_splits dest!: held)

lemma held_free_direct [held]: "free_direct i ks s = Inr s' \<Longrightarrow> held s' = held s"
  by (induction ks arbitrary: s) (auto simp: split_result split: if_splits dest!: held)

lemma held_truncate_inode [held]: "truncate_inode i s = Inr s' \<Longrightarrow> held s' = held s"
  by (auto simp: truncate_inode_def split_result split: if_splits dest!: held)

lemma wait_on_inode_same [held]: "wait_on_inode i s = Inr s' \<Longrightarrow> s' = s"
  by (simp add: wait_on_inode_def split: if_splits)

lemma held_lock_inode [held]: "lock_inode i s = Inr s' \<Longrightarrow> held s' = held s"
  by (auto simp: lock_inode_def split: if_splits)

lemma held_unlock_inode [simp]: "held (unlock_inode i s) = held s"
  by (simp add: unlock_inode_def)

lemma held_read_inode [held]: "read_inode i s = Inr s' \<Longrightarrow> held s' = held s"
  by (auto simp: read_inode_def split_result split: option.splits if_splits dest!: held)

lemma held_write_inode [held]: "write_inode i s = Inr s' \<Longrightarrow> held s' = held s"
  by (auto simp: write_inode_def split_result split: option.splits if_splits dest!: held)

lemma held_block_entry [held]: "block_entry create i b k s = Inr (z, s') \<Longrightarrow> held s' = held s"
  by (auto simp: block_entry_def split_result split: if_splits dest!: held)

lemma held_new_zone [held]: "new_zone create i k s = Inr s' \<Longrightarrow> held s' = held s"
  by (auto simp: new_zone_def split_result split: if_splits dest!: held)

lemma held_bmap_block [held]: "bmap_block i block create s = Inr (z, s') \<Longrightarrow> held s' = held s"
  by (auto simp: bmap_block_def split_result split: option.splits if_splits dest!: held)

lemma held_bmap [held]: "bmap i block s = Inr (z, s') \<Longrightarrow> held s' = held s"
  by (auto simp: bmap_def dest!: held)

lemma held_create_block [held]: "create_block i block s = Inr (z, s') \<Longrightarrow> held s' = held s"
  by (auto simp: create_block_def dest!: held)

lemma held_iput_loop:
  assumes "iput_loop i s = Some r"
  shows "\<forall>s'. r = Inr s' \<longrightarrow> held s' = held s"
  using assms
proof (induction rule: iput_loop.raw_induct [rotated, consumes 1])
  case (1 loop i s r)
  then have "loop j t = Some (Inr t') \<Longrightarrow> held t' = held t" for j t t' by blast
  with 1(2) show ?case
    by (auto simp: split_result split: sum.splits if_splits dest!: held)
qed

lemma held_iput_pipe [held]: "iput_pipe i s = Inr s' \<Longrightarrow> held s' = held s"
  by (auto simp: iput_pipe_def split_result split: if_splits)

lemma held_iput_some [held]: "iput_some i s = Inr s' \<Longrightarrow> held s' = held s"
  using held_iput_loop by (fastforce simp: iput_some_def split_result joined_Inr split: if_splits dest!: held)

lemma held_iput [held]: "iput i s = Inr s' \<Longrightarrow> held s' = held s"
  by (auto simp: iput_def split: option.splits dest!: held)

lemma held_clean_inode [held]:
  assumes "joined (clean_inode i s) = Inr s'"
  shows "held s' = held s"
proof -
  have "\<forall>s'. r = Inr s' \<longrightarrow> held s' = held s" if "clean_inode i s = Some r" for r
    using that
  proof (induction rule: clean_inode.raw_induct [rotated, consumes 1])
    case (1 loop i s r)
    then have "loop j t = Some (Inr t') \<Longrightarrow> held t' = held t" for j t t' by blast
    with 1(2) show ?case
      by (auto simp: split_result split: sum.splits if_splits dest!: held)
  qed
  then show ?thesis using assms by (simp add: joined_Inr)
qed

lemma held_get_empty_inode [held]: "get_empty_inode s = Inr (i, s') \<Longrightarrow> held s' = held s"
proof -
  have "\<forall>x s'. r = Inr (x, s') \<longrightarrow> held s' = held s" if "empty_loop s = Some r" for s r
    using that
  proof (induction rule: empty_loop.raw_induct [rotated, consumes 1])
    case (1 loop s r)
    then have "loop t = Some (Inr (x, t')) \<Longrightarrow> held t' = held t" for t x t' by blast
    with 1(2) show ?case
      by (auto simp: split_result split: sum.splits if_splits option.splits dest!: held)
  qed
  then show "get_empty_inode s = Inr (i, s') \<Longrightarrow> held s' = held s"
    by (fastforce simp: get_empty_inode_def split_result joined_Inr)
qed

lemma held_iget [held]: "iget dev nr s = Inr (i, s') \<Longrightarrow> held s' = held s"
  by (auto simp: iget_def split_result split: if_splits option.splits dest!: held)

lemma held_new_inode [held]: "new_inode dev s = Inr (i, s') \<Longrightarrow> held s' = held s"
  by (auto simp: new_inode_def Let_def elim!: andthen_InrE split: prod.splits if_splits option.splits dest!: held)

lemma held_get_pipe_inode [held]: "get_pipe_inode s = Inr (i, s') \<Longrightarrow> held s' = held s"
  by (auto simp: get_pipe_inode_def Let_def elim!: andthen_InrE split: prod.splits if_splits dest!: held)


section \<open>Names\<close>

lemma held_set_bytes [simp]: "held (set_bytes b off xs s) = held s" "held (dirty b s) = held s"
  "held (set_de_inode b off v s) = held s" "held (Namei.extend dir i b off s) = held s"
  "held (unlink_inode i s) = held s"
  by (simp_all add: set_bytes_def dirty_def set_de_inode_def Namei.extend_def unlink_inode_def)

lemma held_find_loop [held]: "find_loop dir name len entries i b off s = Inr (r, s') \<Longrightarrow> held s' = held s"
proof (induction dir name len entries i b off s rule: find_loop.induct)
  case (1 dir name len entries i b off s)
  consider (stop) "entries \<le> i" | (block) "\<not> entries \<le> i" "BLOCK_SIZE \<le> off"
    | (entry) "\<not> entries \<le> i" "\<not> BLOCK_SIZE \<le> off" by blast
  then show ?case
  proof cases
    case stop
    then show ?thesis
      using 1(3) by (subst (asm) find_loop.simps) (auto simp: split_result dest!: held)
  next
    case block
    obtain s1 z s2 bh s3 where r: "brelse b s = Inr s1"
        "bmap dir (int (i div DIR_ENTRIES_PER_BLOCK)) s1 = Inr (z, s2)"
        "(if z \<noteq> 0 then bread (uint (i_dev (inode s2 dir))) z s2 else Inr (None, s2)) = Inr (bh, s3)"
      and e: "(case bh of None \<Rightarrow> if i + DIR_ENTRIES_PER_BLOCK < entries then Inl Fault else Inr (None, s3)
        | Some b \<Rightarrow> find_loop dir name len entries i b 0 s3) = Inr (r, s')"
      using 1(3) block by (subst (asm) find_loop.simps) (auto elim!: andthen_InrE)
    have "held s3 = held s" using r by (auto split: if_splits dest!: held)
    then show ?thesis using e 1(1) [OF block r(1,2) refl r(3) refl] by (auto split: option.splits if_splits)
  next
    case entry
    then show ?thesis
      using 1(3) 1(2) [OF entry] by (subst (asm) find_loop.simps) (auto split: if_splits)
  qed
qed

lemma held_find_entry [held]: "find_entry dir name len s = Inr (r, s') \<Longrightarrow> held s' = held s"
  by (auto simp: find_entry_def split_result split: if_splits option.splits dest!: held)

lemma held_next_block [held]: "next_block dir i b s = Inr (z, bh, s') \<Longrightarrow> held s' = held s"
  by (auto simp: next_block_def split_result split: if_splits option.splits dest!: held)

lemma held_add_loop:
  assumes "add_loop dir name len i b off s = Some r"
  shows "\<forall>x s'. r = Inr (x, s') \<longrightarrow> held s' = held s"
  using assms
proof (induction rule: add_loop.raw_induct [rotated, consumes 1])
  case (1 loop dir name len i b off s r)
  then have "loop d nm l j c o' t = Some (Inr (x, t')) \<Longrightarrow> held t' = held t" for d nm l j c o' t x t' by blast
  with 1(2) show ?case
    by (auto split: sum.splits if_splits option.splits prod.splits dest!: held)
qed

lemma held_add_entry [held]: "add_entry dir name len s = Inr (r, s') \<Longrightarrow> held s' = held s"
  using held_add_loop
  by (fastforce simp: add_entry_def split_result joined_Inr split: if_splits option.splits dest!: held)

lemma held_enter [held]: "Namei.enter dir b off s = Inr (i, s') \<Longrightarrow> held s' = held s"
  by (auto simp: Namei.enter_def split_result dest!: held)

lemma held_get_dir_loop:
  assumes "get_dir_loop path i s = Some r"
  shows "\<forall>x s'. r = Inr (x, s') \<longrightarrow> held s' = held s"
  using assms
proof (induction rule: get_dir_loop.raw_induct [rotated, consumes 1])
  case (1 loop path i s r)
  then have "loop p j t = Some (Inr (x, t')) \<Longrightarrow> held t' = held t" for p j t x t' by blast
  with 1(2) show ?case
    by (auto simp: split_result split: sum.splits if_splits option.splits prod.splits dest!: held)
qed

lemma held_get_dir [held]: "get_dir path s = Inr (r, s') \<Longrightarrow> held s' = held s"
  by (auto simp: get_dir_def Let_def joined_Inr split: if_splits dest!: held_get_dir_loop)

lemma held_dir_namei [held]: "dir_namei path s = Inr (r, s') \<Longrightarrow> held s' = held s"
  by (auto simp: dir_namei_def split_result split: option.splits dest!: held)

lemma held_namei [held]: "namei path s = Inr (r, s') \<Longrightarrow> held s' = held s"
  by (auto simp: namei_def Let_def elim!: andthen_InrE split: prod.splits option.splits if_splits dest!: held)

lemma held_leave [held]: "leave is bh r s = Inr (x, s') \<Longrightarrow> held s' = held s"
proof (induction "is" arbitrary: s)
  case Nil
  then show ?case by (cases bh) (auto simp: split_result dest!: held)
next
  case (Cons i "is")
  then show ?case by (auto simp: split_result dest!: held)
qed

lemma held_create_file [held]: "create_file dir base len flag mode s = Inr (r, s') \<Longrightarrow> held s' = held s"
  by (auto simp: create_file_def Let_def elim!: andthen_InrE split: prod.splits option.splits if_splits dest!: held)

lemma held_open_file_at [held]: "open_file_at dir b off flag s = Inr (r, s') \<Longrightarrow> held s' = held s"
  by (auto simp: open_file_at_def Let_def elim!: andthen_InrE split: prod.splits option.splits if_splits dest!: held)

lemma held_open_namei [held]: "open_namei path flag mode s = Inr (r, s') \<Longrightarrow> held s' = held s"
  by (auto simp: open_namei_def Let_def elim!: andthen_InrE split: prod.splits option.splits if_splits dest!: held)

end
