(* ===== verification/File_Table.thy ===== *)
theory File_Table
  imports Frame Exec Buffer_Props
begin

unbundle bit_operations_syntax

text \<open>
  The use counts of the file table (fs/open.c, fs/fcntl.c, fs/pipe.c, kernel/fork.c,
  kernel/exit.c): \<open>descriptors k f\<close> is the number of descriptors of all processes for entry \<open>f\<close>.
  The invariant \<open>files_ok\<close> says that this is \<open>f_count\<close>, and every call that opens, copies, passes
  on or closes descriptors keeps it.
\<close>

section \<open>The invariant\<close>

definition file_refs :: "nat \<Rightarrow> task_struct option \<Rightarrow> nat" where
  "file_refs f t = (case t of None \<Rightarrow> 0 | Some t \<Rightarrow> count_list (filp t) (Some f))"

definition descriptors :: "kern \<Rightarrow> nat \<Rightarrow> nat" where
  "descriptors k f = (\<Sum>i<NR_TASKS. file_refs f (task k i))"

definition filp_ok :: "task_struct \<Rightarrow> bool" where
  "filp_ok t \<longleftrightarrow> length (filp t) = NR_OPEN \<and> (\<forall>f. Some f \<in> set (filp t) \<longrightarrow> f < NR_FILE) \<and>
     (state t = TASK_ZOMBIE \<longrightarrow> set (filp t) \<subseteq> {None})"

text \<open>Process 0 never ends, and what runs is not a zombie.\<close>

definition live :: "kern \<Rightarrow> nat \<Rightarrow> bool" where
  "live k i = (case task k i of None \<Rightarrow> False | Some t \<Rightarrow> state t \<noteq> TASK_ZOMBIE)"

definition alive :: "kern \<Rightarrow> bool" where
  "alive k \<longleftrightarrow> current k < NR_TASKS \<and> live k (current k) \<and> live k 0"

definition tasks_ok :: "kern \<Rightarrow> bool" where
  "tasks_ok k \<longleftrightarrow> alive k \<and> (\<forall>i < NR_TASKS. \<forall>t. task k i = Some t \<longrightarrow> filp_ok t)"

definition files_ok :: "fs \<Rightarrow> bool" where
  "files_ok s \<longleftrightarrow> tasks_ok (ker s) \<and>
     (\<forall>f < NR_FILE. unat (f_count (file_table s f)) = descriptors (ker s) f)"

lemma count_list_update:
  "k < length xs \<Longrightarrow> count_list (xs[k := v]) x + of_bool (xs ! k = x) = count_list xs x + of_bool (v = x)"
proof (induction xs arbitrary: k)
  case (Cons y ys)
  then show ?case by (cases k) auto
qed simp

lemma descriptors_cong:
  "(\<And>i. i < NR_TASKS \<Longrightarrow> map_option filp (task k' i) = map_option filp (task k i)) \<Longrightarrow> descriptors k' f = descriptors k f"
  unfolding descriptors_def
proof (rule sum.cong [OF refl])
  fix i assume e: "\<And>i. i < NR_TASKS \<Longrightarrow> map_option filp (task k' i) = map_option filp (task k i)" and "i \<in> {..<NR_TASKS}"
  then have "map_option filp (task k' i) = map_option filp (task k i)" by simp
  then show "file_refs f (task k' i) = file_refs f (task k i)"
    by (cases "task k' i"; cases "task k i") (simp_all add: file_refs_def)
qed

lemma descriptors_upd:
  assumes "i < NR_TASKS"
  shows "descriptors (k\<lparr>task := (task k)(i := t)\<rparr>) f + file_refs f (task k i) = descriptors k f + file_refs f t"
proof -
  have "(\<Sum>j\<in>{..<NR_TASKS} - {i}. file_refs f (((task k)(i := t)) j)) = (\<Sum>j\<in>{..<NR_TASKS} - {i}. file_refs f (task k j))"
    by (rule sum.cong) auto
  then show ?thesis
    using assms sum.remove [of "{..<NR_TASKS}" i "\<lambda>j. file_refs f (((task k)(i := t)) j)"]
      sum.remove [of "{..<NR_TASKS}" i "\<lambda>j. file_refs f (task k j)"]
    by (simp add: descriptors_def)
qed

lemma descriptors_bound: "tasks_ok k \<Longrightarrow> descriptors k f \<le> NR_TASKS * NR_OPEN"
proof -
  assume ok: "tasks_ok k"
  have "descriptors k f \<le> (\<Sum>i<NR_TASKS. NR_OPEN)"
    unfolding descriptors_def
  proof (rule sum_mono)
    fix i assume i: "i \<in> {..<NR_TASKS}"
    show "file_refs f (task k i) \<le> NR_OPEN"
    proof (cases "task k i")
      case (Some t)
      then have "length (filp t) = NR_OPEN" using ok i by (auto simp: tasks_ok_def filp_ok_def)
      then show ?thesis using count_le_length [of "filp t" "Some f"] Some by (simp add: file_refs_def)
    qed (simp add: file_refs_def)
  qed
  then show ?thesis by simp
qed

text \<open>A task with another value of \<open>filp\<close>.\<close>

lemma task_set_filp: "task (ker (set_filp fd v s)) i =
    (if i = current (ker s) then map_option (\<lambda>t. t\<lparr>filp := (filp t)[fd := v]\<rparr>) (task (ker s) i) else task (ker s) i)"
  by (simp add: set_filp_def upd_ker_def set_cur_def set_task_def)

lemma set_filp_simps [simp]:
  "file_table (set_filp fd v s) = file_table s" "current (ker (set_filp fd v s)) = current (ker s)"
  by (simp_all add: set_filp_def upd_ker_def set_cur_def set_task_def)

lemma alive_me: "alive (ker s) \<Longrightarrow> task (ker s) (current (ker s)) = Some (me s)"
  by (auto simp: alive_def live_def cur_def split: option.splits)

lemma alive_state: "alive (ker s) \<Longrightarrow> state (me s) \<noteq> TASK_ZOMBIE"
  by (auto simp: alive_def live_def cur_def split: option.splits)

lemma filp_ok_me: "tasks_ok (ker s) \<Longrightarrow> filp_ok (me s)"
  using alive_me by (auto simp: tasks_ok_def alive_def)

lemma live_set_filp [simp]: "live (ker (set_filp fd v s)) i = live (ker s) i"
  by (auto simp: live_def task_set_filp split: option.split)

lemma alive_set_filp [simp]: "alive (ker (set_filp fd v s)) = alive (ker s)"
  by (simp add: alive_def)

lemma me_set_filp: "alive (ker s) \<Longrightarrow> me (set_filp fd v s) = (me s)\<lparr>filp := (filp (me s))[fd := v]\<rparr>"
  using alive_me [of s] alive_me [of "set_filp fd v s"] by (simp add: task_set_filp)

lemma descriptors_set_filp:
  assumes "alive (ker s)" "length (filp (me s)) = NR_OPEN" "fd < NR_OPEN"
  shows "descriptors (ker (set_filp fd v s)) f + of_bool (filp (me s) ! fd = Some f) =
    descriptors (ker s) f + of_bool (v = Some f)"
proof -
  let ?k = "ker s"
  let ?t = "(me s)\<lparr>filp := (filp (me s))[fd := v]\<rparr>"
  have "ker (set_filp fd v s) = ?k\<lparr>task := (task ?k)(current ?k := Some ?t)\<rparr>"
    using alive_me [OF assms(1)] by (simp add: set_filp_def upd_ker_def set_cur_def set_task_def)
  then show ?thesis
    using descriptors_upd [of "current ?k" ?k "Some ?t" f] assms alive_me [OF assms(1)]
      count_list_update [of fd "filp (me s)" v "Some f"]
    by (simp add: file_refs_def alive_def)
qed

lemma tasks_ok_set_filp:
  assumes "tasks_ok (ker s)" "\<forall>f. v = Some f \<longrightarrow> f < NR_FILE"
  shows "tasks_ok (ker (set_filp fd v s))"
proof -
  note a = assms(1) [unfolded tasks_ok_def, THEN conjunct1]
  have "filp_ok t" if i: "i < NR_TASKS" and t: "task (ker (set_filp fd v s)) i = Some t" for i t
  proof (cases "i = current (ker s)")
    case True
    then have "t = (me s)\<lparr>filp := (filp (me s))[fd := v]\<rparr>" using t alive_me [OF a] by (simp add: task_set_filp)
    then show ?thesis
      using filp_ok_me [OF assms(1)] alive_state [OF a] assms(2) set_update_subset_insert [of "filp (me s)" fd v]
      by (auto simp: filp_ok_def subset_iff)
  next
    case False
    then show ?thesis using assms(1) i t by (simp add: tasks_ok_def task_set_filp)
  qed
  then show ?thesis using a by (simp add: tasks_ok_def)
qed


section \<open>States with the same descriptors\<close>

definition same_filps :: "kern \<Rightarrow> kern \<Rightarrow> bool" where
  "same_filps k k' \<longleftrightarrow> (\<forall>i. map_option (\<lambda>t. (filp t, state t = TASK_ZOMBIE)) (task k' i) =
     map_option (\<lambda>t. (filp t, state t = TASK_ZOMBIE)) (task k i))"

lemma same_filps_task:
  assumes "same_filps k k'" "task k' i = Some t'"
  obtains t where "task k i = Some t" "filp t' = filp t" "(state t' = TASK_ZOMBIE) = (state t = TASK_ZOMBIE)"
  using assms by (cases "task k i") (auto simp: same_filps_def dest!: spec [of _ i])

lemma same_filps_refl [simp]: "same_filps k k"
  and same_filps_trans: "same_filps k k1 \<Longrightarrow> same_filps k1 k2 \<Longrightarrow> same_filps k k2"
  and same_filps_sym: "same_filps k k1 \<Longrightarrow> same_filps k1 k"
  by (simp_all add: same_filps_def)

lemma same_filps_live: "same_filps k k' \<Longrightarrow> live k' i = live k i"
  unfolding same_filps_def live_def by (drule spec [of _ i]) (auto split: option.splits)

lemma filp_ok_eq:
  "filp t' = filp t \<Longrightarrow> (state t' = TASK_ZOMBIE) = (state t = TASK_ZOMBIE) \<Longrightarrow> filp_ok t' = filp_ok t"
  by (simp add: filp_ok_def)

lemma same_filps_ok:
  assumes "same_filps k k'"
  shows "descriptors k' = descriptors k" "alive k' \<Longrightarrow> tasks_ok k \<Longrightarrow> tasks_ok k'"
    and "current k' = current k \<Longrightarrow> alive k' = alive k"
proof -
  have e: "map_option filp (task k' i) = map_option filp (task k i)" for i
    using assms by (cases "task k i"; cases "task k' i") (auto simp: same_filps_def dest!: spec [of _ i])
  show "descriptors k' = descriptors k"
    by (intro ext descriptors_cong e)
  show "tasks_ok k'" if "alive k'" "tasks_ok k"
    using that unfolding tasks_ok_def by (metis filp_ok_eq same_filps_task [OF assms])
  show "current k' = current k \<Longrightarrow> alive k' = alive k"
    by (simp add: alive_def same_filps_live [OF assms])
qed

lemma same_filps_set_task:
  "(\<And>t. task k i = Some t \<Longrightarrow> filp (f t) = filp t \<and> (state (f t) = TASK_ZOMBIE) = (state t = TASK_ZOMBIE)) \<Longrightarrow>
   same_filps k (set_task i f k)"
  by (cases "task k i") (auto simp: same_filps_def set_task_def)

text \<open>Counts and descriptors that stay.\<close>

lemma files_ok_same:
  assumes "files_ok s" "same_filps (ker s) (ker s')" "alive (ker s')"
    and "\<And>f. f < NR_FILE \<Longrightarrow> f_count (file_table s' f) = f_count (file_table s f)"
  shows "files_ok s'"
  using assms same_filps_ok(1,2) [OF assms(2)] by (simp add: files_ok_def)

lemma files_ok_held: "held s' = held s \<Longrightarrow> files_ok s' = files_ok s"
  using heldD [of s' s] same_filps_ok [of "ker s" "ker s'"]
  by (auto simp: files_ok_def same_filps_def tasks_ok_def alive_def live_def)

lemma clear_cloexec_same [simp]:
  "same_filps (ker s) (ker (clear_cloexec fd s))" "current (ker (clear_cloexec fd s)) = current (ker s)"
  "file_table (clear_cloexec fd s) = file_table s"
  by (auto simp: clear_cloexec_def upd_ker_def set_cur_def set_task_def same_filps_def option.map_comp comp_def)

lemma files_ok_clear_cloexec: "files_ok s \<Longrightarrow> files_ok (clear_cloexec fd s)"
  using files_ok_same [of s "clear_cloexec fd s"] same_filps_ok(3) [OF clear_cloexec_same(1,2)]
  by (simp add: files_ok_def tasks_ok_def)

text \<open>One descriptor of the process gets another value.\<close>

lemma files_ok_change:
  assumes "files_ok s" "fd < NR_OPEN" "\<forall>f. v = Some f \<longrightarrow> f < NR_FILE" "ker s' = ker (set_filp fd v s)"
    and "\<And>f. f < NR_FILE \<Longrightarrow> unat (f_count (file_table s' f)) + of_bool (filp (me s) ! fd = Some f) =
      unat (f_count (file_table s f)) + of_bool (v = Some f)"
  shows "files_ok s'"
proof -
  have ok: "tasks_ok (ker s)" using assms(1) by (simp add: files_ok_def)
  note a = ok [unfolded tasks_ok_def, THEN conjunct1]
  have l: "length (filp (me s)) = NR_OPEN" using filp_ok_me [OF ok] by (simp add: filp_ok_def)
  have "unat (f_count (file_table s' f)) = descriptors (ker s') f" if "f < NR_FILE" for f
    using assms(5) [OF that] descriptors_set_filp [OF a l assms(2), of v f] assms(1) that
    unfolding assms(4) files_ok_def by simp
  then show ?thesis using tasks_ok_set_filp [OF ok assms(3)] by (simp add: files_ok_def assms(4))
qed


section \<open>The calls\<close>

lemma files_okD:
  assumes "files_ok s"
  shows "tasks_ok (ker s)" "alive (ker s)" "length (filp (me s)) = NR_OPEN"
    and "f < NR_FILE \<Longrightarrow> unat (f_count (file_table s f)) = descriptors (ker s) f"
    and "fd < NR_OPEN \<Longrightarrow> filp (me s) ! fd = Some f \<Longrightarrow> f < NR_FILE"
    and "f < NR_FILE \<Longrightarrow> unat (f_count (file_table s f)) \<le> NR_TASKS * NR_OPEN"
proof -
  show ok: "tasks_ok (ker s)" using assms by (simp add: files_ok_def)
  then show "alive (ker s)" by (simp add: tasks_ok_def)
  show l: "length (filp (me s)) = NR_OPEN" using filp_ok_me [OF ok] by (simp add: filp_ok_def)
  show d: "f < NR_FILE \<Longrightarrow> unat (f_count (file_table s f)) = descriptors (ker s) f"
    using assms by (simp add: files_ok_def)
  show "fd < NR_OPEN \<Longrightarrow> filp (me s) ! fd = Some f \<Longrightarrow> f < NR_FILE"
    using filp_ok_me [OF ok] l nth_mem [of fd "filp (me s)"] by (auto simp: filp_ok_def)
  show "f < NR_FILE \<Longrightarrow> unat (f_count (file_table s f)) \<le> NR_TASKS * NR_OPEN"
    using d descriptors_bound [OF ok, of f] by simp
qed

text \<open>An open descriptor is counted.\<close>

lemma open_counted:
  assumes "files_ok s" "fd < NR_OPEN" "filp (me s) ! fd = Some f"
  shows "0 < unat (f_count (file_table s f))"
proof -
  have "Some f \<in> set (filp (me s))" using assms files_okD(3) [OF assms(1)] nth_mem [of fd "filp (me s)"] by simp
  then have "0 < count_list (filp (me s)) (Some f)" using count_list_0_iff [of "filp (me s)" "Some f"] by blast
  moreover have "file_refs f (task (ker s) (current (ker s))) \<le> descriptors (ker s) f"
    unfolding descriptors_def using files_okD(2) [OF assms(1)] by (intro member_le_sum) (auto simp: alive_def)
  ultimately show ?thesis
    using files_okD(4) [OF assms(1) files_okD(5) [OF assms]] alive_me [OF files_okD(2) [OF assms(1)]]
    by (simp add: file_refs_def)
qed

lemma unat_pred: "0 < unat (x :: u16) \<Longrightarrow> unat (x - 1) = unat x - 1"
  by (rule unat_minus_one) auto

lemma unat_succ: "unat (x :: u16) \<le> NR_TASKS * NR_OPEN \<Longrightarrow> unat (x + 1) = unat x + 1"
  by (subst unat_add_lem [THEN iffD1]) simp_all

lemma me_clear_cloexec [simp]: "filp (me (clear_cloexec fd s)) = filp (me s)"
proof (cases "task (ker s) (current (ker s))")
  case None
  then show ?thesis by (simp add: cur_def clear_cloexec_def upd_ker_def set_cur_def set_task_def)
next
  case (Some t)
  then show ?thesis by (simp add: cur_def clear_cloexec_def upd_ker_def set_cur_def set_task_def)
qed

lemma sys_close_ok:
  assumes ok: "files_ok s" and run: "sys_close fd s = Inr (r, s')"
  shows "files_ok s' \<and> current (ker s') = current (ker s) \<and>
    filp (me s') = (if fd < NR_OPEN then (filp (me s))[fd := None] else filp (me s))"
proof (cases "fd < NR_OPEN")
  case False
  then show ?thesis using run ok by (simp add: sys_close_def)
next
  case fd: True
  let ?c = "clear_cloexec fd s"
  have okc: "files_ok ?c" using ok by (rule files_ok_clear_cloexec)
  show ?thesis
  proof (cases "filp (me s) ! fd")
    case None
    then have "s' = ?c" using run fd by (simp add: sys_close_def Let_def)
    then show ?thesis using okc fd None files_okD(3) [OF ok] list_update_id [of "filp (me s)" fd] by simp
  next
    case (Some f)
    have fc: "filp (me ?c) ! fd = Some f" using Some by simp
    note c = open_counted [OF okc fd fc]
    let ?s = "upd_file f (\<lambda>f. f\<lparr>f_count := f_count f - 1\<rparr>) (set_filp fd None ?c)"
    have "f_count (file_table ?c f) \<noteq> 0" using c by (simp add: unat_gt_0)
    then have h: "held s' = held ?s"
      using run fd Some
      by (auto simp: sys_close_def Let_def andthen_eq_Inr upd_file_def split: if_splits dest!: held)
    have "files_ok ?s"
    proof (rule files_ok_change [OF okc fd])
      fix g
      show "unat (f_count (file_table ?s g)) + of_bool (filp (me ?c) ! fd = Some g) =
          unat (f_count (file_table ?c g)) + of_bool (None = Some g)"
        using c unat_pred [of "f_count (file_table ?c f)"] by (auto simp: Some upd_file_def)
    qed (simp_all add: upd_file_def)
    then show ?thesis
      using files_ok_held [OF h] heldD(3,4) [OF h] fd me_set_filp [OF files_okD(2) [OF okc]]
      by (simp add: upd_file_def)
  qed
qed

lemma free_fd_Some:
  "free_fd start s = Some fd \<Longrightarrow> fd < NR_OPEN \<and> filp (me s) ! fd = None"
  by (auto simp: free_fd_def find_Some_iff)

lemma dupfd_ok:
  assumes ok: "files_ok s" and run: "dupfd fd arg s = (r, s')"
  shows "files_ok s'"
proof (cases "\<exists>f new. file_of fd s = Some f \<and> arg < NR_OPEN \<and> free_fd arg s = Some new")
  case False
  then have "s' = s" using run by (auto simp: dupfd_def split: option.splits if_splits)
  then show ?thesis using ok by simp
next
  case True
  then obtain f new where f: "file_of fd s = Some f" "arg < NR_OPEN" "free_fd arg s = Some new" by blast
  let ?c = "clear_cloexec new s"
  have okc: "files_ok ?c" using ok by (rule files_ok_clear_cloexec)
  have fd: "fd < NR_OPEN" "filp (me s) ! fd = Some f" using f(1) by (auto simp: file_of_def split: if_splits)
  note n = free_fd_Some [OF f(3)]
  have e: "s' = upd_file f (\<lambda>f. f\<lparr>f_count := f_count f + 1\<rparr>) (set_filp new (Some f) ?c)"
    using run f by (auto simp: dupfd_def)
  have ff: "f < NR_FILE" using files_okD(5) [OF ok fd] .
  show ?thesis
  proof (rule files_ok_change [OF okc, of new "Some f"])
    fix g assume "g < NR_FILE"
    then show "unat (f_count (file_table s' g)) + of_bool (filp (me ?c) ! new = Some g) =
        unat (f_count (file_table ?c g)) + of_bool (Some f = Some g)"
      using n unat_succ [OF files_okD(6) [OF ok ff]] by (auto simp: e upd_file_def)
  qed (use n ff in \<open>simp_all add: e upd_file_def\<close>)
qed

lemma sys_dup2_ok:
  assumes "files_ok s" "sys_dup2 a b s = Inr (r, s')"
  shows "files_ok s'"
proof -
  obtain q s1 where "sys_close b s = Inr (q, s1)" "dupfd a b s1 = (r, s')"
    using assms(2) by (auto simp: sys_dup2_def elim!: andthen_InrE)
  then show ?thesis using sys_close_ok [OF assms(1)] dupfd_ok by blast
qed

lemma set_cur_same:
  "(\<And>t. filp (f t) = filp t \<and> state (f t) = state t) \<Longrightarrow>
   same_filps (ker s) (ker (upd_ker (set_cur f) s)) \<and> current (ker (upd_ker (set_cur f) s)) = current (ker s) \<and>
   file_table (upd_ker (set_cur f) s) = file_table s"
  by (auto simp: upd_ker_def set_cur_def set_task_def same_filps_def option.map_comp comp_def)

lemma files_ok_set_cur:
  assumes "files_ok s" "\<And>t. filp (f t) = filp t \<and> state (f t) = state t"
  shows "files_ok (upd_ker (set_cur f) s)"
proof -
  note c = set_cur_same [of f s, OF assms(2)]
  then have "alive (ker (upd_ker (set_cur f) s))"
    using same_filps_ok(3) files_okD(2) [OF assms(1)] by blast
  then show ?thesis using files_ok_same [OF assms(1), of "upd_ker (set_cur f) s"] c by simp
qed

lemma files_ok_upd_file:
  assumes "files_ok s" "f_count (g (file_table s f)) = f_count (file_table s f)"
  shows "files_ok (upd_file f g s)"
  using files_ok_same [OF assms(1), of "upd_file f g s"] assms files_okD(2) [OF assms(1)]
  by (simp add: upd_file_def)

lemma sys_fcntl_ok:
  assumes "files_ok s" "sys_fcntl fd cmd arg s = (r, s')"
  shows "files_ok s'"
  using assms dupfd_ok
  by (auto simp: sys_fcntl_def split: option.splits if_splits intro!: files_ok_set_cur files_ok_upd_file
      files_ok_clear_cloexec)


text \<open>\<open>sys_open\<close> takes an entry without users.\<close>

definition just_taken :: "nat \<Rightarrow> nat \<Rightarrow> fs \<Rightarrow> bool" where
  "just_taken fd f s \<longleftrightarrow> files_ok s \<and> fd < NR_OPEN \<and> f < NR_FILE \<and> filp (me s) ! fd = Some f \<and>
     f_count (file_table s f) = 1"

lemma just_taken_held: "held s' = held s \<Longrightarrow> just_taken fd f s' = just_taken fd f s"
  using heldD [of s' s] files_ok_held [of s' s] by (simp add: just_taken_def)

lemma just_taken_drop: "just_taken fd f s \<Longrightarrow> files_ok (snd (drop_file fd f r s))"
proof -
  assume j: "just_taken fd f s"
  show ?thesis
    by (rule files_ok_change [of s fd None]) (use j in \<open>auto simp: just_taken_def drop_file_def upd_file_def\<close>)
qed

lemma just_taken_finish: "just_taken fd f s \<Longrightarrow> files_ok (snd (finish_open fd f i flag s))"
  using files_ok_upd_file [of s _ f] by (simp add: just_taken_def finish_open_def)

lemma just_taken_open_tty:
  assumes j: "just_taken fd f s" and run: "open_tty i s = Inr s'"
  shows "just_taken fd f s'"
proof -
  have set_tty: "just_taken fd f (upd_ker (set_cur (\<lambda>p. p\<lparr>task_tty := n\<rparr>)) s)" for n
  proof -
    let ?s = "upd_ker (set_cur (\<lambda>p. p\<lparr>task_tty := n\<rparr>)) s"
    have a: "alive (ker s)" using j files_okD(2) by (simp add: just_taken_def)
    have "task (ker ?s) (current (ker ?s)) = Some ((me s)\<lparr>task_tty := n\<rparr>)"
      using alive_me [OF a] by (simp add: upd_ker_def set_cur_def set_task_def)
    then have "filp (me ?s) = filp (me s)" by (simp add: cur_def)
    moreover have "file_table ?s = file_table s" by (simp add: upd_ker_def)
    ultimately show ?thesis using j files_ok_set_cur [of s "\<lambda>p. p\<lparr>task_tty := n\<rparr>"] by (simp add: just_taken_def)
  qed
  then have "just_taken fd f (upd_ker (set_cur (\<lambda>p. p\<lparr>task_tty := n\<rparr>)) s\<lparr>ttys := t\<rparr>)" for n t
    using just_taken_held [of "upd_ker (set_cur (\<lambda>p. p\<lparr>task_tty := n\<rparr>)) s\<lparr>ttys := t\<rparr>"] by simp
  then show ?thesis using run j by (auto simp: open_tty_def Let_def split: if_splits)
qed

lemma sys_open_ok:
  assumes ok: "files_ok s" and run: "sys_open path flag mode s = Inr (r, s')"
  shows "files_ok s'"
proof (cases "free_fd 0 s")
  case None
  then show ?thesis using run ok by (simp add: sys_open_def)
next
  case (Some fd)
  let ?c = "clear_cloexec fd s"
  have okc: "files_ok ?c" using ok by (rule files_ok_clear_cloexec)
  note fd = free_fd_Some [OF Some]
  show ?thesis
  proof (cases "find (\<lambda>f. f_count (file_table ?c f) = 0) [0..<NR_FILE]")
    case None
    then have "s' = ?c" using run Some by (simp add: sys_open_def Let_def)
    then show ?thesis using okc by simp
  next
    case (Some f)
    then have f: "f < NR_FILE" "f_count (file_table ?c f) = 0" by (auto simp: find_Some_iff)
    let ?s = "upd_file f (\<lambda>f. f\<lparr>f_count := f_count f + 1\<rparr>) (set_filp fd (Some f) ?c)"
    have "files_ok ?s"
      by (rule files_ok_change [OF okc, of fd "Some f"]) (use fd f in \<open>auto simp: upd_file_def\<close>)
    moreover have "filp (me ?s) ! fd = Some f"
      using me_set_filp [OF files_okD(2) [OF okc], of fd "Some f"] fd files_okD(3) [OF ok] by (simp add: upd_file_def)
    ultimately have j: "just_taken fd f ?s" using fd f by (simp add: just_taken_def upd_file_def)
    obtain q i' s1 where o: "open_namei path flag (mode AND (0x1ff AND NOT (ucast (umask (me s))))) ?s = Inr ((q, i'), s1)"
      and rest: "(case i' of
                 None \<Rightarrow> Inr (drop_file fd f q s1)
               | Some i \<Rightarrow>
                   let major = MAJOR (ucast (i_zone (inode s1 i) ! 0)) in
                   if S_ISCHR (i_mode (inode s1 i)) \<and> major = 4
                   then andthen (open_tty i s1) (\<lambda>s. Inr (finish_open fd f i flag s))
                   else if S_ISCHR (i_mode (inode s1 i)) \<and> major = 5 \<and> task_tty (me s1) < 0
                   then andthen (iput (Some i) s1) (\<lambda>s. Inr (drop_file fd f (- EPERM) s))
                   else Inr (finish_open fd f i flag s1)) = Inr (r, s')"
      using run \<open>free_fd 0 s = Some fd\<close> Some by (auto simp: sys_open_def Let_def elim!: andthen_InrE)
    have j1: "just_taken fd f s1" using j just_taken_held [OF held_open_namei [OF o]] by simp
    have d: "just_taken fd f t \<Longrightarrow> drop_file fd f x t = (r, s') \<Longrightarrow> files_ok s'"
      and e: "just_taken fd f t \<Longrightarrow> finish_open fd f i flag t = (r, s') \<Longrightarrow> files_ok s'" for t x i
      using just_taken_drop [of fd f t x] just_taken_finish [of fd f t i flag] by simp_all
    show ?thesis
    proof (cases i')
      case None
      then show ?thesis using rest d [OF j1] by simp
    next
      case (Some i)
      define major where "major = MAJOR (ucast (i_zone (inode s1 i) ! 0))"
      note rest' = rest [unfolded Some option.case Let_def, folded major_def]
      consider (tty) s2 where "open_tty i s1 = Inr s2" "finish_open fd f i flag s2 = (r, s')"
        | (none) s2 where "iput (Some i) s1 = Inr s2" "drop_file fd f (- EPERM) s2 = (r, s')"
        | (plain) "finish_open fd f i flag s1 = (r, s')"
        using rest' by (auto split: if_splits elim!: andthen_InrE)
      then show ?thesis
      proof cases
        case tty
        then show ?thesis using e just_taken_open_tty [OF j1] by blast
      next
        case none
        then show ?thesis using d just_taken_held [OF held_iput] j1 by blast
      next
        case plain
        then show ?thesis using e [OF j1] by blast
      qed
    qed
  qed
qed


text \<open>A pipe takes two entries and two descriptors.\<close>

lemma take_2_filter:
  assumes "take 2 (filter P xs) = [a, b]" "distinct xs"
  shows "P a" "P b" "a \<in> set xs" "b \<in> set xs" "a \<noteq> b"
proof -
  have "{a, b} \<subseteq> set (filter P xs)" using assms(1) set_take_subset [of 2 "filter P xs"] by auto
  then show "P a" "P b" "a \<in> set xs" "b \<in> set xs" by auto
  have "distinct (take 2 (filter P xs))" using assms(2) by simp
  then show "a \<noteq> b" unfolding assms(1) by simp
qed

lemma put_user_same: "files_ok (upd_ker (put_user g) s) = files_ok s"
proof -
  have "files_ok (upd_ker (put_user g) s)" if "files_ok s" for s g
    by (rule files_ok_same [OF that]) (use files_okD(2) [OF that] in \<open>simp_all add: upd_ker_def put_user_def
        same_filps_def alive_def live_def\<close>)
  from this [of s g] this [of "upd_ker (put_user g) s" "\<lambda>_. fs_mem (ker s)"] show ?thesis
    by (auto simp: upd_ker_def put_user_def)
qed

definition pipe_counts :: "nat \<Rightarrow> nat \<Rightarrow> u16 \<Rightarrow> fs \<Rightarrow> fs" where
  "pipe_counts f0 f1 c = upd_file f1 (\<lambda>f. f\<lparr>f_count := c\<rparr>) \<circ> upd_file f0 (\<lambda>f. f\<lparr>f_count := c\<rparr>)"

lemma pipe_counts_simps [simp]:
  "ker (pipe_counts f0 f1 c s) = ker s"
  "f_count (file_table (pipe_counts f0 f1 c s) f) = (if f = f0 \<or> f = f1 then c else f_count (file_table s f))"
  by (auto simp: pipe_counts_def upd_file_def)

lemma pipe_taken:
  assumes ok: "files_ok s" and f: "f0 < NR_FILE" "f1 < NR_FILE" "f0 \<noteq> f1"
    and z: "f_count (file_table s f0) = 0" "f_count (file_table s f1) = 0"
    and d: "d0 < NR_OPEN" "d1 < NR_OPEN" "d0 \<noteq> d1" "filp (me s) ! d0 = None" "filp (me s) ! d1 = None"
  shows "files_ok (set_filp d1 (Some f1) (set_filp d0 (Some f0) (pipe_counts f0 f1 1 s)))"
proof -
  let ?s0 = "set_filp d0 (Some f0) (upd_file f0 (\<lambda>f. f\<lparr>f_count := 1\<rparr>) s)"
  have k: "ker (set_filp n v s') = ker (set_filp n v s'')" if "ker s' = ker s''" for n v s' s''
    using that by (simp add: set_filp_def upd_ker_def)
  have ok0: "files_ok ?s0"
    by (rule files_ok_change [OF ok d(1), of "Some f0"]) (use f z d in \<open>auto intro!: k simp: upd_file_def\<close>)
  have me0: "filp (me ?s0) = (filp (me s))[d0 := Some f0]"
    using me_set_filp [of "upd_file f0 (\<lambda>f. f\<lparr>f_count := 1\<rparr>) s" d0 "Some f0"] files_okD(2) [OF ok]
    by (simp add: upd_file_def)
  show ?thesis
    by (rule files_ok_change [OF ok0 d(2), of "Some f1"]) (use f z d me0 in \<open>auto intro!: k simp: upd_file_def\<close>)
qed

lemma pipe_dropped:
  assumes ok: "files_ok s" and f: "f0 < NR_FILE" "f1 < NR_FILE" "f0 \<noteq> f1"
    and o: "f_count (file_table s f0) = 1" "f_count (file_table s f1) = 1"
    and d: "d0 < NR_OPEN" "d1 < NR_OPEN" "d0 \<noteq> d1" "filp (me s) ! d0 = Some f0" "filp (me s) ! d1 = Some f1"
  shows "files_ok (pipe_counts f0 f1 0 (set_filp d1 None (set_filp d0 None s)))"
proof -
  let ?s0 = "upd_file f0 (\<lambda>f. f\<lparr>f_count := 0\<rparr>) (set_filp d0 None s)"
  have k: "ker (set_filp n v s') = ker (set_filp n v s'')" if "ker s' = ker s''" for n v s' s''
    using that by (simp add: set_filp_def upd_ker_def)
  have ok0: "files_ok ?s0"
    by (rule files_ok_change [OF ok d(1), of None]) (use f o d in \<open>auto simp: upd_file_def\<close>)
  have me0: "filp (me ?s0) = (filp (me s))[d0 := None]"
    using me_set_filp [of s d0 None] files_okD(2) [OF ok] by (simp add: upd_file_def)
  show ?thesis
    by (rule files_ok_change [OF ok0 d(2), of None]) (use f o d me0 in \<open>auto intro!: k simp: upd_file_def\<close>)
qed

lemma sys_pipe_ok:
  assumes ok: "files_ok s" and run: "sys_pipe a s = Inr (r, s')"
  shows "files_ok s'"
proof (cases "\<exists>f0 f1. take 2 (filter (\<lambda>i. f_count (file_table s i) = 0) [0..<NR_FILE]) = [f0, f1]")
  case False
  then have "s' = s" using run by (auto simp: sys_pipe_def split: list.splits)
  then show ?thesis using ok by simp
next
  case True
  then obtain f0 f1 where t: "take 2 (filter (\<lambda>i. f_count (file_table s i) = 0) [0..<NR_FILE]) = [f0, f1]" by blast
  note f = take_2_filter [OF t distinct_upt]
  have fn: "f0 < NR_FILE" "f1 < NR_FILE" using f(3,4) by simp_all
  let ?c = "\<lambda>c. pipe_counts f0 f1 c"
  have zero: "files_ok (?c 0 (?c 1 s))"
    by (rule files_ok_same [OF ok]) (use f files_okD(2) [OF ok] in simp_all)
  have me1: "me (?c 1 s) = me s" by simp
  show ?thesis
  proof (cases "\<exists>d0 d1. take 2 (filter (\<lambda>i. filp (me s) ! i = None) [0..<NR_OPEN]) = [d0, d1]")
    case False
    then have "s' = ?c 0 (?c 1 s)"
      using run t by (auto simp: sys_pipe_def pipe_counts_def [symmetric] Let_def split: list.splits)
    then show ?thesis using zero by simp
  next
    case True
    then obtain d0 d1 where u: "take 2 (filter (\<lambda>i. filp (me s) ! i = None) [0..<NR_OPEN]) = [d0, d1]" by blast
    note d = take_2_filter [OF u distinct_upt]
    have dn: "d0 < NR_OPEN" "d1 < NR_OPEN" using d(3,4) by simp_all
    let ?s1 = "set_filp d1 (Some f1) (set_filp d0 (Some f0) (?c 1 s))"
    have ok1: "files_ok ?s1"
      by (rule pipe_taken [OF ok fn f(5)]) (use f d dn in simp_all)
    have me1: "filp (me ?s1) ! d0 = Some f0" "filp (me ?s1) ! d1 = Some f1"
      using me_set_filp [of "set_filp d0 (Some f0) (?c 1 s)" d1 "Some f1"] me_set_filp [of "?c 1 s" d0 "Some f0"]
        files_okD(2,3) [OF ok] dn d(5) by simp_all
    obtain i s2 where g: "get_pipe_inode ?s1 = Inr (i, s2)"
      and e: "s' = (case i of None \<Rightarrow> ?c 0 (set_filp d1 None (set_filp d0 None s2))
        | Some i \<Rightarrow> upd_ker (put_user (put_fs_long (of_nat d1) (a + 4))) (upd_ker (put_user (put_fs_long (of_nat d0) a))
            (upd_file f1 (\<lambda>f. f\<lparr>f_inode := Some i, f_pos := 0, f_mode := 2\<rparr>)
              (upd_file f0 (\<lambda>f. f\<lparr>f_inode := Some i, f_pos := 0, f_mode := 1\<rparr>) s2))))"
      using run t u
      by (auto simp: sys_pipe_def pipe_counts_def [symmetric] Let_def elim!: andthen_InrE split: option.splits)
    note h = held_get_pipe_inode [OF g]
    have ok2: "files_ok s2" using ok1 files_ok_held [OF h] by simp
    show ?thesis
    proof (cases i)
      case None
      have "files_ok (?c 0 (set_filp d1 None (set_filp d0 None s2)))"
        by (rule pipe_dropped [OF ok2 fn f(5)]) (use me1 dn d(5) heldD(1,4) [OF h] in simp_all)
      then show ?thesis using e None by simp
    next
      case (Some j)
      then show ?thesis using ok2 by (simp add: e put_user_same files_ok_upd_file)
    qed
  qed
qed


text \<open>A new process has the descriptors of its father.\<close>

lemma use_inode_simps [simp]: "file_table (use_inode i s) = file_table s" "ker (use_inode i s) = ker s"
  by (simp_all add: use_inode_def upd_inode_def split: option.split)

lemma use_file_ker [simp]: "ker (fold use_file fs s) = ker s"
  by (induction fs arbitrary: s) (auto simp: use_file_def upd_file_def split: option.split)

lemma share_files_simps [simp]:
  "ker (share_files p s) = ker s" "file_table (share_files p s) = file_table (fold use_file (filp p) s)"
  by (simp_all add: share_files_def)

lemma fold_use_file:
  "f_count (file_table (fold use_file fs s) f) = f_count (file_table s f) + of_nat (count_list fs (Some f))"
  by (induction fs arbitrary: s) (auto simp: use_file_def upd_file_def split: option.split)

lemma ker_update_same:
  "files_ok s \<Longrightarrow> task k = task (ker s) \<Longrightarrow> current k = current (ker s) \<Longrightarrow> files_ok (s\<lparr>ker := k\<rparr>)"
  by (rule files_ok_same [of s]) (auto simp: same_filps_def alive_def live_def dest: files_okD(2))

lemma add_process:
  assumes ok: "files_ok s" and nr: "nr < NR_TASKS" "task (ker s) nr = None"
    and p: "filp p = filp (me s)" "state p \<noteq> TASK_ZOMBIE"
    and s': "task (ker s') = (task (ker s))(nr := Some p)" "current (ker s') = current (ker s)"
      "\<And>f. f_count (file_table s' f) = f_count (file_table s f) + of_nat (count_list (filp p) (Some f))"
  shows "files_ok s'"
proof -
  note D = files_okD [OF ok]
  have d: "descriptors (ker s') f = descriptors (ker s) f + count_list (filp p) (Some f)" for f
    using descriptors_upd [OF nr(1), of "ker s" "Some p" f] nr(2) s'(1)
      descriptors_cong [of "ker s'" "(ker s)\<lparr>task := (task (ker s))(nr := Some p)\<rparr>" f]
    by (simp add: file_refs_def)
  have fp: "filp_ok p" using filp_ok_me [OF D(1)] p by (simp add: filp_ok_def)
  have n: "current (ker s) \<noteq> nr" "nr \<noteq> 0"
    using D(2) nr(2) by (auto simp: alive_def live_def intro: ccontr)
  then have "tasks_ok (ker s')"
    using D(1) fp s'(1,2) by (simp add: tasks_ok_def alive_def live_def)
  moreover have "unat (f_count (file_table s' f)) = descriptors (ker s') f" if "f < NR_FILE" for f
  proof -
    have "count_list (filp p) (Some f) \<le> NR_OPEN"
      using count_le_length [of "filp p" "Some f"] fp by (simp add: filp_ok_def)
    moreover have "unat (of_nat n :: u16) = n" if "n \<le> NR_OPEN" for n
      using that by (simp add: unat_of_nat)
    ultimately have "unat (f_count (file_table s f) + of_nat (count_list (filp p) (Some f))) =
        unat (f_count (file_table s f)) + count_list (filp p) (Some f)"
      using D(6) [OF that] by (subst unat_add_lem [THEN iffD1]) simp_all
    then show ?thesis using D(4) [OF that] d s'(3) by simp
  qed
  ultimately show ?thesis by (simp add: files_ok_def)
qed

lemma copy_mem_task:
  assumes "copy_mem nr p k = Inr (r, p', k')"
  shows "task k' = task k \<and> current k' = current k \<and> filp p' = filp p \<and> state p' = state p"
  using assms by (auto simp: copy_mem_def Let_def elim!: andthen_InrE split: if_splits prod.splits)

lemma set_desc_simps [simp]:
  "ker (set_tss_desc n a s) = ker s" "file_table (set_tss_desc n a s) = file_table s"
  "ker (set_ldt_desc n a s) = ker s" "file_table (set_ldt_desc n a s) = file_table s"
  by (simp_all add: set_tss_desc_def set_ldt_desc_def)

lemma save_math_task:
  "save_math p k = (p', k') \<Longrightarrow> task k' = task k \<and> current k' = current k \<and> filp p' = filp p \<and> state p' = state p"
  by (auto simp: save_math_def split: if_splits)

lemma copy_process_ok:
  assumes ok: "files_ok s" and nr: "nr < NR_TASKS" "task (ker s) nr = None"
    and run: "copy_process nr a s = Inr (r, s')"
  shows "files_ok s'"
proof -
  obtain page m where g: "get_free_page (mem (ker s)) = (page, m)" by (cases "get_free_page (mem (ker s))")
  let ?k = "(ker s)\<lparr>mem := m\<rparr>"
  show ?thesis
  proof (cases "page = 0")
    case True
    then show ?thesis using run g ker_update_same [OF ok, of ?k] by (simp add: copy_process_def)
  next
    case False
    obtain p k where sm: "save_math (child nr page a ?k) ?k = (p, k)" by fastforce
    let ?t = "\<lambda>p' k'. set_ldt_desc (2 * nr + FIRST_LDT_ENTRY) (page + ldt_offset)
        (set_tss_desc (2 * nr + FIRST_TSS_ENTRY) (page + tss_offset) (share_files p' (s\<lparr>ker := k'\<rparr>)))"
    consider (bad) q p' k' m' where "copy_mem nr p k = Inr (q, p', k')" "s' = s\<lparr>ker := k'\<lparr>mem := m'\<rparr>\<rparr>"
      | (good) p' k' where "copy_mem nr p k = Inr (0, p', k')"
          "s' = upd_ker (\<lambda>k. k\<lparr>task := (task k)(nr := Some p')\<rparr>)
            (?t p' k'\<lparr>task_page := (task_page (?t p' k'))(nr := page)\<rparr>)"
      using run g False sm unfolding copy_process_def Let_def
      by (auto elim!: andthen_InrE split: if_splits)
    then show ?thesis
    proof cases
      case bad
      then show ?thesis
        using ker_update_same [OF ok, of "k'\<lparr>mem := m'\<rparr>"] copy_mem_task [OF bad(1)] save_math_task [OF sm] by simp
    next
      case good
      have c: "filp (child nr page a ?k) = filp (me s)" "state (child nr page a ?k) = TASK_RUNNING"
        by (simp_all add: child_def Let_def cur_def)
      show ?thesis
        by (rule add_process [OF ok nr, of p'])
          (use c copy_mem_task [OF good(1)] save_math_task [OF sm] in \<open>simp_all add: good(2) upd_ker_def fold_use_file\<close>)
    qed
  qed
qed

lemma find_empty_process_slot:
  assumes "find_empty_process k = Inr (nr, k')"
  shows "task k' = task k \<and> current k' = current k \<and> (0 \<le> nr \<longrightarrow> 0 < nat nr \<and> nat nr < NR_TASKS \<and> task k (nat nr) = None)"
proof -
  have n: "nat (1 + int i) = Suc i" for i by simp
  show ?thesis
    using assms by (auto simp: n find_empty_process_def find_Some_iff elim!: andthen_InrE split: option.splits)
qed

lemma sys_fork_ok:
  assumes ok: "files_ok s" and run: "sys_fork a s = Inr (r, s')"
  shows "files_ok s'"
proof -
  obtain nr k where f: "find_empty_process (ker s) = Inr (nr, k)"
    and rest: "(if nr < 0 then Inr (nr, s\<lparr>ker := k\<rparr>) else copy_process (nat nr) a (s\<lparr>ker := k\<rparr>)) = Inr (r, s')"
    using run by (auto simp: sys_fork_def Let_def elim!: andthen_InrE)
  note e = find_empty_process_slot [OF f]
  have ok': "files_ok (s\<lparr>ker := k\<rparr>)" using ker_update_same [OF ok, of k] e by simp
  show ?thesis
    using rest ok' copy_process_ok [OF ok', of "nat nr" a r s'] e by (auto split: if_splits)
qed


text \<open>Scheduling, signals, waiting.\<close>

lemma same_filps_fold:
  "(\<And>i k. same_filps k (h i k) \<and> current (h i k) = current k) \<Longrightarrow>
   same_filps k (fold h is k) \<and> current (fold h is k) = current k"
  by (induction "is" arbitrary: k) (auto intro: same_filps_trans)

lemma same_filps_recharge_all: "same_filps k (recharge_all k)"
  unfolding recharge_all_def
  by (rule same_filps_fold [THEN conjunct1]) (auto simp: recharge_def intro!: same_filps_set_task)

lemma same_filps_check_alarms: "same_filps k (check_alarms k)"
  unfolding check_alarms_def
  by (rule same_filps_fold [THEN conjunct1]) (auto simp: check_alarm_def Let_def intro!: same_filps_set_task split: if_splits)

lemma schedule_loop_same:
  assumes "schedule_loop k = Some y"
  shows "same_filps k (snd y)"
  using assms
proof (induction rule: schedule_loop.raw_induct [rotated, consumes 1])
  case (1 loop k y)
  obtain c n where p: "pick k (rev [1..<NR_TASKS]) (- 1) 0 = (c, n)" by fastforce
  then have "c = 0 \<and> loop (recharge_all k) = Some y \<or> y = (n, k)" using 1(2) by (auto split: if_splits)
  then show ?case using 1(1) [of "recharge_all k" y] same_filps_trans [OF same_filps_recharge_all, of k] by auto
qed

lemma schedule_same:
  assumes run: "schedule k = Some k'" and z: "live k 0"
  shows "same_filps k k' \<and> alive k'"
proof -
  obtain n k1 where k1: "schedule_loop (check_alarms k) = Some (n, k1)" "k' = k1\<lparr>current := n\<rparr>"
    using run by (auto simp: schedule_def switch_to_def split: option.splits)
  have s1: "same_filps k k1"
    using same_filps_trans [OF same_filps_check_alarms schedule_loop_same [OF k1(1)]] by simp
  then have s': "same_filps k k'" by (simp add: same_filps_def k1(2))
  have "live k' 0" using z same_filps_live [OF s'] by simp
  moreover have "current k' = 0 \<or> current k' < NR_TASKS \<and> live k' (current k')"
    using schedule_loop_state [OF k1(1)] by (auto simp: k1(2) runnable_def live_def split: option.splits)
  ultimately show ?thesis using s' by (auto simp: alive_def)
qed

lemma files_ok_ker:
  "files_ok s \<Longrightarrow> same_filps (ker s) k \<Longrightarrow> alive k \<Longrightarrow> files_ok (s\<lparr>ker := k\<rparr>)"
  by (rule files_ok_same [of s]) simp_all

lemma alive_live0: "files_ok s \<Longrightarrow> live (ker s) 0"
  using files_okD(2) [of s] by (simp add: alive_def)

lemma schedule_ok: "files_ok s \<Longrightarrow> schedule (ker s) = Some k \<Longrightarrow> files_ok (s\<lparr>ker := k\<rparr>)"
  using schedule_same [of "ker s" k] alive_live0 [of s] files_ok_ker [of s k] by blast

text \<open>A process without descriptors is taken off the table.\<close>

lemma release_ok:
  assumes ok: "files_ok s" and i: "task (ker s) i = Some t" "set (filp t) \<subseteq> {None}" "live (ker s) 0"
    and run: "release page i k = Inr k'" and k: "same_filps (ker s) k"
  shows "files_ok (s\<lparr>ker := k'\<rparr>)"
proof -
  obtain m where r: "0 < i" "i < NR_TASKS" "schedule (k\<lparr>task := (task k)(i := None), mem := m\<rparr>) = Some k'"
    using run by (auto simp: release_def schedule_result_def elim!: andthen_InrE split: if_splits option.splits)
  let ?k = "k\<lparr>task := (task k)(i := None), mem := m\<rparr>"
  have "live k 0" using i(3) same_filps_live [OF k] by simp
  then have "live ?k 0" using r(1) by (simp add: live_def)
  from schedule_same [OF r(3) this] have s': "same_filps ?k k'" "alive k'" by simp_all
  have z: "filp_ok u" if j: "j < NR_TASKS" "task k' j = Some u" for j u
  proof -
    obtain v where v: "task ?k j = Some v" "filp u = filp v" "(state u = TASK_ZOMBIE) = (state v = TASK_ZOMBIE)"
      by (rule same_filps_task [OF s'(1) j(2)])
    then have "task k j = Some v" by (auto split: if_splits)
    then obtain w where "task (ker s) j = Some w" "filp v = filp w" "(state v = TASK_ZOMBIE) = (state w = TASK_ZOMBIE)"
      by (rule same_filps_task [OF k])
    then show ?thesis using v files_okD(1) [OF ok] j(1) filp_ok_eq [of u w] by (auto simp: tasks_ok_def)
  qed
  obtain w where w: "task k i = Some w" "filp w = filp t"
    using k i(1) by (cases "task k i") (auto simp: same_filps_def dest!: spec [of _ i])
  have "descriptors k' f = descriptors (ker s) f" for f
  proof -
    have "Some f \<notin> set (filp t)" using i(2) by auto
    then have "file_refs f (task k i) = 0" using w by (simp add: file_refs_def count_list_0_iff)
    then have "descriptors (k\<lparr>task := (task k)(i := None)\<rparr>) f = descriptors k f"
      using descriptors_upd [OF r(2), of k None f] by (simp add: file_refs_def)
    moreover have "descriptors ?k f = descriptors (k\<lparr>task := (task k)(i := None)\<rparr>) f"
      by (rule descriptors_cong) simp
    ultimately show ?thesis using same_filps_ok(1) [OF s'(1)] same_filps_ok(1) [OF k] by simp
  qed
  then show ?thesis using ok z s'(2) by (auto simp: files_ok_def tasks_ok_def)
qed

lemma waitpid_ok:
  assumes ok: "files_ok s" and run: "waitpid_round (task_page s) p a options (ker s) = Inr (r, k)"
  shows "files_ok (s\<lparr>ker := k\<rparr>)"
proof -
  obtain q fl where w: "wait_scan p (ker s) (rev [1..<NR_TASKS]) False = (q, fl)" by fastforce
  show ?thesis
  proof (cases q)
    case (Some i)
    have z: "is_zombie (ker s) i" using wait_scan_spec [OF w] Some by simp
    then obtain t where t: "task (ker s) i = Some t" "state t = TASK_ZOMBIE"
      by (auto simp: is_zombie_def split: option.splits)
    have i: "i < NR_TASKS" using wait_scan_spec [OF w] Some by (simp add: rev_slots)
    have e: "set (filp t) \<subseteq> {None}" using files_okD(1) [OF ok] t i by (simp add: tasks_ok_def filp_ok_def)
    let ?k = "set_cur (\<lambda>c. c\<lparr>cutime := s32 (cutime c + utime t), cstime := s32 (cstime c + stime t)\<rparr>)
        (put_user (put_fs_long (word_of_int (exit_code t)) a) (ker s))"
    have "same_filps (ker s) ?k"
      by (auto simp: same_filps_def set_cur_def set_task_def put_user_def option.map_comp comp_def)
    moreover have "release (task_page s) i ?k = Inr k"
      using run w Some t by (auto simp: waitpid_round_def Let_def elim!: andthen_InrE)
    ultimately show ?thesis using release_ok [OF ok t(1) e alive_live0 [OF ok]] by blast
  next
    case None
    have "k = ker s \<or> (\<exists>k'. sys_pause (ker s) = Some k' \<and> k = k')"
      using run w None by (auto simp: waitpid_round_def split: bool.splits if_splits option.splits)
    then show ?thesis
    proof
      assume "k = ker s"
      then show ?thesis using ok by simp
    next
      assume "\<exists>k'. sys_pause (ker s) = Some k' \<and> k = k'"
      then have r: "schedule (set_cur (\<lambda>p. p\<lparr>state := TASK_INTERRUPTIBLE\<rparr>) (ker s)) = Some k"
        by (auto simp: sys_pause_def)
      let ?k = "set_cur (\<lambda>p. p\<lparr>state := TASK_INTERRUPTIBLE\<rparr>) (ker s)"
      have same: "same_filps (ker s) ?k"
        unfolding set_cur_def
        by (rule same_filps_set_task) (use alive_me [OF files_okD(2) [OF ok]] alive_state [OF files_okD(2) [OF ok]] in auto)
      then have "live ?k 0" using alive_live0 [OF ok] same_filps_live [OF same] by simp
      from schedule_same [OF r this] show ?thesis
        using files_ok_ker [OF ok, of k] same_filps_trans [OF same] by blast
    qed
  qed
qed


text \<open>The end of a process: all descriptors are closed, then it is a zombie or gone.\<close>

lemma close_files_ok:
  "files_ok s \<Longrightarrow> close_files P fds s = Inr s' \<Longrightarrow> set fds \<subseteq> {..<NR_OPEN} \<Longrightarrow>
   files_ok s' \<and> current (ker s') = current (ker s) \<and>
   (\<forall>k < NR_OPEN. filp (me s) ! k = None \<longrightarrow> filp (me s') ! k = None) \<and>
   (P = is_open \<longrightarrow> (\<forall>k \<in> set fds. filp (me s') ! k = None))"
proof (induction fds arbitrary: s)
  case (Cons fd fds)
  obtain s1 where s1: "(if P fd s then andthen (sys_close fd s) (\<lambda>(_, s). Inr s) else Inr s) = Inr s1"
      "close_files P fds s1 = Inr s'"
    using Cons.prems(2) by (auto elim!: andthen_InrE)
  have fd: "fd < NR_OPEN" using Cons.prems(3) by simp
  have l: "length (filp (me s)) = NR_OPEN" by (rule files_okD(3) [OF Cons.prems(1)])
  have "files_ok s1 \<and> current (ker s1) = current (ker s) \<and>
      (\<forall>k < NR_OPEN. filp (me s) ! k = None \<longrightarrow> filp (me s1) ! k = None) \<and> (P = is_open \<longrightarrow> filp (me s1) ! fd = None)"
  proof (cases "P fd s")
    case True
    then obtain r where "sys_close fd s = Inr (r, s1)" using s1(1) by (auto elim!: andthen_InrE)
    from sys_close_ok [OF Cons.prems(1) this] show ?thesis using fd l by (auto simp: nth_list_update)
  next
    case False
    then show ?thesis using s1(1) Cons.prems(1) by (auto simp: is_open_def)
  qed
  then show ?case using Cons.IH [of s1] s1(2) Cons.prems(3) fd by auto
qed simp

text \<open>The process, and its table, up to the changes of the directories and the terminal.\<close>

definition same_me :: "fs \<Rightarrow> fs \<Rightarrow> bool" where
  "same_me s s' \<longleftrightarrow> files_ok s' \<and> current (ker s') = current (ker s) \<and> filp (me s') = filp (me s)"

lemma same_me_held: "files_ok s \<Longrightarrow> held s' = held s \<Longrightarrow> same_me s s'"
  using heldD [of s' s] files_ok_held [of s' s] by (simp add: same_me_def)

lemma same_me_trans: "same_me s s1 \<Longrightarrow> same_me s1 s2 \<Longrightarrow> same_me s s2"
  by (simp add: same_me_def)

lemma same_me_set_cur:
  assumes ok: "files_ok s" and f: "\<And>t. filp (f t) = filp t \<and> state (f t) = state t"
  shows "same_me s (upd_ker (set_cur f) s)"
proof -
  have "task (ker (upd_ker (set_cur f) s)) (current (ker s)) = Some (f (me s))"
    using alive_me [OF files_okD(2) [OF ok]] by (simp add: upd_ker_def set_cur_def set_task_def)
  then show ?thesis
    using files_ok_set_cur [OF ok, of f] f set_cur_same [of f s, OF f] by (simp add: same_me_def cur_def)
qed

lemma leave_dirs_ok:
  assumes ok: "files_ok s" and run: "leave_dirs s = Inr s'"
  shows "same_me s s'"
proof -
  let ?p = "upd_ker (set_cur (\<lambda>p. p\<lparr>pwd := None\<rparr>))" and ?r = "upd_ker (set_cur (\<lambda>p. p\<lparr>root := None\<rparr>))"
  obtain s1 s2 where r: "iput (pwd (me s)) s = Inr s1" "iput (root (me (?p s1))) (?p s1) = Inr s2" "s' = ?r s2"
    using run by (auto simp: leave_dirs_def Let_def elim!: andthen_InrE)
  have a: "same_me s s1" by (rule same_me_held [OF ok held_iput [OF r(1)]])
  have b: "same_me s1 (?p s1)" by (rule same_me_set_cur) (use a in \<open>simp_all add: same_me_def\<close>)
  have c: "same_me (?p s1) s2" by (rule same_me_held [OF _ held_iput [OF r(2)]]) (use b in \<open>simp add: same_me_def\<close>)
  have "same_me s2 (?r s2)" by (rule same_me_set_cur) (use c in \<open>simp_all add: same_me_def\<close>)
  from same_me_trans [OF same_me_trans [OF same_me_trans [OF a b] c] this] show ?thesis by (simp add: r(3))
qed

lemma leave_tty_ok: "files_ok s \<Longrightarrow> leave_tty s = Inr s' \<Longrightarrow> same_me s s'"
  by (rule same_me_held) (auto simp: leave_tty_def Let_def split: if_splits)

lemma do_kill_same: "same_filps k (do_kill p sig priv k)"
proof -
  have "same_filps k (send_sig sig i priv k) \<and> current (send_sig sig i priv k) = current k" for i k
    by (auto simp: send_sig_def intro!: same_filps_set_task split: option.split)
  then show ?thesis
    unfolding do_kill_def by (intro same_filps_fold [THEN conjunct1]) (auto split: option.split)
qed

lemma bury_ok:
  assumes ok: "files_ok s" and e: "set (filp (me s)) \<subseteq> {None}" and n: "current (ker s) \<noteq> 0"
    and run: "bury code (task_page s) (ker s) = Inr k'"
  shows "files_ok (s\<lparr>ker := k'\<rparr>)"
proof -
  let ?i = "current (ker s)"
  note a = files_okD(2) [OF ok]
  define k where "k = (if last_task_used_math (ker s) = Some ?i then ker s\<lparr>last_task_used_math := None\<rparr> else ker s)"
  have k: "task k = task (ker s)" "current k = ?i" by (simp_all add: k_def)
  have sk: "same_filps (ker s) k" using k by (simp add: same_filps_def)
  show ?thesis
  proof (cases "father (cur k) = 0")
    case True
    then obtain k1 where r: "release (task_page s) ?i k = Inr k1" "schedule k1 = Some k'"
      using run k(2) unfolding bury_def k_def [symmetric] Let_def
      by (auto simp: schedule_result_def elim!: andthen_InrE split: option.splits)
    have "files_ok (s\<lparr>ker := k1\<rparr>)" by (rule release_ok [OF ok alive_me [OF a] e alive_live0 [OF ok] r(1) sk])
    then show ?thesis using schedule_ok [of "s\<lparr>ker := k1\<rparr>" k'] r(2) by simp
  next
    case False
    let ?z = "set_cur (\<lambda>p. p\<lparr>state := TASK_ZOMBIE\<rparr>) k"
    let ?d = "do_kill (father (cur k)) SIGCHLD True ?z"
    let ?x = "set_cur (\<lambda>p. p\<lparr>exit_code := code\<rparr>) ?d"
    have r: "schedule ?x = Some k'"
      using run False unfolding bury_def k_def [symmetric] Let_def
      by (auto simp: schedule_result_def split: option.splits)
    have "same_filps ?d ?x" by (auto simp: set_cur_def intro: same_filps_set_task)
    with do_kill_same have x: "same_filps ?z ?x" by (rule same_filps_trans)
    have me: "task k ?i = Some (me s)" using alive_me [OF a] k(1) by simp
    then have z: "task ?z = (task (ker s))(?i := Some ((me s)\<lparr>state := TASK_ZOMBIE\<rparr>))"
      by (simp add: set_cur_def set_task_def k)
    then have "live ?z 0" using alive_live0 [OF ok] n by (simp add: live_def)
    then have "live ?x 0" using same_filps_live [OF x] by simp
    from schedule_same [OF r this] have s': "same_filps ?z k'" "alive k'"
      using same_filps_trans [OF x] by auto
    have "descriptors ?z f = descriptors (ker s) f" for f
      by (rule descriptors_cong) (use alive_me [OF a] in \<open>simp add: z\<close>)
    then have d: "descriptors k' f = descriptors (ker s) f" for f
      using same_filps_ok(1) [OF s'(1)] by simp
    have "filp_ok u" if j: "j < NR_TASKS" "task k' j = Some u" for j u
    proof -
      obtain v where v: "task ?z j = Some v" "filp u = filp v" "(state u = TASK_ZOMBIE) = (state v = TASK_ZOMBIE)"
        by (rule same_filps_task [OF s'(1) j(2)])
      have "filp_ok v"
        using v(1) files_okD(1) [OF ok] filp_ok_me [OF files_okD(1) [OF ok]] e j(1)
        by (auto simp: z tasks_ok_def filp_ok_def split: if_splits)
      then show ?thesis using v filp_ok_eq [of u v] by simp
    qed
    then show ?thesis using ok s'(2) d by (simp add: files_ok_def tasks_ok_def)
  qed
qed

lemma do_exit_ok:
  assumes ok: "files_ok s" and n: "current (ker s) \<noteq> 0" and run: "do_exit code s = Inr s'"
  shows "files_ok s'"
proof -
  obtain k s1 s2 s3 k' where r: "free_segments (ker s) = Inr k"
      "close_files is_open [0..<NR_OPEN] (s\<lparr>ker := orphan k\<rparr>) = Inr s1" "leave_dirs s1 = Inr s2" "leave_tty s2 = Inr s3"
      "bury code (task_page s3) (ker s3) = Inr k'" "s' = s3\<lparr>ker := k'\<rparr>"
    using run by (auto simp: do_exit_def elim!: andthen_InrE)
  have k: "task k = task (ker s)" "current k = current (ker s)"
    using r(1) by (auto simp: free_segments_def elim!: andthen_InrE)
  have o: "same_filps k (orphan k) \<and> current (orphan k) = current k"
    unfolding orphan_def by (rule same_filps_fold) (auto intro!: same_filps_set_task split: if_splits)
  have sk: "same_filps (ker s) k" using k by (simp add: same_filps_def)
  have same: "same_filps (ker s) (orphan k)" using o same_filps_trans [OF sk] by blast
  have "files_ok (s\<lparr>ker := orphan k\<rparr>)"
    by (rule files_ok_ker [OF ok same]) (use same_filps_ok(3) [OF same] o k files_okD(2) [OF ok] in simp)
  moreover have "set [0..<NR_OPEN] \<subseteq> {..<NR_OPEN}" by auto
  ultimately have 1: "files_ok s1" "current (ker s1) = current (ker s)" "\<And>fd. fd < NR_OPEN \<Longrightarrow> filp (me s1) ! fd = None"
    using close_files_ok [OF _ r(2)] o k by auto
  have "set (filp (me s1)) \<subseteq> {None}"
    using 1(3) files_okD(3) [OF 1(1)] by (auto simp: in_set_conv_nth)
  moreover have 2: "same_me s1 s2" by (rule leave_dirs_ok [OF 1(1) r(3)])
  moreover have 3: "same_me s2 s3" by (rule leave_tty_ok [OF _ r(4)]) (use 2 in \<open>simp add: same_me_def\<close>)
  ultimately show ?thesis
    unfolding r(6) by (intro bury_ok [OF _ _ _ r(5)]) (use 1(2) n in \<open>simp_all add: same_me_def\<close>)
qed

lemma sys_exit_ok: "files_ok s \<Longrightarrow> current (ker s) \<noteq> 0 \<Longrightarrow> sys_exit code s = Inr s' \<Longrightarrow> files_ok s'"
  unfolding sys_exit_def by (rule do_exit_ok)


text \<open>A new program keeps the descriptors but those to be closed.\<close>

definition descs :: "fs \<Rightarrow> (nat \<Rightarrow> open_file) \<times> (nat \<Rightarrow> task_struct option) \<times> nat" where
  "descs s = (file_table s, task (ker s), current (ker s))"

lemma descs_held [held]: "held s' = held s \<Longrightarrow> descs s' = descs s"
  using heldD [of s' s] by (simp add: descs_def)

lemma files_ok_descs: "files_ok s \<Longrightarrow> descs s' = descs s \<Longrightarrow> files_ok s'"
  by (rule files_ok_same [of s]) (auto simp: descs_def same_filps_def alive_def live_def dest: files_okD(2))

lemma descs_cp_block [simp]: "descs (cp_block b a s) = descs s"
  by (simp add: cp_block_def put_user_bytes_def upd_ker_def put_user_def descs_def)

lemma descs_bread: "bread dev block s = Inr (x, s') \<Longrightarrow> descs s' = descs s"
  and descs_brelse: "brelse b s = Inr s' \<Longrightarrow> descs s' = descs s"
  by (auto dest!: held_bread held_brelse intro: descs_held)

lemma descs_head_loop: "head_loop i cs s = Inr (r, s') \<Longrightarrow> descs s' = descs s"
  by (induction cs arbitrary: s)
    (auto elim!: andthen_InrE split: if_splits option.splits dest!: descs_bread descs_brelse)

lemma descs_ind_loop: "ind_loop dev ih ks a s = Inr (r, s') \<Longrightarrow> descs s' = descs s"
  by (induction ks arbitrary: a s)
    (auto simp: Let_def elim!: andthen_InrE split: if_splits option.splits dest!: descs_bread descs_brelse)

lemma descs_read_ind: "read_ind dev ind sz a s = Inr (r, s') \<Longrightarrow> descs s' = descs s"
  by (auto simp: read_ind_def Let_def elim!: andthen_InrE split: if_splits option.splits
      dest!: descs_bread descs_ind_loop)

lemma descs_dind_loop: "dind_loop i d cs sz s = Inr (r, s') \<Longrightarrow> descs s' = descs s"
  by (induction cs arbitrary: sz s) (auto elim!: andthen_InrE split: if_splits dest!: descs_read_ind)

lemma descs_read_area: "read_area i sz s = Inr (r, s') \<Longrightarrow> descs s' = descs s"
  by (auto simp: read_area_def read_head_def Let_def elim!: andthen_InrE split: if_splits option.splits
      dest!: descs_head_loop descs_read_ind descs_bread descs_dind_loop)

definition same_kern :: "kern \<Rightarrow> kern \<Rightarrow> bool" where
  "same_kern k k' \<longleftrightarrow> same_filps k k' \<and> current k' = current k"

lemma same_kern_trans: "same_kern k k1 \<Longrightarrow> same_kern k1 k2 \<Longrightarrow> same_kern k k2"
  using same_filps_trans by (auto simp: same_kern_def)

lemma same_kern_update:
  "task k' = task k \<Longrightarrow> current k' = current k \<Longrightarrow> same_kern k k'"
  by (simp add: same_kern_def same_filps_def)

lemma same_kern_set_cur:
  "(\<And>t. filp (f t) = filp t \<and> state (f t) = state t) \<Longrightarrow> same_kern k (set_cur f k)"
  by (auto simp: same_kern_def set_cur_def set_task_def same_filps_def option.map_comp comp_def)

lemma files_ok_kern: "files_ok s \<Longrightarrow> same_kern (ker s) k \<Longrightarrow> files_ok (s\<lparr>ker := k\<rparr>)"
  using files_ok_ker [of s k] same_filps_ok(3) [of "ker s" k] files_okD(2) [of s] by (simp add: same_kern_def)

lemma change_ldt_same: "change_ldt ts pages k = (l, k') \<Longrightarrow> same_kern k k'"
proof -
  assume "change_ldt ts pages k = (l, k')"
  then obtain f m u where "k' = (set_cur f k)\<lparr>mem := m, fs_mem := u\<rparr>"
      and f: "\<And>t. filp (f t) = filp t \<and> state (f t) = state t"
    by (fastforce simp: change_ldt_def Let_def)
  then have "same_kern (set_cur f k) k'" by (intro same_kern_update) simp_all
  with same_kern_set_cur [OF f] show ?thesis by (rule same_kern_trans)
qed

lemma free_segments_same: "free_segments k = Inr k' \<Longrightarrow> same_kern k k'"
  by (auto simp: free_segments_def elim!: andthen_InrE intro!: same_kern_update)

definition not_idle :: "fs \<Rightarrow> bool" where
  "not_idle s \<longleftrightarrow> current (ker s) \<noteq> 0"

lemma exec_load_ok:
  assumes ok: "files_ok s" and n: "not_idle s"
    and run: "exec_load i ex pages argc envc p eip s = Inr (r, s')"
  shows "files_ok s'"
proof -
  let ?s0 = "upd_ker (set_cur (\<lambda>p. p\<lparr>sig_fn := replicate 32 0\<rparr>)) s"
  have 0: "files_ok ?s0" by (rule files_ok_set_cur [OF ok]) simp
  have n0: "not_idle ?s0" using n by (simp add: not_idle_def upd_ker_def set_cur_def)
  obtain s1 k1 where s1: "close_files (\<lambda>fd s. bit (close_on_exec (me s)) fd) [0..<NR_OPEN] ?s0 = Inr s1"
      "free_segments (set_cur (\<lambda>p. p\<lparr>close_on_exec := 0\<rparr>) (ker s1)) = Inr k1"
    and rest1: "(let k = (if last_task_used_math k1 = Some (current k1) then k1\<lparr>last_task_used_math := None\<rparr> else k1);
          k = set_cur (\<lambda>p. p\<lparr>used_math := 0\<rparr>) k;
          (limit, k) = change_ldt (a_text ex) pages k;
          p = p + (limit - of_nat MAX_ARG_PAGES * 4096)
      in andthen (create_tables p argc envc (fs_mem k)) (\<lambda>(p, um).
         let k = set_cur (\<lambda>t. t\<lparr>end_code := a_text ex, end_data := a_data ex + a_text ex,
                     brk := a_bss ex + (a_data ex + a_text ex), start_stack := p AND 0xfffff000\<rparr>) (k\<lparr>fs_mem := um\<rparr>);
             size = a_text ex + a_data ex
         in andthen (read_area i (sint size) (s1\<lparr>ker := k\<rparr>)) (\<lambda>(r, s).
            andthen (iput (Some i) s) (\<lambda>s.
            if r < 0 then andthen (sys_exit (-1) s) (\<lambda>s. Inr (Exec_gone, s))
            else Inr (Exec_returns 0 (eip[0 := a_entry ex, 3 := p]), upd_ker (put_user (clear_rest size)) s))))) = Inr (r, s')"
    using run by (auto simp: exec_load_def Let_def elim!: andthen_InrE)
  have "set [0..<NR_OPEN] \<subseteq> {..<NR_OPEN}" by auto
  from close_files_ok [OF 0 s1(1) this] have 1: "files_ok s1" "not_idle s1" using n0 by (simp_all add: not_idle_def)
  define k2 where "k2 = set_cur (\<lambda>p. p\<lparr>used_math := 0\<rparr>)
    (if last_task_used_math k1 = Some (current k1) then k1\<lparr>last_task_used_math := None\<rparr> else k1)"
  obtain l k3 where k3: "change_ldt (a_text ex) pages k2 = (l, k3)" by fastforce
  let ?set = "\<lambda>p. set_cur (\<lambda>t. t\<lparr>end_code := a_text ex, end_data := a_data ex + a_text ex,
                     brk := a_bss ex + (a_data ex + a_text ex), start_stack := p AND 0xfffff000\<rparr>)"
  obtain p' um q s4 s5 where r: "read_area i (sint (a_text ex + a_data ex)) (s1\<lparr>ker := ?set p' (k3\<lparr>fs_mem := um\<rparr>)\<rparr>) = Inr (q, s4)"
      "iput (Some i) s4 = Inr s5"
      "(if q < 0 then andthen (sys_exit (-1) s5) (\<lambda>s. Inr (Exec_gone, s))
        else Inr (Exec_returns 0 (eip[0 := a_entry ex, 3 := p']), upd_ker (put_user (clear_rest (a_text ex + a_data ex))) s5)) = Inr (r, s')"
    using rest1 unfolding Let_def k2_def [symmetric] k3 by (auto elim!: andthen_InrE)
  have "same_kern (ker s1) k1"
    by (rule same_kern_trans [OF same_kern_set_cur free_segments_same [OF s1(2)]]) simp
  moreover have "same_kern k1 k2"
    unfolding k2_def by (intro same_kern_trans [OF same_kern_update same_kern_set_cur]) simp_all
  moreover have "same_kern k2 k3" by (rule change_ldt_same [OF k3])
  moreover have "same_kern k3 (?set p' (k3\<lparr>fs_mem := um\<rparr>))"
    by (intro same_kern_trans [OF same_kern_update same_kern_set_cur]) simp_all
  ultimately have k: "same_kern (ker s1) (?set p' (k3\<lparr>fs_mem := um\<rparr>))"
    by (blast intro: same_kern_trans)
  have d: "descs s5 = descs (s1\<lparr>ker := ?set p' (k3\<lparr>fs_mem := um\<rparr>)\<rparr>)"
    using descs_read_area [OF r(1)] descs_held [OF held_iput [OF r(2)]] by simp
  have 5: "files_ok s5" by (rule files_ok_descs [OF files_ok_kern [OF 1(1) k] d])
  have "current (ker s5) \<noteq> 0" using d 1(2) k by (simp add: descs_def not_idle_def same_kern_def)
  then show ?thesis
    using r(3) 5 sys_exit_ok [OF 5] by (auto simp: put_user_same split: if_splits elim!: andthen_InrE)
qed

lemma held_bytes: "files_ok s \<Longrightarrow> files_ok (upd_ker (\<lambda>k. k\<lparr>mem := m\<rparr>) s)"
  using files_ok_held [of "upd_ker (\<lambda>k. k\<lparr>mem := m\<rparr>) s" s] by simp

lemma exec_args_ok:
  assumes ok: "files_ok s" and n: "not_idle s" and run: "exec_args i ex argv envp eip s = Inr (r, s')"
  shows "files_ok s'"
proof -
  obtain argc envc p pages m where c: "(if p = 0
      then andthen (free_pages pages m) (\<lambda>m.
           andthen (iput (Some i) (upd_ker (\<lambda>k. k\<lparr>mem := m\<rparr>) s)) (\<lambda>s. Inr (Exec_returns (-1) eip, s)))
      else exec_load i ex pages argc envc p eip (upd_ker (\<lambda>k. k\<lparr>mem := m\<rparr>) s)) = Inr (r, s')"
    using run by (auto simp: exec_args_def Let_def elim!: andthen_InrE)
  show ?thesis
  proof (cases "p = 0")
    case True
    then obtain m' s1 where "iput (Some i) (upd_ker (\<lambda>k. k\<lparr>mem := m'\<rparr>) s) = Inr s1" "s' = s1"
      using c by (auto elim!: andthen_InrE)
    then show ?thesis using files_ok_held [OF held_iput] held_bytes [OF ok, of m'] by blast
  next
    case False
    have "not_idle (upd_ker (\<lambda>k. k\<lparr>mem := m\<rparr>) s)" using n by (simp add: not_idle_def upd_ker_def)
    then show ?thesis using exec_load_ok [OF held_bytes [OF ok, of m]] c False by simp
  qed
qed

lemma do_execve_ok:
  assumes ok: "files_ok s" and n: "not_idle s" and run: "do_execve eip path argv envp s = Inr (r, s')"
  shows "files_ok s'"
proof -
  have h: "held s1 = held s \<Longrightarrow> files_ok s1 \<and> not_idle s1" for s1
    using ok n files_ok_held [of s1 s] heldD(3) [of s1 s] by (simp add: not_idle_def)
  have "held s' = held s \<or> (\<exists>s1 i ex. held s1 = held s \<and> exec_args i ex argv envp eip s1 = Inr (r, s'))"
    using run unfolding do_execve_def Let_def
    by (auto elim!: andthen_InrE split: if_splits option.splits dest!: held_namei held_leave held_iput held_bread held_brelse)
  then show ?thesis using h exec_args_ok by blast
qed


section \<open>Descriptors in use\<close>

lemma referred_counted:
  assumes ok: "files_ok s" and i: "i < NR_TASKS" "task (ker s) i = Some t" and f: "Some f \<in> set (filp t)"
  shows "f < NR_FILE \<and> f_count (file_table s f) \<noteq> 0"
proof -
  have fn: "f < NR_FILE" using files_okD(1) [OF ok] i f by (auto simp: tasks_ok_def filp_ok_def)
  have "0 < count_list (filp t) (Some f)" using f count_list_0_iff [of "filp t" "Some f"] by blast
  moreover have "file_refs f (task (ker s) i) \<le> descriptors (ker s) f"
    unfolding descriptors_def using i(1) by (intro member_le_sum) auto
  ultimately have "0 < unat (f_count (file_table s f))"
    using files_okD(4) [OF ok fn] i(2) by (simp add: file_refs_def)
  then show ?thesis using fn by auto
qed

text \<open>A process with one open file.\<close>

definition one_open :: fs where
  "one_open = small_disk\<lparr>ker := one_task\<lparr>task := (\<lambda>i. if i = 0 then Some ((INIT_TASK 0)\<lparr>filp := Some 2 # replicate 19 None\<rparr>) else None)\<rparr>,
     file_table := (\<lambda>i. \<lparr>f_mode = 0x81ff, f_flags = 0, f_count = (if i = 2 then 1 else 0), f_inode = Some 3, f_pos = 0\<rparr>)\<rparr>"

lemma one_open_ok: "files_ok one_open"
proof -
  have t: "task (ker one_open) i = (if i = 0 then Some ((INIT_TASK 0)\<lparr>filp := Some 2 # replicate 19 None\<rparr>) else None)"
    and c: "current (ker one_open) = 0" for i
    by (simp_all add: one_open_def one_task_def)
  have l: "live (ker one_open) 0" by (simp add: live_def t INIT_TASK_def)
  have "tasks_ok (ker one_open)"
    using l by (auto simp: tasks_ok_def alive_def filp_ok_def t c INIT_TASK_def split: if_splits)
  moreover have "unat (f_count (file_table one_open f)) = descriptors (ker one_open) f" for f
  proof -
    have "descriptors (ker one_open) f = (\<Sum>i<NR_TASKS. if i = 0 then of_bool (f = 2) else 0)"
      unfolding descriptors_def
      by (rule sum.cong) (auto simp: t file_refs_def count_list_0_iff)
    then show ?thesis by (simp add: one_open_def)
  qed
  ultimately show ?thesis by (simp add: files_ok_def)
qed

end
