(* ===== verification/Pipe_Props.thy ===== *)
theory Pipe_Props
  imports Pipe Buffer_Props
begin

unbundle bit_operations_syntax

text \<open>
  A pipe is a queue of bytes: the head and the tail in the inode and the page in the physical
  memory give an instance of the locale \<open>fifo\<close>, as the queues of the terminals do, and the calls
  move a prefix of what there is.
\<close>

section \<open>Bytes of the physical memory\<close>

lemma split_address: "(a AND NOT 3) OR (a AND 3) = (a :: u32)"
  by (rule bit_word_eqI) (auto simp: bit_simps)

lemma byte_in_word: "unat (a AND 3 :: u32) \<in> {0, 1, 2, 3}"
  using unat_and_mask [of a 2] by (auto simp: mask_eq_exp_minus_1)

lemma mask_8: "(0xff :: 'a :: ring_bit_operations) = mask 8"
  by (simp add: mask_eq_exp_minus_1)

lemma byte_of_word:
  fixes x :: u32 and v :: u8
  assumes "i \<in> {0, 1, 2, 3}" "j \<in> {0, 1, 2, 3}"
  shows "ucast (drop_bit (8 * i) ((x AND NOT (push_bit (8 * j) 0xff)) OR push_bit (8 * j) (ucast v))) =
    (if i = j then v else ucast (drop_bit (8 * i) x))"
proof (rule bit_word_eqI)
  fix n assume "n < LENGTH(8)"
  then show "bit (ucast (drop_bit (8 * i) ((x AND NOT (push_bit (8 * j) 0xff)) OR push_bit (8 * j) (ucast v))) :: u8) n =
      bit (if i = j then v else ucast (drop_bit (8 * i) x)) n"
    using assms unfolding mask_8 by (auto simp: bit_simps dest: bit_imp_le_length simp del: mask_numeral)
qed

lemma phys_byte_set:
  "phys_byte (set_phys_byte a v m) b = (if b = a then v else phys_byte m b)"
proof (cases "b AND NOT 3 = a AND NOT 3")
  case True
  have "unat (b AND 3) = unat (a AND 3) \<longleftrightarrow> b = a"
    using split_address [of a] split_address [of b] True by (metis word_unat_eq_iff)
  then show ?thesis
    using True byte_of_word [of "unat (b AND 3)" "unat (a AND 3)" "m (a AND NOT 3)" v, OF byte_in_word byte_in_word]
    by (simp add: phys_byte_def set_phys_byte_def Let_def del: insert_iff)
next
  case False
  then show ?thesis by (auto simp: phys_byte_def set_phys_byte_def Let_def)
qed


section \<open>The queue\<close>

definition pipe_page :: "m_inode \<times> memory \<Rightarrow> u8 list" where
  "pipe_page q = map (\<lambda>j. phys_byte (snd q) (i_size (fst q) + of_nat j)) [0..<2 ^ 12]"

definition pipe_text :: "m_inode \<times> memory \<Rightarrow> u8 list" where
  "pipe_text q = ring_abs 12 (pipe_page q) (PIPE_HEAD (fst q)) (PIPE_TAIL (fst q))"

definition pipe_ok :: "m_inode \<times> memory \<Rightarrow> bool" where
  "pipe_ok q \<longleftrightarrow> unat (PIPE_HEAD (fst q)) < 2 ^ 12 \<and> unat (PIPE_TAIL (fst q)) < 2 ^ 12 \<and> 4 \<le> length (i_zone (fst q))"

lemma halves: "ucast (ucast v :: u16) OR push_bit 16 (ucast (ucast (drop_bit 16 v) :: u16)) = (v :: u32)"
  by (rule bit_word_eqI) (auto simp: bit_simps)

lemma long_zone: "4 \<le> length xs \<Longrightarrow> xs \<noteq> []"
  by auto

lemma pipe_longs [simp]:
  "4 \<le> length (i_zone n) \<Longrightarrow> PIPE_HEAD (set_pipe_long 0 v n) = v"
  "4 \<le> length (i_zone n) \<Longrightarrow> PIPE_TAIL (set_pipe_long (Suc 0) v n) = v"
  "PIPE_TAIL (set_pipe_long 0 v n) = PIPE_TAIL n"
  "PIPE_HEAD (set_pipe_long (Suc 0) v n) = PIPE_HEAD n"
  "i_size (set_pipe_long k v n) = i_size n" "i_count (set_pipe_long k v n) = i_count n"
  "length (i_zone (set_pipe_long k v n)) = length (i_zone n)"
  by (auto simp: PIPE_HEAD_def PIPE_TAIL_def pipe_long_def set_pipe_long_def halves nth_list_update long_zone)

lemma INC_PIPE_ring: "INC_PIPE = ring_inc 12"
  by (intro ext) (simp add: INC_PIPE_def ring_inc_def mask_eq_exp_minus_1)

lemma PIPE_SIZE_ring: "PIPE_SIZE n = ring_chars 12 (PIPE_HEAD n) (PIPE_TAIL n)"
  by (simp add: PIPE_SIZE_def ring_chars_def mask_eq_exp_minus_1)

lemma page_ring_ok: "pipe_ok q \<Longrightarrow> ring_ok 12 (pipe_page q) (PIPE_HEAD (fst q)) (PIPE_TAIL (fst q))"
  by (simp add: ring_ok_def pipe_ok_def pipe_page_def)

lemma page_put:
  assumes "pipe_ok (n, m)"
  shows "pipe_page (pipe_put c (n, m)) = (pipe_page (n, m))[unat (PIPE_HEAD n) := c]"
proof (rule nth_equalityI)
  fix j assume "j < length (pipe_page (pipe_put c (n, m)))"
  then have j: "j < 2 ^ 12" by (simp add: pipe_page_def)
  have "unat (of_nat j :: u32) = j" using j by (simp add: unat_of_nat_small)
  then have "(of_nat j = PIPE_HEAD n) = (j = unat (PIPE_HEAD n))" by (metis word_unat_eq_iff)
  then show "pipe_page (pipe_put c (n, m)) ! j = (pipe_page (n, m))[unat (PIPE_HEAD n) := c] ! j"
    using j assms by (auto simp: pipe_page_def pipe_put_def phys_byte_set nth_list_update pipe_ok_def)
qed (simp add: pipe_page_def)

lemma page_get: "pipe_page (snd (pipe_get (n, m))) = pipe_page (n, m)"
  by (simp add: pipe_page_def pipe_get_def)

lemma PIPE_EMPTY_text: "pipe_ok (n, m) \<Longrightarrow> PIPE_EMPTY n \<longleftrightarrow> pipe_text (n, m) = []"
  using ring_empty [of 12 "PIPE_HEAD n" "PIPE_TAIL n" "pipe_page (n, m)"]
  by (simp add: PIPE_EMPTY_def pipe_text_def pipe_ok_def)

lemma PIPE_FULL_text: "PIPE_FULL n \<longleftrightarrow> length (pipe_text (n, m)) = 4095"
proof -
  have "PIPE_FULL n \<longleftrightarrow> unat (ring_chars 12 (PIPE_HEAD n) (PIPE_TAIL n)) = unat (4095 :: u32)"
    unfolding PIPE_FULL_def PIPE_SIZE_ring by (simp add: word_unat_eq_iff)
  then show ?thesis by (simp add: pipe_text_def)
qed

text \<open>A pipe is a first-in first-out queue of 4095 bytes.\<close>

interpretation pipe_q: fifo pipe_ok pipe_text pipe_put pipe_get 4095
proof unfold_locales
  fix q :: "m_inode \<times> memory" and c
  assume ok: "pipe_ok q"
  obtain n m where q: "q = (n, m)" by (cases q)
  note r = page_ring_ok [OF ok, unfolded q fst_conv]
  have z: "4 \<le> length (i_zone n)" using ok by (simp add: q pipe_ok_def)
  have inc: "unat (ring_inc 12 a) < 2 ^ 12" for a
    by (simp add: unat_ring_inc)
  have len: "length (pipe_text q) \<le> 4095"
    using ring_abs_less [of 12 "pipe_page q" "PIPE_HEAD n" "PIPE_TAIL n"] by (simp add: pipe_text_def q)
  show "pipe_ok (pipe_put c q)" "pipe_ok (snd (pipe_get q))"
    using ok z inc by (simp_all add: q pipe_ok_def pipe_put_def pipe_get_def INC_PIPE_ring)
  show "pipe_text (pipe_put c q) = pipe_text q @ [c]" if "length (pipe_text q) < 4095"
    using ring_put(1) [OF _ r, of c] that page_put [OF ok [unfolded q], of c] z
    by (simp add: q pipe_text_def INC_PIPE_ring) (simp add: pipe_put_def INC_PIPE_ring)
  show "pipe_text q = fst (pipe_get q) # pipe_text (snd (pipe_get q))" if "pipe_text q \<noteq> []"
  proof -
    have "PIPE_HEAD n \<noteq> PIPE_TAIL n"
      using that PIPE_EMPTY_text [OF ok [unfolded q]] by (simp add: q PIPE_EMPTY_def)
    then show ?thesis
      using ring_get(1) [OF _ r] z page_get [of n m] ok
      by (simp add: q pipe_text_def) (simp add: pipe_get_def INC_PIPE_ring pipe_page_def pipe_ok_def)
  qed
  show "length (pipe_text q) \<le> 4095" by (rule len)
qed


section \<open>The calls\<close>

lemma pipe_of_simps [simp]:
  "pipe_of i (set_pipe i q s) = q" "pipe_of i (sigpipe s) = pipe_of i s"
  "pipe_of i (upd_ker (put_user f) s) = pipe_of i s"
  "fs_mem (ker (set_pipe i q s)) = fs_mem (ker s)" "fs_mem (ker (sigpipe s)) = fs_mem (ker s)"
  "inode (set_pipe i q s) i = fst q"
  "fs_mem (ker (upd_ker (put_user f) s)) = f (fs_mem (ker s))"
  by (simp_all add: pipe_of_def set_pipe_def sigpipe_def upd_ker_def upd_inode_def put_user_def set_cur_def
      set_task_def)

lemma fst_pipe_of: "fst (pipe_of i s) = inode s i"
  by (simp add: pipe_of_def)

lemma pipe_of_ends:
  "pipe_ok (pipe_of i s) \<Longrightarrow> PIPE_EMPTY (inode s i) \<longleftrightarrow> pipe_text (pipe_of i s) = []"
  "PIPE_FULL (inode s i) \<longleftrightarrow> length (pipe_text (pipe_of i s)) = 4095"
  using PIPE_EMPTY_text [of "inode s i" "phys (mem (ker s))"] PIPE_FULL_text [of "inode s i" "phys (mem (ker s))"]
  by (simp_all add: pipe_of_def)

lemma i_count_pipe [simp]: "i_count (fst (pipe_put c q)) = i_count (fst q)" "i_count (fst (snd (pipe_get q))) = i_count (fst q)"
  by (simp_all add: pipe_put_def pipe_get_def split: prod.split)

lemma user_bytes_Suc:
  "get_fs_bytes (Suc n) b m = get_fs_byte m b # get_fs_bytes n (b + 1) m"
proof -
  have "[0..<Suc n] = 0 # map Suc [0..<n]" by (simp only: map_Suc_upt upt_rec [of 0 "Suc n"]) simp
  then show ?thesis by (simp add: get_fs_bytes_def comp_def ac_simps)
qed

text \<open>What a write of \<open>n\<close> bytes gives when \<open>k\<close> of them have found room.\<close>

definition write_outcome :: "nat \<Rightarrow> u32 \<Rightarrow> u32 \<Rightarrow> nat \<Rightarrow> nat \<Rightarrow> fs \<Rightarrow> pipe_result" where
  "write_outcome i start b n k s =
     (if k < n \<and> i_count (inode s i) = 2 then Pipe_waits (b + of_nat k) (n - k)
      else Pipe_done (sint (b + of_nat k - start)))"

lemma write_pipe_loop_text:
  "pipe_ok (pipe_of i s) \<Longrightarrow> k = min n (4095 - length (pipe_text (pipe_of i s))) \<Longrightarrow>
   \<exists>s'. write_pipe_loop i start b n s = (write_outcome i start b n k s, s') \<and> pipe_ok (pipe_of i s') \<and>
     pipe_text (pipe_of i s') = pipe_text (pipe_of i s) @ get_fs_bytes k b (fs_mem (ker s)) \<and>
     fs_mem (ker s') = fs_mem (ker s)"
proof (induction n arbitrary: b s k)
  case 0
  then show ?case by (simp add: write_outcome_def get_fs_bytes_def)
next
  case (Suc n)
  show ?case
  proof (cases "PIPE_FULL (inode s i)")
    case True
    then have "k = 0" using Suc.prems(2) pipe_of_ends(2) by simp
    then show ?thesis using True Suc.prems(1) by (simp add: write_outcome_def get_fs_bytes_def)
  next
    case False
    let ?c = "get_fs_byte (fs_mem (ker s)) b"
    let ?s = "set_pipe i (pipe_put ?c (pipe_of i s)) s"
    have len: "length (pipe_text (pipe_of i s)) < 4095"
      using False pipe_of_ends(2) [of s i] pipe_q.abs_cap [OF Suc.prems(1)] by linarith
    note t = pipe_q.put_abs [OF Suc.prems(1) len, of ?c]
    define j where "j = min n (4095 - length (pipe_text (pipe_of i ?s)))"
    have k: "k = Suc j" using Suc.prems(2) len by (auto simp: j_def t)
    obtain s' where s': "write_pipe_loop i start (b + 1) n ?s = (write_outcome i start (b + 1) n j ?s, s')"
        "pipe_ok (pipe_of i s')"
        "pipe_text (pipe_of i s') = pipe_text (pipe_of i ?s) @ get_fs_bytes j (b + 1) (fs_mem (ker ?s))"
        "fs_mem (ker s') = fs_mem (ker ?s)"
      using Suc.IH [of ?s j "b + 1"] pipe_q.put_invar [OF Suc.prems(1)] j_def by auto
    have "write_outcome i start (b + 1) n j ?s = write_outcome i start b (Suc n) k s"
      by (simp add: write_outcome_def k fst_pipe_of ac_simps)
    then show ?thesis using s' False by (simp add: t k user_bytes_Suc)
  qed
qed

lemma read_pipe_loop_text:
  "pipe_ok (pipe_of i s) \<Longrightarrow> k = min n (length (pipe_text (pipe_of i s))) \<Longrightarrow>
   \<exists>s'. read_pipe_loop i b n s = (b + of_nat k, s') \<and> pipe_ok (pipe_of i s') \<and>
     pipe_text (pipe_of i s') = drop k (pipe_text (pipe_of i s)) \<and>
     fs_mem (ker s') = put_fs_bytes (take k (pipe_text (pipe_of i s))) b (fs_mem (ker s))"
proof (induction n arbitrary: b s k)
  case (Suc n)
  note e = pipe_of_ends(1) [OF Suc.prems(1)]
  show ?case
  proof (cases "PIPE_EMPTY (inode s i)")
    case True
    then show ?thesis using Suc.prems e by simp
  next
    case False
    obtain c q where g: "pipe_get (pipe_of i s) = (c, q)" by (cases "pipe_get (pipe_of i s)")
    let ?s = "upd_ker (put_user (put_fs_byte c b)) (set_pipe i q s)"
    have t: "pipe_text (pipe_of i s) = c # pipe_text q" "pipe_ok q"
      using pipe_q.get_abs [OF Suc.prems(1)] pipe_q.get_invar [OF Suc.prems(1)] False e g by auto
    define j where "j = min n (length (pipe_text q))"
    have k: "k = Suc j" using Suc.prems(2) t by (simp add: j_def)
    obtain s' where s': "read_pipe_loop i (b + 1) n ?s = (b + 1 + of_nat j, s')" "pipe_ok (pipe_of i s')"
        "pipe_text (pipe_of i s') = drop j (pipe_text q)"
        "fs_mem (ker s') = put_fs_bytes (take j (pipe_text q)) (b + 1) (put_fs_byte c b (fs_mem (ker s)))"
      using Suc.IH [of ?s j "b + 1"] t(2) j_def by auto
    then show ?thesis using False g by (simp add: t k Let_def add.assoc)
  qed
qed simp


lemma sint_of_count: "n < 2 ^ 31 \<Longrightarrow> sint (of_nat n :: u32) = int n"
  by (simp add: sint_uint signed_take_bit_int_eq_self uint_nat unat_of_nat_small)

lemma write_pipe_text:
  assumes "pipe_ok (pipe_of i s)" "i_count (inode s i) = 2" "n < 2 ^ 31"
    and "k = min n (4095 - length (pipe_text (pipe_of i s)))"
  shows "\<exists>s'. write_pipe i b (int n) s =
      (if k < n then Pipe_waits (b + of_nat k) (n - k) else Pipe_done (int n), s') \<and> pipe_ok (pipe_of i s') \<and>
    pipe_text (pipe_of i s') = pipe_text (pipe_of i s) @ get_fs_bytes k b (fs_mem (ker s)) \<and>
    fs_mem (ker s') = fs_mem (ker s)"
proof -
  obtain s' where s': "write_pipe_loop i b b n s = (write_outcome i b b n k s, s')" "pipe_ok (pipe_of i s')"
      "pipe_text (pipe_of i s') = pipe_text (pipe_of i s) @ get_fs_bytes k b (fs_mem (ker s))"
      "fs_mem (ker s') = fs_mem (ker s)"
    using write_pipe_loop_text [OF assms(1,4)] by blast
  have "\<not> k < n \<Longrightarrow> k = n" using assms(4) by simp
  moreover have "sint (of_nat n :: u32) = int n" using assms(3) by (rule sint_of_count)
  ultimately show ?thesis using s' assms(2) by (auto simp: write_pipe_def write_outcome_def)
qed

lemma read_pipe_text:
  assumes "pipe_ok (pipe_of i s)" "pipe_text (pipe_of i s) \<noteq> []" "n < 2 ^ 31"
    and "k = min n (length (pipe_text (pipe_of i s)))"
  shows "\<exists>s'. read_pipe i b (int n) s = (Pipe_done (int k), s') \<and> pipe_ok (pipe_of i s') \<and>
    pipe_text (pipe_of i s') = drop k (pipe_text (pipe_of i s)) \<and>
    fs_mem (ker s') = put_fs_bytes (take k (pipe_text (pipe_of i s))) b (fs_mem (ker s))"
proof -
  obtain s' where s': "read_pipe_loop i b n s = (b + of_nat k, s')" "pipe_ok (pipe_of i s')"
      "pipe_text (pipe_of i s') = drop k (pipe_text (pipe_of i s))"
      "fs_mem (ker s') = put_fs_bytes (take k (pipe_text (pipe_of i s))) b (fs_mem (ker s))"
    using read_pipe_loop_text [OF assms(1,4)] by blast
  moreover have "k < 2 ^ 31" using assms(3,4) by simp
  ultimately show ?thesis
    using assms(2) pipe_of_ends(1) [OF assms(1)] by (simp add: read_pipe_def sint_of_count)
qed


section \<open>The properties\<close>

text \<open>
  A write to a pipe appends as many bytes as there is room for, 4095 at most in all, and
  then returns or waits with the rest.
\<close>

theorem write_pipe_appends:
  assumes "pipe_ok (pipe_of i s)" "i_count (inode s i) = 2" "n < 2 ^ 31"
    and "k = min n (4095 - length (pipe_text (pipe_of i s)))"
  shows "\<exists>s'. write_pipe i b (int n) s =
      (if k < n then Pipe_waits (b + of_nat k) (n - k) else Pipe_done (int n), s') \<and> pipe_ok (pipe_of i s') \<and>
    pipe_text (pipe_of i s') = pipe_text (pipe_of i s) @ get_fs_bytes k b (fs_mem (ker s))"
  using write_pipe_text [OF assms] by blast

text \<open>
  C23. What is written to a pipe with room for it is read from it in order, after what was in
  it before, and leaves it empty.
\<close>

theorem pipe_roundtrip:
  assumes "pipe_ok (pipe_of i s)" "i_count (inode s i) = 2"
    and "0 < n" "length (pipe_text (pipe_of i s)) + n \<le> 4095"
  shows "\<exists>s1 s2. write_pipe i b (int n) s = (Pipe_done (int n), s1) \<and>
    read_pipe i b' (int (length (pipe_text (pipe_of i s)) + n)) s1 =
      (Pipe_done (int (length (pipe_text (pipe_of i s)) + n)), s2) \<and>
    fs_mem (ker s2) = put_fs_bytes (pipe_text (pipe_of i s) @ get_fs_bytes n b (fs_mem (ker s))) b' (fs_mem (ker s)) \<and>
    PIPE_EMPTY (inode s2 i)"
proof -
  let ?t = "pipe_text (pipe_of i s)"
  have n: "n < 2 ^ 31" "n = min n (4095 - length ?t)" using assms(4) by simp_all
  obtain s1 where s1: "write_pipe i b (int n) s = (Pipe_done (int n), s1)" "pipe_ok (pipe_of i s1)"
      "pipe_text (pipe_of i s1) = ?t @ get_fs_bytes n b (fs_mem (ker s))" "fs_mem (ker s1) = fs_mem (ker s)"
    using write_pipe_text [OF assms(1,2) n, of b] by auto
  have len: "length (get_fs_bytes n b (fs_mem (ker s))) = n" by (simp add: get_fs_bytes_def)
  then have ne: "get_fs_bytes n b (fs_mem (ker s)) \<noteq> []" using assms(3) by auto
  obtain s2 where s2: "read_pipe i b' (int (length ?t + n)) s1 = (Pipe_done (int (length ?t + n)), s2)"
      "pipe_ok (pipe_of i s2)" "pipe_text (pipe_of i s2) = []"
      "fs_mem (ker s2) = put_fs_bytes (?t @ get_fs_bytes n b (fs_mem (ker s))) b' (fs_mem (ker s))"
    using read_pipe_text [OF s1(2), of "length ?t + n" "length ?t + n" b'] s1(3,4) len assms(3,4) ne by auto
  then show ?thesis using s1(1) pipe_of_ends(1) [OF s2(2)] by auto
qed


section \<open>At an empty pipe\<close>

definition empty_pipe :: fs where
  "empty_pipe = small_disk\<lparr>inode := (\<lambda>i. if i = 5 then no_inode\<lparr>i_size := 0x5000, i_count := 2, i_pipe := 1,
     i_zone := replicate 9 0\<rparr> else no_inode)\<rparr>"

lemma empty_pipe_ok: "pipe_ok (pipe_of 5 empty_pipe)" "i_count (inode empty_pipe 5) = 2"
    "pipe_text (pipe_of 5 empty_pipe) = []" "ker empty_pipe = one_task"
proof -
  have "PIPE_HEAD (inode empty_pipe 5) = 0" "PIPE_TAIL (inode empty_pipe 5) = 0" "length (i_zone (inode empty_pipe 5)) = 9"
    by (simp_all add: empty_pipe_def PIPE_HEAD_def PIPE_TAIL_def pipe_long_def)
  then show k: "pipe_ok (pipe_of 5 empty_pipe)" and "pipe_text (pipe_of 5 empty_pipe) = []"
    by (simp_all add: pipe_ok_def pipe_of_def pipe_text_def ring_abs_def ring_chars_def)
  show "i_count (inode empty_pipe 5) = 2" by (simp add: empty_pipe_def)
  show "ker empty_pipe = one_task" by (simp add: empty_pipe_def small_disk_def buffer_init_def Let_def)
qed

theorem write_pipe_appends_witness:
  "\<exists>s'. write_pipe 5 64 5000 empty_pipe = (Pipe_waits 4159 905, s') \<and> length (pipe_text (pipe_of 5 s')) = 4095"
  using write_pipe_appends [OF empty_pipe_ok(1,2), of 5000 4095 64]
  by (auto simp: empty_pipe_ok get_fs_bytes_def)

theorem pipe_roundtrip_witness:
  "\<exists>s1 s2. write_pipe 5 64 3 empty_pipe = (Pipe_done 3, s1) \<and> read_pipe 5 4096 3 s1 = (Pipe_done 3, s2) \<and>
     fs_mem (ker s2) = put_fs_bytes [1, 1, 1] 4096 (fs_mem one_task)"
  using pipe_roundtrip [OF empty_pipe_ok(1,2), of 3 64 4096]
  by (auto simp: empty_pipe_ok get_fs_bytes_def get_fs_byte_def one_task_def upt_rec)

end
