(* ===== verification/Fork_Props.thy ===== *)
theory Fork_Props
  imports File_Table
begin

unbundle bit_operations_syntax

text \<open>
  A new process: \<open>find_empty_process\<close> ends with a number that no process has, and \<open>sys_fork\<close> makes
  a copy of the caller that differs from it where it should.
\<close>

section \<open>The number\<close>

abbreviation pids :: "kern \<Rightarrow> int set" where
  "pids k \<equiv> {pid t | t i. i < NR_TASKS \<and> task k i = Some t}"

lemma pid_used_iff: "pid_used k p \<longleftrightarrow> p \<in> pids k"
  unfolding pid_used_def list_ex_iff
  by (auto split: option.splits) (metis option.distinct(1) option.inject)

lemma finite_pids: "finite (pids k) \<and> card (pids k) \<le> NR_TASKS"
proof -
  have "pids k \<subseteq> (\<lambda>i. pid (the (task k i))) ` {..<NR_TASKS}" by force
  then show ?thesis
    using finite_surj [of "{..<NR_TASKS}"] card_image_le [of "{..<NR_TASKS}" "\<lambda>i. pid (the (task k i))"]
      card_mono [of "(\<lambda>i. pid (the (task k i))) ` {..<NR_TASKS}" "pids k"] by auto
qed

lemma next_pid_iterate:
  "0 \<le> p \<Longrightarrow> p < 2 ^ 31 \<Longrightarrow> 0 < n \<Longrightarrow> n \<le> 100 \<Longrightarrow>
   (next_pid ^^ n) p = (if p + int n < 2 ^ 31 then p + int n else p + int n - 2 ^ 31 + 1)"
proof (induction n)
  case (Suc n)
  have top: "s32 (2 ^ 31) = - (2 ^ 31)" by (simp add: s32_def signed_take_bit_int_eq_self_iff)
  have step: "next_pid q = (if q + 1 < 2 ^ 31 then q + 1 else 1)" if "0 \<le> q" "q < 2 ^ 31" for q
    using that top s32_id [of "q + 1"] by (cases "q + 1 = 2 ^ 31") (auto simp: next_pid_def)
  show ?case
  proof (cases "n = 0")
    case True
    then show ?thesis using step [OF Suc.prems(1,2)] Suc.prems by (auto split: if_splits)
  next
    case False
    then have "(next_pid ^^ n) p = (if p + int n < 2 ^ 31 then p + int n else p + int n - 2 ^ 31 + 1)"
      using Suc by simp
    then show ?thesis using step [of "(next_pid ^^ n) p"] Suc.prems by (auto split: if_splits)
  qed
qed simp

lemma fresh_pid_least:
  "0 < n \<Longrightarrow> \<not> pid_used k ((next_pid ^^ n) p) \<Longrightarrow> (\<And>m. 0 < m \<Longrightarrow> m < n \<Longrightarrow> pid_used k ((next_pid ^^ m) p)) \<Longrightarrow>
   fresh_pid k p = Some ((next_pid ^^ n) p)"
proof (induction n arbitrary: p)
  case (Suc n)
  show ?case
  proof (cases "n = 0")
    case True
    then show ?thesis using Suc.prems by (subst fresh_pid.simps) simp
  next
    case False
    have used: "pid_used k (next_pid p)" using Suc.prems(3) [of 1] False by simp
    have "fresh_pid k (next_pid p) = Some ((next_pid ^^ n) (next_pid p))"
    proof (rule Suc.IH)
      show "\<not> pid_used k ((next_pid ^^ n) (next_pid p))" using Suc.prems(2) by (simp add: funpow_swap1)
      show "pid_used k ((next_pid ^^ m) (next_pid p))" if "0 < m" "m < n" for m
        using Suc.prems(3) [of "Suc m"] that by (simp add: funpow_swap1)
    qed (use False in simp)
    then show ?thesis using used by (subst fresh_pid.simps) (simp add: funpow_swap1)
  qed
qed simp

lemma fresh_pid_returns:
  assumes "0 \<le> p" "p < 2 ^ 31"
  shows "\<exists>q. fresh_pid k p = Some q \<and> 0 < q \<and> q < 2 ^ 31 \<and> q \<notin> pids k"
proof -
  let ?f = "\<lambda>n. (next_pid ^^ n) p"
  have it: "?f n = (if p + int n < 2 ^ 31 then p + int n else p + int n - 2 ^ 31 + 1)" if "n \<in> {1..65}" for n
    using next_pid_iterate [OF assms, of n] that by auto
  have "inj_on ?f {1..65}"
    by (rule inj_onI) (use it assms in \<open>auto split: if_splits\<close>)
  then have "card (?f ` {1..65}) = 65" by (simp add: card_image)
  then have "\<not> ?f ` {1..65} \<subseteq> pids k"
    using finite_pids [of k] card_mono [of "pids k" "?f ` {1..65}"] by auto
  then obtain n0 where "n0 \<in> {1..65}" "?f n0 \<notin> pids k" by blast
  then have n0: "n0 \<in> {1..65}" "\<not> pid_used k (?f n0)" by (simp_all only: pid_used_iff not_False_eq_True)
  define n where "n = (LEAST n. 0 < n \<and> \<not> pid_used k (?f n))"
  have n: "0 < n" "\<not> pid_used k (?f n)" and le: "n \<le> n0"
    using LeastI [of "\<lambda>n. 0 < n \<and> \<not> pid_used k (?f n)" n0] Least_le [of "\<lambda>n. 0 < n \<and> \<not> pid_used k (?f n)" n0] n0
    unfolding n_def by auto
  have least: "pid_used k (?f m)" if "0 < m" "m < n" for m
    using not_less_Least [of m "\<lambda>n. 0 < n \<and> \<not> pid_used k (?f n)"] that unfolding n_def by blast
  have "fresh_pid k p = Some (?f n)" by (rule fresh_pid_least [OF n least])
  moreover have "0 < ?f n" "?f n < 2 ^ 31"
    using it [of n] assms n(1) le n0(1) by (auto split: if_splits)
  ultimately show ?thesis using n(2) by (auto simp: pid_used_iff)
qed


text \<open>
  C17. \<open>find_empty_process\<close> returns: the loop over the numbers ends within 65 turns, with a number
  that no process has. The slot is the first free one, or the error says that there is none.
\<close>

theorem find_empty_process_fresh:
  assumes "0 \<le> last_pid k" "last_pid k < 2 ^ 31"
  shows "\<exists>nr k'. find_empty_process k = Inr (nr, k') \<and> k' = k\<lparr>last_pid := last_pid k'\<rparr> \<and>
    0 < last_pid k' \<and> last_pid k' < 2 ^ 31 \<and> last_pid k' \<notin> {pid t | t i. i < NR_TASKS \<and> task k i = Some t} \<and>
    (case find (\<lambda>i. task k i = None) [1..<NR_TASKS] of None \<Rightarrow> nr = - EAGAIN | Some i \<Rightarrow> nr = int i)"
proof -
  obtain q where q: "fresh_pid k (last_pid k) = Some q" "0 < q" "q < 2 ^ 31" "q \<notin> pids k"
    using fresh_pid_returns [OF assms] by blast
  then show ?thesis by (auto simp: find_empty_process_def split: option.split)
qed


section \<open>The copy\<close>

lemma copy_mem_ldt:
  assumes "copy_mem nr p k = Inr (0, p', k')"
  shows "p' = p\<lparr>ldt := (ldt p)[1 := set_base (ldt p ! 1) (of_nat nr * 0x4000000),
           2 := set_base (ldt p ! 2) (of_nat nr * 0x4000000)]\<rparr> \<and> fpu k' = fpu k \<and> last_pid k' = last_pid k"
  using assms by (auto simp: copy_mem_def Let_def elim!: andthen_InrE split: if_splits prod.splits)

lemma copy_process_child:
  assumes run: "copy_process nr a s = Inr (r, s')" and r: "0 < r"
  obtains page k p where "p = fst (save_math (child nr page a k) k)" "k = (ker s)\<lparr>mem := mem k\<rparr>"
    "task (ker s') = (task (ker s))(nr := Some (p\<lparr>ldt := (ldt p)[1 := set_base (ldt p ! 1) (of_nat nr * 0x4000000),
           2 := set_base (ldt p ! 2) (of_nat nr * 0x4000000)]\<rparr>))"
    "r = last_pid (ker s)" "current (ker s') = current (ker s)" "last_pid (ker s') = last_pid (ker s)"
    "fpu (ker s') = fpu (snd (save_math (child nr page a k) k))"
proof -
  obtain page m where g: "get_free_page (mem (ker s)) = (page, m)" by (cases "get_free_page (mem (ker s))")
  let ?k = "(ker s)\<lparr>mem := m\<rparr>"
  obtain p k where sm: "save_math (child nr page a ?k) ?k = (p, k)" by fastforce
  let ?t = "\<lambda>p' k'. set_ldt_desc (2 * nr + FIRST_LDT_ENTRY) (page + ldt_offset)
      (set_tss_desc (2 * nr + FIRST_TSS_ENTRY) (page + tss_offset) (share_files p' (s\<lparr>ker := k'\<rparr>)))"
  obtain p' k' where c: "copy_mem nr p k = Inr (0, p', k')" "r = last_pid k'"
      "s' = upd_ker (\<lambda>k. k\<lparr>task := (task k)(nr := Some p')\<rparr>)
        (?t p' k'\<lparr>task_page := (task_page (?t p' k'))(nr := page)\<rparr>)"
    using run g r sm unfolding copy_process_def Let_def
    by (auto simp: upd_ker_def elim!: andthen_InrE split: if_splits)
  have l: "last_pid k = last_pid (ker s)" using sm by (auto simp: save_math_def split: if_splits)
  show ?thesis
    by (rule that [of p page ?k])
      (use sm l copy_mem_ldt [OF c(1)] copy_mem_task [OF c(1)] save_math_task [OF sm]
        in \<open>simp_all add: c(2,3) upd_ker_def\<close>)
qed



section \<open>The first process makes another one\<close>

lemma copy_dirs_empty: "\<forall>a. phys m a = 0 \<Longrightarrow> copy_dirs n from f t m = Inr (0, m)"
  by (induction n arbitrary: f t) auto

definition no_frame :: frame where
  "no_frame = \<lparr>a_ebp = 0, a_edi = 0, a_esi = 0, a_gs = 0, a_ebx = 0, a_ecx = 0, a_edx = 0, a_fs = 0, a_es = 0,
     a_ds = 0, a_eip = 4096, a_cs = 0, a_eflags = 0, a_esp = 0, a_ss = 0\<rparr>"

lemma first_pid: "find_empty_process (ker one_open) = Inr (1, (ker one_open)\<lparr>last_pid := 1\<rparr>)"
proof -
  have t: "task (ker one_open) i = (if i = 0 then Some ((INIT_TASK 0)\<lparr>filp := Some 2 # replicate 19 None\<rparr>) else None)"
    and l: "last_pid (ker one_open) = 0" for i
    by (simp_all add: one_open_def one_task_def)
  have "next_pid 0 = 1" by (simp add: next_pid_def s32_id)
  moreover have "\<not> pid_used (ker one_open) 1"
    by (auto simp: pid_used_def list_ex_iff t INIT_TASK_def)
  ultimately have "fresh_pid (ker one_open) 0 = Some 1" by (subst fresh_pid.simps) simp
  moreover have "find (\<lambda>i. task (ker one_open) i = None) [1..<NR_TASKS] = Some 1"
    by (simp add: t upt_rec)
  ultimately show ?thesis by (simp add: find_empty_process_def l)
qed

lemma first_fork: "\<exists>s'. sys_fork no_frame one_open = Inr (1, s')"
proof -
  let ?s = "one_open\<lparr>ker := (ker one_open)\<lparr>last_pid := 1\<rparr>\<rparr>"
  have mem: "mem (ker ?s) = \<lparr>mem_map = (\<lambda>_. 0), phys = (\<lambda>_. 0)\<rparr>" by (simp add: one_open_def one_task_def)
  obtain page m where g: "get_free_page (mem (ker ?s)) = (page, m)" by (cases "get_free_page (mem (ker ?s))")
  have page: "page \<noteq> 0"
  proof
    assume "page = 0"
    with g get_free_page_0 [of "mem (ker ?s)" m] have "\<forall>i < PAGING_PAGES. mem_map (mem (ker ?s)) i \<noteq> 0" by simp
    from this [rule_format, of 0] show False unfolding mem by simp
  qed
  have ph: "\<forall>a. phys m a = 0"
    by (rule get_free_page_spec [OF g page]) (simp add: mem [simplified])
  let ?k = "(ker ?s)\<lparr>mem := m\<rparr>"
  have c: "cur ?k = (INIT_TASK 0)\<lparr>filp := Some 2 # replicate 19 None\<rparr>"
    and lm: "last_task_used_math ?k = None" and lp: "last_pid ?k = 1"
    by (simp_all add: cur_def one_open_def one_task_def)
  have sm: "save_math (child 1 page no_frame ?k) ?k = (child 1 page no_frame ?k, ?k)"
    using lm by (simp add: save_math_def)
  have b: "get_base (ldt (cur ?k) ! 1) = 0" "get_base (ldt (cur ?k) ! 2) = 0"
    "get_limit (ldt (cur ?k) ! 1) = get_limit (ldt (cur ?k) ! 2)"
    unfolding c by (simp_all add: INIT_TASK_def get_base_def get_limit_def)
  obtain p k where cm: "copy_mem 1 (child 1 page no_frame ?k) ?k = Inr (0, p, k)" "last_pid k = 1"
    using ph lp unfolding copy_mem_def b Let_def by (auto simp: copy_page_tables_def copy_dirs_empty)
  have "\<exists>s'. copy_process 1 no_frame ?s = Inr (1, s')"
    using g page sm cm unfolding copy_process_def Let_def by (simp add: upd_ker_def)
  then show ?thesis by (simp add: sys_fork_def first_pid Let_def)
qed

theorem find_empty_process_fresh_witness:
  "\<exists>nr k'. find_empty_process (ker one_open) = Inr (nr, k') \<and> 0 < last_pid k' \<and> nr = 1"
  using find_empty_process_fresh [of "ker one_open"] first_pid by (auto simp: one_open_def one_task_def)


end
