(* ===== verification/Setup.thy ===== *)
theory Setup
  imports Super
begin

unbundle bit_operations_syntax

text \<open>
  \<open>sys_setup\<close> of kernel/hd.c, the first call of the first process: the partition tables of the
  drives, and the root file system.
\<close>

text \<open>
  The boot sector is read by \<open>rw_abs_hd\<close>, without the check of \<open>rw_hd\<close>, into the first buffer; it
  is block 0 of the device of the whole drive. The partitions are those of struct
  \<open>partition\<close> (include/linux/hdreg.h), 16 bytes each from \<open>0x1BE\<close> on.
\<close>

definition read_boot :: "nat \<Rightarrow> fs \<Rightarrow> fs result" where
  "read_boot drive s =
     (if b_lock (buf s 0) \<noteq> 0 then Inl Sleeps
      else Inr (case disk s (0x300 + 5 * of_nat drive) 0 of
                  None \<Rightarrow> upd_buf 0 (\<lambda>h. h\<lparr>b_uptodate := 0\<rparr>) s
                | Some d \<Rightarrow> upd_buf 0 (\<lambda>h. h\<lparr>b_data := d, b_uptodate := 1, b_dirt := 0\<rparr>) s))"

definition partition_at :: "u8 list \<Rightarrow> nat \<Rightarrow> hd_struct" where
  "partition_at d i = (let p = 0x1BE + 16 * i in \<lparr>start_sect = le32 d (p + 8), nr_sects = le32 d (p + 12)\<rparr>)"

definition set_partitions :: "nat \<Rightarrow> u8 list \<Rightarrow> fs \<Rightarrow> fs" where
  "set_partitions drive d s =
     s\<lparr>parts := fold (\<lambda>i f. f(i + 5 * drive := partition_at d (i - 1))) [1..<5] (parts s)\<rparr>"

fun setup_drives :: "nat list \<Rightarrow> fs \<Rightarrow> fs result" where
  "setup_drives [] s = Inr s"
| "setup_drives (drive # ds) s =
     andthen (read_boot drive s) (\<lambda>s.
     let d = b_data (buf s 0) in
     if b_uptodate (buf s 0) = 0 then Inl (Panic [])
     else if d ! 510 \<noteq> 0x55 \<or> d ! 511 \<noteq> 0xAA then Inl (Panic [])
     else setup_drives ds (set_partitions drive d s))"

definition sys_setup :: "fs \<Rightarrow> (int \<times> fs) result" where
  "sys_setup s =
     (if \<not> callable s then Inr (-1, s)
      else
        andthen (setup_drives [0..<NR_HD] (s\<lparr>callable := False\<rparr>)) (\<lambda>s.
        andthen (mount_root s) (\<lambda>(_, _, s). Inr (0, s))))"

end
