(* ===== verification/Calls.thy ===== *)
theory Calls
  imports Setup Rw Exec
begin

unbundle bit_operations_syntax

text \<open>
  The system calls: the table of include/linux/sys.h, the numbers of include/unistd.h and the
  stubs of the user library, the entry and the way back in kernel/system\_call.s with the
  delivery of signals.
\<close>

section \<open>Names and numbers\<close>

text \<open>\<open>sys_call_table\<close>, without the prefix \<open>sys_\<close> of the names.\<close>

definition sys_call_table :: "string list" where
  "sys_call_table =
     [''setup'', ''exit'', ''fork'', ''read'', ''write'', ''open'', ''close'', ''waitpid'', ''creat'', ''link'',
      ''unlink'', ''execve'', ''chdir'', ''time'', ''mknod'', ''chmod'', ''chown'', ''break'', ''stat'', ''lseek'',
      ''getpid'', ''mount'', ''umount'', ''setuid'', ''getuid'', ''stime'', ''ptrace'', ''alarm'', ''fstat'',
      ''pause'', ''utime'', ''stty'', ''gtty'', ''access'', ''nice'', ''ftime'', ''sync'', ''kill'', ''rename'',
      ''mkdir'', ''rmdir'', ''dup'', ''pipe'', ''times'', ''prof'', ''brk'', ''setgid'', ''getgid'', ''signal'',
      ''geteuid'', ''getegid'', ''acct'', ''phys'', ''lock'', ''ioctl'', ''fcntl'', ''mpx'', ''setpgid'', ''ulimit'',
      ''uname'', ''umask'', ''chroot'', ''ustat'', ''dup2'', ''getppid'', ''getpgrp'', ''setsid'']"

text \<open>The constants \<open>__NR_\<close> of the library.\<close>

definition NR :: "(string \<times> u32) list" where
  "NR =
     [(''setup'', 0), (''exit'', 1), (''fork'', 2), (''read'', 3), (''write'', 4), (''open'', 5), (''close'', 6),
      (''waitpid'', 7), (''creat'', 8), (''link'', 9), (''unlink'', 10), (''execve'', 11), (''chdir'', 12),
      (''time'', 13), (''mknod'', 14), (''chmod'', 15), (''chown'', 16), (''break'', 17), (''stat'', 18),
      (''lseek'', 19), (''getpid'', 20), (''mount'', 21), (''umount'', 22), (''setuid'', 23), (''getuid'', 24),
      (''stime'', 25), (''ptrace'', 26), (''alarm'', 27), (''fstat'', 28), (''pause'', 29), (''utime'', 30),
      (''stty'', 31), (''gtty'', 32), (''access'', 33), (''nice'', 34), (''ftime'', 35), (''sync'', 36),
      (''kill'', 37), (''rename'', 38), (''mkdir'', 39), (''rmdir'', 40), (''dup'', 41), (''pipe'', 42),
      (''times'', 43), (''prof'', 44), (''brk'', 45), (''setgid'', 46), (''getgid'', 47), (''signal'', 48),
      (''geteuid'', 49), (''getegid'', 50), (''acct'', 51), (''phys'', 52), (''lock'', 53), (''ioctl'', 54),
      (''fcntl'', 55), (''mpx'', 56), (''setpgid'', 57), (''ulimit'', 58), (''uname'', 59), (''umask'', 60),
      (''chroot'', 61), (''ustat'', 62), (''dup2'', 63), (''getppid'', 64), (''getpgrp'', 65), (''setsid'', 66)]"

text \<open>A stub of the library: its value and the new \<open>errno\<close>, if it is set.\<close>

definition stub_result :: "u32 \<Rightarrow> int \<times> int option" where
  "stub_result eax = (let res = sint eax in if 0 \<le> res then (res, None) else (-1, Some (s32 (- res))))"


section \<open>The calls\<close>

text \<open>
  What a call comes to: a value in \<open>eax\<close>, a read or write that waits or ends with the terminal or
  the pipe, another process that runs, a new program with its \<open>eip\<close> and stack, or no process any more.
\<close>

datatype outcome =
    Returns u32
  | Moves call_result
  | Suspended
  | New_program "u32 list"
  | Gone

type_synonym handler = "fs \<Rightarrow> (outcome \<times> fs) result"

definition gives :: "(int \<times> fs) result \<Rightarrow> (outcome \<times> fs) result" where
  "gives r = andthen r (\<lambda>(v, s). Inr (Returns (word_of_int v), s))"

definition gives_ker :: "(kern \<Rightarrow> (int \<times> kern) result) \<Rightarrow> handler" where
  "gives_ker f s = andthen (f (ker s)) (\<lambda>(v, k). Inr (Returns (word_of_int v), s\<lparr>ker := k\<rparr>))"

definition reads_ker :: "(kern \<Rightarrow> int) \<Rightarrow> handler" where
  "reads_ker f = gives_ker (\<lambda>k. Inr (f k, k))"

definition sets_ker :: "(kern \<Rightarrow> int \<times> kern) \<Rightarrow> handler" where
  "sets_ker f = gives_ker (\<lambda>k. Inr (f k))"

definition moves :: "(call_result \<times> fs) result \<Rightarrow> (outcome \<times> fs) result" where
  "moves r = andthen r (\<lambda>(v, s). Inr (case v of Finished n \<Rightarrow> Returns (word_of_int n) | _ \<Rightarrow> Moves v, s))"

definition missing :: "string \<Rightarrow> handler" where
  "missing name s =
     Inr (Returns (word_of_int (the (map_of (unimplemented @ unimplemented2) name))), s)"

definition call_execve :: "frame \<Rightarrow> handler" where
  "call_execve fr s =
     andthen (do_execve [a_eip fr, a_cs fr, a_eflags fr, a_esp fr, a_ss fr] (a_ebx fr) (a_ecx fr) (a_edx fr) s) (\<lambda>(r, s).
     Inr (case r of Exec_gone \<Rightarrow> Gone
                  | Exec_returns v eip \<Rightarrow> if v = 0 then New_program eip else Returns (word_of_int v), s))"

definition call_waitpid :: "frame \<Rightarrow> handler" where
  "call_waitpid fr s =
     andthen (sys_waitpid (task_page s) (sint (a_ebx fr)) (a_ecx fr) (sint (a_edx fr)) (ker s)) (\<lambda>(r, k).
     Inr (case r of None \<Rightarrow> Suspended | Some v \<Rightarrow> Returns (word_of_int v), s\<lparr>ker := k\<rparr>))"

definition call_pause :: handler where
  "call_pause s = andthen (returns (sys_pause (ker s))) (\<lambda>k. Inr (Suspended, s\<lparr>ker := k\<rparr>))"

definition call_exit :: "frame \<Rightarrow> handler" where
  "call_exit fr s = andthen (sys_exit (sint (a_ebx fr)) s) (\<lambda>s. Inr (Gone, s))"


text \<open>
  The handlers in the order of \<open>sys_call_table\<close>. The arguments are in \<open>ebx\<close>, \<open>ecx\<close> and \<open>edx\<close> of
  the frame; \<open>wr\<close> is what the driver of a terminal does with its write queue, \<open>j\<close> and \<open>js\<close> are the
  bytes between the fields of the structures that \<open>ioctl\<close> and \<open>stat\<close> copy out.
\<close>

definition handlers :: "tty_writer \<Rightarrow> u8 \<Rightarrow> u8 list \<Rightarrow> frame \<Rightarrow> handler list" where
  "handlers wr j js fr =
     (let b = a_ebx fr; c = a_ecx fr; d = a_edx fr in
      [\<lambda>s. gives (sys_setup s), call_exit fr, \<lambda>s. gives (sys_fork fr s),
       \<lambda>s. moves (sys_read wr (unat b) c (sint d) s), \<lambda>s. moves (sys_write wr (unat b) c (sint d) s),
       \<lambda>s. gives (sys_open b c d s), \<lambda>s. gives (sys_close (unat b) s), call_waitpid fr,
       \<lambda>s. gives (sys_creat b c s), \<lambda>s. gives (sys_link b c s), \<lambda>s. gives (sys_unlink b s), call_execve fr,
       \<lambda>s. gives (sys_chdir b s), gives_ker (sys_time b), missing ''mknod'', \<lambda>s. gives (sys_chmod b c s),
       \<lambda>s. gives (sys_chown b (sint c) (sint d) s), missing ''break'', \<lambda>s. gives (sys_stat js b c s),
       \<lambda>s. gives (Inr (sys_lseek (unat b) (sint c) (sint d) s)), reads_ker sys_getpid, missing ''mount'',
       missing ''umount'', sets_ker (sys_setuid (sint b)), reads_ker sys_getuid, sets_ker (sys_stime b),
       missing ''ptrace'', sets_ker (sys_alarm (sint b)), \<lambda>s. gives (sys_fstat js (unat b) c s), call_pause,
       \<lambda>s. gives (sys_utime b c s), missing ''stty'', missing ''gtty'', \<lambda>s. gives (sys_access b (sint c) s),
       sets_ker (sys_nice (sint b)), missing ''ftime'', \<lambda>s. gives (sys_sync s), sets_ker (sys_kill (sint b) (sint c)),
       missing ''rename'', \<lambda>s. gives (sys_mkdir b c s), \<lambda>s. gives (sys_rmdir b s),
       \<lambda>s. gives (Inr (sys_dup (unat b) s)), \<lambda>s. gives (sys_pipe b s), gives_ker (sys_times b), missing ''prof'',
       sets_ker (\<lambda>k. let (r, k) = sys_brk b k in (sint r, k)), sets_ker (sys_setgid (sint b)), reads_ker sys_getgid,
       sets_ker (sys_signal (sint b) c d), reads_ker sys_geteuid, reads_ker sys_getegid, missing ''acct'',
       missing ''phys'', missing ''lock'', \<lambda>s. gives (sys_ioctl j (unat b) (sint c) (sint d) s),
       \<lambda>s. gives (Inr (sys_fcntl (unat b) (unat c) d s)), missing ''mpx'', sets_ker (sys_setpgid (sint b) (sint c)),
       missing ''ulimit'', gives_ker (sys_uname b), sets_ker (sys_umask (sint b)), \<lambda>s. gives (sys_chroot b s),
       missing ''ustat'', \<lambda>s. gives (sys_dup2 (unat b) (unat c) s), reads_ker sys_getppid, reads_ker sys_getpgrp,
       sets_ker sys_setsid])"

abbreviation nr_system_calls :: u32 where "nr_system_calls \<equiv> 67"

text \<open>\<open>system_call\<close>: the number is compared as an unsigned one.\<close>

definition system_call :: "tty_writer \<Rightarrow> u8 \<Rightarrow> u8 list \<Rightarrow> u32 \<Rightarrow> frame \<Rightarrow> handler" where
  "system_call wr j js eax fr s =
     (if nr_system_calls - 1 < eax then Inr (Returns (- 1), s)
      else (handlers wr j js fr ! unat eax) s)"


section \<open>The way back\<close>

text \<open>\<open>reschedule\<close>, when the process can not go on or has used its time.\<close>

definition reschedule :: "fs \<Rightarrow> fs result" where
  "reschedule s =
     (if state (me s) \<noteq> 0 \<or> counter (me s) = 0
      then andthen (schedule_result (ker s)) (\<lambda>k. Inr (s\<lparr>ker := k\<rparr>)) else Inr s)"

text \<open>
  The loop of \<open>ret_from_sys_call\<close> over the pending signals: the lowest one is taken off; one that
  is ignored, or \<open>SIGCHLD\<close> without a handler, leads to the next one. The result is what is still
  pending, the number counted from 0 and the handler, 0 for the default.
\<close>

definition lowest :: "u32 \<Rightarrow> nat" where
  "lowest w = (case find (bit w) [0..<32] of None \<Rightarrow> 32 | Some n \<Rightarrow> n)"

lemma lowest_bit: "w \<noteq> 0 \<Longrightarrow> lowest w < 32 \<and> bit w (lowest w) \<and> (\<forall>m < lowest w. \<not> bit w m)"
proof -
  assume "w \<noteq> 0"
  then obtain n where n: "bit w n" by (auto simp: bit_eq_iff)
  then have "n < 32" using bit_imp_le_length by fastforce
  then have "find (bit w) [0..<32] \<noteq> None" using n by (auto simp: find_None_iff)
  then obtain m where m: "find (bit w) [0..<32] = Some m" by blast
  then have "lowest w = m" by (simp add: lowest_def)
  then show ?thesis using m by (auto simp: find_Some_iff)
qed

lemma clear_bit_less:
  fixes w :: u32 assumes "bit w n"
  shows "unat (w AND NOT (push_bit n 1)) < unat w"
proof -
  have n: "n < 32" using assms bit_imp_le_length by fastforce
  have "w AND NOT (push_bit n 1) \<le> w" by (rule word_and_le2)
  moreover have "w AND NOT (push_bit n 1) \<noteq> w"
  proof
    assume "w AND NOT (push_bit n 1) = w"
    then have "bit (w AND NOT (push_bit n 1)) n" using assms by simp
    then show False using n by (simp add: bit_simps)
  qed
  ultimately show ?thesis by (simp add: word_le_nat_alt le_neq_implies_less word_unat_eq_iff)
qed

function next_signal :: "u32 list \<Rightarrow> u32 \<Rightarrow> u32 \<times> (nat \<times> u32) option" where
  "next_signal fns pending =
     (if pending = 0 then (pending, None)
      else
        let n = lowest pending; rest = pending AND NOT (push_bit n 1); h = fns ! n
        in if h = 1 \<or> h = 0 \<and> int n + 1 = SIGCHLD then next_signal fns rest else (rest, Some (n, h)))"
  by pat_completeness auto
termination
proof (relation "measure (\<lambda>(_, w). unat w)")
  fix w h :: u32 and fns :: "u32 list" and n rest
  assume "w \<noteq> 0" "n = lowest w" "rest = w AND NOT (push_bit n 1)"
  then show "((fns, rest), fns, w) \<in> measure (\<lambda>(_, w). unat w)"
    using clear_bit_less [of w n] lowest_bit [of w] by (simp del: push_bit_of_1)
qed simp

declare next_signal.simps [simp del]

text \<open>
  The signal is delivered to a process that goes back to user mode, not to process 0: without a
  handler it ends, otherwise it goes on in the handler, with the registers on its stack.
\<close>

definition push_signal :: "nat \<Rightarrow> u32 \<Rightarrow> u32 \<Rightarrow> frame \<Rightarrow> fs \<Rightarrow> (frame \<times> fs) result" where
  "push_signal n h eax fr s =
     (let esp = a_esp fr - 28;
          s = upd_ker (set_cur (\<lambda>p. p\<lparr>sig_fn := (sig_fn p)[n := 0]\<rparr>)) s
      in andthen (verify_area esp 28 (ker s)) (\<lambda>k.
         let longs = [sig_restorer (cur k), of_nat n + 1, eax, a_ecx fr, a_edx fr, a_eflags fr, a_eip fr];
             put = fold (\<lambda>(i, v). put_fs_long v (esp + 4 * of_nat i)) (zip [0..<7] longs)
         in Inr (fr\<lparr>a_eip := h, a_esp := esp\<rparr>, s\<lparr>ker := put_user put k\<rparr>)))"

definition deliver :: "u32 \<Rightarrow> frame \<Rightarrow> fs \<Rightarrow> (frame option \<times> fs) result" where
  "deliver eax fr s =
     (if current (ker s) = 0 \<or> a_cs fr AND 3 = 0 \<or> a_ss fr AND 0xffff \<noteq> 0x17 then Inr (Some fr, s)
      else
        let (rest, sig) = next_signal (sig_fn (me s)) (signal (me s));
            s = upd_ker (set_cur (\<lambda>p. p\<lparr>signal := rest\<rparr>)) s
        in case sig of
             None \<Rightarrow> Inr (Some fr, s)
           | Some (n, h) \<Rightarrow>
               if h = 0 then andthen (do_exit (int n + 1) s) (\<lambda>s. Inr (None, s))
               else andthen (push_signal n h eax fr s) (\<lambda>(fr, s). Inr (Some fr, s)))"

end
