(* ===== verification/Machine.thy ===== *)
theory Machine
  imports Mktime Fork
begin

unbundle bit_operations_syntax

text \<open>
  The ports and the interrupt gates (include/asm/io.h, include/asm/system.h), and the
  routines that set them at the start: \<open>time_init\<close> (init/main.c), \<open>rs_init\<close> (kernel/serial.c),
  \<open>con_init\<close> (kernel/console.c), \<open>trap_init\<close> (kernel/traps.c), \<open>sched_init\<close> (kernel/sched.c) and
  \<open>hd_init\<close> (kernel/hd.c).
\<close>

section \<open>Ports\<close>

text \<open>
  \<open>io_log\<close> are the accesses to the ports, the last one first, and \<open>device log p\<close> is the byte
  that port \<open>p\<close> gives after them: the devices are a parameter.
\<close>

datatype io = In u16 | Out u16 u8

record machine =
  device :: "io list \<Rightarrow> u16 \<Rightarrow> u8"
  io_log :: "io list"
  idt :: "nat \<Rightarrow> desc_struct"

definition port_in :: "u16 \<Rightarrow> machine \<Rightarrow> u8 \<times> machine" where
  "port_in p m = (device m (io_log m) p, m\<lparr>io_log := In p # io_log m\<rparr>)"

definition port_out :: "u8 \<Rightarrow> u16 \<Rightarrow> machine \<Rightarrow> machine" where
  "port_out v p m = m\<lparr>io_log := Out p v # io_log m\<rparr>"

text \<open>\<open>outb(f(inb_p(p)),p)\<close>.\<close>

definition port_change :: "u16 \<Rightarrow> (u8 \<Rightarrow> u8) \<Rightarrow> machine \<Rightarrow> machine" where
  "port_change p f m = (let (v, m) = port_in p m in port_out (f v) p m)"


section \<open>Gates\<close>

text \<open>The entries of the kernel that gates lead to, from kernel/asm.s and the other assembly files.\<close>

datatype entry_point =
    Ignore_int | Divide_error | Debug | Nmi | Int3 | Overflow | Bounds | Invalid_op
  | Device_not_available | Double_fault | Coprocessor_segment_overrun | Invalid_TSS
  | Segment_not_present | Stack_segment | General_protection | Page_fault | Reserved
  | Coprocessor_error | Timer_interrupt | Keyboard_interrupt | Rs1_interrupt | Rs2_interrupt
  | Hd_interrupt | System_call

text \<open>
  \<open>_set_gate\<close>: \<open>eax\<close> has the selector 8 in its upper half and gets the lower half of the address,
  \<open>edx\<close> has the address and gets the type in its lower half.
\<close>

definition set_gate :: "nat \<Rightarrow> u32 \<Rightarrow> u32 \<Rightarrow> u32 \<Rightarrow> machine \<Rightarrow> machine" where
  "set_gate n typ dpl addr m =
     m\<lparr>idt := (idt m)(n :=
       \<lparr>d_a = 0x00080000 OR (addr AND 0xffff),
        d_b = (addr AND 0xffff0000) OR (0x8000 + push_bit 13 dpl + push_bit 8 typ)\<rparr>)\<rparr>"

definition set_intr_gate :: "nat \<Rightarrow> u32 \<Rightarrow> machine \<Rightarrow> machine" where
  "set_intr_gate n addr = set_gate n 14 0 addr"

definition set_trap_gate :: "nat \<Rightarrow> u32 \<Rightarrow> machine \<Rightarrow> machine" where
  "set_trap_gate n addr = set_gate n 15 0 addr"

definition set_system_gate :: "nat \<Rightarrow> u32 \<Rightarrow> machine \<Rightarrow> machine" where
  "set_system_gate n addr = set_gate n 15 3 addr"

text \<open>What the processor reads in a gate: the address and the level that may use it.\<close>

definition gate_offset :: "desc_struct \<Rightarrow> u32" where
  "gate_offset g = (d_b g AND 0xffff0000) OR (d_a g AND 0xffff)"

definition gate_dpl :: "desc_struct \<Rightarrow> u32" where
  "gate_dpl g = drop_bit 13 (d_b g) AND 3"


section \<open>The gates of the start\<close>

text \<open>\<open>addr\<close> are the addresses of the entries; \<open>setup_idt\<close> is in boot/head.s.\<close>

type_synonym addresses = "entry_point \<Rightarrow> u32"

definition setup_idt :: "addresses \<Rightarrow> machine \<Rightarrow> machine" where
  "setup_idt addr = fold (\<lambda>n. set_intr_gate n (addr Ignore_int)) [0..<256]"

definition trap_init :: "addresses \<Rightarrow> machine \<Rightarrow> machine" where
  "trap_init addr m =
     (let m = set_trap_gate 0 (addr Divide_error) m;
          m = set_trap_gate 1 (addr Debug) m;
          m = set_trap_gate 2 (addr Nmi) m;
          m = set_system_gate 3 (addr Int3) m;
          m = set_system_gate 4 (addr Overflow) m;
          m = set_system_gate 5 (addr Bounds) m;
          m = set_trap_gate 6 (addr Invalid_op) m;
          m = set_trap_gate 7 (addr Device_not_available) m;
          m = set_trap_gate 8 (addr Double_fault) m;
          m = set_trap_gate 9 (addr Coprocessor_segment_overrun) m;
          m = set_trap_gate 10 (addr Invalid_TSS) m;
          m = set_trap_gate 11 (addr Segment_not_present) m;
          m = set_trap_gate 12 (addr Stack_segment) m;
          m = set_trap_gate 13 (addr General_protection) m;
          m = set_trap_gate 14 (addr Page_fault) m;
          m = set_trap_gate 15 (addr Reserved) m;
          m = set_trap_gate 16 (addr Coprocessor_error) m
      in fold (\<lambda>n. set_trap_gate n (addr Reserved)) [17..<32] m)"

text \<open>\<open>init\<close> of a serial port; \<open>rs_write\<close> turns on the interrupt of the empty transmitter.\<close>

definition rs_init_port :: "u16 \<Rightarrow> machine \<Rightarrow> machine" where
  "rs_init_port port m =
     (let m = port_out 0x80 (port + 3) m;
          m = port_out 0x30 port m;
          m = port_out 0x00 (port + 1) m;
          m = port_out 0x03 (port + 3) m;
          m = port_out 0x0b (port + 4) m;
          m = port_out 0x0d (port + 1) m
      in snd (port_in port m))"

definition rs_init :: "addresses \<Rightarrow> tty_struct list \<Rightarrow> machine \<Rightarrow> machine" where
  "rs_init addr tt m =
     (let m = set_intr_gate 0x24 (addr Rs1_interrupt) m;
          m = set_intr_gate 0x23 (addr Rs2_interrupt) m;
          m = rs_init_port (ucast (q_data (read_q (tt ! 1)))) m;
          m = rs_init_port (ucast (q_data (read_q (tt ! 2)))) m
      in port_change 0x21 (\<lambda>v. v AND 0xE7) m)"

definition rs_write :: "tty_struct \<Rightarrow> machine \<Rightarrow> machine" where
  "rs_write tty m =
     (if EMPTY (write_q tty) then m
      else port_change (ucast (q_data (write_q tty)) + 1) (\<lambda>v. v OR 0x02) m)"

text \<open>The part of \<open>con_init\<close> after \<open>gotoxy\<close>, which is in theory \<open>Console\<close>.\<close>

definition con_init_keyboard :: "addresses \<Rightarrow> machine \<Rightarrow> machine" where
  "con_init_keyboard addr m =
     (let m = set_trap_gate 0x21 (addr Keyboard_interrupt) m;
          m = port_change 0x21 (\<lambda>v. v AND 0xfd) m;
          (a, m) = port_in 0x61 m;
          m = port_out (a OR 0x80) 0x61 m
      in port_out a 0x61 m)"

definition tty_init :: "addresses \<Rightarrow> tty_struct list \<Rightarrow> machine \<Rightarrow> machine" where
  "tty_init addr tt m = con_init_keyboard addr (rs_init addr tt m)"

text \<open>
  \<open>sched_init\<close>: the descriptors of process 0, no other process, and the timer chip. Loading
  the task register is left out.
\<close>

abbreviation LATCH :: u32 where "LATCH \<equiv> 1193180 div 100"

definition no_desc :: desc_struct where
  "no_desc = \<lparr>d_a = 0, d_b = 0\<rparr>"

definition clear_task :: "nat \<Rightarrow> fs \<Rightarrow> fs" where
  "clear_task i s =
     s\<lparr>ker := (ker s)\<lparr>task := (task (ker s))(i := None)\<rparr>,
       gdt := (gdt s)(FIRST_TSS_ENTRY + 2 * i := no_desc, FIRST_TSS_ENTRY + 2 * i + 1 := no_desc)\<rparr>"

definition sched_init_tables :: "fs \<Rightarrow> fs" where
  "sched_init_tables s =
     fold clear_task [1..<NR_TASKS]
       (set_ldt_desc FIRST_LDT_ENTRY (task_page s 0 + ldt_offset)
         (set_tss_desc FIRST_TSS_ENTRY (task_page s 0 + tss_offset) s))"

definition sched_init_chip :: "addresses \<Rightarrow> machine \<Rightarrow> machine" where
  "sched_init_chip addr m =
     (let m = port_out 0x36 0x43 m;
          m = port_out (ucast (LATCH AND 0xff)) 0x40 m;
          m = port_out (ucast (drop_bit 8 LATCH)) 0x40 m;
          m = set_intr_gate 0x20 (addr Timer_interrupt) m;
          m = port_change 0x21 (\<lambda>v. v AND NOT 0x01) m
      in set_system_gate 0x80 (addr System_call) m)"

text \<open>The end of \<open>hd_init\<close>; its tables are in theory \<open>Hd\<close>.\<close>

definition hd_init_gate :: "addresses \<Rightarrow> machine \<Rightarrow> machine" where
  "hd_init_gate addr m =
     (let m = set_trap_gate 0x2E (addr Hd_interrupt) m;
          m = port_change 0x21 (\<lambda>v. v AND 0xfb) m
      in port_change 0xA1 (\<lambda>v. v AND 0xbf) m)"


section \<open>The time\<close>

definition CMOS_READ :: "u8 \<Rightarrow> machine \<Rightarrow> u8 \<times> machine" where
  "CMOS_READ addr m = port_in 0x71 (port_out (0x80 OR addr) 0x70 m)"

definition BCD_TO_BIN :: "int \<Rightarrow> int" where
  "BCD_TO_BIN val = (val AND 15) + drop_bit 4 val * 10"

definition read_clock :: "machine \<Rightarrow> tm \<times> machine" where
  "read_clock m =
     (let (sec, m) = CMOS_READ 0 m;
          (minute, m) = CMOS_READ 2 m;
          (hour, m) = CMOS_READ 4 m;
          (mday, m) = CMOS_READ 7 m;
          (mon, m) = CMOS_READ 8 m;
          (year, m) = CMOS_READ 9 m
      in (\<lparr>tm_sec = uint sec, tm_min = uint minute, tm_hour = uint hour, tm_mday = uint mday,
           tm_mon = uint mon - 1, tm_year = uint year, tm_wday = 0, tm_yday = 0, tm_isdst = 0\<rparr>, m))"

text \<open>The clock is read until its second has not changed in between.\<close>

partial_function (option) clock_loop :: "machine \<Rightarrow> (tm \<times> machine) option" where
  "clock_loop m =
     (let (time, m) = read_clock m; (sec, m) = CMOS_READ 0 m
      in if tm_sec time = uint sec then Some (time, m) else clock_loop m)"

definition tm_of_bcd :: "tm \<Rightarrow> tm" where
  "tm_of_bcd t =
     t\<lparr>tm_sec := BCD_TO_BIN (tm_sec t), tm_min := BCD_TO_BIN (tm_min t), tm_hour := BCD_TO_BIN (tm_hour t),
       tm_mday := BCD_TO_BIN (tm_mday t), tm_mon := BCD_TO_BIN (tm_mon t), tm_year := BCD_TO_BIN (tm_year t)\<rparr>"

text \<open>The value of \<open>startup_time\<close>; \<open>kernel_mktime\<close> reads its table of months at \<open>tm_mon\<close>.\<close>

definition time_init :: "machine \<Rightarrow> (int \<times> machine) result" where
  "time_init m =
     andthen (returns (clock_loop m)) (\<lambda>(time, m).
     let time = tm_of_bcd time
     in if 0 \<le> tm_mon time \<and> tm_mon time < int (length month) then Inr (kernel_mktime time, m) else Inl Fault)"


section \<open>The order of the start\<close>

text \<open>\<open>main\<close>, as far as the gates and the ports go, from the table of boot/head.s on.\<close>

definition start_machine :: "addresses \<Rightarrow> tty_struct list \<Rightarrow> machine \<Rightarrow> (int \<times> machine) result" where
  "start_machine addr tt m =
     andthen (time_init (setup_idt addr m)) (\<lambda>(t, m).
     Inr (t, hd_init_gate addr (sched_init_chip addr (trap_init addr (tty_init addr tt m)))))"

end
