(* ===== verification/Machine_Props.thy ===== *)
theory Machine_Props
  imports Machine Frame
begin

unbundle bit_operations_syntax

text \<open>
  What holds after the start: where the gates lead and who may use them, which interrupts are
  let through, and the time that \<open>time_init\<close> takes from a clock.
\<close>

section \<open>Ports and gates\<close>

lemma port_idt [simp]:
  "idt (port_out v p m) = idt m" "idt (snd (port_in p m)) = idt m" "idt (port_change p f m) = idt m"
  by (simp_all add: port_out_def port_in_def port_change_def)

definition gate :: "u32 \<Rightarrow> u32 \<Rightarrow> u32 \<Rightarrow> desc_struct" where
  "gate typ dpl addr =
     \<lparr>d_a = 0x00080000 OR (addr AND 0xffff),
      d_b = (addr AND 0xffff0000) OR (0x8000 + push_bit 13 dpl + push_bit 8 typ)\<rparr>"

lemma idt_set_gate [simp]:
  "idt (set_intr_gate n a m) = (idt m)(n := gate 14 0 a)"
  "idt (set_trap_gate n a m) = (idt m)(n := gate 15 0 a)"
  "idt (set_system_gate n a m) = (idt m)(n := gate 15 3 a)"
  by (simp_all add: set_intr_gate_def set_trap_gate_def set_system_gate_def set_gate_def gate_def)

lemma setup_idt_device [simp]: "device (setup_idt addr m) = device m"
proof -
  have "device (fold (\<lambda>n. set_intr_gate n a) ns m) = device m" for a ns
    by (induction ns arbitrary: m) (simp_all add: set_intr_gate_def set_gate_def)
  then show ?thesis by (simp add: setup_idt_def)
qed

lemma idt_fold_intr [simp]:
  "idt (fold (\<lambda>n. set_intr_gate n a) ns m) = (\<lambda>k. if k \<in> set ns then gate 14 0 a else idt m k)"
  by (induction ns arbitrary: m) auto

lemma idt_fold_trap [simp]:
  "idt (fold (\<lambda>n. set_trap_gate n a) ns m) = (\<lambda>k. if k \<in> set ns then gate 15 0 a else idt m k)"
  by (induction ns arbitrary: m) auto

lemma gate_parts:
  fixes a b c :: u32
  assumes "c AND 0xffff0000 = 0" "b AND 0xffff = 0"
  shows "(a AND 0xffff0000 OR c) AND 0xffff0000 OR (b OR a AND 0xffff) AND 0xffff = a"
proof -
  have f: "0xffff = (mask 16 :: u32)" "0xffff0000 = (NOT (mask 16) :: u32)" by (simp_all add: mask_eq_exp_minus_1)
  show ?thesis
    using assms unfolding f by (auto simp: bit_eq_iff bit_simps)
qed

lemma gate_type:
  fixes a c :: u32
  shows "drop_bit 13 (a AND 0xffff0000 OR c) AND 3 = drop_bit 13 c AND 3"
proof -
  have f: "3 = (mask 2 :: u32)" "0xffff0000 = (NOT (mask 16) :: u32)" by (simp_all add: mask_eq_exp_minus_1)
  show ?thesis
    unfolding f by (auto simp: bit_eq_iff bit_simps)
qed

lemma gate_offset_gate [simp]:
  "gate_offset (gate 14 0 a) = a" "gate_offset (gate 15 0 a) = a" "gate_offset (gate 15 3 a) = a" "gate_offset (gate 14 3 a) = a"
  by (simp_all add: gate_offset_def gate_def gate_parts)

lemma gate_dpl_gate [simp]: "gate_dpl (gate 14 0 a) = 0" "gate_dpl (gate 15 0 a) = 0" "gate_dpl (gate 15 3 a) = 3"
  "gate_dpl (gate 14 3 a) = 3"
  unfolding gate_dpl_def gate_def desc_struct.simps gate_type by simp_all

text \<open>The entry that an interrupt number leads to.\<close>

definition gate_entry :: "nat \<Rightarrow> entry_point" where
  "gate_entry n =
     (if n < 17 then
        [Divide_error, Debug, Nmi, Int3, Overflow, Bounds, Invalid_op, Device_not_available, Double_fault,
         Coprocessor_segment_overrun, Invalid_TSS, Segment_not_present, Stack_segment, General_protection,
         Page_fault, Reserved, Coprocessor_error] ! n
      else if n < 32 then Reserved
      else if n = 0x20 then Timer_interrupt else if n = 0x21 then Keyboard_interrupt
      else if n = 0x23 then Rs2_interrupt else if n = 0x24 then Rs1_interrupt
      else if n = 0x2E then Hd_interrupt else if n = 0x80 then System_call else Ignore_int)"

definition for_users :: "nat set" where
  "for_users = {3, 4, 5, 0x80}"

lemma entry_low: "n < 32 \<Longrightarrow> gate_entry n \<notin> {Ignore_int, Timer_interrupt, Rs1_interrupt, Rs2_interrupt}"
proof -
  assume "n < 32"
  moreover have "\<forall>n \<in> set [0..<32]. gate_entry n \<notin> {Ignore_int, Timer_interrupt, Rs1_interrupt, Rs2_interrupt}"
    by (simp add: upt_rec gate_entry_def)
  ultimately show ?thesis by auto
qed

lemma entry_high: "32 \<le> n \<Longrightarrow> gate_entry n =
    (if n = 0x20 then Timer_interrupt else if n = 0x21 then Keyboard_interrupt
     else if n = 0x23 then Rs2_interrupt else if n = 0x24 then Rs1_interrupt
     else if n = 0x2E then Hd_interrupt else if n = 0x80 then System_call else Ignore_int)"
  by (simp add: gate_entry_def)

lemma rs_init_port_idt [simp]: "idt (rs_init_port p m) = idt m"
  by (simp add: rs_init_port_def Let_def)

lemma read_clock_idt: "read_clock m = (t, m') \<Longrightarrow> idt m' = idt m"
  by (auto simp: read_clock_def CMOS_READ_def port_in_def port_out_def)

lemma clock_loop_idt: "clock_loop m = Some r \<Longrightarrow> idt (snd r) = idt m"
proof (induction rule: clock_loop.raw_induct [rotated, consumes 1])
  case (1 loop m r)
  then show ?case
    using read_clock_idt [of m] read_clock_idt [of "snd (read_clock m)"]
    by (auto simp: CMOS_READ_def port_in_def port_out_def split: prod.splits if_splits)
qed

lemma time_init_idt: "time_init m = Inr (t, m') \<Longrightarrow> idt m' = idt m"
  by (auto simp: time_init_def returns_Inr Let_def elim!: andthen_InrE split: if_splits dest!: clock_loop_idt)

lemma idt_tty_init [simp]:
  "idt (tty_init addr tt m) = (idt m)(0x24 := gate 14 0 (addr Rs1_interrupt), 0x23 := gate 14 0 (addr Rs2_interrupt),
     0x21 := gate 15 0 (addr Keyboard_interrupt))"
  by (simp add: tty_init_def rs_init_def con_init_keyboard_def Let_def split_beta)

lemma idt_trap_init:
  "idt (trap_init addr m) n =
     (if n < 32 then gate 15 (if n \<in> {3, 4, 5} then 3 else 0) (addr (gate_entry n)) else idt m n)"
proof -
  have run: "idt (trap_init addr m) n = (if n \<in> {17..<32} then gate 15 0 (addr Reserved) else
    ((idt m)(0 := gate 15 0 (addr Divide_error), 1 := gate 15 0 (addr Debug), 2 := gate 15 0 (addr Nmi),
      3 := gate 15 3 (addr Int3), 4 := gate 15 3 (addr Overflow), 5 := gate 15 3 (addr Bounds),
      6 := gate 15 0 (addr Invalid_op), 7 := gate 15 0 (addr Device_not_available),
      8 := gate 15 0 (addr Double_fault), 9 := gate 15 0 (addr Coprocessor_segment_overrun),
      10 := gate 15 0 (addr Invalid_TSS), 11 := gate 15 0 (addr Segment_not_present),
      12 := gate 15 0 (addr Stack_segment), 13 := gate 15 0 (addr General_protection),
      14 := gate 15 0 (addr Page_fault), 15 := gate 15 0 (addr Reserved),
      16 := gate 15 0 (addr Coprocessor_error))) n)"
    unfolding trap_init_def Let_def idt_fold_trap idt_set_gate set_upt ..
  show ?thesis
  proof (cases "n < 17")
    case True
    then have "n \<in> set [0..<17]" by simp
    then show ?thesis unfolding run by (simp add: upt_rec) (elim disjE; simp add: gate_entry_def)
  next
    case False
    then show ?thesis unfolding run by (simp add: gate_entry_def)
  qed
qed

lemma idt_sched_init_chip [simp]:
  "idt (sched_init_chip addr m) =
     (idt m)(0x20 := gate 14 0 (addr Timer_interrupt), 0x80 := gate 15 3 (addr System_call))"
  by (simp add: sched_init_chip_def Let_def)

lemma idt_hd_init_gate [simp]: "idt (hd_init_gate addr m) = (idt m)(0x2E := gate 15 0 (addr Hd_interrupt))"
  by (simp add: hd_init_gate_def Let_def)

lemma idt_setup_idt: "n < 256 \<Longrightarrow> idt (setup_idt addr m) n = gate 14 0 (addr Ignore_int)"
  by (simp add: setup_idt_def)

lemma start_idt:
  assumes "start_machine addr tt m = Inr (t, m')" and n: "n < 256"
  shows "idt m' n = gate (if gate_entry n \<in> {Ignore_int, Timer_interrupt, Rs1_interrupt, Rs2_interrupt} then 14 else 15)
    (if n \<in> for_users then 3 else 0) (addr (gate_entry n))"
proof -
  obtain m1 where m1: "time_init (setup_idt addr m) = Inr (t, m1)"
      and m': "m' = hd_init_gate addr (sched_init_chip addr (trap_init addr (tty_init addr tt m1)))"
    using assms(1) by (auto simp: start_machine_def elim!: andthen_InrE)
  have i1: "idt m1 n = gate 14 0 (addr Ignore_int)"
    using time_init_idt [OF m1] idt_setup_idt [OF n] by simp
  show ?thesis
  proof (cases "n < 32")
    case True
    then have "gate_entry n \<notin> {Ignore_int, Timer_interrupt, Rs1_interrupt, Rs2_interrupt}"
      using entry_low [OF True] by simp
    then show ?thesis using True by (auto simp: m' idt_trap_init for_users_def)
  next
    case False
    have "idt m' n = (if n = 0x2E then gate 15 0 (addr Hd_interrupt)
        else if n = 0x80 then gate 15 3 (addr System_call) else if n = 0x20 then gate 14 0 (addr Timer_interrupt)
        else if n = 0x21 then gate 15 0 (addr Keyboard_interrupt) else if n = 0x23 then gate 14 0 (addr Rs2_interrupt)
        else if n = 0x24 then gate 14 0 (addr Rs1_interrupt) else gate 14 0 (addr Ignore_int))"
      using False i1 by (simp add: m' idt_trap_init)
    moreover have "gate_entry n = (if n = 0x20 then Timer_interrupt else if n = 0x21 then Keyboard_interrupt
        else if n = 0x23 then Rs2_interrupt else if n = 0x24 then Rs1_interrupt
        else if n = 0x2E then Hd_interrupt else if n = 0x80 then System_call else Ignore_int)"
      using False by (simp add: entry_high)
    moreover have "n \<in> for_users \<longleftrightarrow> n = 0x80" using False by (auto simp: for_users_def)
    ultimately show ?thesis by simp
  qed
qed

text \<open>
  C12. After the start every interrupt number leads to its own entry of the kernel, and a program in
  user mode can use the numbers 3, 4, 5 and 0x80 and no other.
\<close>

theorem start_gates:
  assumes "start_machine addr tt m = Inr (t, m')" and "n < 256"
  shows "gate_offset (idt m' n) = addr (gate_entry n) \<and> (gate_dpl (idt m' n) = 3 \<longleftrightarrow> n \<in> {3, 4, 5, 0x80})"
proof -
  have p: "gate_offset (gate (if b then 14 else 15) (if c then 3 else 0) a) = a"
    "gate_dpl (gate (if b then 14 else 15) (if c then 3 else 0) a) = (if c then 3 else 0)" for a b c
    by (cases b; cases c; simp)+
  show ?thesis unfolding start_idt [OF assms] p by (simp add: for_users_def)
qed


section \<open>The clock\<close>

text \<open>The registers of a clock that stands still show their values in binary coded decimal.\<close>

definition clock :: "(u8 \<Rightarrow> u8) \<Rightarrow> (io list \<Rightarrow> u16 \<Rightarrow> u8) \<Rightarrow> bool" where
  "clock f dev \<longleftrightarrow> (\<forall>a l. dev (Out 0x70 (0x80 OR a) # l) 0x71 = f a)"

definition bcd :: "int \<Rightarrow> u8" where
  "bcd v = word_of_int (16 * (v div 10) + v mod 10)"

lemma uint_bcd: "0 \<le> v \<Longrightarrow> v < 100 \<Longrightarrow> uint (bcd v) = 16 * (v div 10) + v mod 10"
proof -
  assume v: "0 \<le> v" "v < 100"
  have u: "uint (word_of_int x :: u8) = x" if "0 \<le> x" "x < 256" for x
    using that by (simp add: uint_word_of_int take_bit_int_eq_self)
  show ?thesis unfolding bcd_def by (rule u) (use v in presburger)+
qed

lemma BCD_TO_BIN_int: "BCD_TO_BIN v = v mod 16 + v div 16 * 10"
proof -
  have "v AND 15 = v mod 16" using take_bit_eq_mask [of 4 v] by (simp add: take_bit_eq_mod mask_eq_exp_minus_1)
  then show ?thesis by (simp add: BCD_TO_BIN_def drop_bit_eq_div)
qed

lemma bcd_back: "0 \<le> v \<Longrightarrow> v < 100 \<Longrightarrow> BCD_TO_BIN (uint (bcd v)) = v"
  by (simp add: uint_bcd BCD_TO_BIN_int)

text \<open>One is taken off the month before it is decoded, so October comes out as 15.\<close>

lemma bcd_month: "1 \<le> v \<Longrightarrow> v \<le> 12 \<Longrightarrow> BCD_TO_BIN (uint (bcd v) - 1) = (if v = 10 then 15 else v - 1)"
proof -
  assume "1 \<le> v" "v \<le> 12"
  then have "v = 1 \<or> v = 2 \<or> v = 3 \<or> v = 4 \<or> v = 5 \<or> v = 6 \<or> v = 7 \<or> v = 8 \<or> v = 9 \<or> v = 10 \<or> v = 11 \<or> v = 12"
    by presburger
  then show ?thesis by (elim disjE) (simp_all add: uint_bcd BCD_TO_BIN_int)
qed

lemma CMOS_READ_clock:
  "clock f (device m) \<Longrightarrow> CMOS_READ a m = (f a, m\<lparr>io_log := In 0x71 # Out 0x70 (0x80 OR a) # io_log m\<rparr>)"
  by (simp add: CMOS_READ_def port_in_def port_out_def clock_def)

lemma time_init_clock:
  assumes "clock f (device m)"
  shows "\<exists>m'. time_init m =
    (let t = tm_of_bcd \<lparr>tm_sec = uint (f 0), tm_min = uint (f 2), tm_hour = uint (f 4), tm_mday = uint (f 7),
           tm_mon = uint (f 8) - 1, tm_year = uint (f 9), tm_wday = 0, tm_yday = 0, tm_isdst = 0\<rparr>
     in if 0 \<le> tm_mon t \<and> tm_mon t < 12 then Inr (kernel_mktime t, m') else Inl Fault)"
proof -
  have "\<exists>m'. clock_loop m = Some (\<lparr>tm_sec = uint (f 0), tm_min = uint (f 2), tm_hour = uint (f 4),
      tm_mday = uint (f 7), tm_mon = uint (f 8) - 1, tm_year = uint (f 9), tm_wday = 0, tm_yday = 0, tm_isdst = 0\<rparr>, m')"
    using assms by (subst clock_loop.simps) (simp add: read_clock_def CMOS_READ_clock)
  then obtain m' where r: "clock_loop m = Some (\<lparr>tm_sec = uint (f 0), tm_min = uint (f 2), tm_hour = uint (f 4),
      tm_mday = uint (f 7), tm_mon = uint (f 8) - 1, tm_year = uint (f 9), tm_wday = 0, tm_yday = 0, tm_isdst = 0\<rparr>, m')"
    by (elim exE)
  have "int (length month) = 12" by (simp add: month_def)
  then show ?thesis by (intro exI [of _ m']) (simp add: r time_init_def returns_def Let_def)
qed

text \<open>
  C13. From a clock that shows a date from 1970 to 1999 \<open>time_init\<close> takes the seconds of the calendar
  since 1970, but in October it reads the table of months beyond its end.
\<close>

theorem time_init_seconds:
  assumes "\<forall>a l. device m (Out 0x70 (0x80 OR a) # l) 0x71 = f a"
    and "f 0 = bcd sec" "f 2 = bcd minute" "f 4 = bcd hour" "f 7 = bcd mday" "f 8 = bcd mon" "f 9 = bcd year"
    and "0 \<le> sec" "sec < 60" "0 \<le> minute" "minute < 60" "0 \<le> hour" "hour < 24" "1 \<le> mday" "mday \<le> 31"
    and "1 \<le> mon" "mon \<le> 12" "70 \<le> year" "year < 100"
  shows "\<exists>m'. time_init m =
    (if mon = 10 then Inl Fault
     else Inr ((((days_to (1900 + year) (mon - 1) + mday - 1) * 24 + hour) * 60 + minute) * 60 + sec, m'))"
proof -
  let ?t = "\<lparr>tm_sec = sec, tm_min = minute, tm_hour = hour, tm_mday = mday, tm_mon = mon - 1, tm_year = year,
    tm_wday = 0, tm_yday = 0, tm_isdst = 0\<rparr>"
  have c: "clock f (device m)" using assms(1) by (simp add: clock_def)
  have t: "tm_of_bcd \<lparr>tm_sec = uint (f 0), tm_min = uint (f 2), tm_hour = uint (f 4), tm_mday = uint (f 7),
      tm_mon = uint (f 8) - 1, tm_year = uint (f 9), tm_wday = 0, tm_yday = 0, tm_isdst = 0\<rparr> =
      ?t\<lparr>tm_mon := (if mon = 10 then 15 else mon - 1)\<rparr>"
    using assms by (simp add: tm_of_bcd_def bcd_back bcd_month)
  have "kernel_mktime ?t = (((days_to (1900 + year) (mon - 1) + mday - 1) * 24 + hour) * 60 + minute) * 60 + sec"
    using kernel_mktime_seconds [of ?t] assms by simp
  then show ?thesis
    using time_init_clock [OF c] assms(16,17) by (cases "mon = 10") (simp_all add: t Let_def)
qed

theorem time_init_seconds_witness:
  "\<exists>m'. time_init \<lparr>device = (\<lambda>l p. case l of Out q v # _ \<Rightarrow> if v = 0x89 then 0x91 else if v = 0x88 then 0x09
        else if v = 0x87 then 0x17 else 0 | _ \<Rightarrow> 0), io_log = [], idt = (\<lambda>_. no_desc)\<rparr> =
     Inr (((days_to 1991 8 + 16) * 24 * 60) * 60, m')"
proof -
  let ?d = "\<lambda>l p. case l of Out q v # _ \<Rightarrow> if v = 0x89 then 0x91 else if v = 0x88 then 0x09
        else if v = 0x87 then 0x17 else 0 | _ \<Rightarrow> (0 :: u8)"
  let ?m = "\<lparr>device = ?d, io_log = [], idt = (\<lambda>_. no_desc)\<rparr>"
  show ?thesis
    using time_init_seconds [of ?m "\<lambda>a. ?d [Out 0x70 (0x80 OR a)] 0x71" 0 0 0 17 9 91]
    by (simp add: bcd_def add.commute [of 1382400])
qed

section \<open>The interrupts let through\<close>

text \<open>What an interrupt controller shows at its mask: the byte written last.\<close>

definition last_out :: "u16 \<Rightarrow> u8 \<Rightarrow> io list \<Rightarrow> u8" where
  "last_out p v l = fold (\<lambda>a v. case a of In q \<Rightarrow> v | Out q w \<Rightarrow> if q = p then w else v) (rev l) v"

lemma last_out_simps [simp]:
  "last_out p v [] = v" "last_out p v (In q # l) = last_out p v l"
  "last_out p v (Out q w # l) = (if q = p then w else last_out p v l)"
  by (simp_all add: last_out_def)

definition keeps_masks :: "u8 \<Rightarrow> u8 \<Rightarrow> machine \<Rightarrow> bool" where
  "keeps_masks v w m \<longleftrightarrow> (\<forall>l. device m l 0x21 = last_out 0x21 v l \<and> device m l 0xA1 = last_out 0xA1 w l)"

definition masks :: "u8 \<Rightarrow> u8 \<Rightarrow> machine \<Rightarrow> u8 \<times> u8" where
  "masks v w m = (last_out 0x21 v (io_log m), last_out 0xA1 w (io_log m))"

lemma masks_port [simp]:
  "masks v w (port_out x p m) = (if p = 0x21 then (x, snd (masks v w m)) else if p = 0xA1 then (fst (masks v w m), x) else masks v w m)"
  "masks v w (snd (port_in p m)) = masks v w m"
  "keeps_masks v w (port_out x p m) = keeps_masks v w m" "keeps_masks v w (snd (port_in p m)) = keeps_masks v w m"
  "masks v w (set_gate n t d a m) = masks v w m" "keeps_masks v w (set_gate n t d a m) = keeps_masks v w m"
  by (simp_all add: masks_def port_out_def port_in_def keeps_masks_def set_gate_def)

lemma masks_change [simp]:
  "keeps_masks v w m \<Longrightarrow> masks v w (port_change 0x21 f m) = (f (fst (masks v w m)), snd (masks v w m))"
  "keeps_masks v w m \<Longrightarrow> masks v w (port_change 0xA1 f m) = (fst (masks v w m), f (snd (masks v w m)))"
  "keeps_masks v w (port_change p f m) = keeps_masks v w m"
  by (simp_all add: port_change_def masks_def port_in_def port_out_def keeps_masks_def)

lemma masks_gates [simp]:
  "masks v w (set_intr_gate n a m) = masks v w m" "masks v w (set_trap_gate n a m) = masks v w m"
  "masks v w (set_system_gate n a m) = masks v w m" "keeps_masks v w (set_intr_gate n a m) = keeps_masks v w m"
  "keeps_masks v w (set_trap_gate n a m) = keeps_masks v w m" "keeps_masks v w (set_system_gate n a m) = keeps_masks v w m"
  by (simp_all add: set_intr_gate_def set_trap_gate_def set_system_gate_def)

lemma masks_fold [simp]:
  "masks v w (fold (\<lambda>n. set_intr_gate n a) ns m) = masks v w m"
  "keeps_masks v w (fold (\<lambda>n. set_intr_gate n a) ns m) = keeps_masks v w m"
  "masks v w (fold (\<lambda>n. set_trap_gate n a) ns m) = masks v w m"
  "keeps_masks v w (fold (\<lambda>n. set_trap_gate n a) ns m) = keeps_masks v w m"
  by (induction ns arbitrary: m) simp_all

lemma masks_trap_init [simp]:
  "masks v w (trap_init addr m) = masks v w m" "keeps_masks v w (trap_init addr m) = keeps_masks v w m"
  unfolding trap_init_def Let_def masks_fold masks_gates by (rule refl)+

lemma masks_read_clock:
  "read_clock m = (t, m') \<Longrightarrow> masks v w m' = masks v w m \<and> keeps_masks v w m' = keeps_masks v w m"
  by (auto simp: read_clock_def CMOS_READ_def split_beta)

lemma masks_clock_loop:
  "clock_loop m = Some r \<Longrightarrow> masks v w (snd r) = masks v w m \<and> keeps_masks v w (snd r) = keeps_masks v w m"
proof (induction rule: clock_loop.raw_induct [rotated, consumes 1])
  case (1 loop m r)
  obtain t m1 where m1: "read_clock m = (t, m1)" by fastforce
  show ?case
    using 1(2) 1(1) [of "snd (CMOS_READ 0 m1)" r] masks_read_clock [OF m1, of v w]
    by (auto simp: m1 CMOS_READ_def split_beta split: if_splits)
qed

lemma masks_time_init:
  "time_init m = Inr (t, m') \<Longrightarrow> masks v w m' = masks v w m \<and> keeps_masks v w m' = keeps_masks v w m"
  by (auto simp: time_init_def returns_Inr Let_def elim!: andthen_InrE split: if_splits dest!: masks_clock_loop [of _ _ v w])

lemma masks_tty_init:
  assumes "keeps_masks v w m"
  shows "masks v w (tty_init addr tty_table m) = (fst (masks v w m) AND 0xE5, snd (masks v w m))"
    "keeps_masks v w (tty_init addr tty_table m)"
  using assms
  by (simp_all add: tty_init_def rs_init_def con_init_keyboard_def rs_init_port_def tty_table_def serial_tty_def
      empty_queue_def Let_def split_beta and.assoc)

lemma masks_sched_init:
  assumes "keeps_masks v w m"
  shows "masks v w (sched_init_chip addr m) = (fst (masks v w m) AND NOT 0x01, snd (masks v w m))"
    "keeps_masks v w (sched_init_chip addr m)"
  using assms by (simp_all add: sched_init_chip_def Let_def)

lemma masks_hd_init:
  assumes "keeps_masks v w m"
  shows "masks v w (hd_init_gate addr m) = (fst (masks v w m) AND 0xfb, snd (masks v w m) AND 0xbf)"
    "keeps_masks v w (hd_init_gate addr m)"
  using assms by (simp_all add: hd_init_gate_def Let_def)

lemma device_masks: "keeps_masks v w m \<Longrightarrow> (device m (io_log m) 0x21, device m (io_log m) 0xA1) = masks v w m"
  by (simp add: keeps_masks_def masks_def)

text \<open>
  With interrupt controllers that keep their masks, the start lets through the interrupts of
  the timer, the keyboard, the second controller, the serial lines and the disk, and changes
  nothing about the others.
\<close>

theorem start_masks:
  assumes "\<forall>l. device m l 0x21 = last_out 0x21 v l \<and> device m l 0xA1 = last_out 0xA1 w l"
    and "start_machine addr tty_table m = Inr (t, m')"
  shows "device m' (io_log m') 0x21 = device m (io_log m) 0x21 AND 0xE0 \<and>
    device m' (io_log m') 0xA1 = device m (io_log m) 0xA1 AND 0xBF"
proof -
  obtain m1 where m1: "time_init (setup_idt addr m) = Inr (t, m1)"
      and m': "m' = hd_init_gate addr (sched_init_chip addr (trap_init addr (tty_init addr tty_table m1)))"
    using assms(2) by (auto simp: start_machine_def elim!: andthen_InrE)
  have k: "keeps_masks v w m" using assms(1) by (simp add: keeps_masks_def)
  have k1: "keeps_masks v w m1" "masks v w m1 = masks v w m"
    using masks_time_init [OF m1, of v w] k by (simp_all add: setup_idt_def)
  have "masks v w m' = (fst (masks v w m) AND 0xE0, snd (masks v w m) AND 0xbf)"
      "keeps_masks v w m'"
    using k1 by (simp_all add: m' masks_hd_init masks_sched_init masks_tty_init and.assoc)
  then show ?thesis
    using device_masks [of v w m'] device_masks [OF k] by (auto simp: prod_eq_iff ac_simps)
qed

definition ticking :: machine where
  "ticking = \<lparr>device = (\<lambda>l p. if p = 0x71 then 1 else last_out p 0xFF l), io_log = [], idt = (\<lambda>_. no_desc)\<rparr>"

lemma clock_ticking: "clock (\<lambda>_. 1) (device ticking)"
  by (simp add: clock_def ticking_def)

lemma ticking_starts: "\<exists>t m'. start_machine addr tt ticking = Inr (t, m')"
proof -
  have c: "clock (\<lambda>_. 1) (device (setup_idt addr ticking))"
    using clock_ticking by (simp add: setup_idt_device)
  obtain t m' where "time_init (setup_idt addr ticking) = Inr (t, m')"
    using time_init_clock [OF c] by (auto simp: tm_of_bcd_def BCD_TO_BIN_int Let_def)
  then show ?thesis by (simp add: start_machine_def)
qed

theorem start_masks_witness:
  "\<exists>m'. snd (projr (start_machine (\<lambda>_. 0) tty_table ticking)) = m' \<and> device m' (io_log m') 0x21 = 0xE0"
proof -
  obtain t m' where r: "start_machine (\<lambda>_. 0) tty_table ticking = Inr (t, m')"
    using ticking_starts by blast
  have "device m' (io_log m') 0x21 = 0xE0"
    using start_masks [where v = 255 and w = 255, OF _ r] by (simp add: ticking_def)
  then show ?thesis by (simp add: r)
qed

theorem start_gates_witness:
  "\<exists>m'. snd (projr (start_machine (\<lambda>_. 0) tty_table ticking)) = m' \<and> gate_dpl (idt m' 0x80) = 3"
proof -
  obtain t m' where r: "start_machine (\<lambda>_. 0) tty_table ticking = Inr (t, m')"
    using ticking_starts by blast
  show ?thesis using start_gates [OF r, where n = 128] by (simp add: r)
qed

end
