(* ===== verification/Build.thy ===== *)
theory Build
  imports Fs_Types
begin

unbundle bit_operations_syntax

text \<open>
  The host tool tools/build.c: it checks the boot block, puts the signature behind it, and
  copies the system without its header.
\<close>

section \<open>The tool\<close>

abbreviation MINIX_HEADER :: nat where "MINIX_HEADER \<equiv> 32"
abbreviation GCC_HEADER :: nat where "GCC_HEADER \<equiv> 1024"

text \<open>
  A file is what is left to read of it; \<open>read_file n\<close> gives what \<open>read\<close> gives of a regular file.
  \<open>put img bytes\<close> is the result of \<open>write\<close> on the output after \<open>img\<close>; \<open>buffer\<close> is \<open>buf\<close>
  after the bytes have been read into its beginning.
\<close>

definition read_file :: "nat \<Rightarrow> u8 list \<Rightarrow> u8 list \<times> u8 list" where
  "read_file n f = (take n f, drop n f)"

definition buffer :: "u8 list \<Rightarrow> u8 list \<Rightarrow> u8 list" where
  "buffer xs b = xs @ drop (length xs) b"

type_synonym out_file = "u8 list \<Rightarrow> u8 list \<Rightarrow> int"

definition quoted :: "string \<Rightarrow> string" where
  "quoted s = CHR 0x27 # s @ [CHR 0x27]"

text \<open>The message of \<open>die\<close> is the error.\<close>

definition check_boot :: "u8 list \<Rightarrow> string + unit" where
  "check_boot b =
     (if le32 b 0 \<noteq> 0x04100301 then Inl (''Non-Minix header of '' @ quoted ''boot'')
      else if le32 b 4 \<noteq> of_nat MINIX_HEADER then Inl (''Non-Minix header of '' @ quoted ''boot'')
      else if le32 b 12 \<noteq> 0 then Inl (''Illegal data segment in '' @ quoted ''boot'')
      else if le32 b 16 \<noteq> 0 then Inl (''Illegal bss in '' @ quoted ''boot'')
      else if le32 b 20 \<noteq> 0 then Inl (''Non-Minix header of '' @ quoted ''boot'')
      else if le32 b 28 \<noteq> 0 then Inl (''Illegal symbol table in '' @ quoted ''boot'')
      else Inr ())"

definition write_boot :: "out_file \<Rightarrow> u8 list option \<Rightarrow> string + (u8 list \<times> u8 list)" where
  "write_boot put boot =
     (case boot of
        None \<Rightarrow> Inl (''Unable to open '' @ quoted ''boot'')
      | Some file \<Rightarrow>
          let (head, file) = read_file MINIX_HEADER file; b = buffer head (replicate 1024 0) in
          if length head \<noteq> MINIX_HEADER then Inl (''Unable to read header of '' @ quoted ''boot'')
          else case check_boot b of
            Inl e \<Rightarrow> Inl e
          | Inr _ \<Rightarrow>
              let (text, file) = read_file 1024 file; b = buffer text b in
              if 510 < length text then Inl ''Boot block may not exceed 510 bytes''
              else
                let b = b[510 := 0x55, 511 := 0xAA] in
                if put [] (take 512 b) \<noteq> 512 then Inl ''Write call failed''
                else Inr (take 512 b, b))"

function copy_system :: "out_file \<Rightarrow> u8 list \<Rightarrow> u8 list \<Rightarrow> nat \<Rightarrow> string + (u8 list \<times> nat)" where
  "copy_system put file img i =
     (let (xs, rest) = read_file 1024 file in
      if length xs \<le> 0 then Inr (img, i)
      else if put img xs \<noteq> int (length xs) then Inl ''Write call failed''
      else copy_system put rest (img @ xs) (i + length xs))"
  by pat_completeness auto
termination by (relation "measure (\<lambda>(_, f, _, _). length f)") (auto simp: read_file_def)

declare copy_system.simps [simp del]

text \<open>The result of \<open>main\<close>: the image and the size of the system that is printed.\<close>

definition build :: "out_file \<Rightarrow> u8 list option list \<Rightarrow> string + (u8 list \<times> nat)" where
  "build put args =
     (if length args \<noteq> 2 then Inl ''Usage: build boot system [> image]''
      else case write_boot put (args ! 0) of
        Inl e \<Rightarrow> Inl e
      | Inr (img, b) \<Rightarrow>
          (case args ! 1 of
             None \<Rightarrow> Inl (''Unable to open '' @ quoted ''system'')
           | Some file \<Rightarrow>
               let (head, file) = read_file GCC_HEADER file; b = buffer head b in
               if length head \<noteq> GCC_HEADER then Inl (''Unable to read header of '' @ quoted ''system'')
               else if le32 b 20 \<noteq> 0 then Inl (''Non-GCC header of '' @ quoted ''system'')
               else copy_system put file img 0))"


section \<open>The image\<close>

lemma copy_system_all:
  assumes "\<And>im xs. put im xs = int (length xs)"
  shows "copy_system put f img i = Inr (img @ f, i + length f)"
proof (induction f arbitrary: img i rule: length_induct)
  case (1 f)
  show ?case
  proof (cases "f = []")
    case True
    then show ?thesis by (subst copy_system.simps) (simp add: read_file_def)
  next
    case False
    then have "copy_system put (drop 1024 f) (img @ take 1024 f) (i + length (take 1024 f)) =
        Inr ((img @ take 1024 f) @ drop 1024 f, i + length (take 1024 f) + length (drop 1024 f))"
      using 1 by simp
    then show ?thesis using False assms by (subst copy_system.simps) (simp add: read_file_def)
  qed
qed

lemma write_boot_image:
  assumes "write_boot put (Some boot) = Inr (img, b)"
  shows "32 \<le> length boot" "length boot \<le> 542" "length img = 512" "take (length boot - 32) img = drop 32 boot"
    "img ! 510 = 0x55" "img ! 511 = 0xAA" "length b = 1024"
proof -
  have h: "32 \<le> length boot"
    using assms by (auto simp: write_boot_def read_file_def Let_def split: if_splits)
  define t where "t = take 1024 (drop 32 boot)"
  define c where "c = buffer t (buffer (take 32 boot) (replicate 1024 0))"
  have r: "length t \<le> 510" "b = c[510 := 0x55, 511 := 0xAA]" "img = take 512 b"
    using assms h by (auto simp: write_boot_def read_file_def Let_def t_def c_def split: if_splits sum.splits)
  have l: "length c = 1024" using h r(1) by (simp add: c_def buffer_def)
  have td: "t = drop 32 boot" using r(1) by (simp add: t_def)
  show "32 \<le> length boot" by fact
  show "length boot \<le> 542" using r(1) td by simp
  show "length img = 512" "length b = 1024" "img ! 510 = 0x55" "img ! 511 = 0xAA" using r l by simp_all
  have "take (length t) img = take (length t) c"
    using r(1) l by (simp add: r(2,3) min_def)
  then show "take (length boot - 32) img = drop 32 boot" using td by (simp add: c_def buffer_def)
qed

text \<open>
  C15. When every write is complete and the tool ends well, the first sector of the image is the
  boot block without its header and with the signature at its end, and what follows is the
  system without its header.
\<close>

theorem build_image:
  assumes "\<And>im xs. put im xs = int (length xs)" and "build put [Some boot, Some system] = Inr (img, n)"
  shows "length boot \<le> 542 \<and> take (length boot - 32) img = drop 32 boot \<and>
    img ! 510 = 0x55 \<and> img ! 511 = 0xAA \<and> drop 512 img = drop 1024 system \<and> n + 1024 = length system"
proof -
  obtain im b where w: "write_boot put (Some boot) = Inr (im, b)"
    using assms(2) by (auto simp: build_def split: sum.splits)
  note b = write_boot_image [OF w]
  have l: "1024 \<le> length system"
    using assms(2) by (auto simp: build_def w read_file_def Let_def split: if_splits)
  have "Inr (img, n) = Inr (im @ drop 1024 system, length system - 1024)"
    using assms(2) l by (simp add: build_def w read_file_def Let_def copy_system_all [OF assms(1)] split: if_splits)
  then show ?thesis using b l by (simp add: nth_append)
qed

theorem build_image_witness:
  "drop 512 (fst (projr (build (\<lambda>_ xs. int (length xs)) [Some ([1, 3, 16, 4, 32, 0, 0, 0] @ replicate 24 0 @ [0xEB, 0xFE]),
     Some (replicate 1024 0 @ [1, 2, 3])]))) = [1, 2, 3]"
proof -
  let ?boot = "[1, 3, 16, 4, 32, 0, 0, 0] @ replicate 24 0 @ [0xEB, 0xFE :: u8]"
  let ?sys = "replicate 1024 0 @ [1, 2, 3 :: u8]"
  have "\<exists>r. build (\<lambda>_ xs. int (length xs)) [Some ?boot, Some ?sys] = Inr r"
    by (simp add: build_def write_boot_def check_boot_def read_file_def buffer_def le32_def Let_def copy_system_all nth_append)
  then obtain im n where r: "build (\<lambda>_ xs. int (length xs)) [Some ?boot, Some ?sys] = Inr (im, n)" by auto
  have "drop 512 im = [1, 2, 3]" using build_image [OF _ r] by simp
  then show ?thesis unfolding r by simp
qed

end
