(* ===== verification/Lib.thy ===== *)
theory Lib
  imports Calls
begin

unbundle bit_operations_syntax

text \<open>
  The stubs of the user library (include/unistd.h, lib/*.c): which registers they set for
  \<open>int 0x80\<close> and what they make of the answer.
\<close>

section \<open>The macros\<close>

text \<open>The registers at \<open>int 0x80\<close>; one that the stub does not set is \<open>None\<close>.\<close>

record regs =
  g_eax :: u32
  g_ebx :: "u32 option"
  g_ecx :: "u32 option"
  g_edx :: "u32 option"

definition nr_of :: "string \<Rightarrow> u32" where
  "nr_of name = the (map_of NR name)"

definition syscall0 :: "string \<Rightarrow> regs" where
  "syscall0 name = \<lparr>g_eax = nr_of name, g_ebx = None, g_ecx = None, g_edx = None\<rparr>"

definition syscall1 :: "string \<Rightarrow> u32 \<Rightarrow> regs" where
  "syscall1 name a = \<lparr>g_eax = nr_of name, g_ebx = Some a, g_ecx = None, g_edx = None\<rparr>"

definition syscall2 :: "string \<Rightarrow> u32 \<Rightarrow> u32 \<Rightarrow> regs" where
  "syscall2 name a b = \<lparr>g_eax = nr_of name, g_ebx = Some a, g_ecx = Some b, g_edx = None\<rparr>"

definition syscall3 :: "string \<Rightarrow> u32 \<Rightarrow> u32 \<Rightarrow> u32 \<Rightarrow> regs" where
  "syscall3 name a b c = \<lparr>g_eax = nr_of name, g_ebx = Some a, g_ecx = Some b, g_edx = Some c\<rparr>"

text \<open>\<open>errno\<close> is a variable of the program; the value of the function comes with its new value.\<close>

definition answer :: "u32 \<Rightarrow> int \<Rightarrow> int \<times> int" where
  "answer eax errno = (case stub_result eax of (v, None) \<Rightarrow> (v, errno) | (v, Some e) \<Rightarrow> (v, e))"


section \<open>The functions\<close>

definition lib_close :: "u32 \<Rightarrow> regs" where
  "lib_close fd = syscall1 ''close'' fd"

definition lib_dup :: "u32 \<Rightarrow> regs" where
  "lib_dup fd = syscall1 ''dup'' fd"

definition lib_execve :: "u32 \<Rightarrow> u32 \<Rightarrow> u32 \<Rightarrow> regs" where
  "lib_execve path argv envp = syscall3 ''execve'' path argv envp"

definition lib_setsid :: regs where
  "lib_setsid = syscall0 ''setsid''"

definition lib_waitpid :: "u32 \<Rightarrow> u32 \<Rightarrow> u32 \<Rightarrow> regs" where
  "lib_waitpid p wait_stat options = syscall3 ''waitpid'' p wait_stat options"

definition lib_wait :: "u32 \<Rightarrow> regs" where
  "lib_wait wait_stat = lib_waitpid (- 1) wait_stat 0"

definition lib_write :: "u32 \<Rightarrow> u32 \<Rightarrow> u32 \<Rightarrow> regs" where
  "lib_write fd b n = syscall3 ''write'' fd b n"

text \<open>\<open>open\<close> passes on its third argument; \<open>_exit\<close> does not come back.\<close>

definition lib_open :: "u32 \<Rightarrow> u32 \<Rightarrow> u32 \<Rightarrow> regs" where
  "lib_open filename flag mode =
     \<lparr>g_eax = nr_of ''open'', g_ebx = Some filename, g_ecx = Some flag, g_edx = Some mode\<rparr>"

definition lib_exit :: "u32 \<Rightarrow> regs" where
  "lib_exit code = \<lparr>g_eax = nr_of ''exit'', g_ebx = Some code, g_ecx = None, g_edx = None\<rparr>"

text \<open>The macros of include/sys/wait.h on the status that \<open>wait\<close> gives.\<close>

definition WIFSTOPPED :: "u32 \<Rightarrow> bool" where "WIFSTOPPED s \<longleftrightarrow> s AND 0xFF = 0x7F"
definition WEXITSTATUS :: "u32 \<Rightarrow> u32" where "WEXITSTATUS s = drop_bit 8 s AND 0xFF"
definition WTERMSIG :: "u32 \<Rightarrow> u32" where "WTERMSIG s = s AND 0x7F"
definition WIFSIGNALED :: "u32 \<Rightarrow> bool" where "WIFSIGNALED s \<longleftrightarrow> (s - 1) AND 0xFFFF < 0xFF"


section \<open>A program meets the kernel\<close>

text \<open>The frame that \<open>int 0x80\<close> leaves has the registers of the stub.\<close>

definition enter_frame :: "regs \<Rightarrow> frame \<Rightarrow> frame" where
  "enter_frame g fr =
     fr\<lparr>a_ebx := (case g_ebx g of None \<Rightarrow> a_ebx fr | Some v \<Rightarrow> v),
        a_ecx := (case g_ecx g of None \<Rightarrow> a_ecx fr | Some v \<Rightarrow> v),
        a_edx := (case g_edx g of None \<Rightarrow> a_edx fr | Some v \<Rightarrow> v)\<rparr>"

definition trap_into :: "tty_writer \<Rightarrow> u8 \<Rightarrow> u8 list \<Rightarrow> regs \<Rightarrow> frame \<Rightarrow> handler" where
  "trap_into wr j js g fr = system_call wr j js (g_eax g) (enter_frame g fr)"

lemma length_handlers [simp]: "length (handlers wr j js fr) = 67"
  by (simp add: handlers_def Let_def)

text \<open>
  The number that the library has for a name is the place of the kernel function of that name in
  the table of the calls, for all 67 names, and the kernel lets the number through.
\<close>

theorem call_numbers:
  "map fst NR = sys_call_table \<and> map snd NR = map of_nat [0..<length sys_call_table] \<and>
   length sys_call_table = unat nr_system_calls \<and> length (handlers wr j js fr) = unat nr_system_calls"
  by (simp add: NR_def sys_call_table_def upt_rec)


lemma stub_of_value: "sint (word_of_int v :: u32) = v \<Longrightarrow>
    stub_result (word_of_int v) = (if 0 \<le> v then (v, None) else (- 1, Some (s32 (- v))))"
  by (simp add: stub_result_def)

text \<open>
  The status of a process that called \<open>exit\<close> gives the code back, and says that no signal and
  no stop was the end.
\<close>

lemma exit_status:
  "WEXITSTATUS (push_bit 8 (c AND 0xff)) = c AND 0xff" "WTERMSIG (push_bit 8 (c AND 0xff)) = 0"
  "\<not> WIFSTOPPED (push_bit 8 (c AND 0xff))"
proof -
  have m: "0xff = (mask 8 :: u32)" "0x7f = (mask 7 :: u32)" by (simp_all add: mask_eq_exp_minus_1)
  show "WEXITSTATUS (push_bit 8 (c AND 0xff)) = c AND 0xff" "WTERMSIG (push_bit 8 (c AND 0xff)) = 0"
    unfolding WEXITSTATUS_def WTERMSIG_def m by (auto simp: bit_eq_iff bit_simps)
  have "push_bit 8 (c AND mask 8) AND mask 8 = (0 :: u32)" by (auto simp: bit_eq_iff bit_simps)
  then show "\<not> WIFSTOPPED (push_bit 8 (c AND 0xff))" by (simp add: WIFSTOPPED_def m)
qed

end
