(* ===== verification/Traps.thy ===== *)
theory Traps
  imports Vsprintf Exit Rw Machine
begin

unbundle bit_operations_syntax

text \<open>
  Messages of the kernel (kernel/printk.c, kernel/panic.c) and the exceptions: the messages and
  the end of the process in kernel/traps.c, and what kernel/asm.s puts behind each entry.
\<close>

section \<open>Messages\<close>

text \<open>
  \<open>printk\<close> formats into a buffer of 1024 bytes and calls \<open>tty_write\<close> on the console with \<open>%fs\<close>
  pointing to it, so that the bytes written are those of the buffer. \<open>wr\<close> is the driver of the
  console; a message that does not fit into the queue sleeps.
\<close>

definition printk_tty :: "tty_writer \<Rightarrow> string \<Rightarrow> va list \<Rightarrow> fs \<Rightarrow> fs result" where
  "printk_tty wr fmt args s =
     (case vsprintf fmt args of
        None \<Rightarrow> Inl Fault
      | Some (text, writes) \<Rightarrow>
          if 1024 \<le> length text \<or> writes \<noteq> [] then Inl Fault
          else
            case tty_write_turn wr False (length text) (map of_char text) (tty_cr s) (ttys s ! 0) (ker s) of
              (Written _, cr, tty) \<Rightarrow> Inr (s\<lparr>ttys := (ttys s)[0 := tty], tty_cr := cr\<rparr>)
            | _ \<Rightarrow> Inl Sleeps)"

abbreviation nl :: string where "nl \<equiv> [CHR 0x0A]"
abbreviation cr :: string where "cr \<equiv> [CHR 0x0D]"
abbreviation tab :: string where "tab \<equiv> [CHR 0x09]"

text \<open>\<open>panic\<close> prints and loops.\<close>

definition panic :: "tty_writer \<Rightarrow> string \<Rightarrow> fs \<Rightarrow> fs result" where
  "panic wr m s =
     andthen (printk_tty wr (''Kernel panic: %s'' @ nl @ cr) [Va_str m] s) (\<lambda>_. Inl (Panic m))"


section \<open>The end of the process\<close>

text \<open>
  \<open>seg\<close> gives the byte at an address in the segment of a selector, as \<open>get_seg_byte\<close> and
  \<open>get_seg_long\<close> read it. \<open>esp\<close> are the words of the stack frame: instruction pointer and
  code segment, flags, and the stack of a process that comes from user mode.
\<close>

type_synonym segments = "u32 \<Rightarrow> u32 \<Rightarrow> u8"

definition get_seg_byte :: "segments \<Rightarrow> u32 \<Rightarrow> u32 \<Rightarrow> u8" where
  "get_seg_byte seg sel a = seg sel a"

definition get_seg_long :: "segments \<Rightarrow> u32 \<Rightarrow> u32 \<Rightarrow> u32" where
  "get_seg_long seg sel a = get_fs_long (seg sel) a"

fun print_all :: "tty_writer \<Rightarrow> string \<Rightarrow> va list list \<Rightarrow> fs \<Rightarrow> fs result" where
  "print_all wr fmt [] s = Inr s"
| "print_all wr fmt (args # rest) s = andthen (printk_tty wr fmt args s) (print_all wr fmt rest)"

definition die_stack :: "tty_writer \<Rightarrow> segments \<Rightarrow> u32 list \<Rightarrow> fs \<Rightarrow> fs result" where
  "die_stack wr seg esp s =
     (if esp ! 4 = 0x17 then
        andthen (printk_tty wr ''Stack: '' [] s) (\<lambda>s.
        andthen (print_all wr ''%p '' (map (\<lambda>i. [Va_ptr (get_seg_long seg 0x17 (esp ! 3 + 4 * of_nat i))]) [0..<4]) s) (\<lambda>s.
        printk_tty wr nl [] s))
      else Inr s)"

text \<open>The selector \<open>%fs\<close> is 0x10 since kernel/asm.s; \<open>str\<close> gives the number of the process.\<close>

definition die :: "tty_writer \<Rightarrow> segments \<Rightarrow> string \<Rightarrow> u32 list \<Rightarrow> u32 \<Rightarrow> fs \<Rightarrow> fs result" where
  "die wr seg m esp nr s =
     andthen (printk_tty wr (''%s: %04x'' @ nl @ cr) [Va_str m, Va_int (nr AND 0xffff)] s) (\<lambda>s.
     andthen (printk_tty wr (''EIP:'' @ tab @ ''%04x:%p'' @ nl @ ''EFLAGS:'' @ tab @ ''%p'' @ nl @ ''ESP:'' @ tab @ ''%04x:%p'' @ nl)
       [Va_int (esp ! 1), Va_ptr (esp ! 0), Va_ptr (esp ! 2), Va_int (esp ! 4), Va_ptr (esp ! 3)] s) (\<lambda>s.
     andthen (printk_tty wr (''fs: %04x'' @ nl) [Va_int 0x10] s) (\<lambda>s.
     andthen (printk_tty wr (''base: %p, limit: %p'' @ nl)
       [Va_ptr (get_base (ldt (me s) ! 1)), Va_ptr (limit_of 2 (ker s))] s) (\<lambda>s.
     andthen (die_stack wr seg esp s) (\<lambda>s.
     andthen (printk_tty wr (''Pid: %d, process nr: %d'' @ nl @ cr)
       [Va_int (word_of_int (pid (me s))), Va_int (0xffff AND of_nat (current (ker s)))] s) (\<lambda>s.
     andthen (print_all wr ''%02x '' (map (\<lambda>i. [Va_int (ucast (get_seg_byte seg (esp ! 1) (esp ! 0 + of_nat i)))]) [0..<10]) s) (\<lambda>s.
     andthen (printk_tty wr (nl @ cr) [] s) (do_exit 11))))))))"

text \<open>\<open>do_int3\<close> prints the registers; \<open>regs\<close> are those pushed, from \<open>fs\<close> to \<open>eax\<close>.\<close>

record int3_regs =
  i_fs :: u32
  i_es :: u32
  i_ds :: u32
  i_ebp :: u32
  i_esi :: u32
  i_edi :: u32
  i_edx :: u32
  i_ecx :: u32
  i_ebx :: u32
  i_eax :: u32
  i_esp :: u32

definition do_int3 :: "tty_writer \<Rightarrow> int3_regs \<Rightarrow> u32 list \<Rightarrow> fs \<Rightarrow> fs result" where
  "do_int3 wr r esp s =
     (let tr = of_nat (8 * (FIRST_TSS_ENTRY + 2 * current (ker s))) :: u32;
          heads = \<lambda>a b c d t. a @ t @ b @ t @ c @ t @ d @ nl @ cr;
          row = \<lambda>f. f @ tab @ f @ tab @ f @ tab @ f @ nl @ cr
      in
        andthen (printk_tty wr (heads ''eax'' ''ebx'' ''ecx'' ''edx'' (tab @ tab) @ row ''%8x'')
          [Va_int (i_eax r), Va_int (i_ebx r), Va_int (i_ecx r), Va_int (i_edx r)] s) (\<lambda>s.
        andthen (printk_tty wr (heads ''esi'' ''edi'' ''ebp'' ''esp'' (tab @ tab) @ row ''%8x'')
          [Va_int (i_esi r), Va_int (i_edi r), Va_int (i_ebp r), Va_int (i_esp r)] s) (\<lambda>s.
        andthen (printk_tty wr (nl @ cr @ heads ''ds'' ''es'' ''fs'' ''tr'' tab @ row ''%4x'')
          [Va_int (i_ds r), Va_int (i_es r), Va_int (i_fs r), Va_int tr] s) (\<lambda>s.
        printk_tty wr (''EIP: %8x   CS: %4x  EFLAGS: %8x'' @ nl @ cr)
          [Va_int (esp ! 0), Va_int (esp ! 1), Va_int (esp ! 2)] s))))"


section \<open>The exceptions\<close>

text \<open>The message of the routines \<open>do_...\<close> that end in \<open>die\<close>.\<close>

fun trap_message :: "entry_point \<Rightarrow> string option" where
  "trap_message Divide_error = Some ''divide error''"
| "trap_message Nmi = Some ''nmi''"
| "trap_message Overflow = Some ''overflow''"
| "trap_message Bounds = Some ''bounds''"
| "trap_message Invalid_op = Some ''invalid operand''"
| "trap_message Double_fault = Some ''double fault''"
| "trap_message Coprocessor_segment_overrun = Some ''coprocessor segment overrun''"
| "trap_message Invalid_TSS = Some ''invalid TSS''"
| "trap_message Segment_not_present = Some ''segment not present''"
| "trap_message Stack_segment = Some ''stack segment''"
| "trap_message General_protection = Some ''general protection''"
| "trap_message Reserved = Some ''reserved (15,17-31) error''"
| "trap_message Coprocessor_error = Some ''coprocessor error''"
| "trap_message _ = None"

text \<open>Where the processor pushes an error code, the entry passes it on; the others pass 0.\<close>

definition has_error_code :: "entry_point \<Rightarrow> bool" where
  "has_error_code e \<longleftrightarrow> e \<in> {Double_fault, Invalid_TSS, Segment_not_present, Stack_segment, General_protection}"

text \<open>
  An exception: the entry \<open>debug\<close> leads to \<open>do_int3\<close> too. With the bit EM of \<open>cr0\<close> clear the
  missing coprocessor is given to the process, otherwise it ends. The entry of the page fault is
  in mm/page.s and leads to \<open>do_no_page\<close> and \<open>do_wp_page\<close>; \<open>cr2\<close> is the address.
\<close>

definition page_exception :: "u32 \<Rightarrow> u32 \<Rightarrow> fs \<Rightarrow> fs result" where
  "page_exception code cr2 s =
     andthen (if code AND 1 = 0 then do_no_page code cr2 (mem (ker s)) else do_wp_page code cr2 (mem (ker s)))
       (\<lambda>m. Inr (upd_ker (\<lambda>k. k\<lparr>mem := m\<rparr>) s))"

definition exception :: "tty_writer \<Rightarrow> segments \<Rightarrow> bool \<Rightarrow> u32 \<Rightarrow> int3_regs \<Rightarrow> entry_point \<Rightarrow> u32 list \<Rightarrow> u32 \<Rightarrow> fs \<Rightarrow> fs result" where
  "exception wr seg em cr2 r e esp code s =
     (case trap_message e of
        Some m \<Rightarrow> die wr seg m esp (if has_error_code e then code else 0) s
      | None \<Rightarrow>
          if e = Int3 \<or> e = Debug then do_int3 wr r esp s
          else if e = Page_fault then page_exception code cr2 s
          else if e = Device_not_available then
            if em then die wr seg ''device not available'' esp 0 s
            else if last_task_used_math (ker s) = Some (current (ker s)) then Inr s
            else Inr (upd_ker math_state_restore s)
          else Inr s)"

end
