(* ===== verification/User_Init.thy ===== *)
theory User_Init
  imports Lib Vsprintf
begin

unbundle bit_operations_syntax

text \<open>
  The first program, \<open>init\<close> of init/main.c, as the calls it makes: a tree with a branch for every
  answer of the kernel.
\<close>

section \<open>Programs\<close>

text \<open>The answer to \<open>int 0x80\<close> is \<open>eax\<close> and the memory of the program; \<open>Ended\<close> is behind \<open>_exit\<close>.\<close>

datatype user =
    Int80 regs "u32 \<times> user_mem \<Rightarrow> user"
  | Ended

definition result_of :: "u32 \<times> user_mem \<Rightarrow> int" where
  "result_of a = fst (stub_result (fst a))"

text \<open>The addresses of the strings, of \<open>printbuf\<close> and of the variable \<open>i\<close>.\<close>

record layout =
  lit :: "string \<Rightarrow> u32"
  printbuf :: u32
  status_at :: u32
  argv_at :: u32
  envp_at :: u32

text \<open>\<open>printf\<close> formats into \<open>printbuf\<close> and writes it to descriptor 1.\<close>

definition printf :: "layout \<Rightarrow> string \<Rightarrow> va list \<Rightarrow> user \<Rightarrow> user" where
  "printf y fmt args rest =
     (case vsprintf fmt args of
        None \<Rightarrow> Ended
      | Some (text, _) \<Rightarrow> Int80 (lib_write 1 (printbuf y) (of_nat (length text))) (\<lambda>_. rest))"

text \<open>\<open>_exit(execve(...))\<close>: the call comes back only with an error.\<close>

definition exec_or_exit :: "u32 \<Rightarrow> u32 \<Rightarrow> u32 \<Rightarrow> user" where
  "exec_or_exit path argv envp =
     Int80 (lib_execve path argv envp) (\<lambda>a. Int80 (lib_exit (word_of_int (result_of a))) (\<lambda>_. Ended))"

text \<open>The terminal becomes the descriptors 0, 1 and 2.\<close>

definition open_tty0 :: "layout \<Rightarrow> user \<Rightarrow> user" where
  "open_tty0 y rest =
     Int80 (lib_open (lit y ''/dev/tty0'') 2 0) (\<lambda>_. Int80 (lib_dup 0) (\<lambda>_. Int80 (lib_dup 0) (\<lambda>_. rest)))"

definition shell :: "layout \<Rightarrow> user" where
  "shell y =
     Int80 (lib_close 0) (\<lambda>_. Int80 (lib_close 1) (\<lambda>_. Int80 (lib_close 2) (\<lambda>_.
     Int80 lib_setsid (\<lambda>_. open_tty0 y (exec_or_exit (lit y ''/bin/sh'') (argv_at y) (envp_at y))))))"

definition wait_for_shell :: "layout \<Rightarrow> user" where
  "wait_for_shell y =
     Int80 (lib_wait (status_at y)) (\<lambda>(eax, m).
     let j = result_of (eax, m); i = get_fs_long m (status_at y) in
     printf y (''child %d died with code %04x'' @ [CHR 0x0A]) [Va_int (word_of_int j), Va_int i]
       (Int80 (syscall0 ''sync'') (\<lambda>_. Int80 (lib_exit 0) (\<lambda>_. Ended))))"

definition init_user :: "layout \<Rightarrow> u32 \<Rightarrow> user" where
  "init_user y nr_bufs =
     Int80 (syscall0 ''setup'') (\<lambda>_.
     Int80 (syscall0 ''fork'') (\<lambda>a.
     if result_of a = 0 then exec_or_exit (lit y ''/bin/update'') 0 0
     else
       open_tty0 y
       (printf y (''%d buffers = %d bytes buffer space'' @ [CHR 0x0A, CHR 0x0D]) [Va_int nr_bufs, Va_int (nr_bufs * 1024)]
       (printf y ('' Ok.'' @ [CHR 0x0A, CHR 0x0D]) []
       (Int80 (syscall0 ''fork'') (\<lambda>a.
        let i = result_of a in
        if i < 0 then printf y (''Fork failed in init'' @ [CHR 0x0D, CHR 0x0A]) [] (wait_for_shell y)
        else if i = 0 then shell y
        else wait_for_shell y))))))"

text \<open>The calls a program makes when the kernel gives it these answers.\<close>

fun calls_of :: "user \<Rightarrow> (u32 \<times> user_mem) list \<Rightarrow> regs list" where
  "calls_of (Int80 g f) (a # as) = g # calls_of (f a) as"
| "calls_of u [] = []"
| "calls_of Ended (a # as) = []"

text \<open>The shell closes the three descriptors it has from its father and opens the terminal again, as leader of a session.\<close>

lemma shell_calls:
  "calls_of (shell y) (replicate 9 a) =
     [lib_close 0, lib_close 1, lib_close 2, lib_setsid, lib_open (lit y ''/dev/tty0'') 2 0, lib_dup 0, lib_dup 0,
      lib_execve (lit y ''/bin/sh'') (argv_at y) (envp_at y), lib_exit (word_of_int (result_of a))]"
  by (simp add: shell_def open_tty0_def exec_or_exit_def numeral_eq_Suc)

end
