(* ===== verification/Calls_Ok.thy ===== *)
theory Calls_Ok
  imports File_Table Lib Traps
begin

unbundle bit_operations_syntax

text \<open>
  Every system call keeps the use counts of the file table. What does not open or close leaves
  the counts, the descriptors and the number of the process alone: it is \<open>calm\<close>.
\<close>

section \<open>Calls on the process and its memory\<close>

named_theorems calm

lemma same_kern_refl [simp]: "same_kern k k"
  by (simp add: same_kern_def)

lemma same_kern_simps [simp]:
  "same_kern k (put_user g k1) = same_kern k k1" "same_kern k (k1\<lparr>mem := m\<rparr>) = same_kern k k1"
  "same_kern k (k1\<lparr>startup_time := t\<rparr>) = same_kern k k1"
  by (simp_all add: same_kern_def same_filps_def put_user_def)

lemma same_kern_sym: "same_kern k k1 \<Longrightarrow> same_kern k1 k"
  using same_filps_sym by (simp add: same_kern_def)

lemma same_kern_left: "same_kern k k1 \<Longrightarrow> same_kern k1 k' = same_kern k k'"
  using same_kern_sym same_kern_trans by blast

lemma same_kern_right: "same_kern k1 k2 \<Longrightarrow> same_kern k k2 = same_kern k k1"
  using same_kern_sym same_kern_trans by blast

lemma same_kern_set_cur_simps [simp]:
  assumes "\<And>t. filp (f t) = filp t \<and> state (f t) = state t"
  shows "same_kern (set_cur f k1) k' = same_kern k1 k'" "same_kern k (set_cur f k1) = same_kern k k1"
  using same_kern_left [of k1 "set_cur f k1" k'] same_kern_right [of k1 "set_cur f k1" k]
    same_kern_set_cur [of f k1, OF assms] by simp_all

lemma same_kern_put_user_left [simp]: "same_kern (put_user g k1) k' = same_kern k1 k'"
  by (rule same_kern_left) simp

lemma same_kern_set_alarm [simp]:
  "same_kern k (set_alarm a k1) = same_kern k k1" "same_kern (set_alarm a k1) k' = same_kern k1 k'"
  by (simp_all add: set_alarm_def)

lemma same_verify_area [calm]: "verify_area a n k = Inr k' \<Longrightarrow> same_kern k k'"
  by (auto simp: verify_area_def Let_def elim!: andthen_InrE)

lemma same_sys_time [calm]: "sys_time a k = Inr (r, k') \<Longrightarrow> same_kern k k'"
  and same_sys_times [calm]: "sys_times a k = Inr (r, k') \<Longrightarrow> same_kern k k'"
  and same_sys_uname [calm]: "sys_uname a k = Inr (r, k') \<Longrightarrow> same_kern k k'"
  by (auto simp: sys_time_def sys_times_def sys_uname_def Let_def elim!: andthen_InrE split: if_splits dest!: calm)

lemma same_setpgid_loop: "setpgid_loop p g is k = (r, k') \<Longrightarrow> same_kern k k'"
proof (induction "is" arbitrary: r)
  case (Cons i "is")
  have "same_kern k (set_task i (\<lambda>t. t\<lparr>pgrp := g\<rparr>) k)"
    by (auto simp: same_kern_def intro: same_filps_set_task)
  then show ?case using Cons by (auto split: option.splits if_splits)
qed simp

lemma current_do_kill: "current (do_kill p sig priv k) = current k"
proof -
  have "current (fold (\<lambda>i k. case task k i of None \<Rightarrow> k
      | Some t \<Rightarrow> if addressed (pid (cur k)) p t then send_sig sig i priv k else k) is k) = current k" for "is"
    by (induction "is" arbitrary: k) (auto simp: send_sig_def split: option.split)
  then show ?thesis by (simp add: do_kill_def)
qed

lemma same_setters [calm]:
  "sys_setuid u k = (r, k') \<Longrightarrow> same_kern k k'" "sys_setgid u k = (r, k') \<Longrightarrow> same_kern k k'"
  "sys_stime p k = (r, k') \<Longrightarrow> same_kern k k'" "sys_alarm n k = (r, k') \<Longrightarrow> same_kern k k'"
  "sys_nice n k = (r, k') \<Longrightarrow> same_kern k k'" "sys_brk e k = (b, k') \<Longrightarrow> same_kern k k'"
  "sys_umask n k = (r, k') \<Longrightarrow> same_kern k k'" "sys_setsid k = (r, k') \<Longrightarrow> same_kern k k'"
  "sys_signal n h x k = (r, k') \<Longrightarrow> same_kern k k'" "sys_setpgid n m k = (r, k') \<Longrightarrow> same_kern k k'"
  "sys_kill n m k = (r, k') \<Longrightarrow> same_kern k k'"
  by (auto simp: sys_setuid_def sys_setgid_def sys_stime_def sys_alarm_def sys_nice_def sys_brk_def sys_umask_def
      sys_setsid_def sys_signal_def sys_setpgid_def sys_kill_def Let_def current_do_kill
      intro: same_setpgid_loop split: if_splits)
    (simp add: same_kern_def do_kill_same current_do_kill)

lemma same_read_done: "read_done a got tty k = (r, tty', k') \<Longrightarrow> same_kern k k'"
  by (auto simp: read_done_def Let_def)

lemma same_tty_read_loop:
  "tty_read_loop b a time minimum flag nr got tty k = (r, tty', k') \<Longrightarrow> same_kern k k'"
proof (induction nr arbitrary: time flag got tty k rule: less_induct)
  case (less nr)
  obtain cs eof tty1 where c: "read_chars nr tty = (cs, eof, tty1)" by (metis prod_cases3)
  show ?case
  proof (cases "nr = 0 \<or> eof")
    case True
    then show ?thesis
      using less(2)
      by (subst (asm) tty_read_loop.simps)
        (auto simp: Let_def c simp del: tty_read_loop.simps split: if_splits dest!: same_read_done)
  next
    case False
    then have n: "cs \<noteq> []" using read_chars_len [of nr tty cs tty1] c by simp
    have IH: "same_kern k1 k'" if "tty_read_loop b a t minimum fl (nr - length cs) g tty1 k1 = (r, tty', k')" for t fl g k1
      using less(1) [OF _ that] n False by simp
    show ?thesis
      using less(2) False n
      by (subst (asm) tty_read_loop.simps)
        (auto simp: Let_def c simp del: tty_read_loop.simps split: if_splits dest!: same_read_done IH)
  qed
qed

lemma same_tty_read [calm]:
  assumes "tty_read ch b n tt k = (r, tt', k')"
  shows "same_kern k k'"
  using assms
  by (auto simp: tty_read_def Let_def simp del: tty_read_loop.simps split: if_splits prod.splits
      dest!: same_tty_read_loop)

lemma same_tty_ioctl [calm]: "tty_ioctl junk dev cmd arg tt k = Inr (r, tt', k') \<Longrightarrow> same_kern k k'"
  by (auto simp: tty_ioctl_def ioctl_tty_def get_termios_def get_termio_def Let_def elim!: andthen_InrE
      split: if_splits prod.splits dest!: calm)


section \<open>Calls on files\<close>

text \<open>What a calm call leaves, as an equation, so that a chain of routines is a chain of equations.\<close>

definition stays :: "fs \<Rightarrow> (nat \<Rightarrow> (nat option list \<times> bool) option) \<times> nat \<times> (nat \<Rightarrow> u16)" where
  "stays s = (\<lambda>i. map_option (\<lambda>t. (filp t, state t = TASK_ZOMBIE)) (task (ker s) i), current (ker s),
     \<lambda>f. f_count (file_table s f))"

named_theorems stay

lemma stay_held [stay]: "held s' = held s \<Longrightarrow> stays s' = stays s"
  using heldD [of s' s] by (simp add: stays_def)

lemma stays_ok: "files_ok s \<Longrightarrow> stays s' = stays s \<Longrightarrow> files_ok s'"
proof -
  assume ok: "files_ok s" and st: "stays s' = stays s"
  have f: "same_filps (ker s) (ker s')" "current (ker s') = current (ker s)"
      "f_count (file_table s' f) = f_count (file_table s f)" for f
    using st by (auto simp: stays_def same_filps_def fun_eq_iff)
  then have "alive (ker s')" using same_filps_ok(3) files_okD(2) [OF ok] by blast
  then show ?thesis using files_ok_same [OF ok] f by simp
qed

lemma stays_ker [simp]: "stays (s\<lparr>ker := k\<rparr>) = stays s \<longleftrightarrow> same_kern (ker s) k"
  by (simp add: stays_def same_kern_def same_filps_def fun_eq_iff)

lemma stays_kerD: "same_kern (ker s) k \<Longrightarrow> stays (s\<lparr>ker := k\<rparr>) = stays s"
  by simp

lemma stays_simps [simp]:
  "stays (upd_ker (put_user g) s) = stays s" "stays (put_user_bytes vs a s) = stays s"
  "stays (upd_inode i n s) = stays s" "stays (upd_buf b h s) = stays s" "stays (upd_super q x s) = stays s"
  "stays (s\<lparr>ttys := tt\<rparr>) = stays s" "stays (s\<lparr>tty_cr := c\<rparr>) = stays s" "stays (set_bytes b off xs s) = stays s"
  "stays (dirty b s) = stays s" "stays (set_de_inode b off v s) = stays s" "stays (unlink_inode i s) = stays s"
  "stays (s\<lparr>ttys := tt, ker := k\<rparr>) = stays (s\<lparr>ker := k\<rparr>)" "stays (s\<lparr>ttys := tt, tty_cr := c\<rparr>) = stays s"
  by (simp_all add: stays_def put_user_bytes_def upd_ker_def upd_inode_def upd_buf_def upd_super_def set_bytes_def
      dirty_def set_de_inode_def unlink_inode_def put_user_def)

lemma stays_upd_file [simp]: "(\<And>x. f_count (g x) = f_count x) \<Longrightarrow> stays (upd_file f g s) = stays s"
  by (auto simp: stays_def upd_file_def)

lemma stays_set_cur [simp]:
  "(\<And>t. filp (f t) = filp t \<and> state (f t) = state t) \<Longrightarrow> stays (upd_ker (set_cur f) s) = stays s"
  using same_kern_set_cur [of f "ker s"] by (simp add: upd_ker_def)

lemma stays_upd_mem [simp]: "stays (upd_ker (\<lambda>k. k\<lparr>mem := m k\<rparr>) s) = stays s"
  by (simp add: upd_ker_def)

lemma stay_verify_area [stay]: "verify_area a n (ker s) = Inr k \<Longrightarrow> stays (s\<lparr>ker := k\<rparr>) = stays s"
  by (simp add: same_verify_area)

lemma stay_rw_char [stay]: "rw_char wr rw dev b n s = Inr (r, s') \<Longrightarrow> stays s' = stays s"
  by (auto simp: rw_char_def rw_tty_def rw_ttyx_def Let_def split: if_splits prod.splits dest!: same_tty_read)

lemma stay_read_pipe_loop: "read_pipe_loop i b n s = (r, s') \<Longrightarrow> stays s' = stays s"
  by (induction i b n s rule: read_pipe_loop.induct)
    (auto simp: Let_def set_pipe_def split: if_splits prod.splits)

lemma stay_write_pipe_loop: "write_pipe_loop i a b n s = (r, s') \<Longrightarrow> stays s' = stays s"
  by (induction i a b n s rule: write_pipe_loop.induct)
    (auto simp: Let_def set_pipe_def sigpipe_def split: if_splits)

lemma stay_pipes [stay]:
  "read_pipe i b n s = (r, s') \<Longrightarrow> stays s' = stays s" "write_pipe i b n s = (r, s') \<Longrightarrow> stays s' = stays s"
  by (auto simp: read_pipe_def write_pipe_def sigpipe_def split: if_splits prod.splits
      dest!: stay_read_pipe_loop stay_write_pipe_loop)

lemma stay_buffers [stay]:
  "bread dev block s = Inr (x, s') \<Longrightarrow> stays s' = stays s" "brelse b s = Inr s' \<Longrightarrow> stays s' = stays s"
  "bmap i block s = Inr (z, s') \<Longrightarrow> stays s' = stays s" "create_block i block s = Inr (z, s') \<Longrightarrow> stays s' = stays s"
  "iput io s = Inr s' \<Longrightarrow> stays s' = stays s" "leave is bh r s = Inr (x, s') \<Longrightarrow> stays s' = stays s"
  by (auto dest!: held stay_held)

lemma stay_file_read_loop: "file_read_loop i f b left s = Inr (r, s') \<Longrightarrow> stays s' = stays s"
proof (induction left arbitrary: b s rule: less_induct)
  case (less left)
  have IH: "stays s' = stays s1" if "file_read_loop i f b' (left - turn_chars p left) s1 = Inr (r, s')" "left \<noteq> 0" for b' p s1
    using less(1) [OF _ that(1)] turn_chars_pos [OF that(2), of p] that(2) by simp
  show ?case
    using less(2)
    by (subst (asm) file_read_loop.simps)
      (auto simp: Let_def elim!: andthen_InrE split: if_splits option.splits dest!: IH stay)
qed

lemma stay_file_write_loop: "file_write_loop i pos b left s = Inr (q, r, s') \<Longrightarrow> stays s' = stays s"
proof (induction left arbitrary: pos b s rule: less_induct)
  case (less left)
  have IH: "stays s' = stays s1" if "file_write_loop i p' b' (left - turn_chars p left) s1 = Inr (q, r, s')" "left \<noteq> 0" for b' p p' s1
    using less(1) [OF _ that(1)] turn_chars_pos [OF that(2), of p] that(2) by simp
  have g: "stays (grow i p s1) = stays s1" for p s1 by (simp add: grow_def)
  show ?case
    using less(2)
    by (subst (asm) file_write_loop.simps)
      (auto simp: Let_def g elim!: andthen_InrE split: if_splits option.splits dest!: IH stay)
qed

lemma stay_files [stay]:
  "file_read i f b n s = Inr (r, s') \<Longrightarrow> stays s' = stays s" "file_write i f b n s = Inr (r, s') \<Longrightarrow> stays s' = stays s"
  by (auto simp: file_read_def file_write_def Let_def elim!: andthen_InrE split: if_splits
      dest!: stay_file_read_loop stay_file_write_loop)

lemma stay_block_write_loop: "block_write_loop dev k off pos b left w s = Inr (r, q, s') \<Longrightarrow> stays s' = stays s"
proof (induction left arbitrary: k off pos b w s rule: less_induct)
  case (less left)
  have IH: "stays s' = stays s1" if "block_write_loop dev k' 0 p' b' (left - min left BLOCK_SIZE) w' s1 = Inr (r, q, s')" "left \<noteq> 0" for k' b' p' w' s1
    using less(1) [OF _ that(1)] that(2) by simp
  show ?case
    using less(2)
    by (subst (asm) block_write_loop.simps)
      (auto simp: Let_def elim!: andthen_InrE split: if_splits option.splits dest!: IH stay)
qed

lemma stay_block_read_loop: "block_read_loop dev k off pos b left w s = Inr (r, q, s') \<Longrightarrow> stays s' = stays s"
proof (induction left arbitrary: k off pos b w s rule: less_induct)
  case (less left)
  have IH: "stays s' = stays s1" if "block_read_loop dev k' 0 p' b' (left - min left BLOCK_SIZE) w' s1 = Inr (r, q, s')" "left \<noteq> 0" for k' b' p' w' s1
    using less(1) [OF _ that(1)] that(2) by simp
  show ?case
    using less(2)
    by (subst (asm) block_read_loop.simps)
      (auto simp: Let_def elim!: andthen_InrE split: if_splits option.splits dest!: IH stay)
qed

lemma stay_blocks [stay]:
  "block_read dev pos b n s = Inr (r, q, s') \<Longrightarrow> stays s' = stays s"
  "block_write dev pos b n s = Inr (r, q, s') \<Longrightarrow> stays s' = stays s"
  by (auto simp: block_read_def block_write_def Let_def dest!: stay_block_read_loop stay_block_write_loop)

lemma stay_pipe_snd [simp]:
  "stays (snd (read_pipe i b n s)) = stays s" "stays (snd (write_pipe i b n s)) = stays s"
  by (simp_all add: stay_pipes(1) [OF prod.collapse [symmetric]] stay_pipes(2) [OF prod.collapse [symmetric]])

lemma stay_read_write [stay]:
  "sys_read wr fd b n s = Inr (r, s') \<Longrightarrow> stays s' = stays s" "sys_write wr fd b n s = Inr (r, s') \<Longrightarrow> stays s' = stays s"
  by (auto simp: sys_read_def sys_write_def Let_def moving_def finished_def on_pipe_def elim!: andthen_InrE
      split: if_splits option.splits prod.splits dest!: stay)


section \<open>Calls on names\<close>

lemma stay_names [stay]:
  "namei path s = Inr (x, s') \<Longrightarrow> stays s' = stays s" "dir_namei path s = Inr (y, s') \<Longrightarrow> stays s' = stays s"
  "find_entry dir name len s = Inr (e, s') \<Longrightarrow> stays s' = stays s"
  "add_entry dir name len s = Inr (e, s') \<Longrightarrow> stays s' = stays s"
  "new_inode dev s = Inr (x, s') \<Longrightarrow> stays s' = stays s" "iget dev nr s = Inr (i, s') \<Longrightarrow> stays s' = stays s"
  "new_block dev s = Inr (z, s') \<Longrightarrow> stays s' = stays s" "free_block dev k s = Inr s' \<Longrightarrow> stays s' = stays s"
  by (auto dest!: held stay_held)

lemma stays_set_zone [simp]: "stays (set_zone i k z s) = stays s" "stays (init_dir b own parent s) = stays s"
  by (simp_all add: set_zone_def init_dir_def)

lemma stay_on_name:
  assumes "on_name path err body s = Inr (r, s')"
    and "\<And>i s1. body i s1 = Inr (r, s') \<Longrightarrow> stays s' = stays s1"
  shows "stays s' = stays s"
  using assms(1) by (auto simp: on_name_def elim!: andthen_InrE split: option.splits dest!: stay assms(2))

lemma stay_with_dir:
  assumes "with_dir path e1 e2 body s = Inr (r, s')"
    and "\<And>dir len base s1. body dir len base s1 = Inr (r, s') \<Longrightarrow> stays s' = stays s1"
  shows "stays s' = stays s"
  using assms(1)
  by (auto simp: with_dir_def elim!: andthen_InrE split: option.splits if_splits dest!: stay assms(2))

lemma stay_cp_stat: "cp_stat junk i b s = Inr (r, s') \<Longrightarrow> stays s' = stays s"
  by (auto simp: cp_stat_def elim!: andthen_InrE dest!: stay)

lemma stay_stats [stay]:
  "sys_stat junk path b s = Inr (r, s') \<Longrightarrow> stays s' = stays s"
  "sys_fstat junk fd b s = Inr (r, s') \<Longrightarrow> stays s' = stays s"
  by (auto simp: sys_stat_def sys_fstat_def elim!: andthen_InrE split: option.splits
      dest!: stay_on_name stay_cp_stat dest: stay)

lemma stay_on_names [stay]:
  "sys_utime path b s = Inr (r, s') \<Longrightarrow> stays s' = stays s" "sys_access path m s = Inr (r, s') \<Longrightarrow> stays s' = stays s"
  "sys_chdir path s = Inr (r, s') \<Longrightarrow> stays s' = stays s" "sys_chroot path s = Inr (r, s') \<Longrightarrow> stays s' = stays s"
  "sys_chmod path md s = Inr (r, s') \<Longrightarrow> stays s' = stays s"
  "sys_chown path u g s = Inr (r, s') \<Longrightarrow> stays s' = stays s"
  unfolding sys_utime_def sys_access_def sys_chdir_def sys_chroot_def sys_chmod_def sys_chown_def Let_def
  by (erule stay_on_name, auto simp: Let_def elim!: andthen_InrE split: if_splits dest!: stay)+

lemma stay_empty_loop:
  "empty_loop_dir i len nr b off s = Inr (e, s') \<Longrightarrow> stays s' = stays s"
proof (induction i len nr b off s rule: empty_loop_dir.induct)
  case (1 i len nr b off s)
  consider (stop) "len \<le> nr" | (block) "\<not> len \<le> nr" "BLOCK_SIZE \<le> off"
    | (used) "\<not> len \<le> nr" "\<not> BLOCK_SIZE \<le> off" "de_inode b off s \<noteq> 0"
    | (free) "\<not> len \<le> nr" "\<not> BLOCK_SIZE \<le> off" "\<not> de_inode b off s \<noteq> 0" by blast
  then show ?case
  proof cases
    case block
    obtain s1 z s2 where r: "brelse b s = Inr s1" "bmap i (int (nr div DIR_ENTRIES_PER_BLOCK)) s1 = Inr (z, s2)"
      and e: "(if z = 0 then empty_loop_dir i len (nr + DIR_ENTRIES_PER_BLOCK) b off s2
        else andthen (bread (uint (i_dev (inode s2 i))) z s2) (\<lambda>(bh, s). case bh of None \<Rightarrow> Inr (False, s)
          | Some b \<Rightarrow> empty_loop_dir i len nr b 0 s)) = Inr (e, s')"
      using 1(4) block by (subst (asm) empty_loop_dir.simps) (auto elim!: andthen_InrE)
    have s2: "stays s2 = stays s" using r by (auto dest!: stay)
    show ?thesis
    proof (cases "z = 0")
      case True
      then show ?thesis using e 1(1) [OF block r(1,2) refl] s2 by simp
    next
      case False
      then obtain bh s3 where b3: "bread (uint (i_dev (inode s2 i))) z s2 = Inr (bh, s3)"
        and e3: "(case bh of None \<Rightarrow> Inr (False, s3) | Some b \<Rightarrow> empty_loop_dir i len nr b 0 s3) = Inr (e, s')"
        using e by (auto elim!: andthen_InrE)
      have "stays s3 = stays s" using b3 s2 by (auto dest!: stay)
      then show ?thesis
        using e3 1(2) [OF block r(1,2) refl False b3 refl] by (auto split: option.splits)
    qed
  next
    case free
    then show ?thesis using 1(4) 1(3) [OF free] by (subst (asm) empty_loop_dir.simps) simp
  qed (use 1(4) in \<open>subst (asm) empty_loop_dir.simps, auto elim!: andthen_InrE dest!: stay\<close>)+
qed

lemma stay_empty_dir [stay]: "empty_dir i s = Inr (e, s') \<Longrightarrow> stays s' = stays s"
  by (auto simp: empty_dir_def Let_def elim!: andthen_InrE split: if_splits option.splits dest!: stay stay_empty_loop)

lemma stay_enter_new_dir: "enter_new_dir dir len base i s = Inr (r, s') \<Longrightarrow> stays s' = stays s"
  by (auto simp: enter_new_dir_def Let_def elim!: andthen_InrE split: option.splits prod.splits dest!: stay)

lemma stay_make_dir: "make_dir dir len base md i s = Inr (r, s') \<Longrightarrow> stays s' = stays s"
  by (auto simp: make_dir_def Let_def elim!: andthen_InrE split: if_splits option.splits
      dest!: stay stay_enter_new_dir)

lemma stay_dirs [stay]:
  "sys_mkdir path md s = Inr (r, s') \<Longrightarrow> stays s' = stays s" "sys_rmdir path s = Inr (r, s') \<Longrightarrow> stays s' = stays s"
  "sys_unlink path s = Inr (r, s') \<Longrightarrow> stays s' = stays s"
proof -
  show "stays s' = stays s" if "sys_mkdir path md s = Inr (r, s')"
    using that unfolding sys_mkdir_def
    by (auto simp: Let_def split: if_splits elim!: stay_with_dir andthen_InrE split: option.splits prod.splits
        dest!: stay stay_make_dir)
  show "stays s' = stays s" if "sys_rmdir path s = Inr (r, s')"
    using that unfolding sys_rmdir_def
    by (auto simp: Let_def split: if_splits elim!: stay_with_dir andthen_InrE split: option.splits prod.splits
        dest!: stay)
  show "stays s' = stays s" if "sys_unlink path s = Inr (r, s')"
    using that unfolding sys_unlink_def
    by (elim stay_with_dir)
      (auto simp: Let_def split: if_splits elim!: andthen_InrE split: option.splits prod.splits dest!: stay)
qed

lemma stay_link [stay]: "sys_link old new s = Inr (r, s') \<Longrightarrow> stays s' = stays s"
  by (auto simp: sys_link_def Let_def elim!: andthen_InrE split: if_splits option.splits prod.splits dest!: stay)

lemma stay_write_inodes: "write_inodes is s = Inr s' \<Longrightarrow> stays s' = stays s"
  by (induction "is" arbitrary: s)
    (auto elim!: andthen_InrE split: if_splits dest!: held stay_held)

lemma stay_sync [stay]: "sys_sync s = Inr (r, s') \<Longrightarrow> stays s' = stays s"
  by (auto simp: sys_sync_def sync_inodes_def elim!: andthen_InrE dest!: stay_write_inodes held_sync_bufs stay_held)

lemma stay_lseek [stay]: "sys_lseek fd off org s = (r, s') \<Longrightarrow> stays s' = stays s"
  by (auto simp: sys_lseek_def Let_def split: option.splits if_splits)

lemma stay_ioctl [stay]: "sys_ioctl junk fd cmd arg s = Inr (r, s') \<Longrightarrow> stays s' = stays s"
  by (auto simp: sys_ioctl_def Let_def elim!: andthen_InrE split: option.splits if_splits dest!: same_tty_ioctl)


section \<open>The table of the calls\<close>

definition ok_in :: "fs \<Rightarrow> handler \<Rightarrow> bool" where
  "ok_in s h \<longleftrightarrow> (\<forall>x s'. h s = Inr (x, s') \<longrightarrow> files_ok s')"

lemma ok_gives:
  "(\<And>v s'. f s = Inr (v, s') \<Longrightarrow> files_ok s') \<Longrightarrow> ok_in s (\<lambda>s. gives (f s))"
  "(\<And>v s'. g s = (v, s') \<Longrightarrow> files_ok s') \<Longrightarrow> ok_in s (\<lambda>s. gives (Inr (g s)))"
  "(\<And>v s'. m s = Inr (v, s') \<Longrightarrow> files_ok s') \<Longrightarrow> ok_in s (\<lambda>s. moves (m s))"
  by (auto simp: ok_in_def gives_def moves_def elim!: andthen_InrE split: prod.splits)

lemma ok_ker:
  assumes "files_ok s"
  shows "(\<And>v k. f (ker s) = Inr (v, k) \<Longrightarrow> same_kern (ker s) k) \<Longrightarrow> ok_in s (gives_ker f)"
    "(\<And>v k. g (ker s) = (v, k) \<Longrightarrow> same_kern (ker s) k) \<Longrightarrow> ok_in s (sets_ker g)"
    "ok_in s (reads_ker r)" "ok_in s (missing name)"
  using files_ok_kern [OF assms] assms
  by (auto simp: ok_in_def sets_ker_def reads_ker_def gives_ker_def missing_def elim!: andthen_InrE
      split: prod.splits)

lemma ok_pause:
  assumes ok: "files_ok s"
  shows "ok_in s call_pause"
proof -
  let ?k = "set_cur (\<lambda>p. p\<lparr>state := TASK_INTERRUPTIBLE\<rparr>) (ker s)"
  have c: "task (ker s) (current (ker s)) = Some (me s)" "state (me s) \<noteq> TASK_ZOMBIE"
    using alive_me alive_state files_okD(2) [OF ok] by auto
  have "same_filps (ker s) ?k"
    using c by (auto simp: set_cur_def intro!: same_filps_set_task)
  then have "files_ok (s\<lparr>ker := ?k\<rparr>)" by (intro files_ok_kern [OF ok]) (simp add: same_kern_def set_cur_def set_task_def)
  from schedule_ok [OF this] show ?thesis
    by (auto simp: ok_in_def call_pause_def sys_pause_def returns_Inr elim!: andthen_InrE)
qed

lemma ok_waitpid:
  assumes ok: "files_ok s"
  shows "ok_in s (call_waitpid fr)"
proof -
  have "files_ok (s\<lparr>ker := k'\<rparr>)"
    if "verify_area a 4 (ker s) = Inr k" "waitpid_round (task_page s) p a opts k = Inr (r, k')" for a k p opts r k'
    using waitpid_ok [of "s\<lparr>ker := k\<rparr>" p a opts r k'] files_ok_kern [OF ok same_verify_area [OF that(1)]] that(2)
    by simp
  then show ?thesis
    by (auto simp: ok_in_def call_waitpid_def sys_waitpid_def elim!: andthen_InrE)
qed

text \<open>What is asked of a call: only process 0 never ends or loads a program, and \<open>setup\<close> runs once.\<close>

definition sane_call :: "nat \<Rightarrow> fs \<Rightarrow> bool" where
  "sane_call n s \<longleftrightarrow> (n = 0 \<longrightarrow> \<not> callable s) \<and> (n = 1 \<or> n = 11 \<longrightarrow> not_idle s)"

lemma ok_exit: "files_ok s \<Longrightarrow> not_idle s \<Longrightarrow> ok_in s (call_exit fr)"
  by (auto simp: ok_in_def call_exit_def not_idle_def elim!: andthen_InrE dest: sys_exit_ok)

lemma ok_execve: "files_ok s \<Longrightarrow> not_idle s \<Longrightarrow> ok_in s (call_execve fr)"
  by (auto simp: ok_in_def call_execve_def elim!: andthen_InrE dest: do_execve_ok)

lemma ok_setup: "files_ok s \<Longrightarrow> \<not> callable s \<Longrightarrow> ok_in s (\<lambda>s. gives (sys_setup s))"
  by (auto simp: ok_in_def gives_def sys_setup_def)

lemma handlers_ok:
  assumes ok: "files_ok s"
  shows "list_all (\<lambda>(n, h). sane_call n s \<longrightarrow> ok_in s h) (zip [0..<67] (handlers wr j js fr))"
proof -
  note st = stays_ok [OF ok]
  note rules = ok_gives ok_ker [OF ok] ok_pause [OF ok] ok_waitpid [OF ok] ok_setup [OF ok] ok_exit [OF ok] ok_execve [OF ok]
  show ?thesis
    by (simp add: handlers_def Let_def upt_rec sane_call_def)
      (intro conjI impI rules; auto simp: sys_creat_def sys_dup_def not_idle_def split: prod.splits
        dest: stay [THEN st] calm sys_open_ok [OF ok] sys_close_ok [OF ok] dupfd_ok [OF ok] sys_dup2_ok [OF ok]
          sys_fcntl_ok [OF ok] sys_pipe_ok [OF ok] sys_fork_ok [OF ok])
qed

end
