(* ===== verification/Kernel.thy ===== *)
theory Kernel
  imports Calls_Ok Machine_Props
begin

unbundle bit_operations_syntax

text \<open>
  Runs of the kernel: any system call, the way back with its signals, exceptions and timer
  ticks, in any order and of any process. The use counts of the file table stay right.
\<close>

section \<open>The parts of a run\<close>

lemma system_call_ok:
  assumes ok: "files_ok s" and sane: "sane_call (unat eax) s" and run: "system_call wr j js eax fr s = Inr (x, s')"
  shows "files_ok s'"
proof (cases "nr_system_calls - 1 < eax")
  case True
  then show ?thesis using ok run by (simp add: system_call_def)
next
  case False
  then have n: "unat eax < 67" by (simp add: word_less_nat_alt)
  have "ok_in s (handlers wr j js fr ! unat eax)"
    using handlers_ok [OF ok, of wr j js fr] sane n by (auto simp: list_all_length)
  then show ?thesis using run False by (auto simp: ok_in_def system_call_def)
qed

lemma reschedule_ok: "files_ok s \<Longrightarrow> reschedule s = Inr s' \<Longrightarrow> files_ok s'"
  by (auto simp: reschedule_def schedule_result_def elim!: andthen_InrE split: if_splits option.splits
      dest: schedule_ok)

lemma push_signal_ok: "files_ok s \<Longrightarrow> push_signal n h eax fr s = Inr (fr', s') \<Longrightarrow> files_ok s'"
  by (auto simp: push_signal_def Let_def upd_ker_def elim!: andthen_InrE intro!: files_ok_kern dest!: same_verify_area)

lemma deliver_ok:
  assumes ok: "files_ok s" and run: "deliver eax fr s = Inr (x, s')"
  shows "files_ok s'"
proof (cases "current (ker s) = 0 \<or> a_cs fr AND 3 = 0 \<or> a_ss fr AND 0xffff \<noteq> 0x17")
  case True
  then show ?thesis using ok run by (simp add: deliver_def)
next
  case False
  obtain rest sig where n: "next_signal (sig_fn (me s)) (signal (me s)) = (rest, sig)" by fastforce
  let ?s = "upd_ker (set_cur (\<lambda>p. p\<lparr>signal := rest\<rparr>)) s"
  have "files_ok ?s" "current (ker ?s) \<noteq> 0"
    using files_ok_set_cur [OF ok] set_cur_same [of "\<lambda>p. p\<lparr>signal := rest\<rparr>" s] False by auto
  then show ?thesis
    using run False
    by (auto simp: deliver_def n Let_def elim!: andthen_InrE split: option.splits if_splits
        dest: do_exit_ok push_signal_ok)
qed

lemma same_math_state_restore: "same_kern k (math_state_restore k)"
proof -
  have l: "same_kern k (set_task l (\<lambda>p. p\<lparr>tss := x p\<rparr>) k)" for l x
    by (auto simp: same_kern_def intro: same_filps_set_task)
  have f: "same_kern k (k1\<lparr>fpu := y\<rparr>) = same_kern k k1" "same_kern k (k1\<lparr>last_task_used_math := z\<rparr>) = same_kern k k1" for k k1 y z
    by (simp_all add: same_kern_def same_filps_def)
  show ?thesis
    by (auto simp: math_state_restore_def Let_def f l split: option.split)
qed

lemma stay_printk: "printk_tty wr fmt args s = Inr s' \<Longrightarrow> stays s' = stays s"
  by (auto simp: printk_tty_def split: option.splits prod.splits write_result.splits if_splits)

lemma stay_print_all: "print_all wr fmt rows s = Inr s' \<Longrightarrow> stays s' = stays s"
  by (induction rows arbitrary: s) (auto elim!: andthen_InrE dest!: stay_printk)

lemma stays_not_idle: "stays s' = stays s \<Longrightarrow> current (ker s') = current (ker s)"
  by (simp add: stays_def)

lemma die_exits:
  assumes "die wr seg m esp nr s = Inr s'"
  shows "\<exists>s1. stays s1 = stays s \<and> do_exit 11 s1 = Inr s'"
proof -
  have "stays s2 = stays s1" if "die_stack wr seg esp s1 = Inr s2" for s1 s2
    using that by (auto simp: die_stack_def elim!: andthen_InrE split: if_splits dest!: stay_printk stay_print_all)
  then show ?thesis
    using assms by (auto simp: die_def elim!: andthen_InrE dest!: stay_printk stay_print_all)
qed

lemma die_ok: "files_ok s \<Longrightarrow> not_idle s \<Longrightarrow> die wr seg m esp nr s = Inr s' \<Longrightarrow> files_ok s'"
  using die_exits [of wr seg m esp nr s s'] stays_ok [of s] do_exit_ok stays_not_idle
  unfolding not_idle_def by metis

lemma exception_ok:
  assumes ok: "files_ok s" and n: "not_idle s" and run: "exception wr seg em cr2 r e esp code s = Inr s'"
  shows "files_ok s'"
proof -
  have i: "stays s1 = stays s" if "do_int3 wr r esp s = Inr s1" for s1
    using that by (auto simp: do_int3_def Let_def elim!: andthen_InrE dest!: stay_printk)
  have p: "stays s1 = stays s" if "page_exception code cr2 s = Inr s1" for s1
    using that by (auto simp: page_exception_def elim!: andthen_InrE)
  have m: "stays (upd_ker math_state_restore s) = stays s"
    by (simp add: upd_ker_def same_math_state_restore)
  show ?thesis
    using run ok die_ok [OF ok n]
    by (auto simp: exception_def split: option.splits if_splits dest: i p intro: stays_ok [OF ok] simp: m)
qed

lemma do_timer_ok:
  assumes ok: "files_ok s" and run: "do_timer cpl (ker s) = Some k"
  shows "files_ok (s\<lparr>ker := k\<rparr>)"
proof -
  define k0 where "k0 = set_cur (\<lambda>p. p\<lparr>counter := s32 (counter p - 1)\<rparr>)
    (if cpl \<noteq> 0 then set_cur (\<lambda>p. p\<lparr>utime := s32 (utime p + 1)\<rparr>) (ker s)
     else set_cur (\<lambda>p. p\<lparr>stime := s32 (stime p + 1)\<rparr>) (ker s))"
  have same: "same_kern (ker s) k0" "same_kern (ker s) (set_cur (\<lambda>p. p\<lparr>counter := 0\<rparr>) k0)"
    by (simp_all add: k0_def)
  have "k = k0 \<or> k = set_cur (\<lambda>p. p\<lparr>counter := 0\<rparr>) k0 \<or> schedule (set_cur (\<lambda>p. p\<lparr>counter := 0\<rparr>) k0) = Some k"
    using run unfolding do_timer_def Let_def k0_def [symmetric] by (auto split: if_splits)
  then obtain k1 where k1: "same_kern (ker s) k1" "k = k1 \<or> schedule k1 = Some k" using same by blast
  show ?thesis
    using k1(2) files_ok_kern [OF ok k1(1)] schedule_ok [of "s\<lparr>ker := k1\<rparr>" k] by auto
qed


section \<open>Runs\<close>

text \<open>
  One step: a call from user mode, the choice of another process, a signal, an exception, or a
  tick of the timer. Process 0 never ends, \<open>setup\<close> has been called at the start.
\<close>

inductive kernel_step :: "fs \<Rightarrow> fs \<Rightarrow> bool" where
  calls: "system_call wr j js eax fr s = Inr (x, s') \<Longrightarrow> sane_call (unat eax) s \<Longrightarrow> kernel_step s s'"
| reschedules: "reschedule s = Inr s' \<Longrightarrow> kernel_step s s'"
| signals: "deliver eax fr s = Inr (x, s') \<Longrightarrow> kernel_step s s'"
| traps: "exception wr seg em cr2 r e esp code s = Inr s' \<Longrightarrow> not_idle s \<Longrightarrow> kernel_step s s'"
| ticks: "do_timer cpl (ker s) = Some k \<Longrightarrow> kernel_step s (s\<lparr>ker := k\<rparr>)"

inductive_cases kernel_stepE: "kernel_step s s'"

lemma kernel_step_ok: "kernel_step s s' \<Longrightarrow> files_ok s \<Longrightarrow> files_ok s'"
  by (elim kernel_stepE) (auto dest: system_call_ok reschedule_ok deliver_ok exception_ok do_timer_ok)

lemma kernel_run_ok: "kernel_step\<^sup>*\<^sup>* s s' \<Longrightarrow> files_ok s \<Longrightarrow> files_ok s'"
  by (induction rule: rtranclp_induct) (auto dest: kernel_step_ok)

text \<open>
  C9. From a state where the use counts are right, after any run of the kernel: the use count of an
  entry of the file table is the number of descriptors that refer to it, whatever the process.
\<close>

theorem file_counts_right:
  assumes "files_ok s" "kernel_step\<^sup>*\<^sup>* s s'" "f < NR_FILE"
  shows "unat (f_count (file_table s' f)) =
      (\<Sum>i<NR_TASKS. case task (ker s') i of None \<Rightarrow> 0 | Some t \<Rightarrow> count_list (filp t) (Some f))"
  using files_okD(4) [OF kernel_run_ok [OF assms(2,1)] assms(3)] by (simp add: descriptors_def file_refs_def)

text \<open>
  C10. In every such run the table of descriptors of every process keeps its length, and every
  descriptor refers to an entry of the file table that is in use.
\<close>

theorem descriptors_typed:
  assumes "files_ok s" "kernel_step\<^sup>*\<^sup>* s s'" "i < NR_TASKS" "task (ker s') i = Some t"
  shows "length (filp t) = NR_OPEN \<and>
    set (filp t) \<subseteq> insert None (Some ` {f. f < NR_FILE \<and> f_count (file_table s' f) \<noteq> 0})"
proof -
  have ok: "files_ok s'" by (rule kernel_run_ok [OF assms(2,1)])
  then have "length (filp t) = NR_OPEN" using files_okD(1) [OF ok] assms(3,4) by (simp add: tasks_ok_def filp_ok_def)
  moreover have "x \<in> insert None (Some ` {f. f < NR_FILE \<and> f_count (file_table s' f) \<noteq> 0})" if "x \<in> set (filp t)" for x
  proof (cases x)
    case (Some f)
    then show ?thesis using that referred_counted [OF ok assms(3,4), of f] by simp
  qed simp
  ultimately show ?thesis by blast
qed

text \<open>The process with one open file calls \<open>dup\<close>.\<close>

definition dup_frame :: frame where
  "dup_frame = \<lparr>a_ebp = 0, a_edi = 0, a_esi = 0, a_gs = 0, a_ebx = 0, a_ecx = 0, a_edx = 0, a_fs = 0, a_es = 0,
     a_ds = 0, a_eip = 0, a_cs = 0, a_eflags = 0, a_esp = 0, a_ss = 0\<rparr>"

lemma dup_run: "kernel_step\<^sup>*\<^sup>* one_open (snd (sys_dup 0 one_open))"
proof -
  have "system_call id 0 [] 41 dup_frame one_open =
      Inr (outcome.Returns (word_of_int (fst (sys_dup 0 one_open))), snd (sys_dup 0 one_open))"
    by (simp add: system_call_def handlers_def Let_def gives_def dup_frame_def split_beta)
  then have "kernel_step one_open (snd (sys_dup 0 one_open))"
    by (rule calls) (simp add: sane_call_def)
  then show ?thesis ..
qed

theorem file_counts_right_witness:
  "unat (f_count (file_table (snd (sys_dup 0 one_open)) 2)) =
     (\<Sum>i<NR_TASKS. case task (ker (snd (sys_dup 0 one_open))) i of None \<Rightarrow> 0 | Some t \<Rightarrow> count_list (filp t) (Some 2))"
  by (rule file_counts_right [OF one_open_ok dup_run]) simp

theorem descriptors_typed_witness:
  "length (filp (me (snd (sys_dup 0 one_open)))) = NR_OPEN"
proof -
  have "alive (ker (snd (sys_dup 0 one_open)))" by (rule files_okD(2) [OF kernel_run_ok [OF dup_run one_open_ok]])
  then have "current (ker (snd (sys_dup 0 one_open))) < NR_TASKS"
    and "task (ker (snd (sys_dup 0 one_open))) (current (ker (snd (sys_dup 0 one_open)))) = Some (me (snd (sys_dup 0 one_open)))"
    using alive_me by (auto simp: alive_def)
  then show ?thesis using descriptors_typed [OF one_open_ok dup_run] by blast
qed


section \<open>Signals\<close>

text \<open>The signals that \<open>ret_from_sys_call\<close> skips.\<close>

definition skipped :: "u32 list \<Rightarrow> nat \<Rightarrow> bool" where
  "skipped fns n \<longleftrightarrow> fns ! n = 1 \<or> fns ! n = 0 \<and> int n + 1 = SIGCHLD"

lemma bit_clear: "n < 32 \<Longrightarrow> bit (w AND NOT (push_bit n 1) :: u32) m \<longleftrightarrow> bit w m \<and> m \<noteq> n"
  by (auto simp: bit_simps dest: bit_imp_le_length)

lemma next_signal_spec:
  "case next_signal fns w of
     (rest, None) \<Rightarrow> rest = 0 \<and> (\<forall>n. bit w n \<longrightarrow> skipped fns n)
   | (rest, Some (n, h)) \<Rightarrow> h = fns ! n \<and> n < 32 \<and> bit w n \<and> \<not> skipped fns n \<and> (\<forall>m < n. bit w m \<longrightarrow> skipped fns m) \<and>
       (\<forall>m. bit rest m \<longleftrightarrow> bit w m \<and> n < m)"
proof (induction fns w rule: next_signal.induct)
  case (1 fns w)
  show ?case
  proof (cases "w = 0")
    case True
    then show ?thesis by (simp add: next_signal.simps)
  next
    case False
    note l = lowest_bit [OF False]
    let ?n = "lowest w" and ?r = "w AND NOT (push_bit (lowest w) 1)"
    note b = bit_clear [of ?n w]
    show ?thesis
    proof (cases "skipped fns ?n")
      case True
      then have e: "next_signal fns w = next_signal fns ?r"
        using False by (subst next_signal.simps) (simp add: skipped_def Let_def)
      have IH: "case next_signal fns ?r of
           (rest, None) \<Rightarrow> rest = 0 \<and> (\<forall>n. bit ?r n \<longrightarrow> skipped fns n)
         | (rest, Some (n, h)) \<Rightarrow> h = fns ! n \<and> n < 32 \<and> bit ?r n \<and> \<not> skipped fns n \<and> (\<forall>m < n. bit ?r m \<longrightarrow> skipped fns m) \<and>
             (\<forall>m. bit rest m \<longleftrightarrow> bit ?r m \<and> n < m)"
        by (rule 1 [OF False refl refl refl True [unfolded skipped_def]])
      show ?thesis
      proof (cases "snd (next_signal fns ?r)")
        case None
        then show ?thesis
          using IH True b l unfolding e by (cases "next_signal fns ?r") auto
      next
        case (Some nh)
        then obtain rest n h where r: "next_signal fns ?r = (rest, Some (n, h))"
          by (cases "next_signal fns ?r"; cases nh) auto
        note ih = IH [unfolded r prod.case option.case]
        have "bit w n \<and> n \<noteq> ?n" using ih b l by blast
        then have n: "?n < n" using l by (metis linorder_neqE_nat)
        have "skipped fns m" if "m < n" "bit w m" for m
          using ih b l that True by (cases "m = ?n") auto
        moreover have "bit rest m \<longleftrightarrow> bit w m \<and> n < m" for m using ih b l n by auto
        ultimately show ?thesis
          using ih \<open>bit w n \<and> n \<noteq> ?n\<close> unfolding e r by simp
      qed
    next
      case skip: False
      have e: "next_signal fns w = (?r, Some (?n, fns ! ?n))"
        unfolding next_signal.simps [of fns w] Let_def skipped_def [symmetric] using False skip by simp
      have "\<not> bit w m" if "m < ?n" for m using l that by blast
      then show ?thesis
        unfolding e using b l skip by (auto simp: linorder_neq_iff)
    qed
  qed
qed

text \<open>
  C11. The signal that a process gets on the way back to user mode is the lowest pending one that it
  does not ignore; the ignored ones below it are no longer pending, those above it still are,
  and there is none only if all pending ones are ignored.
\<close>

theorem next_signal_lowest:
  "next_signal fns pending =
     (case find (\<lambda>n. bit pending n \<and> \<not> (fns ! n = 1 \<or> fns ! n = 0 \<and> int n + 1 = SIGCHLD)) [0..<32] of
        None \<Rightarrow> (0, None)
      | Some n \<Rightarrow> (pending AND NOT (mask (n + 1)), Some (n, fns ! n)))"
proof (cases "next_signal fns pending")
  case (Pair rest sig)
  note sp = next_signal_spec [where fns = fns and w = pending, unfolded Pair, simplified]
  show ?thesis
  proof (cases sig)
    case None
    then have "find (\<lambda>n. bit pending n \<and> \<not> skipped fns n) [0..<32] = None" using sp by (auto simp: find_None_iff)
    then show ?thesis using sp None Pair by (simp add: skipped_def)
  next
    case (Some nh)
    obtain n h where nh: "nh = (n, h)" by fastforce
    have f: "find (\<lambda>n. bit pending n \<and> \<not> skipped fns n) [0..<32] = Some n"
      using sp by (auto simp: Some nh find_Some_iff)
    have "rest = pending AND NOT (mask (n + 1))"
      using sp by (auto simp: Some nh bit_simps intro!: bit_word_eqI)
    then show ?thesis using sp f Pair by (simp add: Some nh skipped_def)
  qed
qed

end
