(* ===== verification/Bitmap_Props.thy ===== *)
theory Bitmap_Props
  imports File_Blocks
begin

unbundle bit_operations_syntax

text \<open>
  What the bitmaps of fs/bitmap.c promise: the word-wise search of \<open>find_first_zero\<close> finds the
  lowest clear bit of a block, and \<open>new_block\<close> hands out the lowest free zone of the device,
  marks it as taken, clears it, and leaves every other block as it was.
\<close>

section \<open>The search for a clear bit\<close>

lemma find_lowest:
  "(\<And>z. a \<le> z \<Longrightarrow> z < n \<Longrightarrow> \<not> P z) \<Longrightarrow> a \<le> n \<Longrightarrow> P n \<Longrightarrow> n < b \<Longrightarrow> find P [a..<b] = Some n"
proof -
  assume p: "\<And>z. a \<le> z \<Longrightarrow> z < n \<Longrightarrow> \<not> P z" and n: "a \<le> n" "P n" "n < b"
  have "[a..<b] = [a..<n] @ n # [Suc n..<b]" using upt_add_eq_append [of a n "b - n"] upt_conv_Cons [of n b] n by simp
  moreover have "find P (xs @ n # ys) = Some n" if "\<forall>x \<in> set xs. \<not> P x" for xs ys
    using that n(2) by (induction xs) simp_all
  ultimately show ?thesis using p by simp
qed

lemma bsf_lowest:
  assumes "w \<noteq> 0"
  shows "bsf w < 32" and "bit w (bsf w)" and "\<And>i. i < bsf w \<Longrightarrow> \<not> bit w i"
proof -
  obtain n where n: "bit w n" using assms by (auto simp: bit_eq_iff)
  then have m: "n < 32" using bit_imp_le_length by fastforce
  let ?P = "\<lambda>i. \<not> bit w i"
  have "takeWhile ?P [0..<32] \<noteq> [0..<32]"
    using n m by (auto simp: takeWhile_eq_all_conv)
  then have l: "length (takeWhile ?P [0..<32]) < length [0..<32::nat]"
    by (metis length_takeWhile_le le_neq_implies_less takeWhile_eq_take take_all_iff nless_le)
  then show b: "bsf w < 32" by (simp add: bsf_def)
  have "\<not> ?P ([0..<32] ! length (takeWhile ?P [0..<32]))"
    by (rule nth_length_takeWhile [OF l])
  then show "bit w (bsf w)" using b by (simp add: bsf_def)
  fix i assume i: "i < bsf w"
  then have "takeWhile ?P [0..<32] ! i = [0..<32] ! i"
    by (intro takeWhile_nth) (simp add: bsf_def)
  moreover have "takeWhile ?P [0..<32] ! i \<in> set (takeWhile ?P [0..<32])"
    using i by (intro nth_mem) (simp add: bsf_def)
  ultimately show "\<not> bit w i" using i b by (auto dest: set_takeWhileD)
qed

lemma high_bit: "8 \<le> n \<Longrightarrow> \<not> bit (w :: u8) n"
  using bit_imp_le_length [of w n] by auto

lemma bit_join:
  fixes a b c e :: u8
  assumes "n < 32"
  shows "bit (ucast a OR push_bit 8 (ucast b) OR push_bit 16 (ucast c) OR push_bit 24 (ucast e) :: u32) n \<longleftrightarrow>
    bit ([a, b, c, e] ! (n div 8)) (n mod 8)"
proof -
  have "bit (ucast a OR push_bit 8 (ucast b) OR push_bit 16 (ucast c) OR push_bit 24 (ucast e) :: u32) n \<longleftrightarrow>
    bit a n \<or> 8 \<le> n \<and> bit b (n - 8) \<or> 16 \<le> n \<and> bit c (n - 16) \<or> 24 \<le> n \<and> bit e (n - 24)"
    using assms by (auto simp: bit_or_iff bit_push_bit_iff bit_ucast_iff)
  moreover consider "n < 8" | "8 \<le> n" "n < 16" | "16 \<le> n" "n < 24" | "24 \<le> n" by linarith
  then have "bit a n \<or> 8 \<le> n \<and> bit b (n - 8) \<or> 16 \<le> n \<and> bit c (n - 16) \<or> 24 \<le> n \<and> bit e (n - 24) \<longleftrightarrow>
    bit ([a, b, c, e] ! (n div 8)) (n mod 8)"
  proof cases
    case 2
    then have "n div 8 = 1" "n mod 8 = n - 8" by (simp_all add: le_div_geq le_mod_geq)
    then show ?thesis using 2 by (simp add: high_bit)
  next
    case 3
    then have "n div 8 = 2" "n mod 8 = n - 16" by (simp_all add: le_div_geq le_mod_geq)
    then show ?thesis using 3 by (simp add: high_bit)
  next
    case 4
    then have "n div 8 = 3" "n mod 8 = n - 24" using assms by (simp_all add: le_div_geq le_mod_geq)
    then show ?thesis using 4 by (simp add: high_bit)
  qed simp
  ultimately show ?thesis by blast
qed

lemma bit_le32:
  assumes "n < 32"
  shows "bit (le32 d (4 * i)) n = map_bit d (32 * i + n)"
proof -
  have e: "32 * i + n = n + 4 * i * 8" by simp
  have "(32 * i + n) div 8 = 4 * i + n div 8" unfolding e by (rule div_mult_self1) simp
  moreover have "(32 * i + n) mod 8 = n mod 8" unfolding e by (rule mod_mult_self1)
  moreover have "[d ! (4 * i), d ! (4 * i + 1), d ! (4 * i + 2), d ! (4 * i + 3)] ! (n div 8) = d ! (4 * i + n div 8)"
  proof -
    have "n div 8 < 4" using assms by (simp add: div_less_iff_less_mult)
    then consider "n div 8 = 0" | "n div 8 = 1" | "n div 8 = 2" | "n div 8 = 3" by linarith
    then show ?thesis by cases simp_all
  qed
  ultimately show ?thesis unfolding le32_def bit_join [OF assms] map_bit_def by simp
qed

lemma first_zero_lowest:
  "i < 256 \<Longrightarrow> (\<And>m. m < 32 * i \<Longrightarrow> map_bit d m) \<Longrightarrow>
   first_zero d i \<le> 8192 \<and> (\<forall>m < first_zero d i. map_bit d m) \<and>
   (first_zero d i < 8192 \<longrightarrow> \<not> map_bit d (first_zero d i))"
proof (induction d i rule: first_zero.induct)
  case (1 d i)
  define w where "w = NOT (le32 d (4 * i))"
  have w: "bit w n \<longleftrightarrow> \<not> map_bit d (32 * i + n)" if "n < 32" for n
    using that bit_le32 [OF that, of d i] by (simp add: w_def bit_simps)
  show ?case
  proof (cases "w = 0")
    case False
    note b = bsf_lowest [OF False]
    have r: "first_zero d i = 32 * i + bsf w" using False by (subst first_zero.simps) (simp add: w_def)
    have "map_bit d m" if "m < 32 * i + bsf w" for m
    proof (cases "m < 32 * i")
      case False
      then have "\<not> bit w (m - 32 * i)" "m - 32 * i < 32" using b(1,3) that by auto
      then show ?thesis using w [of "m - 32 * i"] False by simp
    qed (use 1 in simp)
    then show ?thesis using b(1,2) w [OF b(1)] 1(2) by (simp add: r)
  next
    case True
    have next_: "map_bit d m" if "m < 32 * (i + 1)" for m
    proof (cases "m < 32 * i")
      case False
      then show ?thesis using w [of "m - 32 * i"] True that by simp
    qed (use 1 in simp)
    show ?thesis
    proof (cases "32 * (i + 1) < 8192")
      case l: True
      have "first_zero d i = first_zero d (i + 1)" using True l by (subst first_zero.simps) (simp add: w_def)
      then show ?thesis using 1(1) [OF refl _ l] True l next_ by (simp add: w_def)
    next
      case False
      then have "first_zero d i = 32 * (i + 1)" using True by (subst first_zero.simps) (simp add: w_def)
      then show ?thesis using False next_ 1(2) by simp
    qed
  qed
qed

lemma find_first_zero_lowest:
  shows "find_first_zero d \<le> 8192" and "m < find_first_zero d \<Longrightarrow> map_bit d m"
    and "find_first_zero d < 8192 \<Longrightarrow> \<not> map_bit d (find_first_zero d)"
  using first_zero_lowest [of 0 d] by (auto simp: find_first_zero_def)


text \<open>C40. The search by words and the search bit by bit.\<close>

theorem find_first_zero_reference:
  "find_first_zero d = (case find (\<lambda>n. \<not> map_bit d n) [0..<8192] of None \<Rightarrow> 8192 | Some n \<Rightarrow> n)"
proof (cases "find_first_zero d < 8192")
  case True
  then have "find (\<lambda>n. \<not> map_bit d n) [0..<8192] = Some (find_first_zero d)"
    using find_first_zero_lowest(2,3) [where d = d] True by (intro find_lowest) simp_all
  then show ?thesis by simp
next
  case False
  then have "find_first_zero d = 8192" using find_first_zero_lowest(1) [of d] by simp
  moreover from this have "find (\<lambda>n. \<not> map_bit d n) [0..<8192] = None"
    using find_first_zero_lowest(2) [where d = d] by (simp add: find_None_iff)
  ultimately show ?thesis by simp
qed

lemma map_bit_set:
  assumes "nr div 8 < length d"
  shows "map_bit (snd (set_bit nr d)) n \<longleftrightarrow> n = nr \<or> map_bit d n"
proof (cases "n div 8 = nr div 8")
  case True
  then have "n mod 8 = nr mod 8 \<longleftrightarrow> n = nr" by (metis div_mult_mod_eq)
  moreover have "bit (d ! (nr div 8) OR push_bit (nr mod 8) 1) (n mod 8) \<longleftrightarrow>
      n mod 8 = nr mod 8 \<or> bit (d ! (nr div 8)) (n mod 8)"
    by (auto simp: bit_or_iff bit_exp_iff)
  ultimately show ?thesis using True assms by (simp add: map_bit_def set_bit_def)
next
  case False
  then have "n \<noteq> nr" by blast
  then show ?thesis using False by (simp add: map_bit_def set_bit_def)
qed

lemma length_set_bit: "length (snd (set_bit nr d)) = length d"
  by (simp add: set_bit_def)


section \<open>The maps of a device\<close>

text \<open>
  Bit \<open>nr\<close> of the maps, and the zone \<open>z\<close> of a mounted device. A slot without a map has no zone
  to give.
\<close>

definition bit_taken :: "fs \<Rightarrow> nat option list \<Rightarrow> nat \<Rightarrow> bool" where
  "bit_taken s ms nr =
     (case slot ms (nr div 8192) of None \<Rightarrow> True | Some m \<Rightarrow> map_bit (b_data (buf s m)) (nr mod 8192))"

definition zone_taken :: "fs \<Rightarrow> nat \<Rightarrow> nat \<Rightarrow> bool" where
  "zone_taken s sb z = bit_taken s (s_zmap (super s sb)) (z + 1 - unat (s_firstdatazone (super s sb)))"

text \<open>
  What \<open>read_super\<close> sets up: each map of the device is in a buffer of its own that is held, its
  block lies before the data zone, and the first bit is set.
\<close>

definition maps_held :: "(nat \<Rightarrow> u8) \<Rightarrow> fs \<Rightarrow> nat \<Rightarrow> u16 \<Rightarrow> bool" where
  "maps_held C s sb d \<longleftrightarrow>
     (let ms = s_zmap (super s sb); first = s_firstdatazone (super s sb) in
      length ms = Z_MAP_SLOTS \<and> 0 < first \<and> bit_taken s ms 0 \<and>
      (\<forall>i m. slot ms i = Some m \<longrightarrow> is_block s m d (b_blocknr (buf s m)) \<and> C m \<noteq> 0 \<and>
         b_uptodate (buf s m) \<noteq> 0 \<and> b_blocknr (buf s m) < first \<and>
         block_usable s (d, b_blocknr (buf s m)) \<and> (\<forall>j. slot ms j = Some m \<longrightarrow> j = i)))"

lemma bit_taken_Nil: "bit_taken s [] nr"
  by (simp add: bit_taken_def slot_def)

lemma bit_taken_Cons:
  "bit_taken s (x # ms) nr \<longleftrightarrow>
     (if nr < 8192 then case x of None \<Rightarrow> True | Some m \<Rightarrow> map_bit (b_data (buf s m)) nr
      else bit_taken s ms (nr - 8192))"
proof (cases "nr < 8192")
  case False
  then obtain k where "nr = k + 8192" by (metis add.commute le_add_diff_inverse not_less)
  moreover have "(k + 8192) div 8192 = Suc (k div 8192)" by simp
  ultimately show ?thesis by (simp add: bit_taken_def slot_def split: option.split)
qed (simp add: bit_taken_def slot_def split: option.split)

text \<open>The end of the search: every bit is taken, or the lowest free bit is found.\<close>

definition search_ends :: "fs \<Rightarrow> nat option list \<Rightarrow> nat \<Rightarrow> nat \<times> nat option \<times> nat \<Rightarrow> bool" where
  "search_ends s ms i0 = (\<lambda>(i, r, j).
     i = i0 + length ms \<and> (\<forall>nr. bit_taken s ms nr) \<or>
     (\<exists>k m. i = i0 + k \<and> slot ms k = Some m \<and> r = Some m \<and> j < 8192 \<and>
        \<not> bit_taken s ms (8192 * k + j) \<and> (\<forall>nr < 8192 * k + j. bit_taken s ms nr)))"

lemma search_goes_on:
  assumes x: "\<And>nr. nr < 8192 \<Longrightarrow> bit_taken s (x # ms) nr" and e: "search_ends s ms (i0 + 1) z"
  shows "search_ends s (x # ms) i0 z"
proof -
  obtain i r j where z: "z = (i, r, j)" by (cases z)
  have c: "bit_taken s (x # ms) nr \<longleftrightarrow> nr < 8192 \<or> bit_taken s ms (nr - 8192)" for nr
    using x [of nr] by (cases "nr < 8192") (simp_all add: bit_taken_Cons)
  show ?thesis
  proof (cases "i = i0 + 1 + length ms \<and> (\<forall>nr. bit_taken s ms nr)")
    case True
    then show ?thesis by (simp add: search_ends_def z c)
  next
    case False
    then obtain k m where k: "i = i0 + Suc k" "slot ms k = Some m" "r = Some m" "j < 8192"
        "\<not> bit_taken s ms (8192 * k + j)" "\<forall>nr < 8192 * k + j. bit_taken s ms nr"
      using e by (auto simp: search_ends_def z)
    have "bit_taken s (x # ms) nr" if "nr < 8192 * Suc k + j" for nr
      using k(6) that by (cases "nr < 8192") (auto simp: c)
    moreover have "\<not> bit_taken s (x # ms) (8192 * Suc k + j)" using k(5) by (simp add: c)
    moreover have "slot (x # ms) (Suc k) = Some m" using k(2) by (simp add: slot_def split: if_splits)
    ultimately show ?thesis using k(1,3,4) unfolding search_ends_def z by blast
  qed
qed

lemma scan_maps_lowest: "search_ends s ms i0 (scan_maps s ms i0 bh j0)"
proof (induction s ms i0 bh j0 rule: scan_maps.induct)
  case (1 s i bh j)
  then show ?case by (simp add: search_ends_def bit_taken_Nil)
next
  case (2 s ms i bh j)
  then show ?case using search_goes_on [of s None ms i] by (simp add: bit_taken_Cons)
next
  case (3 s m ms i bh j)
  note f = find_first_zero_lowest [where d = "b_data (buf s m)"]
  show ?case
  proof (cases "find_first_zero (b_data (buf s m)) < 8192")
    case True
    then show ?thesis using f(2,3) by (auto simp: search_ends_def bit_taken_Cons slot_def intro!: exI [of _ 0])
  next
    case False
    then show ?thesis
      using 3 [OF refl] f(1,2) search_goes_on [of s "Some m" ms i] by (simp add: bit_taken_Cons)
  qed
qed



section \<open>Taking a block\<close>

text \<open>A buffer that is held gets other data and counts as read.\<close>

lemma at_fill:
  assumes at: "cache_at C s" and b: "is_block s b d k" and u: "block_usable s (d, k)" and x: "length x = BLOCK_SIZE"
  shows "cache_at C (fill b x 1 1 s)" and "block_content (fill b x 1 1 s) = (block_content s)((d, k) \<mapsto> x)"
proof -
  have c: "\<And>b. b < nr_buffers s \<Longrightarrow> b_count (buf s b) = C b" using at by (simp add: cache_at_def)
  obtain F where F: "bufs_ok s" "queues_ok F s" "set F = {..<nr_buffers s}"
    using at by (auto simp: cache_at_def cache_ok_def)
  have bn: "b < nr_buffers s" "b_dev (buf s b) = d" "b_blocknr (buf s b) = k" using b by (auto simp: is_block_def)
  have m: "MAJOR (ucast d) = 3" and rd: "readable s d k" using u by (auto simp: block_usable_def)
  have d0: "d \<noteq> 0" using m by (auto simp: MAJOR_def)
  have od: "on_disk s (buf s b)" using readable_buf [OF bn(2,3)] rd by simp
  have "(1 :: u8) \<noteq> 0" by simp
  note f = fill_spec [OF F(1) bn(1) od x this, of 1]
  show "cache_at C (fill b x 1 1 s)" using f(1,2) F c by (auto simp: cache_at_def cache_ok_def)
  show "block_content (fill b x 1 1 s) = (block_content s)((d, k) \<mapsto> x)"
  proof
    fix y
    show "block_content (fill b x 1 1 s) y = ((block_content s)((d, k) \<mapsto> x)) y"
      using f(3) [of "fst y" "snd y"] bn d0 by (cases y) (auto simp: block_content_def)
  qed
qed

text \<open>The end of \<open>new_block\<close>: a buffer for the block is taken, cleared and given back.\<close>

definition hand_out :: "int \<Rightarrow> int \<Rightarrow> fs \<Rightarrow> (int \<times> fs) result" where
  "hand_out dev z s =
     andthen (getblk dev z s) (\<lambda>(b, s).
     if b_count (buf s b) \<noteq> 1 then Inl (Panic ''new block: count is != 1'')
     else
       andthen (brelse b (upd_buf b (\<lambda>h. h\<lparr>b_data := clear_block (b_data h),
                                         b_uptodate := 1, b_dirt := 1\<rparr>) s)) (\<lambda>s.
       Inr (z, s)))"

lemma hand_out_clears:
  assumes at: "cache_at C s" and r: "room C s" and u: "block_usable s (d, k)"
    and idle: "\<And>b. is_block s b d k \<Longrightarrow> C b = 0"
  shows "\<exists>s'. hand_out (uint d) (uint k) s = Inr (uint k, s') \<and> cache_at C s' \<and> outside s s' \<and>
    block_content s' = (block_content s)((d, k) \<mapsto> replicate BLOCK_SIZE 0) \<and>
    (\<forall>c < nr_buffers s. C c \<noteq> 0 \<and> b_uptodate (buf s c) \<noteq> 0 \<longrightarrow> b_data (buf s' c) = b_data (buf s c))"
proof -
  have ok: "cache_ok s" and c: "\<And>b. b < nr_buffers s \<Longrightarrow> b_count (buf s b) = C b"
    using at by (auto simp: cache_at_def)
  have m: "MAJOR (ucast d) = 3" using u by (simp add: block_usable_def)
  show ?thesis
  proof (cases rule: getblk_spec [OF ok m, of k])
    case (1 b s1)
    have out: "outside s s1" and n: "nr_buffers s1 = nr_buffers s"
      using 1(4) by (simp_all add: kept_def outside_def)
    have b: "b < nr_buffers s" using 1(3) n by (simp add: is_block_def)
    have c0: "C b = 0"
    proof (rule ccontr)
      assume z: "C b \<noteq> 0"
      then have "is_block s b d k" using 1(3,4) b c by (simp add: is_block_def kept_def)
      with idle z show False by simp
    qed
    have cnt: "b_count (buf s1 c) = (C(b := C b + 1)) c" if "c < nr_buffers s" for c
      using 1(4) that c by (simp add: kept_def)
    have at1: "cache_at (C(b := C b + 1)) s1" using 1(2) cnt n by (simp add: cache_at_def)
    have u1: "block_usable s1 (d, k)" using u block_usable_outside [OF out] by simp
    define s2 where "s2 = fill b (replicate BLOCK_SIZE 0) 1 1 s1"
    have x: "length (replicate BLOCK_SIZE 0 :: u8 list) = BLOCK_SIZE" by simp
    note f = at_fill [OF at1 1(3) u1 x, folded s2_def]
    have b2: "b < nr_buffers s2" and r2: "room C s2" using b n r by (simp_all add: s2_def room_def)
    note g = at_release [OF f(1) b2 r2]
    have e: "upd_buf b (\<lambda>h. h\<lparr>b_data := clear_block (b_data h), b_uptodate := 1, b_dirt := 1\<rparr>) s1 = s2"
      by (simp add: s2_def fill_def upd_buf_def clear_block_def)
    have "hand_out (uint d) (uint k) s = Inr (uint k, given_back b s2)"
      using 1(1) cnt [OF b] c0 g(1) by (simp add: hand_out_def e)
    moreover have "outside s (given_back b s2)"
      using outside_trans [OF out, of s2] outside_trans [OF _ g(5), of s] by (simp add: s2_def)
    moreover have "block_content (given_back b s2) = (block_content s)((d, k) \<mapsto> replicate BLOCK_SIZE 0)"
      unfolding g(3) f(2)
      by (rule arg_cong [where f = "\<lambda>g. g((d, k) \<mapsto> replicate BLOCK_SIZE 0)"], rule block_content_eqI)
        (use 1(4) in \<open>simp add: kept_def\<close>)
    moreover have "b_data (buf (given_back b s2) a) = b_data (buf s a)"
      if "a < nr_buffers s" "C a \<noteq> 0" "b_uptodate (buf s a) \<noteq> 0" for a
      using that c0 1(4) c by (auto simp: given_back_def s2_def kept_def)
    ultimately show ?thesis using g(2) by blast
  next
    case 2
    then show ?thesis using r c by (auto simp: room_def)
  qed
qed


text \<open>The whole of \<open>new_block\<close> by the number of the lowest free bit.\<close>

lemma new_block_search:
  assumes sb: "get_super (uint d) s = Some sb" and l: "length (s_zmap (super s sb)) = Z_MAP_SLOTS"
  obtains (full) "\<And>nr. bit_taken s (s_zmap (super s sb)) nr" "new_block (uint d) s = Inr (0, s)"
  | (free) nr m where "\<not> bit_taken s (s_zmap (super s sb)) nr"
      "\<And>n. n < nr \<Longrightarrow> bit_taken s (s_zmap (super s sb)) n" "slot (s_zmap (super s sb)) (nr div 8192) = Some m"
      "new_block (uint d) s =
        (let s' = upd_buf m (\<lambda>h. h\<lparr>b_data := snd (set_bit (nr mod 8192) (b_data (buf s m))), b_dirt := 1\<rparr>) s;
             z = int nr + uint (s_firstdatazone (super s sb)) - 1
         in if uint (s_nzones (super s sb)) \<le> z then Inr (0, s') else hand_out (uint d) z s')"
proof -
  let ?ms = "s_zmap (super s sb)"
  obtain i r j where e: "scan_maps s ?ms 0 None 8192 = (i, r, j)" by (cases "scan_maps s ?ms 0 None 8192")
  show thesis
  proof (cases "i = 8 \<and> (\<forall>nr. bit_taken s ?ms nr)")
    case True
    then have "new_block (uint d) s = Inr (0, s)" by (simp add: new_block_def sb e split: option.split)
    then show thesis using True full by simp
  next
    case False
    then obtain m where k: "slot ?ms i = Some m" "r = Some m" "j < 8192"
        "\<not> bit_taken s ?ms (8192 * i + j)" "\<forall>nr < 8192 * i + j. bit_taken s ?ms nr"
      using scan_maps_lowest [of s ?ms 0 None 8192] l by (auto simp: e search_ends_def)
    have i: "i < 8" using k(1) l by (simp add: slot_def split: if_splits)
    have n: "(8192 * i + j) div 8192 = i" "(8192 * i + j) mod 8192 = j" using k(3) by simp_all
    have b: "\<not> map_bit (b_data (buf s m)) j" using k(1,4) unfolding bit_taken_def n by simp
    have z: "int j + int i * 8192 = int (8192 * i + j)" by simp
    have "new_block (uint d) s =
        (let s' = upd_buf m (\<lambda>h. h\<lparr>b_data := snd (set_bit j (b_data (buf s m))), b_dirt := 1\<rparr>) s;
             z = int (8192 * i + j) + uint (s_firstdatazone (super s sb)) - 1
         in if uint (s_nzones (super s sb)) \<le> z then Inr (0, s') else hand_out (uint d) z s')"
    proof -
      define x where "x = snd (set_bit j (b_data (buf s m)))"
      have x: "set_bit j (b_data (buf s m)) = (False, x)" using b by (simp add: x_def set_bit_def)
      have p: "super (upd_buf m f s) sb = super s sb" for f by (simp add: upd_buf_def)
      have g: "\<not> (8 \<le> i \<or> 8192 \<le> j)" using i k(3) by simp
      show ?thesis
        unfolding new_block_def sb option.case e prod.case hand_out_def Let_def z k(2) x p if_not_P [OF g] if_False
        by simp
    qed
    with free [of "8192 * i + j" m] k n show thesis by simp
  qed
qed

text \<open>The bits after one was set.\<close>

lemma bit_taken_set:
  assumes at: "cache_at C s" and h: "maps_held C s sb d" and m: "slot (s_zmap (super s sb)) (nr div 8192) = Some m"
    and s': "\<And>c. c < nr_buffers s \<Longrightarrow> C c \<noteq> 0 \<Longrightarrow> b_uptodate (buf s c) \<noteq> 0 \<Longrightarrow>
      b_data (buf s' c) = (if c = m then snd (set_bit (nr mod 8192) (b_data (buf s m))) else b_data (buf s c))"
  shows "bit_taken s' (s_zmap (super s sb)) n \<longleftrightarrow> n = nr \<or> bit_taken s (s_zmap (super s sb)) n"
proof (cases "slot (s_zmap (super s sb)) (n div 8192)")
  case None
  then show ?thesis by (simp add: bit_taken_def)
next
  case (Some c)
  let ?ms = "s_zmap (super s sb)"
  have held: "is_block s a d (b_blocknr (buf s a)) \<and> C a \<noteq> 0 \<and> b_uptodate (buf s a) \<noteq> 0 \<and>
      (\<forall>j. slot ?ms j = Some a \<longrightarrow> j = i)" if "slot ?ms i = Some a" for i a
    using h that unfolding maps_held_def Let_def by blast
  have c: "c < nr_buffers s" "C c \<noteq> 0" "b_uptodate (buf s c) \<noteq> 0"
    using held [OF Some] by (simp_all add: is_block_def)
  show ?thesis
  proof (cases "c = m")
    case True
    then have q: "n div 8192 = nr div 8192" using held [OF m] Some by blast
    then have e: "n mod 8192 = nr mod 8192 \<longleftrightarrow> n = nr" by (metis div_mult_mod_eq)
    have "bufs_ok s" using at by (simp add: cache_at_def cache_ok_def)
    then have "buf_ok s (buf s m)" using bufs_okD(3) c(1) True by blast
    then have "nr mod 8192 div 8 < length (b_data (buf s m))" by (simp add: buf_ok_def)
    from map_bit_set [OF this] show ?thesis using s' [OF c] Some True e by (simp add: bit_taken_def)
  next
    case False
    then have "n \<noteq> nr" using Some m by auto
    then show ?thesis using s' [OF c] Some False by (simp add: bit_taken_def)
  qed
qed


definition is_map_block :: "fs \<Rightarrow> nat \<Rightarrow> u16 \<Rightarrow> u16 \<times> u16 \<Rightarrow> bool" where
  "is_map_block s sb d x \<longleftrightarrow> (\<exists>m. Some m \<in> set (s_zmap (super s sb)) \<and> x = (d, b_blocknr (buf s m)))"

text \<open>The bit of a free zone is set in its map, which is held.\<close>

lemma mark_bit:
  assumes at: "cache_at C s" and h: "maps_held C s sb d" and m: "slot (s_zmap (super s sb)) (nr div 8192) = Some m"
    and s1: "s1 = upd_buf m (\<lambda>h. h\<lparr>b_data := snd (set_bit (nr mod 8192) (b_data (buf s m))), b_dirt := 1\<rparr>) s"
  shows "cache_at C s1" and "outside s s1" and "block_usable s1 = block_usable s"
    and "\<And>x. \<not> is_map_block s sb d x \<Longrightarrow> block_content s1 x = block_content s x"
    and "\<And>b k. is_block s1 b d k \<longleftrightarrow> is_block s b d k"
    and "\<And>c. b_uptodate (buf s1 c) = b_uptodate (buf s c)"
    and "\<And>c. b_data (buf s1 c) = (if c = m then snd (set_bit (nr mod 8192) (b_data (buf s m))) else b_data (buf s c))"
proof -
  have b: "is_block s m d (b_blocknr (buf s m))" "b_uptodate (buf s m) \<noteq> 0" "block_usable s (d, b_blocknr (buf s m))"
    using h m unfolding maps_held_def Let_def by blast+
  have mm: "Some m \<in> set (s_zmap (super s sb))" using m by (metis nth_mem option.distinct(1) slot_def)
  have "length (b_data (buf s m)) = BLOCK_SIZE"
    using at b(1) bufs_okD(3) [of s m] by (auto simp: cache_at_def cache_ok_def is_block_def buf_ok_def)
  then have "length (snd (set_bit (nr mod 8192) (b_data (buf s m)))) = BLOCK_SIZE" by (simp add: length_set_bit)
  note c = at_change [OF at b this, unfolded changed_def, folded s1]
  show "cache_at C s1" "outside s s1" "block_usable s1 = block_usable s" by (fact c)+
  show "block_content s1 x = block_content s x" if "\<not> is_map_block s sb d x" for x
    using that mm by (auto simp: c(2) is_map_block_def)
qed (auto simp: s1 is_block_def upd_buf_def)

lemma u16_of_nat:
  assumes "z < unat (w :: u16)"
  shows "unat (of_nat z :: u16) = z" and "uint (of_nat z :: u16) = int z"
proof -
  have "z < 2 ^ LENGTH(16)" using assms unsigned_less [of w, where 'a = nat] by linarith
  then show u: "unat (of_nat z :: u16) = z" by (simp add: unsigned_of_nat take_bit_nat_eq_self)
  then show "uint (of_nat z :: u16) = int z" by (metis uint_nat)
qed

text \<open>The zone of the bit is handed out.\<close>

lemma hand_out_zone:
  assumes at: "cache_at C s" and r: "room C s" and h: "maps_held C s sb d"
    and m: "slot (s_zmap (super s sb)) (nr div 8192) = Some m"
    and s1: "s1 = upd_buf m (\<lambda>h. h\<lparr>b_data := snd (set_bit (nr mod 8192) (b_data (buf s m))), b_dirt := 1\<rparr>) s"
    and z: "z = nr + unat (s_firstdatazone (super s sb)) - 1" "0 < nr" "z < unat (s_nzones (super s sb))"
    and u: "block_usable s (d, of_nat z)" and idle: "\<And>b. is_block s b d (of_nat z) \<Longrightarrow> C b = 0"
  shows "\<exists>s2. hand_out (uint d) (int z) s1 = Inr (int z, s2) \<and> cache_at C s2 \<and> outside s s2 \<and>
    (\<forall>n. zone_taken s2 sb n \<longleftrightarrow> n = z \<or> zone_taken s sb n) \<and>
    block_content s2 = (block_content s1)((d, of_nat z) \<mapsto> replicate BLOCK_SIZE 0)"
proof -
  let ?ms = "s_zmap (super s sb)" and ?a = "unat (s_firstdatazone (super s sb))"
  have a0: "0 < ?a" using h by (simp add: maps_held_def Let_def word_less_nat_alt)
  note c = mark_bit [OF at h m s1] and w = u16_of_nat [OF z(3)]
  have n1: "nr_buffers s1 = nr_buffers s" and r1: "room C s1" and u1: "block_usable s1 (d, of_nat z)"
    using c(2,3) r u room_outside [OF c(2)] by (simp_all add: outside_def)
  obtain s2 where s2: "hand_out (uint d) (int z) s1 = Inr (int z, s2)" "cache_at C s2"
    "outside s1 s2" "block_content s2 = (block_content s1)((d, of_nat z) \<mapsto> replicate BLOCK_SIZE 0)"
    "\<forall>c < nr_buffers s1. C c \<noteq> 0 \<and> b_uptodate (buf s1 c) \<noteq> 0 \<longrightarrow> b_data (buf s2 c) = b_data (buf s1 c)"
    using hand_out_clears [OF c(1) r1 u1] idle c(5) unfolding w(2) by auto
  have out: "outside s s2" by (rule outside_trans [OF c(2) s2(3)])
  then have sp: "super s2 = super s" by (simp add: outside_def)
  have bits: "bit_taken s2 ?ms n \<longleftrightarrow> n = nr \<or> bit_taken s ?ms n" for n
    by (rule bit_taken_set [OF at h m]) (use s2(5) c(6,7) n1 in simp)
  have "zone_taken s2 sb n \<longleftrightarrow> n = z \<or> zone_taken s sb n" for n
    using z(2) a0 unfolding zone_taken_def sp bits by (auto simp: z(1))
  then show ?thesis using s2(1,2,4) out by blast
qed

text \<open>
  C18. The lowest free zone is handed out: it is taken afterwards and reads as zeroes, and no block
  but it and the maps is changed. With no free zone the answer is 0.
\<close>

theorem new_block_lowest_free:
  assumes at: "cache_at C s" and r: "room C s" and sb: "get_super (uint d) s = Some sb" and h: "maps_held C s sb d"
    and usable: "\<And>z. s_firstdatazone (super s sb) \<le> z \<Longrightarrow> z < s_nzones (super s sb) \<Longrightarrow> block_usable s (d, z)"
    and idle: "\<And>b z. is_block s b d z \<Longrightarrow> \<not> zone_taken s sb (unat z) \<Longrightarrow> C b = 0"
  shows "\<exists>z s'. new_block (uint d) s = Inr (int z, s') \<and> cache_at C s' \<and> outside s s' \<and>
    (case find (\<lambda>z. \<not> zone_taken s sb z) [unat (s_firstdatazone (super s sb))..<unat (s_nzones (super s sb))] of
       None \<Rightarrow> z = 0
     | Some lowest \<Rightarrow> z = lowest \<and> block_content s' (d, of_nat z) = Some (replicate BLOCK_SIZE 0) \<and>
         (\<forall>n. zone_taken s' sb n \<longleftrightarrow> n = z \<or> zone_taken s sb n)) \<and>
    (\<forall>x. \<not> is_map_block s sb d x \<and> (z = 0 \<or> x \<noteq> (d, of_nat z)) \<longrightarrow> block_content s' x = block_content s x)"
proof -
  let ?ms = "s_zmap (super s sb)" and ?a = "unat (s_firstdatazone (super s sb))" and ?b = "unat (s_nzones (super s sb))"
  have l: "length ?ms = Z_MAP_SLOTS" and a0: "0 < ?a" and t0: "bit_taken s ?ms 0"
    using h by (simp_all add: maps_held_def Let_def word_less_nat_alt)
  show ?thesis
  proof (cases rule: new_block_search [OF sb l])
    case 1
    then have "find (\<lambda>z. \<not> zone_taken s sb z) [?a..<?b] = None" by (simp add: find_None_iff zone_taken_def)
    then show ?thesis using 1 at by (intro exI [of _ 0] exI [of _ s]) simp
  next
    case (2 nr m)
    define s1 where
      "s1 = upd_buf m (\<lambda>h. h\<lparr>b_data := snd (set_bit (nr mod 8192) (b_data (buf s m))), b_dirt := 1\<rparr>) s"
    define z where "z = nr + ?a - 1"
    have n0: "0 < nr" using 2(1) t0 by (cases nr) simp_all
    have "int nr + uint (s_firstdatazone (super s sb)) - 1 = int z" using n0 a0 by (simp add: z_def)
    moreover have "uint (s_nzones (super s sb)) \<le> int z \<longleftrightarrow> ?b \<le> z" by (metis nat_int_comparison(3) uint_nat)
    ultimately have zi: "int nr + uint (s_firstdatazone (super s sb)) - 1 = int z"
        "uint (s_nzones (super s sb)) \<le> int z \<longleftrightarrow> ?b \<le> z" .
    have free: "\<not> zone_taken s sb z" "\<And>y. y < z \<Longrightarrow> zone_taken s sb y" and az: "?a \<le> z"
      using 2(1,2) a0 n0 by (simp_all add: zone_taken_def z_def)
    have run: "new_block (uint d) s = (if ?b \<le> z then Inr (0, s1) else hand_out (uint d) (int z) s1)"
      using 2(4) unfolding zi Let_def by (simp add: s1_def)
    note c = mark_bit [OF at h 2(3) s1_def]
    show ?thesis
    proof (cases "?b \<le> z")
      case True
      have "find (\<lambda>z. \<not> zone_taken s sb z) [?a..<?b] = None" using free(2) True by (simp add: find_None_iff)
      then show ?thesis using True run c(1,2,4) by (intro exI [of _ 0] exI [of _ s1]) simp
    next
      case False
      then have lt: "z < ?b" by simp
      note w = u16_of_nat [OF lt]
      have u: "block_usable s (d, of_nat z)"
        using usable [of "of_nat z"] az lt w(1) by (simp add: word_le_nat_alt word_less_nat_alt)
      have i1: "C b = 0" if "is_block s b d (of_nat z)" for b
        using idle [of b "of_nat z"] that free(1) w(1) by simp
      obtain s2 where s2: "hand_out (uint d) (int z) s1 = Inr (int z, s2)" "cache_at C s2" "outside s s2"
          "\<forall>n. zone_taken s2 sb n \<longleftrightarrow> n = z \<or> zone_taken s sb n"
          "block_content s2 = (block_content s1)((d, of_nat z) \<mapsto> replicate BLOCK_SIZE 0)"
        using hand_out_zone [OF at r h 2(3) s1_def z_def n0 lt u i1] by blast
      moreover have "find (\<lambda>z. \<not> zone_taken s sb z) [?a..<?b] = Some z" using free az lt by (intro find_lowest) auto
      moreover have "new_block (uint d) s = Inr (int z, s2)" using run False s2(1) by simp
      moreover have "z \<noteq> 0" using az a0 by linarith
      ultimately show ?thesis using s2(2-5) c(4) by (intro exI [of _ z] exI [of _ s2]) simp
    qed
  qed
qed



section \<open>A device with one map\<close>

text \<open>Block 3 of the small disk as the zone map: bits 0, 1, 8, 9 and so on are set.\<close>

definition mounted :: "nat \<Rightarrow> fs \<Rightarrow> fs" where
  "mounted b = upd_super 0 (\<lambda>p. p\<lparr>s_dev := 0x301, s_nzones := 20, s_firstdatazone := 5,
     s_zmap := Some b # replicate 7 None\<rparr>)"

theorem new_block_lowest_free_witness:
  "\<exists>s s'. new_block 0x301 s = Inr (6, s') \<and> block_content s' (0x301, 6) = Some (replicate BLOCK_SIZE 0)"
proof -
  have at: "cache_at (\<lambda>_. 0) small_disk" and r: "room (\<lambda>_. 0) small_disk"
    using small_disk_ok by (auto simp: cache_at_def room_def intro: exI [of _ 0])
  have us: "block_usable small_disk (0x301, k)" if "k < 20" for k
    using small_disk_usable [of k] that by (simp add: word_less_nat_alt)
  have "b_dev (buf small_disk c) = 0" for c
    by (simp add: small_disk_def buffer_init_def Let_def small_disk_blocks)
  then have "view small_disk 0x301 3 = disk small_disk 0x301 3" by (intro view_plain) (simp add: holds_def)
  then have content: "block_content small_disk (0x301, 3) = Some (replicate 1024 3)"
    by (simp add: block_content_def small_disk_def buffer_init_def Let_def)
  obtain b s1 where b: "bread (uint (0x301 :: u16)) (uint (3 :: u16)) small_disk = Inr (Some b, s1)"
    "cache_at ((\<lambda>_. 0)(b := 0 + 1)) s1" "outside small_disk s1"
    "block_content s1 = block_content small_disk" "block_usable s1 = block_usable small_disk" "is_block s1 b 0x301 3"
    "b_uptodate (buf s1 b) \<noteq> 0" "block_content small_disk (0x301, 3) = Some (b_data (buf s1 b))"
    "kept (Some b) small_disk s1"
    by (rule at_bread [OF at r us [of 3]]) (simp, rule that)
  have n: "nr_buffers s1 = 2" using b(3) small_disk_ok(2) by (simp add: outside_def)
  have d: "b_data (buf s1 b) = replicate 1024 3"
    using b(8) content by simp
  define s where "s = mounted b s1"
  define C where "C = ((\<lambda>_. 0)(b := 1 :: u8))"
  have e: "super s 0 = (super s1 0)\<lparr>s_dev := 0x301, s_nzones := 20, s_firstdatazone := 5,
     s_zmap := Some b # replicate 7 None\<rparr>" "buf s = buf s1" "nr_buffers s = 2"
    by (simp_all add: s_def mounted_def upd_super_def n)
  have bn: "b < 2" "b_dev (buf s b) = 0x301" "b_blocknr (buf s b) = 3" using b(6) n e by (simp_all add: is_block_def)
  have at: "cache_at C s" and u: "block_usable s (0x301, k) = block_usable small_disk (0x301, k)" for k
    using b(2,5) by (simp_all add: s_def mounted_def C_def)
  have "room C s" unfolding room_def e
    using bn(1) by (auto simp: C_def less_2_cases_iff)
  moreover have "get_super (uint (0x301 :: u16)) s = Some 0" by (simp add: get_super_def e upt_rec)
  moreover have slots: "slot (s_zmap (super s 0)) i = Some m \<longleftrightarrow> i = 0 \<and> m = b" for i m
    by (auto simp: slot_def e nth_Cons' split: if_splits)
  have taken: "bit_taken s (s_zmap (super s 0)) nr \<longleftrightarrow> 8192 \<le> nr \<or> nr mod 8 < 2" for nr
  proof (cases "nr < 8192")
    case True
    then have "nr div 8 < 1024" by linarith
    moreover have "bit (3 :: u8) (nr mod 8) \<longleftrightarrow> nr mod 8 < 2" by (auto simp: bit_numeral_rec bit_1_iff split: nat.split)
    ultimately show ?thesis using True by (simp add: bit_taken_def slot_def e map_bit_def d)
  next
    case False
    then show ?thesis using slots [of "nr div 8192"] by (auto simp: bit_taken_def split: option.split)
  qed
  have "maps_held C s 0 0x301"
    unfolding maps_held_def Let_def slots taken using b(7) us [of 3] u bn by (auto simp: e is_block_def C_def)
  moreover have z: "zone_taken s 0 z \<longleftrightarrow> 8192 \<le> z - 4 \<or> (z - 4) mod 8 < 2" for z
    unfolding zone_taken_def taken by (simp add: e)
  moreover have "block_usable s (0x301, k)" if "k < 20" for k using us [OF that] u by simp
  moreover have "C c = 0" if "is_block s c 0x301 k" "\<not> zone_taken s 0 (unat k)" for c k
    using that bn(3) unfolding z by (auto simp: C_def is_block_def split: if_splits)
  moreover have "find (\<lambda>z. \<not> zone_taken s 0 z) [5..<20] = Some 6"
    unfolding z by (simp add: upt_rec)
  ultimately show ?thesis
    using new_block_lowest_free [where C = C and s = s and d = "0x301" and sb = 0] at by (auto simp: e)
qed

end
