(* ===== verification/Spec2Isabelle.thy ===== *)
theory Spec2Isabelle
  imports Examples Hd_Props Str_Props Buffer_Props Super Pipe Dirs Open Rw Fork Exit Exec File_Blocks File_Props Frame File_Table Pipe_Props Fork_Props Setup Calls Machine Machine_Props Build Lib Traps User_Init Calls_Ok Kernel Bitmap_Props
begin

text \<open>
  A verification library for the early Linux kernel in C (linux-0.1.1), as it stands under src/. Every
  theory models files of the kernel: C structures are records, indices stand for pointers
  into the tables of the kernel, machine words keep their width, and a routine that may not
  return (it panics, sleeps, or gives up the process) returns a value of the sum type
  \<open>'a result\<close> of Prelude.

  \<^item> \<^bold>\<open>Prelude\<close>: the machine types, C arithmetic on \<open>int\<close> and \<open>long\<close> (\<open>s32\<close>, \<open>c_div\<close>), the
    result type and its rules.
  \<^item> \<^bold>\<open>Memory\<close>, \<^bold>\<open>Page_Tables\<close> (mm/memory.c): the state \<open>mm\<close> is the array of use counts and the
    physical memory; \<open>get_free_page\<close>, \<open>free_page\<close>; the two levels of page tables with
    \<open>free_page_tables\<close>, \<open>copy_page_tables\<close>, \<open>put_page\<close> and the fault handlers. The lemmas read the
    tables through \<open>translate\<close>, the address translation of the processor.
  \<^item> \<^bold>\<open>Task\<close> (include/linux/sched.h, signal.h, errno.h): the process descriptor.
  \<^item> \<^bold>\<open>Sched\<close> (kernel/sched.c): the state \<open>kern\<close> of the processes; \<open>schedule\<close> and the calls of
    the file. The loop of \<open>schedule\<close> is a \<open>partial_function\<close>; that it ends is part of
    \<open>schedule_spec\<close>.
  \<^item> \<^bold>\<open>Sleep\<close> (kernel/sched.c): \<open>sleep_on\<close> and its relatives cut at their calls of \<open>schedule\<close>, as
    the events of an interleaving of processes. \<open>sleep_inv\<close> is the invariant of the chains.
  \<^item> \<^bold>\<open>Segment\<close> (include/asm/segment.h; \<open>verify_area\<close> of kernel/fork.c): the memory of the user.
  \<^item> \<^bold>\<open>Sys\<close> (kernel/sys.c, kernel/exit.c): the calls on identities and times, signals, waiting.
  \<^item> \<^bold>\<open>Mktime\<close>, \<^bold>\<open>Vsprintf\<close>, \<^bold>\<open>Ctype\<close>, \<^bold>\<open>Str\<close> (kernel/mktime.c, kernel/vsprintf.c, lib/ctype.c,
    include/string.h): the routines the kernel carries for itself. \<open>Str\<close> models the string
    instructions of the processor and the routines on top of them; \<^bold>\<open>Str_Props\<close> says what they
    do on texts.
  \<^item> \<^bold>\<open>Ring\<close>, \<^bold>\<open>Tty\<close>, \<^bold>\<open>Tty_Lines\<close>, \<^bold>\<open>Tty_Ioctl\<close> (include/linux/tty.h, kernel/tty_io.c,
    fs/tty_ioctl.c): \<open>fifo\<close> is the locale of a bounded queue of characters; the ring buffer of a
    terminal is an interpretation of it. \<open>Tty\<close> models the line discipline; what the driver does
    with the write queue is the argument \<open>wr\<close>.
  \<^item> \<^bold>\<open>Console\<close>, \<^bold>\<open>Console_Safe\<close> (kernel/console.c): the screen as bytes of the video memory, the
    escape sequences, and the proof that nothing else is written.
  \<^item> \<^bold>\<open>Fs_Types\<close> (include/linux/fs.h): constants, device numbers, the buffer head.
  \<^item> \<^bold>\<open>Hd\<close>, \<^bold>\<open>Hd_Queue\<close>, \<^bold>\<open>Hd_Safe\<close>, \<^bold>\<open>Hd_Props\<close> (kernel/hd.c): the disk driver. What the ports
    deliver is a part of the state (an oracle), what is put out is a log. \<open>Hd_Queue\<close> relates the
    linked list of requests to a list and its elevator order, \<open>Hd_Safe\<close> has the invariant of the
    driver and the step relation, \<open>Hd_Props\<close> the theorems.
  \<^item> \<^bold>\<open>Fs_State\<close> (include/linux/fs.h): the tables of the file system and the state \<open>fs\<close> that its
    parts share. The disk is a map of blocks here, as the driver shows it.
  \<^item> \<^bold>\<open>Linked\<close>, \<^bold>\<open>Buffer\<close>, \<^bold>\<open>Buffer_Queues\<close>, \<^bold>\<open>Buffer_Cache\<close>, \<^bold>\<open>Buffer_Props\<close> (fs/buffer.c,
    \<open>ll_rw_block\<close> of fs/block_dev.c): the cache. \<open>Linked\<close> relates doubly linked pointers to lists;
    \<open>queues_ok\<close> and \<open>bufs_ok\<close> are the invariants of the queues and of the contents; \<open>view\<close> is the
    content of a block as the cache shows it, and the locale \<open>block_store\<close> says what a store of
    blocks promises.
  \<^item> \<^bold>\<open>Bitmap\<close>, \<^bold>\<open>Truncate\<close> (fs/bitmap.c, fs/truncate.c): taking and freeing blocks and inodes.
  \<^item> \<^bold>\<open>Inode\<close>, \<^bold>\<open>Super\<close> (fs/inode.c, \<open>new_inode\<close> and \<open>free_inode\<close> of fs/bitmap.c, \<open>sys_sync\<close> of
    fs/buffer.c, fs/super.c): the table of inodes (\<open>iget\<close>, \<open>iput\<close>, \<open>read_inode\<close>, \<open>write_inode\<close>),
    the blocks of a file (\<open>bmap\<close>, \<open>create_block\<close>), mounting.
  \<^item> \<^bold>\<open>Pipe\<close>, \<^bold>\<open>File_Dev\<close>, \<^bold>\<open>Rw\<close> (fs/pipe.c, fs/file_dev.c, fs/block_dev.c, fs/char_dev.c,
    fs/read_write.c, fs/stat.c, fs/ioctl.c): reading and writing. A call that has to wait is the
    result \<open>Sleeps\<close> or, in \<open>Pipe\<close> and \<open>Rw\<close>, a result of its own with the rest to do.
  \<^item> \<^bold>\<open>Namei\<close>, \<^bold>\<open>Dirs\<close>, \<^bold>\<open>Open\<close> (fs/namei.c, fs/open.c, fs/file_table.c, fs/fcntl.c): from a path to
    an inode, the calls on directories, files and descriptors.
  \<^item> \<^bold>\<open>Fork\<close>, \<^bold>\<open>Exit\<close>, \<^bold>\<open>Exec\<close> (kernel/fork.c, kernel/exit.c, fs/exec.c): the life of a process, with
    its memory, its open files and directories. The descriptor of a new process is copied before
    the fields are set, as in the code.
  \<^item> \<^bold>\<open>File_Blocks\<close>, \<^bold>\<open>File_Props\<close>: a file as a sequence of bytes. \<open>file_block\<close> is the block of a file
    on the disk as the cache shows it, \<open>cache_at C s\<close> is the invariant of the cache with \<open>C b\<close>
    holders of buffer \<open>b\<close>, \<open>quiet\<close> relates states that differ in the cache only. The theorems say
    that \<open>file_read\<close> and \<open>file_write\<close> read and set these bytes.
  \<^item> \<^bold>\<open>Bitmap_Props\<close>: the search for a clear bit against a search bit by bit; \<open>new_block\<close> gives
    the lowest free zone, cleared, and leaves every other block alone. \<open>maps_held\<close> is what
    \<open>do_mount\<close> sets up for a device.
  \<^item> \<^bold>\<open>Pipe_Props\<close>: the page of a pipe as the second interpretation of the locale \<open>fifo\<close>.
  \<^item> \<^bold>\<open>Frame\<close>, \<^bold>\<open>File_Table\<close>, \<^bold>\<open>Fork_Props\<close>: what the routines of the file system leave alone, as
    equations on the part \<open>held\<close> of the state; the use counts of the file table as the invariant
    \<open>files_ok\<close>, kept by the calls that open, copy and close; the new process of a fork. That the
    search for a number ends is proved for at most 64 processes.
  \<^item> \<^bold>\<open>Setup\<close> (\<open>sys_setup\<close> of kernel/hd.c, include/linux/hdreg.h): the partition tables, the root.
  \<^item> \<^bold>\<open>Calls\<close>, \<^bold>\<open>Lib\<close> (include/linux/sys.h, include/unistd.h, kernel/system\_call.s, lib/): the table
    of the calls with a handler for each, the dispatch, the signals on the way back; the stubs of
    the user library, which reach the handler of their name.
  \<^item> \<^bold>\<open>Machine\<close>, \<^bold>\<open>Machine_Props\<close> (include/asm/io.h and system.h, kernel/serial.c, and the
    routines of the start in init/main.c, kernel/traps.c, kernel/sched.c, kernel/tty\_io.c,
    kernel/console.c, kernel/hd.c): the ports as a log with the devices as a parameter, the gates,
    the clock. \<^bold>\<open>User_Init\<close> (init/main.c): the first program as a tree of calls.
  \<^item> \<^bold>\<open>Traps\<close> (kernel/traps.c, kernel/printk.c, kernel/panic.c, kernel/asm.s): the exceptions.
  \<^item> \<^bold>\<open>Calls_Ok\<close>, \<^bold>\<open>Kernel\<close>: every one of the 67 calls, every exception, signal and tick keeps
    \<open>files_ok\<close>; \<open>kernel_step\<close> is one such step of any process. What does not open or close is an
    equation on the part \<open>stays\<close> of the state.
  \<^item> \<^bold>\<open>Build\<close> (tools/build.c): the host tool that builds the image.
  \<^item> \<^bold>\<open>Examples\<close>: properties of several theories applied at concrete states.

  \<^bold>\<open>Bounds.\<close> The polling loops of the disk driver count down as in the code (1000, 10000 and
  100000 turns); \<open>find_place\<close>, \<open>schedule_loop\<close> and the loops of the strings are partial functions,
  for which returning is a result that is proved.

  \<^bold>\<open>Not modelled.\<close> The boot sector and boot/head.s apart from \<open>setup_idt\<close>, the keyboard and the
  serial interrupts, which are assembly; the loading of the task register, the table registers
  and the segment registers; what the processor does on a task switch is the choice of the
  current process. Instructions of the processor that the sources use (string instructions,
  bit tests, port accesses) are modelled with their effect.
\<close>

end
